(* ===== verification/Prelude.thy ===== *)
theory Prelude
  imports Main "HOL-Library.Word" "HOL-Library.AList" "HOL-Library.Multiset"
    "HOL-Library.Signed_Division"
begin

text \<open>
  Shared vocabulary of the development: the machine integers of the Rust code as words, the
  checked, saturating and overflowing operations of the standard library, panics as values,
  byte slices, big-endian encodings, the \<^verbatim>\<open>hex\<close> crate as a parameter, and the iterator
  helpers whose tie-breaking the code depends on.

  Integers. \<^verbatim>\<open>u8 .. u128\<close> and \<^verbatim>\<open>usize\<close> are words of their width; the unchecked operators
  of the code wrap around, which is the behaviour of the release profile of
  \<^verbatim>\<open>core/Cargo.toml\<close> (it does not enable overflow checks, and it aborts the process on a
  panic). An \<^verbatim>\<open>i128\<close> is a 128-bit word read by \<open>sint\<close>.
  A fixed-size byte array is the word it denotes big-endian: \<^verbatim>\<open>[u8; 20]\<close> is a 160-bit
  word, \<^verbatim>\<open>[u8; 32]\<close> a 256-bit word. Slices and vectors of bytes are lists.
\<close>

unbundle bit_operations_syntax

section \<open>Machine types\<close>

type_synonym u8 = "8 word"
type_synonym u16 = "16 word"
type_synonym u32 = "32 word"
type_synonym u64 = "64 word"
type_synonym u128 = "128 word"
type_synonym i128 = "128 word"
type_synonym i32 = "32 word"
type_synonym usize = "64 word"
type_synonym address = "160 word"
type_synonym bytes32 = "256 word"
type_synonym bytes = "u8 list"

text \<open>Collections of the facts that component proofs share: characterisations of the checked
  operations, facts about values of words, and facts about byte encodings.\<close>

named_theorems checked_simps
named_theorems unat_simps
named_theorems codec_simps

section \<open>Standard-library arithmetic\<close>

definition checked_add :: "'a::len word \<Rightarrow> 'a word \<Rightarrow> 'a word option" where
  "checked_add a b = (if unat a + unat b < 2 ^ LENGTH('a) then Some (a + b) else None)"

definition checked_sub :: "'a::len word \<Rightarrow> 'a word \<Rightarrow> 'a word option" where
  "checked_sub a b = (if b \<le> a then Some (a - b) else None)"

definition checked_mul :: "'a::len word \<Rightarrow> 'a word \<Rightarrow> 'a word option" where
  "checked_mul a b = (if unat a * unat b < 2 ^ LENGTH('a) then Some (a * b) else None)"

definition saturating_add :: "'a::len word \<Rightarrow> 'a word \<Rightarrow> 'a word" where
  "saturating_add a b = (if unat a + unat b < 2 ^ LENGTH('a) then a + b else - 1)"

definition saturating_sub :: "'a::len word \<Rightarrow> 'a word \<Rightarrow> 'a word" where
  "saturating_sub a b = (if b \<le> a then a - b else 0)"

definition overflowing_add :: "'a::len word \<Rightarrow> 'a word \<Rightarrow> 'a word \<times> bool" where
  "overflowing_add a b = (a + b, 2 ^ LENGTH('a) \<le> unat a + unat b)"

text \<open>\<^verbatim>\<open>i128::unsigned_abs\<close> and the truncating signed division of Rust.\<close>

definition unsigned_abs :: "'a::len word \<Rightarrow> 'a word" where
  "unsigned_abs a = (if sint a < 0 then - a else a)"

definition sdiv_word :: "'a::len word \<Rightarrow> 'a word \<Rightarrow> 'a word" where
  "sdiv_word a b = word_of_int (sint a sdiv sint b)"

section \<open>Values of word operations\<close>

lemma unat_add_exact [unat_simps]:
  "unat a + unat b < 2 ^ LENGTH('a) \<Longrightarrow> unat (a + b) = unat a + unat b"
  for a b :: "'a::len word"
  by (simp add: unat_add_lem)

lemma unat_mult_exact [unat_simps]:
  "unat a * unat b < 2 ^ LENGTH('a) \<Longrightarrow> unat (a * b) = unat a * unat b"
  for a b :: "'a::len word"
  by (simp add: unat_mult_lem)

lemma unat_sub_exact [unat_simps]:
  "b \<le> a \<Longrightarrow> unat (a - b) = unat a - unat b"
  for a b :: "'a::len word"
  by (simp add: unat_sub)

lemma unat_bound: "unat a < 2 ^ LENGTH('a)"
  for a :: "'a::len word"
  by (rule unsigned_less)

lemma unat_word_of_nat_small: "n < 2 ^ LENGTH('a) \<Longrightarrow> unat (word_of_nat n :: 'a::len word) = n"
  by (simp add: unat_of_nat)

lemma unat_eq_iff: "(a = b) = (unat a = unat b)"
  for a b :: "'a::len word"
  by (simp add: word_unat_eq_iff)

lemma checked_add_Some_iff [checked_simps]:
  "checked_add a b = Some c \<longleftrightarrow> unat c = unat a + unat b"
  for a b c :: "'a::len word"
  by (auto simp: checked_add_def unat_eq_iff unat_add_exact) (metis unat_bound)

lemma checked_mul_Some_iff [checked_simps]:
  "checked_mul a b = Some c \<longleftrightarrow> unat c = unat a * unat b"
  for a b c :: "'a::len word"
  by (auto simp: checked_mul_def unat_eq_iff unat_mult_exact) (metis unat_bound)

lemma checked_sub_Some_iff [checked_simps]:
  "checked_sub a b = Some c \<longleftrightarrow> unat a = unat c + unat b"
  for a b c :: "'a::len word"
  by (auto simp: checked_sub_def unat_eq_iff unat_sub word_le_nat_alt)

lemma checked_add_None_iff [checked_simps]:
  "checked_add a b = None \<longleftrightarrow> 2 ^ LENGTH('a) \<le> unat a + unat b"
  for a b :: "'a::len word"
  by (auto simp: checked_add_def)

lemma checked_mul_None_iff [checked_simps]:
  "checked_mul a b = None \<longleftrightarrow> 2 ^ LENGTH('a) \<le> unat a * unat b"
  for a b :: "'a::len word"
  by (auto simp: checked_mul_def)

lemma checked_sub_None_iff [checked_simps]:
  "checked_sub a b = None \<longleftrightarrow> unat a < unat b"
  for a b :: "'a::len word"
  by (auto simp: checked_sub_def word_le_nat_alt)

lemma unat_saturating_sub [unat_simps]:
  "unat (saturating_sub a b) = unat a - unat b"
  for a b :: "'a::len word"
  by (auto simp: saturating_sub_def unat_sub word_le_nat_alt)

lemma unat_saturating_add [unat_simps]:
  "unat (saturating_add a b) = min (unat a + unat b) (2 ^ LENGTH('a) - 1)"
  for a b :: "'a::len word"
  by (auto simp: saturating_add_def unat_add_exact unsigned_minus_1_eq_mask mask_eq_exp_minus_1)

text \<open>Signed values: a two's complement word denotes the integer it was made from, within range.\<close>

lemma sint_of_int_small:
  assumes "- (2 ^ (LENGTH('a) - 1)) \<le> i" "i < 2 ^ (LENGTH('a) - 1)"
  shows "sint (of_int i :: 'a::len word) = i"
  using assms by (simp only: sint_sbintrunc' signed_take_bit_int_eq_self)

lemma sint_of_nat_small: "n < 2 ^ (LENGTH('a) - 1) \<Longrightarrow> sint (of_nat n :: 'a::len word) = int n"
proof -
  assume "n < 2 ^ (LENGTH('a) - 1)"
  then have "int n < 2 ^ (LENGTH('a) - 1)"
    by (metis of_nat_less_iff of_nat_numeral of_nat_power)
  moreover have "- (2 ^ (LENGTH('a) - 1)) \<le> int n"
    by (rule order_trans [of _ 0]) simp_all
  ultimately show ?thesis
    using sint_of_int_small [of "int n", where 'a = 'a] by simp
qed

lemma sint_eq_unat: "unat a < 2 ^ (LENGTH('a) - 1) \<Longrightarrow> sint a = int (unat a)"
  for a :: "'a::len word"
  using sint_of_nat_small [of "unat a", where 'a = 'a] by simp

lemma int_sdiv_nonneg: "0 < n \<Longrightarrow> int m sdiv int n = int (m div n)"
  by (cases "m = 0") (simp_all add: signed_divide_int_def zdiv_int)

lemma sdiv_word_nonneg:
  fixes a :: "'a::len word"
  assumes "unat a < 2 ^ (LENGTH('a) - 1)" "0 < n" "n < 2 ^ (LENGTH('a) - 1)"
  shows "sdiv_word a (of_nat n) = of_nat (unat a div n)"
proof -
  have "sint a = int (unat a)" "sint (of_nat n :: 'a word) = int n"
    using assms by (simp_all only: sint_eq_unat sint_of_nat_small)
  then show ?thesis
    by (simp only: sdiv_word_def int_sdiv_nonneg [OF assms(2)] of_int_of_nat_eq)
qed

text \<open>A signed balance of non-negative amounts is exact while it stays in range.\<close>

lemma balance_range:
  fixes a b c d :: nat
  assumes "a < 2 ^ 126" "b < 2 ^ 124" "c < 2 ^ 126" "d < 2 ^ 124"
  shows "- (2 ^ (LENGTH(128) - 1)) \<le> int a - int b - int c - int d"
    and "int a - int b - int c - int d < 2 ^ (LENGTH(128) - 1)"
  using assms by simp_all

lemma sint_balance:
  fixes a b :: i128
  assumes "unat a < 2 ^ 126" "unat b < 2 ^ 124" "c < 2 ^ 126" "d < 2 ^ 124"
  shows "sint (a - b - of_nat c - of_nat d) = int (unat a) - int (unat b) - int c - int d"
proof -
  have "a - b - of_nat c - of_nat d = of_int (int (unat a) - int (unat b) - int c - int d)"
    by simp
  then show ?thesis
    using balance_range [OF assms] by (simp only: sint_of_int_small)
qed

section \<open>Panics as values\<close>

text \<open>A computation that may panic returns \<open>Inl\<close> of the panic or \<open>Inr\<close> of its value. The
  release profile aborts the process on a panic, so nothing runs after one.\<close>

datatype panic = SliceIndex | IndexOutOfBounds | DivisionByZero | ArithmeticOverflow | IntegerCast | CharBoundary | ExpectFailed

type_synonym 'a exec = "panic + 'a"

definition bindE :: "'a exec \<Rightarrow> ('a \<Rightarrow> 'b exec) \<Rightarrow> 'b exec" where
  "bindE m f = (case m of Inl p \<Rightarrow> Inl p | Inr x \<Rightarrow> f x)"

lemma bindE_simps [simp]: "bindE (Inl p) f = Inl p" "bindE (Inr x) f = f x"
  by (simp_all add: bindE_def)

lemma bindE_eq_Inr_iff: "bindE m f = Inr y \<longleftrightarrow> (\<exists>x. m = Inr x \<and> f x = Inr y)"
  by (cases m) auto

definition no_panic :: "'a exec \<Rightarrow> bool" where
  "no_panic m \<longleftrightarrow> (\<exists>x. m = Inr x)"

lemma no_panic_Inr [simp]: "no_panic (Inr x)"
  by (simp add: no_panic_def)

lemma no_panic_Inl [simp]: "\<not> no_panic (Inl p)"
  by (simp add: no_panic_def)

text \<open>A loop whose body may panic.\<close>

fun foldE :: "('s \<Rightarrow> 'a \<Rightarrow> 's exec) \<Rightarrow> 's \<Rightarrow> 'a list \<Rightarrow> 's exec" where
  "foldE f s [] = Inr s"
| "foldE f s (x # xs) = bindE (f s x) (\<lambda>s'. foldE f s' xs)"

lemma foldE_invariant:
  assumes "P s" "foldE f s xs = Inr s'" "\<And>s x s'. P s \<Longrightarrow> x \<in> set xs \<Longrightarrow> f s x = Inr s' \<Longrightarrow> P s'"
  shows "P s'"
  using assms
proof (induction xs arbitrary: s)
  case (Cons x xs)
  obtain t where t: "f s x = Inr t" "foldE f t xs = Inr s'"
    using Cons.prems(2) by (auto simp: bindE_eq_Inr_iff)
  have "P t"
    by (rule Cons.prems(3) [OF Cons.prems(1) _ t(1)]) simp
  then show ?case
    using t(2) by (rule Cons.IH) (rule Cons.prems(3), assumption, rule list.set_intros(2), assumption+)
next
  case Nil
  then show ?case by (simp only: foldE.simps sum.inject)
qed

text \<open>\<^verbatim>\<open>&data[a..b]\<close>: a slice panics when its start is past its end or its end past the
  length.\<close>

definition slice :: "'a list \<Rightarrow> usize \<Rightarrow> usize \<Rightarrow> 'a list exec" where
  "slice xs a b =
     (if a \<le> b \<and> unat b \<le> length xs then Inr (take (unat b - unat a) (drop (unat a) xs))
      else Inl SliceIndex)"

text \<open>A slice at constant bounds that a length check has already covered.\<close>

definition sub_bytes :: "nat \<Rightarrow> nat \<Rightarrow> 'a list \<Rightarrow> 'a list" where
  "sub_bytes a b xs = take (b - a) (drop a xs)"

lemma length_sub_bytes [simp]: "b \<le> length xs \<Longrightarrow> length (sub_bytes a b xs) = b - a"
  by (simp add: sub_bytes_def)

lemma slice_ok: "a \<le> b \<Longrightarrow> unat b \<le> length xs \<Longrightarrow> slice xs a b = Inr (sub_bytes (unat a) (unat b) xs)"
  by (simp add: slice_def sub_bytes_def)

section \<open>Big-endian bytes\<close>

text \<open>\<open>from_be\<close> is \<^verbatim>\<open>uN::from_be_bytes\<close> (and the identification of a byte array with its
  word); \<open>to_be n\<close> is \<^verbatim>\<open>to_be_bytes\<close> of an \<open>n\<close>-byte integer. \<open>be_val\<close> is the
  number a byte string denotes.\<close>

fun be_val :: "bytes \<Rightarrow> nat" where
  "be_val [] = 0"
| "be_val (b # bs) = unat b * 256 ^ length bs + be_val bs"

definition from_be :: "bytes \<Rightarrow> 'a::len word" where
  "from_be bs = foldl (\<lambda>a b. a * 256 + ucast b) 0 bs"

primrec to_be :: "nat \<Rightarrow> 'a::len word \<Rightarrow> bytes" where
  "to_be 0 w = []"
| "to_be (Suc n) w = to_be n (drop_bit 8 w) @ [ucast w]"

lemma length_to_be [simp]: "length (to_be n w) = n"
  by (induction n arbitrary: w) simp_all

lemma be_val_append: "be_val (xs @ ys) = be_val xs * 256 ^ length ys + be_val ys"
  by (induction xs) (simp_all add: algebra_simps power_add)

lemma be_val_bound: "be_val bs < 256 ^ length bs"
proof (induction bs)
  case Nil
  show ?case by simp
next
  case (Cons b bs)
  have "unat b + 1 \<le> 256"
    using unat_bound [of b] by simp
  then have "(unat b + 1) * 256 ^ length bs \<le> 256 * 256 ^ length bs"
    by (rule mult_le_mono1)
  moreover have "unat b * 256 ^ length bs + be_val bs < (unat b + 1) * 256 ^ length bs"
    using Cons.IH by simp
  ultimately show ?case
    by (simp only: be_val.simps list.size power_Suc add_Suc_right add_0_right)
qed

lemma be_val_replicate_0 [simp]: "be_val (replicate n 0) = 0"
  by (induction n) simp_all

lemma from_be_foldl:
  "foldl (\<lambda>a b. a * 256 + ucast b) (acc :: 'a::len word) bs = acc * 256 ^ length bs + word_of_nat (be_val bs)"
proof (induction bs arbitrary: acc)
  case Nil
  show ?case by simp
next
  case (Cons b bs)
  have "(ucast b :: 'a word) = word_of_nat (unat b)"
    by simp
  with Cons show ?case by (simp add: algebra_simps)
qed

lemma from_be_eq: "(from_be bs :: 'a::len word) = word_of_nat (be_val bs)"
  by (simp add: from_be_def from_be_foldl)

lemma unat_from_be:
  "256 ^ length bs \<le> (2 :: nat) ^ LENGTH('a) \<Longrightarrow> unat (from_be bs :: 'a::len word) = be_val bs"
  using be_val_bound [of bs] by (simp add: from_be_eq unat_of_nat)

lemma be_val_to_be: "be_val (to_be n w) = unat w mod 256 ^ n"
proof (induction n arbitrary: w)
  case 0
  show ?case by simp
next
  case (Suc n)
  have c: "unat (ucast w :: u8) = unat w mod 256"
    by (simp add: unsigned_ucast_eq take_bit_eq_mod)
  have "unat w mod (256 * 256 ^ n) = 256 * (unat w div 256 mod 256 ^ n) + unat w mod 256"
    by (rule mod_mult2_eq)
  moreover have d: "unat (drop_bit 8 w) = unat w div 256"
    by (subst unat_drop_bit_eq) (simp add: drop_bit_eq_div)
  ultimately show ?case
    by (simp only: to_be.simps be_val_append Suc d be_val.simps c list.size) simp
qed

lemma from_be_to_be [codec_simps]:
  "LENGTH('a) = 8 * n \<Longrightarrow> from_be (to_be n w) = (w :: 'a::len word)"
proof -
  assume "LENGTH('a) = 8 * n"
  then have "(256 :: nat) ^ n = 2 ^ LENGTH('a)"
    by (simp add: power_mult)
  then show ?thesis
    using unat_bound [of w] by (simp add: from_be_eq be_val_to_be)
qed

lemma be_val_inj: "length xs = length ys \<Longrightarrow> be_val xs = be_val ys \<Longrightarrow> xs = ys"
proof (induction xs ys rule: list_induct2)
  case Nil
  show ?case by simp
next
  case (Cons x xs y ys)
  let ?B = "256 ^ length ys :: nat"
  have e: "unat x * ?B + be_val xs = unat y * ?B + be_val ys"
    using Cons.prems Cons.hyps by simp
  have b: "be_val xs < ?B" "be_val ys < ?B"
    using be_val_bound [of xs] be_val_bound [of ys] Cons.hyps by simp_all
  have "(unat x * ?B + be_val xs) div ?B = unat x" "(unat y * ?B + be_val ys) div ?B = unat y"
    using b by simp_all
  with e have xy: "unat x = unat y" by simp
  with e have "be_val xs = be_val ys" by simp
  with xy Cons.IH show ?case by (simp add: unat_eq_iff)
qed

lemma to_be_from_be [codec_simps]:
  assumes "length bs = n" "8 * n \<le> LENGTH('a)"
  shows "to_be n (from_be bs :: 'a::len word) = bs"
proof (rule be_val_inj)
  have p: "(256 :: nat) ^ n = 2 ^ (8 * n)"
    by (simp add: power_mult)
  with assms have "256 ^ length bs \<le> (2 :: nat) ^ LENGTH('a)"
    by (simp add: power_increasing)
  then have "unat (from_be bs :: 'a word) = be_val bs"
    by (rule unat_from_be)
  then show "be_val (to_be n (from_be bs :: 'a word)) = be_val bs"
    using be_val_bound [of bs] assms(1) by (simp add: be_val_to_be)
qed (use assms in simp)

text \<open>An ABI word: 32 bytes, the value right-aligned.\<close>

definition abi_word :: "'a::len word \<Rightarrow> bytes" where
  "abi_word w = to_be 32 (ucast w :: bytes32)"

lemma length_abi_word [simp]: "length (abi_word w) = 32"
  by (simp add: abi_word_def)

lemma drop_to_be: "k \<le> n \<Longrightarrow> drop k (to_be n w) = to_be (n - k) w"
proof (induction n arbitrary: w)
  case (Suc n)
  show ?case
  proof (cases "k = Suc n")
    case False
    with Suc.prems have "k \<le> n" by simp
    with Suc.IH [OF this] show ?thesis
      by (simp add: Suc_diff_le)
  qed simp
qed simp

lemma from_be_to_be_ucast:
  assumes "LENGTH('b) = 8 * n"
  shows "(from_be (to_be n w) :: 'b::len word) = ucast (w :: 'a::len word)"
proof -
  have p: "(256 :: nat) ^ n = 2 ^ LENGTH('b)"
    using assms by (simp add: power_mult)
  have "unat (from_be (to_be n w) :: 'b word) = unat w mod 2 ^ LENGTH('b)"
    by (subst unat_from_be) (simp_all add: p be_val_to_be)
  then show ?thesis
    by (simp add: unat_eq_iff unsigned_ucast_eq take_bit_eq_mod)
qed

lemma to_be_ucast:
  assumes "8 * n \<le> LENGTH('b)" 
  shows "to_be n (ucast (w :: 'a::len word) :: 'b::len word) = to_be n w"
proof (rule be_val_inj)
  have "(256 :: nat) ^ n = 2 ^ (8 * n)"
    by (simp add: power_mult)
  then have "(256 :: nat) ^ n dvd 2 ^ LENGTH('b)"
    using assms by (simp add: le_imp_power_dvd)
  then show "be_val (to_be n (ucast w :: 'b word)) = be_val (to_be n w)"
    by (simp add: be_val_to_be unsigned_ucast_eq take_bit_eq_mod mod_mod_cancel)
qed simp

lemma ucast_up_down:
  "LENGTH('a) \<le> LENGTH('b) \<Longrightarrow> ucast (ucast w :: 'b::len word) = (w :: 'a::len word)"
proof -
  assume "LENGTH('a) \<le> LENGTH('b)"
  then have "unat w < 2 ^ LENGTH('b)"
    by (intro less_le_trans [OF unat_bound] power_increasing) simp_all
  then have "unat (of_nat (unat w) :: 'b word) = unat w"
    by (rule unat_word_of_nat_small)
  then have "(of_nat (unat (of_nat (unat w) :: 'b word)) :: 'a word) = w"
    by (simp only:) simp
  then show ?thesis
    by simp
qed

lemma drop_abi_word: "drop 12 (abi_word (a :: address)) = to_be 20 a"
  by (simp add: abi_word_def drop_to_be to_be_ucast)

section \<open>Iterator helpers\<close>

text \<open>\<^verbatim>\<open>Iterator::max_by_key\<close> returns the last of several maximal elements and
  \<^verbatim>\<open>min_by_key\<close> the first of several minimal ones; \<^verbatim>\<open>max\<close> and \<^verbatim>\<open>min\<close> are the
  instances at the identity.\<close>

fun max_by_key_from :: "('a \<Rightarrow> 'b::linorder) \<Rightarrow> 'a \<Rightarrow> 'a list \<Rightarrow> 'a" where
  "max_by_key_from f m [] = m"
| "max_by_key_from f m (x # xs) = max_by_key_from f (if f m \<le> f x then x else m) xs"

fun max_by_key :: "('a \<Rightarrow> 'b::linorder) \<Rightarrow> 'a list \<Rightarrow> 'a option" where
  "max_by_key f [] = None"
| "max_by_key f (x # xs) = Some (max_by_key_from f x xs)"

fun min_by_key_from :: "('a \<Rightarrow> 'b::linorder) \<Rightarrow> 'a \<Rightarrow> 'a list \<Rightarrow> 'a" where
  "min_by_key_from f m [] = m"
| "min_by_key_from f m (x # xs) = min_by_key_from f (if f x < f m then x else m) xs"

fun min_by_key :: "('a \<Rightarrow> 'b::linorder) \<Rightarrow> 'a list \<Rightarrow> 'a option" where
  "min_by_key f [] = None"
| "min_by_key f (x # xs) = Some (min_by_key_from f x xs)"

abbreviation iter_max :: "'a::linorder list \<Rightarrow> 'a option" where
  "iter_max \<equiv> max_by_key (\<lambda>x. x)"

abbreviation iter_min :: "'a::linorder list \<Rightarrow> 'a option" where
  "iter_min \<equiv> min_by_key (\<lambda>x. x)"

lemma max_by_key_from_in: "max_by_key_from f m xs \<in> insert m (set xs)"
proof (induction xs arbitrary: m)
  case (Cons x xs)
  then show ?case
    using Cons [of x] Cons [of m] by auto
qed simp

lemma max_by_key_from_ge:
  "f m \<le> f (max_by_key_from f m xs) \<and> (\<forall>x \<in> set xs. f x \<le> f (max_by_key_from f m xs))"
proof (induction xs arbitrary: m)
  case (Cons x xs)
  show ?case
    using Cons [of x] Cons [of m] by (cases "f m \<le> f x") auto
qed simp

lemma max_by_key_Some:
  assumes "max_by_key f xs = Some m"
  shows "m \<in> set xs" "x \<in> set xs \<Longrightarrow> f x \<le> f m"
  using assms max_by_key_from_in [of f "hd xs" "tl xs"] max_by_key_from_ge [of f "hd xs" "tl xs"]
  by (cases xs; auto)+

lemma min_by_key_from_in: "min_by_key_from f m xs \<in> insert m (set xs)"
proof (induction xs arbitrary: m)
  case (Cons x xs)
  then show ?case
    using Cons [of x] Cons [of m] by auto
qed simp

lemma min_by_key_from_le:
  "f (min_by_key_from f m xs) \<le> f m \<and> (\<forall>x \<in> set xs. f (min_by_key_from f m xs) \<le> f x)"
proof (induction xs arbitrary: m)
  case (Cons x xs)
  show ?case
    using Cons [of x] Cons [of m] by (cases "f x < f m") auto
qed simp

lemma min_by_key_Some:
  assumes "min_by_key f xs = Some m"
  shows "m \<in> set xs" "x \<in> set xs \<Longrightarrow> f m \<le> f x"
  using assms min_by_key_from_in [of f "hd xs" "tl xs"] min_by_key_from_le [of f "hd xs" "tl xs"]
  by (cases xs; auto)+

lemma by_key_None [simp]: "max_by_key f xs = None \<longleftrightarrow> xs = []" "min_by_key f xs = None \<longleftrightarrow> xs = []"
  by (cases xs; simp)+

text \<open>The extreme value does not depend on the order of the elements.\<close>

lemma iter_max_cong:
  assumes "set xs = set ys"
  shows "iter_max xs = iter_max ys"
proof (cases "xs = []")
  case True
  with assms show ?thesis by simp
next
  case False
  with assms have "iter_max xs \<noteq> None" "iter_max ys \<noteq> None"
    by (auto simp del: not_None_eq)
  then obtain m n where "iter_max xs = Some m" "iter_max ys = Some n"
    by blast
  moreover from this have "m = n"
    using max_by_key_Some assms by (metis order_antisym)
  ultimately show ?thesis by simp
qed

lemma iter_min_cong:
  assumes "set xs = set ys"
  shows "iter_min xs = iter_min ys"
proof (cases "xs = []")
  case True
  with assms show ?thesis by simp
next
  case False
  with assms have "iter_min xs \<noteq> None" "iter_min ys \<noteq> None"
    by (auto simp del: not_None_eq)
  then obtain m n where "iter_min xs = Some m" "iter_min ys = Some n"
    by blast
  moreover from this have "m = n"
    using min_by_key_Some assms by (metis order_antisym)
  ultimately show ?thesis by simp
qed

text \<open>\<^verbatim>\<open>iter().map(f).collect::<Option<Vec<_>>>()\<close>: all results, or \<open>None\<close> at the first
  failure.\<close>

fun collect_option :: "'a option list \<Rightarrow> 'a list option" where
  "collect_option [] = Some []"
| "collect_option (x # xs) =
     (case x of None \<Rightarrow> None | Some a \<Rightarrow> (case collect_option xs of None \<Rightarrow> None | Some as \<Rightarrow> Some (a # as)))"

lemma collect_option_Some_iff: "collect_option xs = Some ys \<longleftrightarrow> xs = map Some ys"
proof (induction xs arbitrary: ys)
  case (Cons x xs)
  show ?case
  proof (cases ys)
    case Nil
    then show ?thesis by (auto split: option.splits)
  next
    case (Cons y zs)
    have "collect_option (x # xs) = Some (y # zs) \<longleftrightarrow> x = Some y \<and> collect_option xs = Some zs"
      by (auto split: option.splits)
    with Cons show ?thesis
      using Cons.IH [of zs] by auto
  qed
qed auto

section \<open>Text and the hex crate\<close>

text \<open>A Rust string is its UTF-8 bytes. \<^verbatim>\<open>str::strip_prefix\<close> and the pattern
  \<^verbatim>\<open>s.strip_prefix("0x").unwrap_or(s)\<close>.\<close>

definition strip_0x :: "string \<Rightarrow> string" where
  "strip_0x s = (if take 2 s = ''0x'' then drop 2 s else s)"

lemma strip_0x_prefix [simp]: "strip_0x (''0x'' @ s) = s" "strip_0x (CHR ''0'' # CHR ''x'' # s) = s"
  by (simp_all add: strip_0x_def)

text \<open>Decimal numbers and the \<^verbatim>\<open>Debug\<close> rendering of a byte array.\<close>

fun show_nat :: "nat \<Rightarrow> string" where
  "show_nat n = (if n < 10 then [char_of (48 + n)] else show_nat (n div 10) @ [char_of (48 + n mod 10)])"

declare show_nat.simps [simp del]

fun join_comma :: "string list \<Rightarrow> string" where
  "join_comma [] = []"
| "join_comma [s] = s"
| "join_comma (s # ss) = s @ '', '' @ join_comma ss"

definition debug_bytes :: "bytes \<Rightarrow> string" where
  "debug_bytes bs = ''['' @ join_comma (map (\<lambda>b. show_nat (unat b)) bs) @ '']''"

text \<open>The \<^verbatim>\<open>hex\<close> crate is not part of the repository: its two functions are a parameter of
  every definition that calls them. What the code relies on is that decoding inverts
  encoding (the crate's documentation).\<close>

record hexcrate =
  hex_encode :: "bytes \<Rightarrow> string"
  hex_decode :: "string \<Rightarrow> bytes option"

text \<open>\<^verbatim>\<open>format!("0x{}", hex::encode(..))\<close>\<close>

definition hex_0x :: "hexcrate \<Rightarrow> bytes \<Rightarrow> string" where
  "hex_0x hx bs = ''0x'' @ hex_encode hx bs"

locale hex_codec =
  fixes hx :: hexcrate
  assumes decode_encode: "hex_decode hx (hex_encode hx bs) = Some bs"
begin

lemma encode_inj: "hex_encode hx xs = hex_encode hx ys \<Longrightarrow> xs = ys"
  by (metis decode_encode option.inject)

lemma decode_strip_encode: "hex_decode hx (strip_0x (''0x'' @ hex_encode hx bs)) = Some bs"
  by (simp only: strip_0x_prefix decode_encode)

end

text \<open>A concrete codec with the crate's documented behaviour (lower-case output, either case
  accepted, an error on an odd length or a non-digit), which shows that the law can hold.\<close>

definition hex_digit :: "nat \<Rightarrow> char" where
  "hex_digit n = (if n < 10 then char_of (48 + n) else char_of (87 + n))"

definition hex_value :: "char \<Rightarrow> nat option" where
  "hex_value c = (let n = of_char c :: nat in
     if 48 \<le> n \<and> n \<le> 57 then Some (n - 48)
     else if 97 \<le> n \<and> n \<le> 102 then Some (n - 87)
     else if 65 \<le> n \<and> n \<le> 70 then Some (n - 55)
     else None)"

fun hex_encode_std :: "bytes \<Rightarrow> string" where
  "hex_encode_std [] = []"
| "hex_encode_std (b # bs) = hex_digit (unat b div 16) # hex_digit (unat b mod 16) # hex_encode_std bs"

fun hex_decode_std :: "string \<Rightarrow> bytes option" where
  "hex_decode_std [] = Some []"
| "hex_decode_std [c] = None"
| "hex_decode_std (c # d # cs) =
     (case (hex_value c, hex_value d, hex_decode_std cs) of
        (Some h, Some l, Some bs) \<Rightarrow> Some (word_of_nat (16 * h + l) # bs)
      | _ \<Rightarrow> None)"

definition hex_std :: hexcrate where
  "hex_std = \<lparr>hex_encode = hex_encode_std, hex_decode = hex_decode_std\<rparr>"

lemma hex_value_digit:
  assumes "n < 16"
  shows "hex_value (hex_digit n) = Some n"
proof -
  have "(of_char (hex_digit n) :: nat) = (if n < 10 then 48 + n else 87 + n)"
    using assms by (simp add: hex_digit_def of_char_of)
  then show ?thesis
    using assms by (cases "n < 10") (simp_all add: hex_value_def)
qed

lemma hex_std_round_trip: "hex_decode_std (hex_encode_std bs) = Some bs"
proof (induction bs)
  case Nil
  show ?case by simp
next
  case (Cons b bs)
  have "unat b div 16 < 16"
    using unat_bound [of b] by simp
  moreover have "word_of_nat (16 * (unat b div 16) + unat b mod 16) = b"
    by (simp only: mult_div_mod_eq) simp
  ultimately show ?case
    using Cons by (simp add: hex_value_digit)
qed

interpretation std_hex: hex_codec hex_std
  by unfold_locales (simp add: hex_std_def hex_std_round_trip)

end
