(* ===== verification/Wide_Arith.thy ===== *)
theory Wide_Arith
  imports Prelude
begin

text \<open>
  The 256-bit intermediate arithmetic written by hand in the repository: the schoolbook
  multiplication and the two-limb division of \<^verbatim>\<open>core/src/simulator/mod.rs\<close>, and the
  multiplication with a bit-serial long division of \<^verbatim>\<open>core/src/detector/liquidation.rs\<close>.
  Both are compared with \<open>a * b div c\<close> on the natural numbers.
\<close>

section \<open>Halves of a 128-bit word\<close>

text \<open>\<^verbatim>\<open>x >> 64\<close>, \<^verbatim>\<open>x & 0xFFFF_FFFF_FFFF_FFFF\<close> (also \<^verbatim>\<open>x as u64 as u128\<close>) and
  \<^verbatim>\<open>x << 64\<close>.\<close>

definition hi64 :: "u128 \<Rightarrow> u128" where
  "hi64 x = drop_bit 64 x"

definition lo64 :: "u128 \<Rightarrow> u128" where
  "lo64 x = x AND 0xFFFFFFFFFFFFFFFF"

definition shl64 :: "u128 \<Rightarrow> u128" where
  "shl64 x = push_bit 64 x"

lemma unat_hi64 [unat_simps]: "unat (hi64 x) = unat x div 2 ^ 64"
  unfolding hi64_def by (subst unat_drop_bit_eq) (simp add: drop_bit_eq_div)

lemma unat_lo64 [unat_simps]: "unat (lo64 x) = unat x mod 2 ^ 64"
proof -
  have "lo64 x = take_bit 64 x"
    by (simp add: lo64_def take_bit_eq_mask mask_eq_exp_minus_1)
  then show ?thesis
    by (simp only: unsigned_take_bit_eq) (simp add: take_bit_eq_mod)
qed

lemma unat_shl64 [unat_simps]: "unat (shl64 x) = unat x * 2 ^ 64 mod 2 ^ 128"
  unfolding shl64_def by (subst unsigned_push_bit_eq) (simp add: push_bit_eq_mult take_bit_eq_mod)

lemma cast_u64_lo64: "(ucast (ucast x :: u64) :: u128) = lo64 x"
  by (simp only: unat_eq_iff unat_lo64 unsigned_ucast_eq unsigned_take_bit_eq)
    (simp add: take_bit_eq_mod mod_mod_cancel)

lemma unat_half_bounds: "unat x div 2 ^ 64 < 2 ^ 64" "unat x mod 2 ^ 64 < 2 ^ 64" for x :: u128
  using unat_bound [of x] by simp_all

lemma unat_or_disjoint:
  fixes a b :: "'a::len word"
  assumes "\<And>n. \<not> (bit a n \<and> bit b n)"
  shows "unat (a OR b) = unat a + unat b"
proof -
  have "unat (a OR b) = unat a OR unat b"
    by (rule unsigned_or_eq)
  also have "\<dots> = unat a + unat b"
    using assms by (intro disjunctive_add [symmetric]) (auto simp: bit_unsigned_iff)
  finally show ?thesis .
qed

text \<open>\<^verbatim>\<open>(hi << 64) | lo\<close> for a low limb: the high limb loses whatever does not fit.\<close>

lemma unat_join64:
  assumes "unat l < 2 ^ 64"
  shows "unat (shl64 h OR l) = (unat h * 2 ^ 64) mod 2 ^ 128 + unat l"
proof -
  have "\<not> bit l n" if "64 \<le> n" for n
  proof -
    have "take_bit 64 (unat l) = unat l"
      using assms by (simp add: take_bit_eq_mod)
    then have "\<not> bit (unat l) n"
      using that by (metis bit_take_bit_iff not_le)
    then show ?thesis
      by (auto simp: bit_unsigned_iff dest: bit_imp_le_length)
  qed
  then have "\<not> (bit (shl64 h) n \<and> bit l n)" for n
    by (cases "64 \<le> n") (simp_all add: shl64_def bit_push_bit_iff)
  then show ?thesis
    by (simp add: unat_or_disjoint unat_shl64)
qed

section \<open>The simulator's wide multiplication\<close>

definition wide_mul_u128 :: "u128 \<Rightarrow> u128 \<Rightarrow> u128 \<times> u128" where
  "wide_mul_u128 a b =
    (let a0 = lo64 a; a1 = hi64 a; b0 = lo64 b; b1 = hi64 b;
         p00 = a0 * b0; p01 = a0 * b1; p10 = a1 * b0; p11 = a1 * b1;
         (mid, mid_carry) = overflowing_add p01 p10;
         (lo, lo_carry) = overflowing_add p00 (shl64 mid);
         hi = p11 + hi64 mid + (if mid_carry then push_bit 64 1 else 0) + (if lo_carry then 1 else 0)
     in (lo, hi))"

text \<open>The four limb products do not overflow, and the carries account for every wrapped sum.\<close>

lemma limb_product_exact:
  assumes "unat x < 2 ^ 64" "unat y < 2 ^ 64"
  shows "unat (x * y :: u128) = unat x * unat y" "unat x * unat y \<le> (2 ^ 64 - 1) * (2 ^ 64 - 1)"
proof -
  have "unat x \<le> 2 ^ 64 - 1" "unat y \<le> 2 ^ 64 - 1"
    using assms by simp_all
  then show "unat x * unat y \<le> (2 ^ 64 - 1) * (2 ^ 64 - 1)"
    by (rule mult_le_mono)
  then show "unat (x * y) = unat x * unat y"
    by (intro unat_mult_exact) simp
qed

lemma unat_add_wrap: "unat (a + b) = (unat a + unat b) mod 2 ^ 128" for a b :: u128
  by (simp add: unat_word_ariths)

lemma overflow_div: "(x::nat) < 2 * m \<Longrightarrow> x div m = (if m \<le> x then 1 else 0)"
  by (auto simp: div_if)

lemma schoolbook_nat:
  fixes p00 p01 p10 p11 B :: nat
  assumes m: "m = (p01 + p10) mod (B * B)" and c: "c = (p01 + p10) div (B * B)"
    and l: "l = (p00 + m * B mod (B * B)) mod (B * B)"
    and k: "k = (p00 + m * B mod (B * B)) div (B * B)"
    and B: "0 < B"
  shows "(p11 + m div B + c * B + k) * (B * B) + l = p11 * (B * B) + (p01 + p10) * B + p00"
proof -
  have 1: "m * B mod (B * B) = (m mod B) * B"
    by (simp add: mult_mod_left)
  have 2: "k * (B * B) + l = p00 + (m mod B) * B"
    unfolding k l 1 by (rule div_mult_mod_eq)
  have 3: "p01 + p10 = c * (B * B) + m"
    unfolding m c by (simp only: div_mult_mod_eq)
  have 4: "m = m div B * B + m mod B"
    by simp
  have "(p11 + m div B + c * B + k) * (B * B) + l
      = p11 * (B * B) + m div B * (B * B) + c * B * (B * B) + (k * (B * B) + l)"
    by (simp add: algebra_simps)
  also have "\<dots> = p11 * (B * B) + (c * (B * B) + (m div B * B + m mod B)) * B + p00"
    unfolding 2 by (simp only: algebra_simps)
  also have "\<dots> = p11 * (B * B) + (p01 + p10) * B + p00"
    by (simp only: 4 [symmetric] 3)
  finally show ?thesis .
qed

lemma mult_halves_nat:
  fixes a b B :: nat
  shows "(a div B) * (b div B) * (B * B) + ((a mod B) * (b div B) + (a div B) * (b mod B)) * B
      + (a mod B) * (b mod B) = a * b"
proof -
  have "a * b = (a div B * B + a mod B) * (b div B * B + b mod B)"
    by simp
  then show ?thesis
    by (simp only: algebra_simps)
qed

lemma wide_mul_u128_value:
  assumes "wide_mul_u128 a b = (lo, hi)"
  shows "unat hi * 2 ^ 128 + unat lo = unat a * unat b"
proof -
  let ?B = "2 ^ 64 :: nat"
  define p00 p01 p10 p11 where p: "p00 = lo64 a * lo64 b" "p01 = lo64 a * hi64 b"
    "p10 = hi64 a * lo64 b" "p11 = hi64 a * hi64 b"
  define mid where "mid = p01 + p10"
  define c where "c = (unat p01 + unat p10) div (?B * ?B)"
  define k where "k = (unat p00 + unat (shl64 mid)) div (?B * ?B)"
  define n where "n = unat p11 + unat mid div ?B + c * ?B + k"
  note bounds = unat_half_bounds [of a] unat_half_bounds [of b]
  have v: "unat p00 = unat a mod ?B * (unat b mod ?B)" "unat p01 = unat a mod ?B * (unat b div ?B)"
    "unat p10 = unat a div ?B * (unat b mod ?B)" "unat p11 = unat a div ?B * (unat b div ?B)"
    unfolding p using limb_product_exact(1) bounds by (simp_all only: unat_hi64 unat_lo64)
  have B2: "?B * ?B = 2 ^ 128"
    by simp
  have mid: "unat mid = (unat p01 + unat p10) mod (?B * ?B)"
    unfolding mid_def B2 by (rule unat_add_wrap)
  have shl: "unat (shl64 mid) = unat mid * ?B mod (?B * ?B)"
    unfolding B2 by (rule unat_shl64)
  have lo: "lo = p00 + shl64 mid"
    and hi: "hi = p11 + hi64 mid + (if 2 ^ 128 \<le> unat p01 + unat p10 then push_bit 64 1 else 0)
      + (if 2 ^ 128 \<le> unat p00 + unat (shl64 mid) then 1 else 0)"
    using assms by (simp_all add: wide_mul_u128_def overflowing_add_def Let_def p mid_def)
  have lo': "unat lo = (unat p00 + unat mid * ?B mod (?B * ?B)) mod (?B * ?B)"
    unfolding lo by (simp only: unat_add_wrap B2 [symmetric] shl)
  have total: "n * (?B * ?B) + unat lo = unat a * unat b"
    unfolding n_def lo' mid c_def k_def shl
    by (subst schoolbook_nat [OF refl refl refl refl]) (simp, simp only: v mult_halves_nat)
  have "unat a * unat b < (?B * ?B) * (?B * ?B)"
    using unat_bound [of a] unat_bound [of b] by (intro mult_strict_mono) simp_all
  with total have small: "n < 2 ^ 128"
    by (metis B2 add_lessD1 mult_less_cancel2)
  have cc: "c = (if 2 ^ 128 \<le> unat p01 + unat p10 then 1 else 0)"
    unfolding c_def B2 using unat_bound [of p01] unat_bound [of p10]
    by (intro overflow_div) simp
  have kk: "k = (if 2 ^ 128 \<le> unat p00 + unat (shl64 mid) then 1 else 0)"
    unfolding k_def B2 using unat_bound [of p00] unat_bound [of "shl64 mid"]
    by (intro overflow_div) simp
  have "hi64 mid = word_of_nat (unat mid div ?B)"
    by (simp only: unat_hi64 [symmetric]) simp
  then have "hi = word_of_nat n"
    unfolding hi n_def cc kk by simp
  then have "unat hi = n"
    using small by (simp add: unat_word_of_nat_small)
  with total show ?thesis
    by (simp only: B2)
qed

text \<open>The schoolbook multiplication is exact. The two words it returns are the low and the high
  half of the full 256-bit product, for every pair of inputs.\<close>

theorem wide_mul_u128_exact:
  "(case wide_mul_u128 a b of (lo, hi) \<Rightarrow> unat hi * 2 ^ 128 + unat lo) = unat a * unat b"
  by (cases "wide_mul_u128 a b") (simp only: prod.case wide_mul_u128_value)

section \<open>The simulator's division and \<open>mul_div\<close>\<close>

text \<open>\<open>d\<close> is never zero: the only caller returns before the call when it is.\<close>

definition div_u256_by_u128 :: "u128 \<Rightarrow> u128 \<Rightarrow> u128 \<Rightarrow> u128" where
  "div_u256_by_u128 hi lo d =
    (if hi = 0 then lo div d
     else
       let rem = hi mod d;
           lo_hi = hi64 lo;
           dividend_1 = shl64 rem OR lo_hi;
           q_1 = dividend_1 div d;
           rem = dividend_1 mod d;
           lo_lo = lo64 lo;
           dividend_2 = shl64 rem OR lo_lo;
           q_2 = dividend_2 div d
       in shl64 q_1 OR q_2)"

definition mul_div_u128 :: "u128 \<Rightarrow> u128 \<Rightarrow> u128 \<Rightarrow> u128 option" where
  "mul_div_u128 a b c =
    (if c = 0 then None
     else case checked_mul a b of
       Some ab \<Rightarrow> Some (ab div c)
     | None \<Rightarrow> (let (lo, hi) = wide_mul_u128 a b in Some (div_u256_by_u128 hi lo c)))"

lemma limb_quotient_less: "r < d \<Longrightarrow> l < B \<Longrightarrow> (r * B + l) div d < (B :: nat)"
proof -
  assume "r < d" "l < B"
  then have "r * B + l < (r + 1) * B"
    by simp
  also have "\<dots> \<le> d * B"
    using \<open>r < d\<close> by (intro mult_le_mono1) simp
  finally show ?thesis
    by (simp add: less_mult_imp_div_less mult.commute)
qed

lemma two_limb_division_nat:
  fixes hi lo d B :: nat
  assumes "0 < d"
  shows "(hi * (B * B) + lo) div d
    = hi div d * (B * B)
      + ((hi mod d * B + lo div B) div d * B
         + ((hi mod d * B + lo div B) mod d * B + lo mod B) div d)"
proof -
  define D where "D = hi mod d * B + lo div B"
  have "hi * (B * B) + lo = (hi div d * d + hi mod d) * (B * B) + (lo div B * B + lo mod B)"
    by simp
  also have "\<dots> = d * (hi div d * (B * B)) + (D * B + lo mod B)"
    unfolding D_def by (simp only: algebra_simps)
  also have "D * B = d * (D div d * B) + D mod d * B"
    by (metis add_mult_distrib mult.assoc mult_div_mod_eq)
  finally have "hi * (B * B) + lo
      = d * (hi div d * (B * B) + D div d * B) + (D mod d * B + lo mod B)"
    by (simp only: algebra_simps)
  then show ?thesis
    using assms unfolding D_def by simp
qed

lemma div_u256_by_u128_small_divisor:
  assumes d0: "d \<noteq> 0" and d: "unat d \<le> 2 ^ 64"
  shows "unat (div_u256_by_u128 hi lo d) = (unat hi * 2 ^ 128 + unat lo) div unat d mod 2 ^ 128"
proof (cases "hi = 0")
  case True
  have "unat lo div unat d < 2 ^ 128"
    using unat_bound [of lo] by (simp add: div_less_dividend le_less_trans [OF div_le_dividend])
  with True show ?thesis
    by (simp add: div_u256_by_u128_def unat_div)
next
  case False
  let ?B = "2 ^ 64 :: nat"
  define D where "D = unat hi mod unat d * ?B + unat lo div ?B"
  define E where "E = D mod unat d * ?B + unat lo mod ?B"
  have dpos: "0 < unat d"
    using d0 by (simp add: unat_eq_iff)
  have B2: "?B * ?B = 2 ^ 128"
    by simp
  have joinr: "unat (shl64 r OR l) = unat r * ?B + unat l"
    if "unat r < ?B" "unat l < ?B" for r l
    using that by (simp add: unat_join64)
  have rd: "x mod unat d < ?B" for x
    using mod_less_divisor [OF dpos, of x] d by simp
  have 1: "unat (shl64 (hi mod d) OR hi64 lo) = D"
    unfolding D_def using rd unat_half_bounds [of lo] by (subst joinr) (simp_all only: unat_mod unat_hi64)
  have 2: "unat (shl64 ((shl64 (hi mod d) OR hi64 lo) mod d) OR lo64 lo) = E"
    unfolding E_def using rd unat_half_bounds [of lo]
    by (subst joinr) (simp_all only: unat_mod unat_lo64 1)
  have q1: "D div unat d < ?B"
    unfolding D_def using unat_half_bounds [of lo] dpos by (intro limb_quotient_less) simp_all
  have q2: "E div unat d < ?B"
    unfolding E_def using unat_half_bounds [of lo] dpos by (intro limb_quotient_less) simp_all
  have "unat (div_u256_by_u128 hi lo d) = D div unat d * ?B + E div unat d"
    using False q1 q2
    by (simp only: div_u256_by_u128_def Let_def if_False) (subst joinr; simp only: unat_div 1 2)
  moreover have "(unat hi * 2 ^ 128 + unat lo) div unat d
      = unat hi div unat d * 2 ^ 128 + (D div unat d * ?B + E div unat d)"
    using two_limb_division_nat [OF dpos, of "unat hi" ?B "unat lo"]
    unfolding D_def E_def B2 .
  moreover have "D div unat d * ?B + E div unat d < 2 ^ 128"
    using q1 q2 by simp
  ultimately show ?thesis
    by simp
qed

text \<open>\<open>mul_div_u128\<close> of the simulator computes the floor of \<open>a * b / c\<close> (its low 128 bits, when
  the quotient does not fit) whenever the product fits in 128 bits or the divisor is at most
  \<open>2^64\<close>; the 256-bit path is exact there.\<close>

theorem mul_div_u128_exact:
  assumes "c \<noteq> 0" and "unat a * unat b < 2 ^ 128 \<or> unat c \<le> 2 ^ 64"
  shows "mul_div_u128 a b c = Some (word_of_nat (unat a * unat b div unat c))"
proof (cases "checked_mul a b")
  case (Some ab)
  then have "unat ab = unat a * unat b"
    by (simp only: checked_simps)
  then have "unat a * unat b div unat c = unat (ab div c)"
    by (simp add: unat_div)
  then have "ab div c = word_of_nat (unat a * unat b div unat c)"
    by simp
  with Some assms(1) show ?thesis
    by (simp add: mul_div_u128_def)
next
  case None
  then have d: "unat c \<le> 2 ^ 64"
    using assms(2) by (simp add: checked_simps)
  obtain lo hi where w: "wide_mul_u128 a b = (lo, hi)"
    by fastforce
  have "unat (div_u256_by_u128 hi lo c) = unat a * unat b div unat c mod 2 ^ 128"
    using div_u256_by_u128_small_divisor [OF assms(1) d] by (simp only: wide_mul_u128_value [OF w])
  then have "div_u256_by_u128 hi lo c = word_of_nat (unat a * unat b div unat c)"
    by (simp add: unat_eq_iff unat_of_nat)
  with None w assms(1) show ?thesis
    by (simp add: mul_div_u128_def)
qed

theorem mul_div_u128_exact_witness:
  "(7 :: u128) \<noteq> 0 \<and> unat (7 :: u128) \<le> 2 ^ 64 \<and>
   mul_div_u128 (2 ^ 127) 5 7 = Some (word_of_nat (2 ^ 127 * 5 div 7))"
  using mul_div_u128_exact [of 7 "2 ^ 127" 5] by simp

text \<open>Above \<open>2^64\<close> the division is wrong, although the quotient fits. The remainder of the first
  limb is shifted left by 64 bits in a 128-bit register and loses its high bits: multiplying and
  dividing \<open>10^18\<close> by the Q96 unit \<open>2^96\<close> yields \<open>2808348672\<close>. (The comment of the function
  promises the exact floor, and \<open>None\<close> only for a zero divisor.)\<close>

theorem mul_div_u128_drops_high_bits:
  "mul_div_u128 (10 ^ 18) (2 ^ 96) (2 ^ 96) = Some 2808348672
   \<and> unat (10 ^ 18 :: u128) * unat (2 ^ 96 :: u128) div unat (2 ^ 96 :: u128) = 10 ^ 18"
  by (simp add: mul_div_u128_def checked_mul_def wide_mul_u128_def overflowing_add_def
      div_u256_by_u128_def hi64_def lo64_def shl64_def)

section \<open>The liquidation detector's \<open>mul_div\<close>\<close>

definition liq_wide_mul :: "u128 \<Rightarrow> u128 \<Rightarrow> u128 \<times> u128" where
  "liq_wide_mul a b =
    (let a_hi = hi64 a; a_lo = lo64 a; b_hi = hi64 b; b_lo = lo64 b;
         ll = a_lo * b_lo; lh = a_lo * b_hi; hl = a_hi * b_lo; hh = a_hi * b_hi;
         mid = hi64 ll + lo64 lh + lo64 hl;
         lo = lo64 ll OR shl64 (lo64 mid);
         hi = hh + hi64 lh + hi64 hl + hi64 mid
     in (hi, lo))"

text \<open>The loop \<^verbatim>\<open>for i in (0..256).rev()\<close>, most significant bit first; the argument is the number
  of bits still to process and the result the pair of quotient words.\<close>

fun liq_long_div :: "nat \<Rightarrow> u128 \<Rightarrow> u128 \<Rightarrow> u128 \<Rightarrow> u128 \<Rightarrow> u128 \<Rightarrow> u128 \<Rightarrow> u128 \<times> u128" where
  "liq_long_div 0 hi lo c rem quot_hi quot_lo = (quot_hi, quot_lo)"
| "liq_long_div (Suc i) hi lo c rem quot_hi quot_lo =
    (let rem = push_bit 1 rem OR
           (if 128 \<le> i then drop_bit (i - 128) hi AND 1 else drop_bit i lo AND 1)
     in if c \<le> rem
        then if 128 \<le> i
             then liq_long_div i hi lo c (rem - c) (quot_hi OR push_bit (i - 128) 1) quot_lo
             else liq_long_div i hi lo c (rem - c) quot_hi (quot_lo OR push_bit i 1)
        else liq_long_div i hi lo c rem quot_hi quot_lo)"

definition liq_mul_div_u128 :: "u128 \<Rightarrow> u128 \<Rightarrow> u128 \<Rightarrow> u128 option" where
  "liq_mul_div_u128 a b c =
    (if c = 0 then None
     else
       let (hi, lo) = liq_wide_mul a b;
           (quot_hi, quot_lo) = liq_long_div 256 hi lo c 0 0 0
       in if quot_hi \<noteq> 0 then None else Some quot_lo)"

lemma liq_schoolbook_nat:
  fixes ll lh hl hh B :: nat
  defines "m \<equiv> ll div B + lh mod B + hl mod B"
  shows "(hh + lh div B + hl div B + m div B) * (B * B) + (m mod B * B + ll mod B)
    = hh * (B * B) + (lh + hl) * B + ll"
proof -
  have split: "x = x div B * B + x mod B" for x
    by simp
  have "(hh + lh div B + hl div B + m div B) * (B * B) + (m mod B * B + ll mod B)
      = hh * (B * B) + (lh div B * B + hl div B * B + (m div B * B + m mod B)) * B + ll mod B"
    by (simp only: algebra_simps)
  also have "m div B * B + m mod B = m"
    by (simp only: split [symmetric])
  also have "hh * (B * B) + (lh div B * B + hl div B * B + m) * B + ll mod B
      = hh * (B * B) + ((lh div B * B + lh mod B) + (hl div B * B + hl mod B)) * B
        + (ll div B * B + ll mod B)"
    unfolding m_def by (simp only: algebra_simps)
  finally show ?thesis
    by (simp only: split [symmetric])
qed

lemma liq_wide_mul_value:
  assumes "liq_wide_mul a b = (hi, lo)"
  shows "unat hi * 2 ^ 128 + unat lo = unat a * unat b"
proof -
  let ?B = "2 ^ 64 :: nat"
  define ll lh hl hh where p: "ll = lo64 a * lo64 b" "lh = lo64 a * hi64 b"
    "hl = hi64 a * lo64 b" "hh = hi64 a * hi64 b"
  define mid where "mid = hi64 ll + lo64 lh + lo64 hl"
  define n where "n = unat hh + unat lh div ?B + unat hl div ?B + unat mid div ?B"
  note bounds = unat_half_bounds [of a] unat_half_bounds [of b]
  have v: "unat ll = unat a mod ?B * (unat b mod ?B)" "unat lh = unat a mod ?B * (unat b div ?B)"
    "unat hl = unat a div ?B * (unat b mod ?B)" "unat hh = unat a div ?B * (unat b div ?B)"
    unfolding p using limb_product_exact(1) bounds by (simp_all only: unat_hi64 unat_lo64)
  have B2: "?B * ?B = 2 ^ 128"
    by simp
  have "unat (hi64 ll + lo64 lh) = unat ll div ?B + unat lh mod ?B"
    using unat_half_bounds [of ll] unat_half_bounds [of lh]
    by (subst unat_add_exact) (simp_all only: unat_hi64 unat_lo64, simp)
  then have mid: "unat mid = unat ll div ?B + unat lh mod ?B + unat hl mod ?B"
    unfolding mid_def using unat_half_bounds [of ll] unat_half_bounds [of lh] unat_half_bounds [of hl]
    by (subst unat_add_exact) (simp_all only: unat_hi64 unat_lo64, simp)
  have hl: "lo = shl64 (lo64 mid) OR lo64 ll" "hi = hh + hi64 lh + hi64 hl + hi64 mid"
    using assms by (simp_all add: liq_wide_mul_def Let_def p mid_def or.commute)
  have lo: "unat lo = unat mid mod ?B * ?B + unat ll mod ?B"
    unfolding hl(1) using unat_half_bounds [of ll] unat_half_bounds [of mid]
    by (subst unat_join64) (simp_all only: unat_lo64, simp)
  have total: "n * (?B * ?B) + unat lo = unat a * unat b"
    unfolding n_def lo mid by (simp only: liq_schoolbook_nat v mult_halves_nat)
  have "unat a * unat b < (?B * ?B) * (?B * ?B)"
    using unat_bound [of a] unat_bound [of b] by (intro mult_strict_mono) simp_all
  with total have small: "n < 2 ^ 128"
    by (metis B2 add_lessD1 mult_less_cancel2)
  have h: "hi64 x = word_of_nat (unat x div ?B)" for x
    by (simp only: unat_hi64 [symmetric]) simp
  have "hi = word_of_nat n"
    unfolding hl(2) n_def h by simp
  then have "unat hi = n"
    using small by (simp add: unat_word_of_nat_small)
  with total show ?thesis
    by (simp only: B2)
qed

text \<open>The bits of a two-word number, and the two ways the loop writes them.\<close>

abbreviation val2 :: "u128 \<Rightarrow> u128 \<Rightarrow> nat" where
  "val2 h l \<equiv> unat h * 2 ^ 128 + unat l"

lemma bit_word_odd: "bit w n \<longleftrightarrow> odd (unat w div 2 ^ n)" for w :: "'a::len word"
proof -
  have "bit w n \<longleftrightarrow> bit (unat w) n"
    by (auto simp: bit_unsigned_iff dest: bit_imp_le_length)
  then show ?thesis
    by (simp add: bit_iff_odd)
qed

lemma pair_div_high:
  fixes h l :: nat
  assumes "l < 2 ^ K" "K \<le> i"
  shows "(h * 2 ^ K + l) div 2 ^ i = h div 2 ^ (i - K)"
proof -
  have "(2 :: nat) ^ i = 2 ^ K * 2 ^ (i - K)"
    using assms(2) by (simp flip: power_add)
  then have "(h * 2 ^ K + l) div 2 ^ i = (h * 2 ^ K + l) div 2 ^ K div 2 ^ (i - K)"
    by (simp only: div_mult2_eq)
  with assms(1) show ?thesis
    by simp
qed

lemma pair_odd_low:
  fixes h l :: nat
  assumes "i < K"
  shows "odd ((h * 2 ^ K + l) div 2 ^ i) \<longleftrightarrow> odd (l div 2 ^ i)"
proof -
  have "(2 :: nat) ^ K = 2 ^ (K - i) * 2 ^ i"
    using assms by (simp flip: power_add)
  then have "h * 2 ^ K + l = (h * 2 ^ (K - i)) * 2 ^ i + l"
    by (simp only: mult.assoc)
  then have "(h * 2 ^ K + l) div 2 ^ i = h * 2 ^ (K - i) + l div 2 ^ i"
    by (simp only:) simp
  with assms show ?thesis
    by simp
qed

lemma val2_bit: "(if 128 \<le> i then bit h (i - 128) else bit l i) \<longleftrightarrow> odd (val2 h l div 2 ^ i)"
proof (cases "128 \<le> i")
  case True
  have "unat l < 2 ^ 128"
    using unat_bound [of l] by simp
  from pair_div_high [OF this True] True show ?thesis
    by (simp only: bit_word_odd if_True)
next
  case False
  then have "i < 128"
    by simp
  from pair_odd_low [OF this] False show ?thesis
    by (simp only: bit_word_odd if_False)
qed

lemma unat_set_bit:
  fixes w :: u128
  assumes "\<not> bit w k" "k < 128"
  shows "unat (w OR push_bit k 1) = unat w + 2 ^ k"
proof -
  have "unat (push_bit k (1 :: u128)) = 2 ^ k"
    using assms(2) power_strict_increasing [of k 128 "2 :: nat"]
    by (subst unsigned_push_bit_eq) (simp add: push_bit_eq_mult take_bit_eq_mod)
  moreover have "\<not> (bit w n \<and> bit (push_bit k (1 :: u128)) n)" for n
    using assms(1) by (simp only: bit_push_bit_iff bit_1_iff) auto
  ultimately show ?thesis
    by (simp add: unat_or_disjoint)
qed

lemma unat_shift_in:
  fixes rem :: u128
  assumes "unat rem < 2 ^ 127"
  shows "unat (push_bit 1 rem OR of_bool b) = 2 * unat rem + of_bool b"
proof -
  have "unat (push_bit 1 rem) = 2 * unat rem"
    using assms by (subst unsigned_push_bit_eq) (simp add: push_bit_eq_mult take_bit_eq_mod)
  moreover have "\<not> (bit (push_bit 1 rem) n \<and> bit (of_bool b :: u128) n)" for n
    by (simp only: bit_push_bit_iff bit_of_bool_iff) auto
  ultimately show ?thesis
    by (simp add: unat_or_disjoint)
qed

lemma loop_bit:
  "(if 128 \<le> i then drop_bit (i - 128) hi AND 1 else drop_bit i lo AND 1)
    = (of_bool (odd (val2 hi lo div 2 ^ i)) :: u128)"
  by (simp only: val2_bit [symmetric]) (simp add: bit_iff_and_drop_bit_eq_1 and_one_eq odd_iff_mod_2_eq_one)

text \<open>One step of long division on the natural numbers.\<close>

lemma long_div_step_nat:
  fixes K M R c :: nat
  assumes c: "0 < c" and K: "K = 2 * M + of_bool b" and R: "R = 2 * (M mod c) + of_bool b"
  shows "K mod c = (if c \<le> R then R - c else R)"
    and "K div c = 2 * (M div c) + of_bool (c \<le> R)"
proof -
  have "K = 2 * (c * (M div c) + M mod c) + of_bool b"
    unfolding K by simp
  also have "\<dots> = c * (2 * (M div c)) + R"
    unfolding R by (simp only: algebra_simps)
  finally have e: "K = c * (2 * (M div c)) + R" .
  have "M mod c < c"
    using c by simp
  then have R2: "R < 2 * c"
    unfolding R by (cases b) simp_all
  show "K mod c = (if c \<le> R then R - c else R)"
    unfolding e using R2 c by (cases "c \<le> R") (simp_all add: le_mod_geq)
  show "K div c = 2 * (M div c) + of_bool (c \<le> R)"
    unfolding e using R2 c by (simp add: overflow_div)
qed

lemma div_power_Suc: "(N :: nat) div 2 ^ i = 2 * (N div 2 ^ Suc i) + of_bool (odd (N div 2 ^ i))"
  by (simp add: div_mult2_eq mult.commute [of 2] mod_2_eq_odd [symmetric])

text \<open>Setting quotient bit \<open>i\<close>, in the word the loop chooses, adds \<open>2^i\<close> to the quotient.\<close>

lemma val2_set_bit:
  assumes "\<not> odd (val2 qh ql div 2 ^ i)" "i < 256"
  shows "128 \<le> i \<Longrightarrow> val2 (qh OR push_bit (i - 128) 1) ql = val2 qh ql + 2 ^ i"
    and "\<not> 128 \<le> i \<Longrightarrow> val2 qh (ql OR push_bit i 1) = val2 qh ql + 2 ^ i"
proof -
  have clear: "\<not> (if 128 \<le> i then bit qh (i - 128) else bit ql i)"
    using assms(1) by (simp only: val2_bit not_False_eq_True)
  show "val2 (qh OR push_bit (i - 128) 1) ql = val2 qh ql + 2 ^ i" if "128 \<le> i"
  proof -
    have "unat (qh OR push_bit (i - 128) 1) = unat qh + 2 ^ (i - 128)"
      using clear that assms(2) by (intro unat_set_bit) simp_all
    moreover have "(2 :: nat) ^ (i - 128) * 2 ^ 128 = 2 ^ i"
      using that by (simp only: power_add [symmetric] le_add_diff_inverse2)
    ultimately show ?thesis
      by (simp only: add_mult_distrib)
  qed
  show "val2 qh (ql OR push_bit i 1) = val2 qh ql + 2 ^ i" if "\<not> 128 \<le> i"
    using clear that by (subst unat_set_bit) simp_all
qed

lemma liq_long_div_value:
  assumes c: "c \<noteq> 0" "unat c \<le> 2 ^ 127" and N: "N = val2 hi lo"
    and "n \<le> 256"
    and "unat rem = N div 2 ^ n mod unat c"
    and "val2 qh ql = N div 2 ^ n div unat c * 2 ^ n"
    and "liq_long_div n hi lo c rem qh ql = (qh', ql')"
  shows "val2 qh' ql' = N div unat c"
  using assms(4-7)
proof (induction n arbitrary: rem qh ql)
  case 0
  then show ?case by simp
next
  case (Suc i)
  let ?c = "unat c"
  define R where "R = 2 * unat rem + of_bool (odd (N div 2 ^ i))"
  define r where "r = push_bit 1 rem OR (of_bool (odd (N div 2 ^ i)) :: u128)"
  have cpos: "0 < ?c"
    using c(1) by (simp add: unat_eq_iff)
  note step = long_div_step_nat [OF cpos div_power_Suc R_def [unfolded Suc.prems(2)]]
  have "unat rem < ?c"
    using Suc.prems(2) cpos by simp
  then have r: "unat r = R"
    unfolding r_def R_def using c(2) by (intro unat_shift_in) simp
  have le: "c \<le> r \<longleftrightarrow> ?c \<le> R"
    unfolding r [symmetric] by (rule word_le_nat_alt)
  have q2: "val2 qh ql = 2 * (N div 2 ^ Suc i div ?c) * 2 ^ i"
    using Suc.prems(3) by simp
  then have clear: "\<not> odd (val2 qh ql div 2 ^ i)"
    by (simp only:) simp
  have i: "i < 256"
    using Suc.prems(1) by simp
  obtain qh2 ql2 where eq: "liq_long_div (Suc i) hi lo c rem qh ql
      = liq_long_div i hi lo c (if c \<le> r then r - c else r) qh2 ql2"
    and v: "val2 qh2 ql2 = val2 qh ql + (if c \<le> r then 2 ^ i else 0)"
    using liq_long_div.simps(2) [of i hi lo c rem qh ql, folded N r_def, unfolded Let_def loop_bit, folded N r_def]
      val2_set_bit [OF clear i]
    by (cases "c \<le> r"; cases "128 \<le> i") simp_all
  have rem': "unat (if c \<le> r then r - c else r) = N div 2 ^ i mod ?c"
    using step(1) le by (cases "c \<le> r") (simp_all only: unat_sub_exact r if_True if_False)
  have quot': "val2 qh ql + (if c \<le> r then 2 ^ i else 0) = N div 2 ^ i div ?c * 2 ^ i"
    using step(2) le by (simp only: q2 add_mult_distrib) simp
  show ?case
    using Suc.IH [of "if c \<le> r then r - c else r" qh2 ql2] i rem' quot' v eq Suc.prems(4) by simp
qed

lemma liq_mul_div_u128_value:
  assumes "unat c \<le> 2 ^ 127"
  shows "liq_mul_div_u128 a b c =
    (if c = 0 \<or> 2 ^ 128 \<le> unat a * unat b div unat c then None
     else Some (word_of_nat (unat a * unat b div unat c)))"
proof (cases "c = 0")
  case False
  obtain hi lo where w: "liq_wide_mul a b = (hi, lo)"
    by fastforce
  obtain qh ql where d: "liq_long_div 256 hi lo c 0 0 0 = (qh, ql)"
    by fastforce
  have small: "val2 hi lo div 2 ^ 256 = 0"
    using unat_bound [of hi] unat_bound [of lo] by (simp add: div_eq_0_iff)
  then have "val2 qh ql = val2 hi lo div unat c"
    by (intro liq_long_div_value [OF False assms refl order_refl _ _ d]) simp_all
  then have q: "unat a * unat b div unat c = val2 qh ql"
    by (simp only: liq_wide_mul_value [OF w])
  have "qh = 0 \<longleftrightarrow> val2 qh ql < 2 ^ 128"
    using unat_bound [of ql] by (auto simp: unat_eq_iff)
  with False w d q show ?thesis
    by (auto simp: liq_mul_div_u128_def not_le)
qed (simp add: liq_mul_div_u128_def)

text \<open>\<open>mul_div_u128\<close> of the liquidation detector is exact for divisors up to \<open>2^127\<close>: \<open>None\<close>
  for a zero divisor or a quotient that does not fit in 128 bits, and the floor of \<open>a * b / c\<close>
  otherwise. The 256 rounds of its bit-serial loop implement long division.\<close>

theorem liq_mul_div_u128_exact:
  assumes "unat c \<le> 2 ^ 127"
  shows "liq_mul_div_u128 a b c =
    (if c = 0 \<or> 2 ^ 128 \<le> unat a * unat b div unat c then None
     else Some (word_of_nat (unat a * unat b div unat c)))"
  using assms by (rule liq_mul_div_u128_value)

theorem liq_mul_div_u128_exact_witness:
  "unat (2000 * 10 ^ 18 :: u128) \<le> 2 ^ 127 \<and>
   liq_mul_div_u128 (525 * 10 ^ 18) (10 ^ 18) (2000 * 10 ^ 18) = Some 262500000000000000"
  using liq_mul_div_u128_exact [of "2000 * 10 ^ 18" "525 * 10 ^ 18" "10 ^ 18"] by simp

end
