(* ===== verification/Mev_Types.thy ===== *)
theory Mev_Types
  imports Prelude
begin

text \<open>
  The types that flow through the pipeline (\<^verbatim>\<open>core/src/types.rs\<close>):
  \<open>PendingTx\<close>, \<open>SwapInfo\<close>, \<open>Opportunity\<close>, \<open>SimulationResult\<close>, \<open>Bundle\<close> and the cached
  \<open>PoolState\<close>, with the gas estimator of an opportunity. Record fields carry a short prefix,
  because field names of HOL records are global.
\<close>

section \<open>Enumerations\<close>

datatype OpportunityType = Arbitrage | Backrun | Liquidation

datatype DexType = UniswapV2 | UniswapV3 | SushiSwap | Curve | Balancer

section \<open>Transactions and swaps\<close>

record PendingTx =
  tx_hash :: bytes32
  tx_from :: address
  tx_to :: "address option"
  tx_value :: u128
  tx_gas_price :: u128
  tx_gas_limit :: u64
  tx_input :: bytes
  tx_nonce :: u64
  tx_timestamp :: u64

record SwapInfo =
  si_dex :: DexType
  si_token_in :: string
  si_token_out :: string
  si_amount_in :: u128
  si_amount_out_min :: u128
  si_fee :: u32

record Opportunity =
  opp_type :: OpportunityType
  opp_token_in :: string
  opp_token_out :: string
  opp_amount_in :: u128
  opp_expected_profit :: u128
  opp_gas_estimate :: u64
  opp_deadline :: u64
  opp_path :: "DexType list"
  opp_pool_addresses :: "address list"
  opp_pool_fees :: "u32 list"
  opp_target_tx :: "bytes32 option"

section \<open>Simulation results and bundles\<close>

record StateChange =
  sc_address :: address
  sc_slot :: bytes32
  sc_old_value :: bytes32
  sc_new_value :: bytes32

record SimulationResult =
  sr_success :: bool
  sr_profit :: i128
  sr_gas_used :: u64
  sr_error :: "string option"
  sr_state_changes :: "StateChange list"

record BundleTransaction =
  bt_to :: string
  bt_value :: u128
  bt_gas_limit :: u64
  bt_gas_price :: "u128 option"
  bt_max_fee_per_gas :: "u128 option"
  bt_max_priority_fee_per_gas :: "u128 option"
  bt_data :: bytes
  bt_nonce :: "u64 option"

record Bundle =
  bu_transactions :: "BundleTransaction list"
  bu_target_block :: "u64 option"
  bu_max_block_number :: "u64 option"
  bu_min_timestamp :: "u64 option"
  bu_max_timestamp :: "u64 option"
  bu_reverting_tx_hashes :: "bytes32 list"

record BundleResult =
  br_bundle_hash :: bytes32
  br_submitted :: bool
  br_included_block :: "u64 option"
  br_error :: "string option"

section \<open>Pool state\<close>

type_synonym tick_data = "i32 \<times> u128 \<times> i128"

record PoolState =
  ps_address :: address
  ps_token0 :: address
  ps_token1 :: address
  ps_reserve0 :: u128
  ps_reserve1 :: u128
  ps_fee :: u32
  ps_sqrt_price_x96 :: u128
  ps_liquidity :: u128
  ps_is_v3 :: bool
  ps_current_tick :: i32
  ps_tick_spacing :: i32
  ps_ticks :: "tick_data list"

text \<open>A plain constant-product pool, for concrete examples.\<close>

definition v2_pool :: "address \<Rightarrow> address \<Rightarrow> address \<Rightarrow> u128 \<Rightarrow> u128 \<Rightarrow> u32 \<Rightarrow> PoolState" where
  "v2_pool a t0 t1 r0 r1 fee =
    \<lparr>ps_address = a, ps_token0 = t0, ps_token1 = t1, ps_reserve0 = r0, ps_reserve1 = r1, ps_fee = fee,
     ps_sqrt_price_x96 = 0, ps_liquidity = 0, ps_is_v3 = False, ps_current_tick = 0,
     ps_tick_spacing = 0, ps_ticks = []\<rparr>"

section \<open>Gas estimation\<close>

definition BASE_TX_GAS :: u64 where
  "BASE_TX_GAS = 21000"

definition FLASH_LOAN_GAS :: u64 where
  "FLASH_LOAN_GAS = 80000"

fun dex_hop_gas :: "DexType \<Rightarrow> u64" where
  "dex_hop_gas UniswapV2 = 120000"
| "dex_hop_gas SushiSwap = 120000"
| "dex_hop_gas UniswapV3 = 150000"
| "dex_hop_gas Curve = 200000"
| "dex_hop_gas Balancer = 180000"

definition estimate_gas :: "OpportunityType \<Rightarrow> DexType list \<Rightarrow> u64" where
  "estimate_gas kind path =
     (let hops = sum_list (map dex_hop_gas path);
          flash = (case kind of Arbitrage \<Rightarrow> FLASH_LOAN_GAS
                   | Liquidation \<Rightarrow> FLASH_LOAN_GAS
                   | Backrun \<Rightarrow> 0)
      in BASE_TX_GAS + flash + hops)"

lemma dex_hop_gas_le: "unat (dex_hop_gas d) \<le> 200000"
  by (cases d) simp_all

lemma dex_hop_gas_pos: "0 < unat (dex_hop_gas d)"
  by (cases d) simp_all

lemma hop_sum_le: "(\<Sum>d\<leftarrow>path. unat (dex_hop_gas d)) \<le> 200000 * length path"
  using dex_hop_gas_le by (induction path) (simp_all add: add_mono)

text \<open>The wrapping sum of the hops is their exact sum for any path that fits in memory many
  times over.\<close>

lemma unat_hop_sum:
  assumes "length path \<le> 2 ^ 40"
  shows "unat (sum_list (map dex_hop_gas path)) = (\<Sum>d\<leftarrow>path. unat (dex_hop_gas d))"
  using assms
proof (induction path)
  case (Cons d path)
  have "(\<Sum>d\<leftarrow>path. unat (dex_hop_gas d)) \<le> 200000 * length path"
    by (rule hop_sum_le)
  moreover have "unat (dex_hop_gas d) \<le> 200000"
    by (rule dex_hop_gas_le)
  ultimately have "unat (dex_hop_gas d) + unat (sum_list (map dex_hop_gas path)) < 2 ^ LENGTH(64)"
    using Cons by simp
  with Cons show ?case
    by (simp add: unat_add_exact)
qed simp

text \<open>The gas estimate is exact. For every path of at most \<open>2^40\<close> hops the 64-bit result is
  the intrinsic transaction gas, plus the flash-loan overhead for arbitrages and liquidations
  (none for backruns), plus the per-hop cost of each DEX of the path: no addition wraps.\<close>

theorem estimate_gas_exact:
  assumes "length path \<le> 2 ^ 40"
  shows "unat (estimate_gas k path)
    = 21000 + (if k = Backrun then 0 else 80000) + (\<Sum>d\<leftarrow>path. unat (dex_hop_gas d))"
proof -
  let ?s = "sum_list (map dex_hop_gas path)"
  have s: "unat ?s = (\<Sum>d\<leftarrow>path. unat (dex_hop_gas d))"
    by (rule unat_hop_sum [OF assms])
  then have "unat ?s \<le> 200000 * 2 ^ 40"
    using hop_sum_le [of path] assms by linarith
  then have "unat (101000 + ?s) = 101000 + unat ?s" "unat (21000 + ?s) = 21000 + unat ?s"
    by (subst unat_add_exact; simp)+
  with s show ?thesis
    by (cases k) (simp_all add: estimate_gas_def BASE_TX_GAS_def FLASH_LOAN_GAS_def)
qed

theorem estimate_gas_exact_witness:
  "length [UniswapV2, UniswapV3, SushiSwap] \<le> 2 ^ 40 \<and>
   unat (estimate_gas Arbitrage [UniswapV2, UniswapV3, SushiSwap]) = 491000"
  using estimate_gas_exact [of "[UniswapV2, UniswapV3, SushiSwap]" Arbitrage] by simp

end
