(* ===== verification/Amm_Math.thy ===== *)
theory Amm_Math
  imports Wide_Arith Mev_Types
begin

text \<open>
  Stage 1 of the simulator: the AMM arithmetic of \<^verbatim>\<open>core/src/simulator/mod.rs\<close>
  (constant product, concentrated liquidity on virtual reserves, multi-tick traversal). The
  contract of a quoting function is the locale \<open>swap_curve\<close>; every quoting function of the
  module is an instance.
\<close>

section \<open>Constant product\<close>

definition constant_product_swap :: "u128 \<Rightarrow> u128 \<Rightarrow> u128 \<Rightarrow> u128 \<Rightarrow> u128" where
  "constant_product_swap amount_in reserve_in reserve_out fee_bps =
    (if reserve_in = 0 \<or> reserve_out = 0 \<or> amount_in = 0 \<or> 10000 \<le> fee_bps then 0
     else case checked_mul amount_in (10000 - fee_bps) of
       None \<Rightarrow> 0
     | Some amount_in_with_fee \<Rightarrow>
         (case checked_mul amount_in_with_fee reserve_out of
            None \<Rightarrow> 0
          | Some numerator \<Rightarrow>
              (case checked_mul reserve_in 10000 of
                 None \<Rightarrow> 0
               | Some v \<Rightarrow>
                   (case checked_add v amount_in_with_fee of
                      None \<Rightarrow> 0
                    | Some denominator \<Rightarrow> if denominator = 0 then 0 else numerator div denominator))))"

definition constant_product_swap_no_fee :: "u128 \<Rightarrow> u128 \<Rightarrow> u128 \<Rightarrow> u128" where
  "constant_product_swap_no_fee amount_in reserve_in reserve_out =
    (if reserve_in = 0 \<or> reserve_out = 0 \<or> amount_in = 0 then 0
     else case checked_mul amount_in reserve_out of
       None \<Rightarrow> 0
     | Some numerator \<Rightarrow>
         (case checked_add reserve_in amount_in of
            None \<Rightarrow> 0
          | Some denominator \<Rightarrow> if denominator = 0 then 0 else numerator div denominator))"

section \<open>Concentrated liquidity\<close>

definition Q96 :: u128 where
  "Q96 = push_bit 96 1"

definition v3_virtual_reserves :: "u128 \<Rightarrow> u128 \<Rightarrow> u128 \<times> u128" where
  "v3_virtual_reserves liquidity sqrt_price_x96 =
    (let virtual_x = (case mul_div_u128 liquidity Q96 sqrt_price_x96 of Some v \<Rightarrow> v | None \<Rightarrow> 0);
         virtual_y = (case mul_div_u128 liquidity sqrt_price_x96 Q96 of Some v \<Rightarrow> v | None \<Rightarrow> 0)
     in (virtual_x, virtual_y))"

definition concentrated_liquidity_swap ::
  "u128 \<Rightarrow> u128 \<Rightarrow> u128 \<Rightarrow> u128 \<Rightarrow> u128 \<Rightarrow> u128 \<Rightarrow> bool \<Rightarrow> u128" where
  "concentrated_liquidity_swap amount_in sqrt_price_x96 liquidity reserve_in reserve_out fee_bps zero_for_one =
    (if amount_in = 0 \<or> 10000 \<le> fee_bps then 0
     else if sqrt_price_x96 = 0 \<or> liquidity = 0
       then constant_product_swap amount_in reserve_in reserve_out fee_bps
     else case checked_mul amount_in (10000 - fee_bps) of
       None \<Rightarrow> 0
     | Some v \<Rightarrow>
         let amount_in_after_fee = v div 10000;
             (virtual_x, virtual_y) = v3_virtual_reserves liquidity sqrt_price_x96
         in if virtual_x = 0 \<or> virtual_y = 0
            then constant_product_swap amount_in reserve_in reserve_out fee_bps
            else if zero_for_one
                 then constant_product_swap_no_fee amount_in_after_fee virtual_x virtual_y
                 else constant_product_swap_no_fee amount_in_after_fee virtual_y virtual_x)"

section \<open>Multi-tick traversal\<close>

definition MAX_TICK_CROSSINGS :: nat where
  "MAX_TICK_CROSSINGS = 20"

text \<open>The next initialised tick in the direction of the swap; tick indices are signed.\<close>

definition next_tick :: "tick_data list \<Rightarrow> bool \<Rightarrow> i32 \<Rightarrow> tick_data option" where
  "next_tick ticks zero_for_one tick =
    (if zero_for_one
     then max_by_key (\<lambda>(t, _, _). sint t) (filter (\<lambda>(t, _, _). sint t \<le> sint tick) ticks)
     else min_by_key (\<lambda>(t, _, _). sint t) (filter (\<lambda>(t, _, _). sint tick < sint t) ticks))"

text \<open>The input that moves the price from the current square root to the boundary; \<open>None\<close> when the
  boundary is on the wrong side (the loop stops).\<close>

definition tick_max_input :: "bool \<Rightarrow> u128 \<Rightarrow> u128 \<Rightarrow> u128 \<Rightarrow> u128 \<Rightarrow> u128 option" where
  "tick_max_input zero_for_one virtual_x virtual_y current_sqrt boundary_sqrt =
    (if zero_for_one
     then if current_sqrt \<le> boundary_sqrt then None
          else Some (case mul_div_u128 virtual_x (current_sqrt - boundary_sqrt) (max boundary_sqrt 1) of
                       Some v \<Rightarrow> v | None \<Rightarrow> - 1)
     else if boundary_sqrt \<le> current_sqrt then None
          else Some (case mul_div_u128 virtual_y (boundary_sqrt - current_sqrt) (max current_sqrt 1) of
                       Some v \<Rightarrow> v | None \<Rightarrow> - 1))"

text \<open>Crossing a tick changes the active liquidity by the signed \<open>liquidity_net\<close>, negated when the
  price moves down, saturating at both ends.\<close>

definition cross_liquidity :: "bool \<Rightarrow> u128 \<Rightarrow> i128 \<Rightarrow> u128" where
  "cross_liquidity zero_for_one current_liq boundary_liq_net =
    (let liq_change = (if zero_for_one then - boundary_liq_net else boundary_liq_net)
     in if 0 \<le> sint liq_change then saturating_add current_liq liq_change
        else saturating_sub current_liq (unsigned_abs liq_change))"

text \<open>The \<^verbatim>\<open>while\<close> loop. Its first argument is the number of crossings still allowed, so the loop
  ends after at most that many rounds.\<close>

fun multi_tick_loop ::
  "nat \<Rightarrow> tick_data list \<Rightarrow> bool \<Rightarrow> u128 \<Rightarrow> u128 \<Rightarrow> u128 \<Rightarrow> u128 \<Rightarrow> i32 \<Rightarrow> u128" where
  "multi_tick_loop 0 ticks zero_for_one remaining total_out current_sqrt current_liq tick = total_out"
| "multi_tick_loop (Suc n) ticks zero_for_one remaining total_out current_sqrt current_liq tick =
    (if remaining = 0 then total_out
     else
       let (virtual_x, virtual_y) = v3_virtual_reserves current_liq current_sqrt;
           (ri, ro) = (if zero_for_one then (virtual_x, virtual_y) else (virtual_y, virtual_x))
       in case next_tick ticks zero_for_one tick of
            None \<Rightarrow> total_out + constant_product_swap_no_fee remaining ri ro
          | Some (t, sqrt_at_tick, boundary_liq_net) \<Rightarrow>
              let boundary_sqrt = max sqrt_at_tick 1
              in if virtual_x = 0 \<or> virtual_y = 0 then total_out
                 else case tick_max_input zero_for_one virtual_x virtual_y current_sqrt boundary_sqrt of
                   None \<Rightarrow> total_out
                 | Some max_input \<Rightarrow>
                     if remaining \<le> max_input
                     then total_out + constant_product_swap_no_fee remaining ri ro
                     else
                       let total_out' = total_out + constant_product_swap_no_fee max_input ri ro;
                           remaining' = saturating_sub remaining max_input;
                           current_liq' = cross_liquidity zero_for_one current_liq boundary_liq_net;
                           tick' = (if zero_for_one then t - 1 else t)
                       in if current_liq' = 0 then total_out'
                          else multi_tick_loop n ticks zero_for_one remaining' total_out'
                                 boundary_sqrt current_liq' tick')"

definition multi_tick_swap ::
  "u128 \<Rightarrow> u128 \<Rightarrow> u128 \<Rightarrow> i32 \<Rightarrow> tick_data list \<Rightarrow> u128 \<Rightarrow> bool \<Rightarrow> u128" where
  "multi_tick_swap amount_in sqrt_price_x96 liquidity current_tick ticks fee_bps zero_for_one =
    (if amount_in = 0 \<or> 10000 \<le> fee_bps \<or> liquidity = 0 \<or> sqrt_price_x96 = 0 then 0
     else case checked_mul amount_in (10000 - fee_bps) of
       None \<Rightarrow> 0
     | Some v \<Rightarrow>
         multi_tick_loop MAX_TICK_CROSSINGS ticks zero_for_one (v div 10000) 0
           sqrt_price_x96 liquidity current_tick)"

section \<open>The contract of a quoting function\<close>

text \<open>\<open>swap_curve out ri ro\<close>: the quote never beats the fee-free constant-product curve through the
  reserves \<open>ri\<close> and \<open>ro\<close>. Everything the pipeline relies on (no pool is drained, the
  product of the reserves never falls, the zero quote) follows from that one law.\<close>

locale swap_curve =
  fixes out :: "'a::len word \<Rightarrow> 'a word" and ri ro :: nat
  assumes fair: "unat (out a) * (ri + unat a) \<le> unat a * ro"
begin

lemma out_le_reserve:
  assumes "0 < ri + unat a"
  shows "unat (out a) \<le> ro"
proof -
  have "unat (out a) * (ri + unat a) \<le> ro * (ri + unat a)"
    using fair [of a] by (rule order_trans) (simp add: algebra_simps)
  then show ?thesis
    using assms by auto
qed

lemma out_less_reserve:
  assumes "0 < ri" "0 < ro"
  shows "unat (out a) < ro"
proof (rule ccontr)
  assume "\<not> unat (out a) < ro"
  then have "ro * (ri + unat a) \<le> unat (out a) * (ri + unat a)"
    by (intro mult_le_mono1) simp
  also have "\<dots> \<le> unat a * ro"
    by (rule fair)
  finally show False
    using assms by (simp add: algebra_simps)
qed

lemma product_never_falls:
  assumes "0 < ri + unat a"
  shows "ri * ro \<le> (ri + unat a) * (ro - unat (out a))"
proof -
  obtain r where r: "ro = unat (out a) + r"
    using out_le_reserve [OF assms] le_Suc_ex by blast
  have "unat (out a) * ri \<le> unat a * r"
    using fair [of a] unfolding r by (simp add: algebra_simps)
  then show ?thesis
    unfolding r by (simp add: algebra_simps)
qed

lemma out_zero: "0 < ri \<Longrightarrow> out 0 = 0"
  using fair [of 0] by (simp add: unat_eq_iff)

end

text \<open>Two opposite quotes over the same reserves: selling back what was bought never returns the
  input.\<close>

locale swap_round_trip = fwd: swap_curve out ri ro + bwd: swap_curve ret ro ri
  for out ret :: "'a::len word \<Rightarrow> 'a word" and ri ro :: nat
begin

lemma round_trip_loses:
  assumes "0 < ri" "0 < ro" "0 < unat a"
  shows "unat (ret (out a)) < unat a"
proof (rule ccontr)
  let ?b = "unat (out a)"
  assume "\<not> unat (ret (out a)) < unat a"
  then have "unat a * (ro + ?b) \<le> unat (ret (out a)) * (ro + ?b)"
    by (intro mult_le_mono1) simp
  also have "\<dots> \<le> ?b * ri"
    by (rule bwd.fair)
  finally have 1: "unat a * ro + unat a * ?b \<le> ?b * ri"
    by (simp add: algebra_simps)
  have 2: "?b * ri + unat a * ?b \<le> unat a * ro"
    using fwd.fair [of a] by (simp add: algebra_simps)
  from 1 2 have "unat a * ?b = 0" "unat a * ro \<le> ?b * ri"
    by linarith+
  then show False
    using assms by auto
qed

end

section \<open>The quoting functions are instances\<close>

text \<open>Extending the input of a curve keeps a quote below it.\<close>

lemma curve_extend:
  fixes q X t s y :: nat
  assumes "q * (X + t) \<le> t * y" "t \<le> s" "0 < X + t"
  shows "q * (X + s) \<le> s * y"
proof -
  have "q * (X + t) \<le> y * (X + t)"
    using assms(1) by (rule order_trans) (simp add: algebra_simps)
  then have "q \<le> y"
    using assms(3) by auto
  then have "q * (s - t) \<le> (s - t) * y"
    by (simp add: mult.commute)
  then have "q * (X + t) + q * (s - t) \<le> t * y + (s - t) * y"
    by (rule add_mono [OF assms(1)])
  moreover have "X + s = X + t + (s - t)" "s = t + (s - t)"
    using assms(2) by simp_all
  ultimately show ?thesis
    by (metis add_mult_distrib add_mult_distrib2)
qed

lemma floor_le: "(n :: nat) div d * d \<le> n"
  by (rule div_times_less_eq_dividend)

text \<open>The constant-product amount as a number: \<open>fc\<close> is the share of the input that is traded, in units of
  1 / 10000.\<close>

definition cp_quote :: "nat \<Rightarrow> nat \<Rightarrow> nat \<Rightarrow> nat \<Rightarrow> nat" where
  "cp_quote ri ro fc a = a * fc * ro div (ri * 10000 + a * fc)"

lemma cp_quote_le: "cp_quote ri ro fc a \<le> ro"
proof (cases "ri * 10000 + a * fc = 0")
  case False
  have "a * fc * ro \<le> (ri * 10000 + a * fc) * ro"
    by (intro mult_le_mono1) simp
  then have "cp_quote ri ro fc a \<le> (ri * 10000 + a * fc) * ro div (ri * 10000 + a * fc)"
    unfolding cp_quote_def by (rule div_le_mono)
  with False show ?thesis
    by simp
qed (simp add: cp_quote_def)

lemma cp_quote_fair:
  assumes "0 < ri" "fc \<le> 10000"
  shows "cp_quote ri ro fc a * (ri + a) \<le> a * ro"
proof -
  have "cp_quote ri ro fc a * (ri * 10000 + a * fc) \<le> a * fc * ro"
    unfolding cp_quote_def by (rule floor_le)
  then have "cp_quote ri ro fc a * (ri * 10000 + a * 10000) \<le> a * 10000 * ro"
    by (rule curve_extend) (use assms in simp_all)
  then show ?thesis
    by (simp add: algebra_simps)
qed

lemma unat_fee_factor: "\<not> 10000 \<le> fee \<Longrightarrow> unat (10000 - fee) = 10000 - unat fee" for fee :: u128
  by (subst unat_sub_exact) simp_all

lemma unat_u128_less: "unat (w :: u128) < 340282366920938463463374607431768211456"
  using unat_bound [of w] by simp

text \<open>The complete behaviour of the constant-product quote, on every branch.\<close>

lemma constant_product_swap_value:
  "unat (constant_product_swap dx x y fee) =
    (let d = unat dx * (10000 - unat fee) in
     if x = 0 \<or> y = 0 \<or> dx = 0 \<or> 10000 \<le> fee \<or> 2 ^ 128 \<le> d * unat y
        \<or> 2 ^ 128 \<le> unat x * 10000 + d
     then 0 else d * unat y div (unat x * 10000 + d))"
proof (cases "x = 0 \<or> y = 0 \<or> dx = 0 \<or> 10000 \<le> fee")
  case False
  have "1 \<le> unat y"
    using False by (simp add: unat_eq_iff Suc_le_eq)
  then have dy: "unat dx * (10000 - unat fee) \<le> unat dx * (10000 - unat fee) * unat y"
    by simp
  show ?thesis
    using False dy unfolding constant_product_swap_def Let_def
    by (auto simp: checked_simps unat_fee_factor unat_div unat_eq_iff word_le_nat_alt
        split: option.splits) (metis leD unat_u128_less)+
qed (auto simp: constant_product_swap_def)

lemma constant_product_swap_no_fee_value:
  "unat (constant_product_swap_no_fee dx x y) =
    (if x = 0 \<or> y = 0 \<or> dx = 0 \<or> 2 ^ 128 \<le> unat dx * unat y \<or> 2 ^ 128 \<le> unat x + unat dx
     then 0 else unat dx * unat y div (unat x + unat dx))"
  unfolding constant_product_swap_no_fee_def
  by (auto simp: checked_simps unat_div unat_eq_iff split: option.splits) (metis leD unat_u128_less)+

interpretation cps: swap_curve "\<lambda>a. constant_product_swap a x y fee" "unat x" "unat y"
  for x y fee
proof unfold_locales
  fix a :: u128
  define d where "d = unat a * (10000 - unat fee)"
  define q where "q = unat (constant_product_swap a x y fee)"
  show "q * (unat x + unat a) \<le> unat a * unat y"
  proof (cases "q = 0")
    case False
    then have q: "q = d * unat y div (unat x * 10000 + d)" and "x \<noteq> 0"
      unfolding q_def d_def
      by (auto simp: constant_product_swap_value Let_def split: if_splits)
    then have "q * (unat x * 10000 + d) \<le> d * unat y"
      by (simp only: floor_le)
    moreover have "d \<le> unat a * 10000"
      unfolding d_def by simp
    moreover have "0 < unat x * 10000 + d"
      using \<open>x \<noteq> 0\<close> by (simp add: unat_eq_iff)
    ultimately have "q * (unat x * 10000 + unat a * 10000) \<le> unat a * 10000 * unat y"
      by (rule curve_extend)
    then show ?thesis
      by (simp add: algebra_simps)
  qed simp
qed

interpretation cps_no_fee: swap_curve "\<lambda>a. constant_product_swap_no_fee a x y" "unat x" "unat y"
  for x y
  by unfold_locales (simp add: constant_product_swap_no_fee_value floor_le)

interpretation cps_trip: swap_round_trip
  "\<lambda>a. constant_product_swap a x y fee" "\<lambda>a. constant_product_swap a y x fee'" "unat x" "unat y"
  for x y fee fee' ..

section \<open>Properties of the quotes\<close>

text \<open>C3: the constant-product quote is the floor of \<open>dx' * y / (10000 x + dx')\<close> with
  \<open>dx' = dx * (10000 - fee)\<close>, computed without wrap-around. An empty reserve, a zero input, a
  fee of 100 percent or more, or any intermediate value of \<open>2^128\<close> or more gives 0.\<close>

theorem constant_product_swap_spec:
  "unat (constant_product_swap dx x y fee) =
    (if unat x = 0 \<or> unat y = 0 \<or> unat dx = 0 \<or> 10000 \<le> unat fee
        \<or> 2 ^ 128 \<le> unat dx * (10000 - unat fee) * unat y
        \<or> 2 ^ 128 \<le> unat x * 10000 + unat dx * (10000 - unat fee)
     then 0
     else unat dx * (10000 - unat fee) * unat y div (unat x * 10000 + unat dx * (10000 - unat fee)))"
  by (simp add: constant_product_swap_value Let_def unat_eq_iff word_le_nat_alt)

text \<open>C4: a constant-product swap never empties the pool and never lowers the product of the
  reserves: for non-empty reserves the quote is below the output reserve, and the product after
  adding the input and removing the quote is at least the product before.\<close>

theorem constant_product_swap_safe:
  assumes "0 < unat x" "0 < unat y"
  shows "unat (constant_product_swap dx x y fee) < unat y
    \<and> unat x * unat y \<le> (unat x + unat dx) * (unat y - unat (constant_product_swap dx x y fee))"
  using assms cps.out_less_reserve [of x y] cps.product_never_falls [of x dx y] by simp

theorem constant_product_swap_safe_witness:
  "0 < unat (5000 :: u128) \<and> 0 < unat (10000 :: u128) \<and>
   unat (constant_product_swap 1000 5000 10000 30) < unat (10000 :: u128) \<and>
   unat (constant_product_swap 1000 5000 10000 30) = 1662"
  using constant_product_swap_safe [of 5000 10000 1000 30]
  by (simp add: constant_product_swap_def checked_mul_def checked_add_def)

text \<open>Within the range in which nothing overflows, the quote is monotone: a larger input never
  buys less.\<close>

theorem constant_product_swap_mono:
  assumes "unat dx \<le> unat dx'"
    and "unat dx' * (10000 - unat fee) * unat y < 2 ^ 128"
    and "unat x * 10000 + unat dx' * (10000 - unat fee) < 2 ^ 128"
  shows "unat (constant_product_swap dx x y fee) \<le> unat (constant_product_swap dx' x y fee)"
proof -
  let ?k = "10000 - unat fee" and ?X = "unat x * 10000"
  define q where "q = unat (constant_product_swap dx x y fee)"
  show "q \<le> unat (constant_product_swap dx' x y fee)"
  proof (cases "q = 0")
    case False
    then have q: "q = unat dx * ?k * unat y div (?X + unat dx * ?k)"
      and guards: "x \<noteq> 0" "y \<noteq> 0" "dx \<noteq> 0" "\<not> 10000 \<le> fee"
      unfolding q_def by (auto simp: constant_product_swap_value Let_def split: if_splits)
    have X: "0 < ?X"
      using guards(1) by (simp add: unat_eq_iff)
    have "q * (?X + unat dx * ?k) \<le> unat dx * ?k * unat y"
      unfolding q by (rule floor_le)
    then have "q * (?X + unat dx' * ?k) \<le> unat dx' * ?k * unat y"
      by (rule curve_extend) (use assms(1) X in simp_all)
    then have "q \<le> unat dx' * ?k * unat y div (?X + unat dx' * ?k)"
      using X by (simp add: less_eq_div_iff_mult_less_eq)
    moreover have "dx' \<noteq> 0"
      using assms(1) guards(3) by (auto simp: unat_eq_iff)
    ultimately show ?thesis
      using assms(2,3) guards by (simp add: constant_product_swap_value Let_def)
  qed simp
qed

theorem constant_product_swap_mono_witness:
  "unat (1000 :: u128) \<le> unat (2000 :: u128) \<and>
   unat (constant_product_swap 1000 5000 10000 30) \<le> unat (constant_product_swap 2000 5000 10000 30)"
  using constant_product_swap_mono [of 1000 2000 30 10000 5000] by simp

text \<open>No free money in one market. Buying through a pool and selling the proceeds through a pool
  with the same reserves, at any two fees, returns strictly less than the input.\<close>

theorem constant_product_round_trip_loses:
  assumes "0 < unat x" "0 < unat y" "0 < unat dx"
  shows "unat (constant_product_swap (constant_product_swap dx x y fee) y x fee') < unat dx"
  using assms by (rule cps_trip.round_trip_loses)

theorem constant_product_round_trip_loses_witness:
  "0 < unat (5000 :: u128) \<and> 0 < unat (10000 :: u128) \<and> 0 < unat (1000 :: u128) \<and>
   unat (constant_product_swap (constant_product_swap 1000 5000 10000 30) 10000 5000 5) < unat (1000 :: u128)"
  using constant_product_round_trip_loses [of 5000 10000 1000 30 5] by simp

text \<open>As long as the trade stays inside the current tick range (no initialised tick ahead, or
  an input that does not exhaust the range), the multi-tick traversal returns exactly what the
  single-range formula returns.\<close>

theorem multi_tick_swap_single_range:
  assumes "v3_virtual_reserves liq sqrtp = (vx, vy)" "vx \<noteq> 0" "vy \<noteq> 0" "sqrtp \<noteq> 0" "liq \<noteq> 0"
    and "case next_tick ticks zf tick of
        None \<Rightarrow> True
      | Some (t, sqrt_at_tick, net) \<Rightarrow>
          (\<exists>m. tick_max_input zf vx vy sqrtp (max sqrt_at_tick 1) = Some m
             \<and> unat a * (10000 - unat fee) div 10000 \<le> unat m)"
  shows "multi_tick_swap a sqrtp liq tick ticks fee zf
    = concentrated_liquidity_swap a sqrtp liq ri ro fee zf"
proof (cases "a = 0 \<or> 10000 \<le> fee \<or> checked_mul a (10000 - fee) = None")
  case True
  with assms(4,5) show ?thesis
    by (auto simp: multi_tick_swap_def concentrated_liquidity_swap_def)
next
  case False
  then obtain v where v: "checked_mul a (10000 - fee) = Some v"
    by auto
  have value_v: "unat (v div 10000) = unat a * (10000 - unat fee) div 10000"
    using v False by (simp add: checked_simps unat_div unat_fee_factor)
  let ?r = "v div 10000"
  let ?out = "if zf then constant_product_swap_no_fee ?r vx vy else constant_product_swap_no_fee ?r vy vx"
  have m: "MAX_TICK_CROSSINGS = Suc 19"
    by (simp add: MAX_TICK_CROSSINGS_def)
  have zero: "constant_product_swap_no_fee 0 x y = 0" for x y
    by (simp add: constant_product_swap_no_fee_def)
  have "multi_tick_loop MAX_TICK_CROSSINGS ticks zf ?r 0 sqrtp liq tick = ?out"
    unfolding m multi_tick_loop.simps
    using assms(1-3,6)
    by (cases "?r = 0") (auto simp: zero value_v word_le_nat_alt split: option.splits)
  with False v assms(1-5) show ?thesis
    by (auto simp: multi_tick_swap_def concentrated_liquidity_swap_def)
qed

theorem multi_tick_swap_single_range_witness:
  "v3_virtual_reserves 1048576 (2 ^ 96) = (1048576, 1048576)
   \<and> tick_max_input True 1048576 1048576 (2 ^ 96) (2 ^ 95) = Some 1048576
   \<and> multi_tick_swap 1000 (2 ^ 96) 1048576 0 [(- 10, 2 ^ 95, 5)] 30 True = 996
   \<and> multi_tick_swap 1000 (2 ^ 96) 1048576 0 [(- 10, 2 ^ 95, 5)] 30 True
     = concentrated_liquidity_swap 1000 (2 ^ 96) 1048576 0 0 30 True"
proof -
  have r: "v3_virtual_reserves 1048576 (2 ^ 96) = (1048576, 1048576)"
    by (simp add: v3_virtual_reserves_def mul_div_u128_def checked_mul_def Q96_def)
  have m: "tick_max_input True 1048576 1048576 (2 ^ 96) (2 ^ 95) = Some 1048576"
    by (simp add: tick_max_input_def mul_div_u128_def checked_mul_def max_def word_le_nat_alt wide_mul_u128_def
        overflowing_add_def div_u256_by_u128_def hi64_def lo64_def shl64_def)
  have n: "next_tick [(- 10, 2 ^ 95, 5)] True 0 = Some (- 10, 2 ^ 95, 5)"
    by (simp add: next_tick_def)
  have c: "concentrated_liquidity_swap 1000 (2 ^ 96) 1048576 0 0 30 True = 996"
    using r by (simp add: concentrated_liquidity_swap_def checked_mul_def checked_add_def
        constant_product_swap_no_fee_def)
  have "multi_tick_swap 1000 (2 ^ 96) 1048576 0 [(- 10, 2 ^ 95, 5)] 30 True
      = concentrated_liquidity_swap 1000 (2 ^ 96) 1048576 0 0 30 True"
    by (rule multi_tick_swap_single_range [OF r]) (use m n in \<open>simp_all add: max_def word_le_nat_alt\<close>)
  with r m c show ?thesis
    by simp
qed

text \<open>Ordinary trades overflow to zero. Swapping at least one whole token of 18 decimals (\<open>10^18\<close>) for a
  token of which the pool holds at least \<open>10^18\<close> units is quoted as 0 at any fee up to 9000 basis points:
  the product of the amount, the fee factor and the reserve does not fit in 128 bits, and the
  overflow is reported as a zero output.\<close>

theorem constant_product_swap_ordinary_zero:
  assumes "10 ^ 18 \<le> unat dx" "10 ^ 18 \<le> unat y" "unat fee \<le> 9000"
  shows "constant_product_swap dx x y fee = 0"
proof -
  have "1000 \<le> 10000 - unat fee"
    using assms(3) by simp
  then have "10 ^ 18 * 1000 * 10 ^ 18 \<le> unat dx * (10000 - unat fee) * unat y"
    using assms(1,2) by (intro mult_le_mono) simp_all
  moreover have "(2 :: nat) ^ 128 \<le> 10 ^ 18 * 1000 * 10 ^ 18"
    by simp
  ultimately have "(2 :: nat) ^ 128 \<le> unat dx * (10000 - unat fee) * unat y"
    by (rule order_trans [rotated])
  then have "unat (constant_product_swap dx x y fee) = 0"
    by (simp only: constant_product_swap_value Let_def) simp
  then show ?thesis
    by (simp add: unat_eq_iff)
qed

theorem constant_product_swap_ordinary_zero_witness:
  "constant_product_swap (10 ^ 18) (5000 * 10 ^ 18) (5000 * 10 ^ 18) 30 = 0"
  by (rule constant_product_swap_ordinary_zero) simp_all

end
