(* ===== verification/Pool_Store.thy ===== *)
theory Pool_Store
  imports Prelude
begin

text \<open>
  The interface of the keyed caches. The simulator, the arbitrage detector, the backrun detector
  and the liquidation detector each keep a \<^verbatim>\<open>HashMap\<close> behind a lock, filled one entry at a
  time and in bulk by a loop over a vector. The law a client relies on is what a lookup returns
  after an insertion; what a lookup returns after a bulk load is proved once from it.
\<close>

locale keyed_store =
  fixes ins :: "'s \<Rightarrow> 'v \<Rightarrow> 's" and lookup :: "'s \<Rightarrow> 'k \<Rightarrow> 'w option"
    and key :: "'v \<Rightarrow> 'k" and val :: "'v \<Rightarrow> 'w"
  assumes lookup_insert: "lookup (ins s v) k = (if k = key v then Some (val v) else lookup s k)"
begin

text \<open>After a bulk load the last loaded entry of a key wins, and other keys are untouched.\<close>

lemma lookup_bulk:
  "lookup (foldl ins s vs) k =
    (case filter (\<lambda>v. key v = k) (rev vs) of v # _ \<Rightarrow> Some (val v) | [] \<Rightarrow> lookup s k)"
proof (induction vs rule: rev_induct)
  case (snoc v vs)
  then show ?case
    by (cases "key v = k") (auto simp: lookup_insert)
qed simp

lemma lookup_bulk_notin: "k \<notin> key ` set vs \<Longrightarrow> lookup (foldl ins s vs) k = lookup s k"
proof -
  assume "k \<notin> key ` set vs"
  then have "filter (\<lambda>v. key v = k) (rev vs) = []"
    by (auto simp: filter_empty_conv)
  then show ?thesis
    by (simp add: lookup_bulk)
qed

lemma lookup_bulk_distinct:
  assumes "distinct (map key vs)" "v \<in> set vs"
  shows "lookup (foldl ins s vs) (key v) = Some (val v)"
proof -
  have "filter (\<lambda>w. key w = key v) (rev vs) = [v]"
    using assms
  proof (induction vs)
    case (Cons w vs)
    show ?case
    proof (cases "w = v")
      case True
      with Cons.prems have "filter (\<lambda>u. key u = key v) (rev vs) = []"
        by (auto simp: filter_empty_conv) (metis image_eqI)
      with True show ?thesis by simp
    next
      case False
      with Cons.prems have "key w \<noteq> key v"
        by (metis distinct.simps(2) image_eqI list.simps(9) set_ConsD set_map)
      with False Cons show ?thesis by simp
    qed
  qed simp
  then show ?thesis
    by (simp add: lookup_bulk)
qed

lemma lookup_bulk_SomeD:
  assumes "lookup (foldl ins s vs) k = Some w"
  shows "(\<exists>v \<in> set vs. key v = k \<and> w = val v) \<or> lookup s k = Some w"
proof (cases "filter (\<lambda>v. key v = k) (rev vs)")
  case Nil
  with assms show ?thesis by (simp add: lookup_bulk)
next
  case (Cons v us)
  then have "v \<in> set (filter (\<lambda>v. key v = k) (rev vs))"
    by simp
  then have "v \<in> set vs" "key v = k"
    by auto
  with assms Cons show ?thesis
    by (auto simp: lookup_bulk)
qed

end

text \<open>A \<^verbatim>\<open>HashMap\<close> whose iteration the code observes is an association list with distinct keys, in
  the order in which the map is iterated. That order is unspecified, so theorems about the
  iterating operations hold for every association list.\<close>

lemma map_of_alist_update: "map_of (AList.update k v xs) = (map_of xs)(k \<mapsto> v)"
  by (rule update_conv')

lemma set_alist_update: "x \<in> set (AList.update k v xs) \<Longrightarrow> x = (k, v) \<or> x \<in> set xs"
  by (induction xs) (auto split: if_splits)

end
