(* ===== verification/Mev_Config.thy ===== *)
theory Mev_Config
  imports Mev_Types
begin

text \<open>
  The configuration (\<^verbatim>\<open>core/src/config.rs\<close>): the records, the defaults, and loading with the
  environment overrides. The environment, the file system, \<^verbatim>\<open>serde_json\<close> and
  \<^verbatim>\<open>num_cpus\<close> are parameters.
\<close>

section \<open>Records\<close>

record ChainConfig =
  ch_name :: string
  ch_chain_id :: u64
  ch_rpc_url :: string
  ch_ws_url :: string
  ch_flashbots_relay :: "string option"
  ch_balancer_vault :: string
  ch_contract_address :: "string option"

record RpcConfig =
  rpc_primary :: "string list"
  rpc_fallback :: "string list"
  rpc_max_connections :: usize
  rpc_request_timeout_ms :: u64
  rpc_retry_count :: u32

record StrategyConfig =
  st_min_profit_wei :: u128
  st_min_profit_bps :: u16
  st_max_gas_price_gwei :: u64
  st_slippage_tolerance_bps :: u16
  st_enabled_strategies :: "string list"
  st_min_backrun_swap_wei :: u128

record PerformanceConfig =
  pf_detector_threads :: usize
  pf_simulator_threads :: usize
  pf_max_pending_opportunities :: usize
  pf_simulation_timeout_ms :: u64

record LoggingConfig =
  lg_level :: string
  lg_json_output :: bool
  lg_file_path :: "string option"

record Config =
  cf_chains :: "u64 \<rightharpoonup> ChainConfig"
  cf_rpc :: RpcConfig
  cf_strategy :: StrategyConfig
  cf_performance :: PerformanceConfig
  cf_logging :: LoggingConfig

abbreviation cfg_min_profit :: "Config \<Rightarrow> u128" where
  "cfg_min_profit c \<equiv> st_min_profit_wei (cf_strategy c)"

abbreviation cfg_max_gas_gwei :: "Config \<Rightarrow> u64" where
  "cfg_max_gas_gwei c \<equiv> st_max_gas_price_gwei (cf_strategy c)"

abbreviation cfg_slippage_bps :: "Config \<Rightarrow> u16" where
  "cfg_slippage_bps c \<equiv> st_slippage_tolerance_bps (cf_strategy c)"

section \<open>Defaults\<close>

definition default_min_backrun_swap_wei :: u128 where
  "default_min_backrun_swap_wei = 10000000000000000000"

definition Config_default :: "usize \<Rightarrow> Config" where
  "Config_default num_cpus =
    \<lparr>cf_chains =
      [1 \<mapsto> \<lparr>ch_name = ''Ethereum'', ch_chain_id = 1,
              ch_rpc_url = ''https://eth.llamarpc.com'', ch_ws_url = ''wss://eth.llamarpc.com'',
              ch_flashbots_relay = Some ''https://relay.flashbots.net'',
              ch_balancer_vault = ''0xBA12222222228d8Ba445958a75a0704d566BF2C8'',
              ch_contract_address = None\<rparr>,
       42161 \<mapsto> \<lparr>ch_name = ''Arbitrum'', ch_chain_id = 42161,
              ch_rpc_url = ''https://arb1.arbitrum.io/rpc'', ch_ws_url = ''wss://arb1.arbitrum.io/ws'',
              ch_flashbots_relay = None,
              ch_balancer_vault = ''0xBA12222222228d8Ba445958a75a0704d566BF2C8'',
              ch_contract_address = None\<rparr>],
     cf_rpc = \<lparr>rpc_primary = [], rpc_fallback = [], rpc_max_connections = 10,
               rpc_request_timeout_ms = 5000, rpc_retry_count = 3\<rparr>,
     cf_strategy = \<lparr>st_min_profit_wei = 1000000000000000, st_min_profit_bps = 10,
               st_max_gas_price_gwei = 100, st_slippage_tolerance_bps = 50,
               st_enabled_strategies = [''arbitrage'', ''backrun''],
               st_min_backrun_swap_wei = default_min_backrun_swap_wei\<rparr>,
     cf_performance = \<lparr>pf_detector_threads = num_cpus, pf_simulator_threads = num_cpus div 2,
               pf_max_pending_opportunities = 1000, pf_simulation_timeout_ms = 100\<rparr>,
     cf_logging = \<lparr>lg_level = ''info'', lg_json_output = True,
               lg_file_path = Some ''logs/mev-engine.log''\<rparr>\<rparr>"

section \<open>Loading\<close>

text \<open>\<^verbatim>\<open>s.trim().is_empty()\<close>: every character of the UTF-8 text is Unicode white space.\<close>

fun utf8_blank :: "nat list \<Rightarrow> bool" where
  "utf8_blank [] = True"
| "utf8_blank (a # s) =
     (if a = 32 \<or> (9 \<le> a \<and> a \<le> 13) then utf8_blank s
      else case s of
        b # s1 \<Rightarrow>
          (if a = 194 \<and> (b = 133 \<or> b = 160) then utf8_blank s1
           else case s1 of
             c # s2 \<Rightarrow>
               (if (a = 225 \<and> b = 154 \<and> c = 128)
                 \<or> (a = 226 \<and> b = 128 \<and> (128 \<le> c \<and> c \<le> 138 \<or> c = 168 \<or> c = 169 \<or> c = 175))
                 \<or> (a = 226 \<and> b = 129 \<and> c = 159)
                 \<or> (a = 227 \<and> b = 128 \<and> c = 128)
                then utf8_blank s2 else False)
           | [] \<Rightarrow> False)
      | [] \<Rightarrow> False)"

definition blank :: "string \<Rightarrow> bool" where
  "blank s = utf8_blank (map of_char s)"

text \<open>\<open>env_value env k\<close>: the variable is set and not blank.\<close>

definition env_value :: "(string \<rightharpoonup> string) \<Rightarrow> string \<Rightarrow> string option" where
  "env_value env k = (case env k of None \<Rightarrow> None | Some v \<Rightarrow> if \<not> blank v then Some v else None)"

definition override_chain :: "(string \<rightharpoonup> string) \<Rightarrow> ChainConfig \<Rightarrow> ChainConfig" where
  "override_chain env arbitrum =
    (let a1 = (case env_value env ''ARBITRUM_RPC_URL'' of None \<Rightarrow> arbitrum
               | Some v \<Rightarrow> arbitrum\<lparr>ch_rpc_url := v\<rparr>);
         a2 = (case env_value env ''ARBITRUM_WS_URL'' of None \<Rightarrow> a1
               | Some v \<Rightarrow> a1\<lparr>ch_ws_url := v\<rparr>);
         a3 = (case env_value env ''CONTRACT_ADDRESS'' of None \<Rightarrow> a2
               | Some v \<Rightarrow> a2\<lparr>ch_contract_address := Some v\<rparr>)
     in case env_value env ''FLASHBOTS_RELAY_URL'' of None \<Rightarrow> a3
        | Some v \<Rightarrow> a3\<lparr>ch_flashbots_relay := Some v\<rparr>)"

datatype config_error = ReadFailed | ParseFailed

text \<open>\<open>env\<close> is the environment after \<^verbatim>\<open>dotenv\<close>; \<open>fs p\<close> is \<open>None\<close> when the path does not exist,
  \<open>Some None\<close> when it cannot be read and \<open>Some (Some s)\<close> when it holds \<open>s\<close>; \<open>parse\<close> is
  \<^verbatim>\<open>serde_json::from_str\<close>.\<close>

definition from_env ::
  "(string \<rightharpoonup> string) \<Rightarrow> (string \<Rightarrow> string option option) \<Rightarrow> (string \<Rightarrow> Config option) \<Rightarrow> usize
   \<Rightarrow> config_error + Config" where
  "from_env env fs parse num_cpus =
    (let config_path = (case env ''MEV_CONFIG'' of Some p \<Rightarrow> p | None \<Rightarrow> ''config/config.json'');
         loaded = (case fs config_path of
             None \<Rightarrow> Inr (Config_default num_cpus)
           | Some None \<Rightarrow> Inl ReadFailed
           | Some (Some content) \<Rightarrow>
               (case parse content of None \<Rightarrow> Inl ParseFailed | Some c \<Rightarrow> Inr c))
     in case loaded of
          Inl e \<Rightarrow> Inl e
        | Inr config \<Rightarrow>
            Inr (case cf_chains config 42161 of
                   None \<Rightarrow> config
                 | Some arbitrum \<Rightarrow>
                     config\<lparr>cf_chains := (cf_chains config)(42161 \<mapsto> override_chain env arbitrum)\<rparr>))"

text \<open>\<^verbatim>\<open>save\<close>: serialise (\<open>ser\<close>, \<^verbatim>\<open>serde_json::to_string_pretty\<close>) and write; the file
  system after a successful write.\<close>

definition save ::
  "(Config \<Rightarrow> string option) \<Rightarrow> Config \<Rightarrow> string \<Rightarrow> (string \<Rightarrow> string option option)
   \<Rightarrow> (string \<Rightarrow> string option option) option" where
  "save ser config path fs =
     (case ser config of None \<Rightarrow> None | Some content \<Rightarrow> Some (fs(path := Some (Some content))))"

lemma override_chain_fields [simp]:
  "ch_name (override_chain env a) = ch_name a"
  "ch_chain_id (override_chain env a) = ch_chain_id a"
  "ch_balancer_vault (override_chain env a) = ch_balancer_vault a"
  "ch_rpc_url (override_chain env a)
     = (case env_value env ''ARBITRUM_RPC_URL'' of None \<Rightarrow> ch_rpc_url a | Some v \<Rightarrow> v)"
  "ch_ws_url (override_chain env a)
     = (case env_value env ''ARBITRUM_WS_URL'' of None \<Rightarrow> ch_ws_url a | Some v \<Rightarrow> v)"
  "ch_contract_address (override_chain env a)
     = (case env_value env ''CONTRACT_ADDRESS'' of None \<Rightarrow> ch_contract_address a | Some v \<Rightarrow> Some v)"
  "ch_flashbots_relay (override_chain env a)
     = (case env_value env ''FLASHBOTS_RELAY_URL'' of None \<Rightarrow> ch_flashbots_relay a | Some v \<Rightarrow> Some v)"
  by (simp_all add: override_chain_def Let_def split: option.splits)

lemma override_chain_id: "(\<And>k. env_value env k = None) \<Longrightarrow> override_chain env a = a"
  by (simp add: override_chain_def)

text \<open>What the environment can change. If loading succeeds with the file's (or the default) configuration
  \<open>base\<close>, the result differs from \<open>base\<close> only in chain 42161, and there only in the two URLs, the contract
  address and the relay, each replaced exactly when its variable is set and not blank.\<close>

theorem from_env_overrides:
  assumes "from_env env fs parse cpus = Inr c"
  shows "\<exists>base. (case fs (case env ''MEV_CONFIG'' of Some p \<Rightarrow> p | None \<Rightarrow> ''config/config.json'') of
        None \<Rightarrow> base = Config_default cpus
      | Some content \<Rightarrow> \<exists>t. content = Some t \<and> parse t = Some base)
    \<and> cf_rpc c = cf_rpc base \<and> cf_strategy c = cf_strategy base \<and> cf_performance c = cf_performance base
    \<and> cf_logging c = cf_logging base
    \<and> (\<forall>k. cf_chains c k = (if k = 42161 then map_option (override_chain env) (cf_chains base k)
              else cf_chains base k))"
proof -
  define path where "path = (case env ''MEV_CONFIG'' of Some p \<Rightarrow> p | None \<Rightarrow> ''config/config.json'')"
  obtain base where b: "(case fs path of None \<Rightarrow> Inr (Config_default cpus) | Some None \<Rightarrow> Inl ReadFailed
      | Some (Some content) \<Rightarrow> (case parse content of None \<Rightarrow> Inl ParseFailed | Some c \<Rightarrow> Inr c)) = Inr base"
    and c: "c = (case cf_chains base 42161 of None \<Rightarrow> base
      | Some a \<Rightarrow> base\<lparr>cf_chains := (cf_chains base)(42161 \<mapsto> override_chain env a)\<rparr>)"
    using assms unfolding from_env_def Let_def path_def [symmetric]
    by (auto split: sum.splits)
  from b have "case fs path of None \<Rightarrow> base = Config_default cpus
      | Some content \<Rightarrow> \<exists>t. content = Some t \<and> parse t = Some base"
    by (auto split: option.splits)
  with c show ?thesis
    unfolding path_def by (intro exI [of _ base]) (auto split: option.splits)
qed

theorem from_env_overrides_witness:
  "\<exists>c. from_env [''ARBITRUM_RPC_URL'' \<mapsto> ''http://localhost'', ''CONTRACT_ADDRESS'' \<mapsto> ''  ''] (\<lambda>_. None) (\<lambda>_. None) 8 = Inr c
    \<and> map_option ch_rpc_url (cf_chains c 42161) = Some ''http://localhost''
    \<and> map_option ch_contract_address (cf_chains c 42161) = Some None"
proof -
  let ?env = "[''ARBITRUM_RPC_URL'' \<mapsto> ''http://localhost'', ''CONTRACT_ADDRESS'' \<mapsto> ''  '']"
  obtain c where c: "from_env ?env (\<lambda>_. None) (\<lambda>_. None) 8 = Inr c"
    by (simp add: from_env_def)
  have "env_value ?env ''ARBITRUM_RPC_URL'' = Some ''http://localhost''" "env_value ?env ''CONTRACT_ADDRESS'' = None"
    by (simp_all add: env_value_def blank_def)
  moreover have "\<forall>k. cf_chains c k = (if k = 42161 then map_option (override_chain ?env) (cf_chains (Config_default 8) k)
      else cf_chains (Config_default 8) k)"
    using from_env_overrides [OF c] by auto
  ultimately show ?thesis
    using c by (simp add: Config_default_def)
qed

text \<open>Saving and loading. If the serialiser and the parser are inverse on a configuration, then loading the
  file just saved, with no override set, gives the configuration back.\<close>

theorem save_load_round_trip:
  assumes "\<forall>t. ser c = Some t \<longrightarrow> parse t = Some c"
    and "save ser c path fs = Some fs'" "env ''MEV_CONFIG'' = Some path" "\<forall>k. k \<noteq> ''MEV_CONFIG'' \<longrightarrow> env k = None"
  shows "from_env env fs' parse cpus = Inr c"
proof -
  obtain t where t: "ser c = Some t" "fs' = fs(path := Some (Some t))"
    using assms(2) by (auto simp: save_def split: option.splits)
  have "override_chain env a = a" for a
    using assms(4) by (simp add: override_chain_def env_value_def)
  moreover have "parse t = Some c"
    using assms(1) t(1) by simp
  ultimately show ?thesis
    using assms(3) t(2) by (auto simp: from_env_def map_upd_triv split: option.split)
qed

theorem save_load_round_trip_witness:
  "from_env [''MEV_CONFIG'' \<mapsto> ''c.json''] ((\<lambda>_. None)(''c.json'' := Some (Some ''x''))) (\<lambda>_. Some (Config_default 4)) 8
    = Inr (Config_default 4)"
  by (rule save_load_round_trip [where ser = "\<lambda>_. Some ''x''" and path = "''c.json''" and fs = "\<lambda>_. None"])
    (simp_all add: save_def)

end
