(* ===== verification/Evm_Simulator.thy ===== *)
theory Evm_Simulator
  imports Amm_Math Pool_Store Mev_Config
begin

text \<open>
  The stage-1 simulator (\<^verbatim>\<open>EvmSimulator\<close> of \<^verbatim>\<open>core/src/simulator/mod.rs\<close>): the pool
  cache with its pair index, the three opportunity simulations, the bundle simulation and the
  counters. The state is a record that each operation returns updated; the locks and atomics of
  the code make each access atomic, and an operation of the model is one call. The clock (the
  measured latency) and the outcome of \<^verbatim>\<open>tokio::time::timeout\<close> are parameters.
\<close>

section \<open>State\<close>

record EvmSimulator =
  es_config :: Config
  es_count :: u64
  es_success_count :: u64
  es_total_latency_us :: u64
  es_pool_cache :: "address \<rightharpoonup> PoolState"
  es_pair_index :: "address \<times> address \<rightharpoonup> address list"

definition simulator_new :: "Config \<Rightarrow> EvmSimulator" where
  "simulator_new config =
    \<lparr>es_config = config, es_count = 0, es_success_count = 0, es_total_latency_us = 0,
     es_pool_cache = Map.empty, es_pair_index = Map.empty\<rparr>"

section \<open>Pool cache\<close>

definition ordered_pair :: "address \<Rightarrow> address \<Rightarrow> address \<times> address" where
  "ordered_pair a b = (if a \<le> b then (a, b) else (b, a))"

text \<open>\<^verbatim>\<open>idx.entry(key).or_default().push(addr)\<close>\<close>

definition index_push ::
  "(address \<times> address \<rightharpoonup> address list) \<Rightarrow> address \<times> address \<Rightarrow> address \<Rightarrow> (address \<times> address \<rightharpoonup> address list)" where
  "index_push idx key addr =
     idx(key \<mapsto> (case idx key of None \<Rightarrow> [] | Some v \<Rightarrow> v) @ [addr])"

text \<open>One round of the loop of \<^verbatim>\<open>load_pools\<close>.\<close>

definition load_pool :: "EvmSimulator \<Rightarrow> PoolState \<Rightarrow> EvmSimulator" where
  "load_pool s pool =
     s\<lparr>es_pair_index :=
         index_push (es_pair_index s) (ordered_pair (ps_token0 pool) (ps_token1 pool)) (ps_address pool),
       es_pool_cache := (es_pool_cache s)(ps_address pool \<mapsto> pool)\<rparr>"

definition load_pools :: "EvmSimulator \<Rightarrow> PoolState list \<Rightarrow> EvmSimulator" where
  "load_pools s pools = foldl load_pool s pools"

definition update_pool :: "EvmSimulator \<Rightarrow> PoolState \<Rightarrow> EvmSimulator" where
  "update_pool s pool =
    (let addr = ps_address pool;
         idx = (if es_pool_cache s addr = None
                then index_push (es_pair_index s) (ordered_pair (ps_token0 pool) (ps_token1 pool)) addr
                else es_pair_index s)
     in s\<lparr>es_pair_index := idx, es_pool_cache := (es_pool_cache s)(addr \<mapsto> pool)\<rparr>)"

definition get_pool :: "EvmSimulator \<Rightarrow> address \<Rightarrow> PoolState option" where
  "get_pool s addr = es_pool_cache s addr"

definition pool_reserves :: "EvmSimulator \<Rightarrow> address \<Rightarrow> (u128 \<times> u128 \<times> u128) option" where
  "pool_reserves s pool_addr =
    (if pool_addr = 0 then None
     else case es_pool_cache s pool_addr of
       Some pool \<Rightarrow> Some (ps_reserve0 pool, ps_reserve1 pool, ucast (ps_fee pool))
     | None \<Rightarrow> None)"

record PoolStateSnapshot =
  sn_reserve0 :: u128
  sn_reserve1 :: u128
  sn_fee :: u128
  sn_sqrt_price_x96 :: u128
  sn_liquidity :: u128
  sn_is_v3 :: bool
  sn_current_tick :: i32
  sn_tick_spacing :: i32
  sn_ticks :: "tick_data list"

definition pool_state_full :: "EvmSimulator \<Rightarrow> address \<Rightarrow> PoolStateSnapshot option" where
  "pool_state_full s pool_addr =
    (if pool_addr = 0 then None
     else case es_pool_cache s pool_addr of
       None \<Rightarrow> None
     | Some pool \<Rightarrow> Some
         \<lparr>sn_reserve0 = ps_reserve0 pool, sn_reserve1 = ps_reserve1 pool, sn_fee = ucast (ps_fee pool),
          sn_sqrt_price_x96 = ps_sqrt_price_x96 pool, sn_liquidity = ps_liquidity pool,
          sn_is_v3 = ps_is_v3 pool, sn_current_tick = ps_current_tick pool,
          sn_tick_spacing = ps_tick_spacing pool, sn_ticks = ps_ticks pool\<rparr>)"

definition swap_through_pool ::
  "EvmSimulator \<Rightarrow> u128 \<Rightarrow> address \<Rightarrow> u128 option \<Rightarrow> bool \<Rightarrow> u128 option" where
  "swap_through_pool s amount_in pool_addr fee_override zero_for_one =
    (case pool_state_full s pool_addr of
       None \<Rightarrow> None
     | Some snap \<Rightarrow>
         let fee = (case fee_override of Some f \<Rightarrow> f | None \<Rightarrow> sn_fee snap);
             (ri, ro) = (if zero_for_one then (sn_reserve0 snap, sn_reserve1 snap)
                         else (sn_reserve1 snap, sn_reserve0 snap))
         in if sn_is_v3 snap \<and> 0 < sn_sqrt_price_x96 snap \<and> 0 < sn_liquidity snap
            then if sn_ticks snap \<noteq> []
                 then Some (multi_tick_swap amount_in (sn_sqrt_price_x96 snap) (sn_liquidity snap)
                              (sn_current_tick snap) (sn_ticks snap) fee zero_for_one)
                 else Some (concentrated_liquidity_swap amount_in (sn_sqrt_price_x96 snap)
                              (sn_liquidity snap) ri ro fee zero_for_one)
            else Some (constant_product_swap amount_in ri ro fee))"

section \<open>Simulating an opportunity\<close>

definition u128_to_bytes32 :: "u128 \<Rightarrow> bytes32" where
  "u128_to_bytes32 val = ucast val"

text \<open>\<^verbatim>\<open>first().copied().unwrap_or([0u8; 20])\<close> and \<^verbatim>\<open>get(1)\<close>: the pool of a hop, the zero address
  when the list is too short; \<open>hop_fee\<close> turns hundredths of a basis point into basis points.\<close>

definition hop_address :: "Opportunity \<Rightarrow> nat \<Rightarrow> address" where
  "hop_address opp i = (if i < length (opp_pool_addresses opp) then opp_pool_addresses opp ! i else 0)"

definition hop_fee :: "Opportunity \<Rightarrow> nat \<Rightarrow> u128 option" where
  "hop_fee opp i =
     (if i < length (opp_pool_fees opp) then Some (ucast (opp_pool_fees opp ! i div 100)) else None)"

text \<open>An \<^verbatim>\<open>anyhow\<close> error is its message; \<^verbatim>\<open>{:?}\<close> of an address prints its bytes.\<close>

definition not_in_cache :: "string \<Rightarrow> address \<Rightarrow> string" where
  "not_in_cache what addr = what @ '' '' @ debug_bytes (to_be 20 addr) @ '' not in cache''"

definition simulate_arbitrage :: "EvmSimulator \<Rightarrow> Opportunity \<Rightarrow> string + SimulationResult" where
  "simulate_arbitrage s opp =
    (let flash_amount = opp_amount_in opp;
         entry_addr = hop_address opp 0
     in case swap_through_pool s flash_amount entry_addr (hop_fee opp 0) True of
          None \<Rightarrow> Inl (not_in_cache ''Entry pool'' entry_addr)
        | Some amount_mid \<Rightarrow>
            let exit_addr = hop_address opp 1
            in case swap_through_pool s amount_mid exit_addr (hop_fee opp 1) False of
                 None \<Rightarrow> Inl (not_in_cache ''Exit pool'' exit_addr)
               | Some amount_out \<Rightarrow>
                   let gross = amount_out - flash_amount;
                       gas = opp_gas_estimate opp;
                       gas_price = (ucast (cfg_max_gas_gwei (es_config s)) :: u128) * 1000000000;
                       gas_cost = (ucast gas :: i128) * gas_price;
                       flash_fee = sdiv_word (flash_amount * 5) 10000;
                       net_profit = gross - gas_cost - flash_fee;
                       entry_r0 = (case pool_reserves s entry_addr of Some (r0, _, _) \<Rightarrow> r0 | None \<Rightarrow> 0);
                       exit_r1 = (case pool_reserves s exit_addr of Some (_, r1, _) \<Rightarrow> r1 | None \<Rightarrow> 0)
                   in Inr \<lparr>sr_success = (0 < sint net_profit), sr_profit = net_profit, sr_gas_used = gas,
                           sr_error = (if sint net_profit \<le> 0 then Some ''Not profitable after gas'' else None),
                           sr_state_changes =
                             [\<lparr>sc_address = entry_addr, sc_slot = 0,
                               sc_old_value = u128_to_bytes32 entry_r0,
                               sc_new_value = u128_to_bytes32 (entry_r0 + flash_amount)\<rparr>,
                              \<lparr>sc_address = exit_addr, sc_slot = 0,
                               sc_old_value = u128_to_bytes32 exit_r1,
                               sc_new_value = u128_to_bytes32 (exit_r1 + amount_mid)\<rparr>]\<rparr>)"

definition gas_cost_wei :: "EvmSimulator \<Rightarrow> Opportunity \<Rightarrow> i128" where
  "gas_cost_wei s opp =
     (ucast (opp_gas_estimate opp) :: i128) * ucast (cfg_max_gas_gwei (es_config s)) * 1000000000"

definition simulate_backrun :: "EvmSimulator \<Rightarrow> Opportunity \<Rightarrow> string + SimulationResult" where
  "simulate_backrun s opp =
    (let pool_addr = hop_address opp 0
     in case pool_reserves s pool_addr of
          None \<Rightarrow> Inl (not_in_cache ''Backrun pool'' pool_addr)
        | Some (r0, r1, pool_fee) \<Rightarrow>
            let fee = (case hop_fee opp 0 of Some f \<Rightarrow> f | None \<Rightarrow> pool_fee);
                skewed_reserve0 = r0 * 10020 div 10000;
                skewed_reserve1 = r1 * 9980 div 10000;
                amount_mid = constant_product_swap (opp_amount_in opp) skewed_reserve0 skewed_reserve1 fee;
                exit_addr = hop_address opp 1
            in case pool_reserves s exit_addr of
                 None \<Rightarrow> Inl (not_in_cache ''Backrun exit pool'' exit_addr)
               | Some (exit_r0, exit_r1, exit_pool_fee) \<Rightarrow>
                   let exit_fee = (case hop_fee opp 1 of Some f \<Rightarrow> f | None \<Rightarrow> exit_pool_fee);
                       amount_out = constant_product_swap amount_mid exit_r1 exit_r0 exit_fee;
                       net_profit = amount_out - opp_amount_in opp - gas_cost_wei s opp
                   in Inr \<lparr>sr_success = (0 < sint net_profit), sr_profit = net_profit,
                           sr_gas_used = opp_gas_estimate opp, sr_error = None,
                           sr_state_changes = []\<rparr>)"

definition simulate_liquidation :: "EvmSimulator \<Rightarrow> Opportunity \<Rightarrow> string + SimulationResult" where
  "simulate_liquidation s opp =
    (let flash_amount = opp_amount_in opp;
         bonus_amount = opp_expected_profit opp;
         swap_cost = (flash_amount + bonus_amount) * 30 div 10000;
         flash_fee = sdiv_word (flash_amount * 5) 10000;
         net = bonus_amount - swap_cost - gas_cost_wei s opp - flash_fee
     in Inr \<lparr>sr_success = (0 < sint net), sr_profit = net, sr_gas_used = opp_gas_estimate opp,
             sr_error = None, sr_state_changes = []\<rparr>)"

definition failed_result :: "string \<Rightarrow> SimulationResult" where
  "failed_result msg = \<lparr>sr_success = False, sr_profit = 0, sr_gas_used = 0, sr_error = Some msg,
     sr_state_changes = []\<rparr>"

definition simulate_kind :: "EvmSimulator \<Rightarrow> Opportunity \<Rightarrow> string + SimulationResult" where
  "simulate_kind s opp =
     (case opp_type opp of
        Arbitrage \<Rightarrow> simulate_arbitrage s opp
      | Backrun \<Rightarrow> simulate_backrun s opp
      | Liquidation \<Rightarrow> simulate_liquidation s opp)"

definition simulate_inner :: "u64 \<Rightarrow> EvmSimulator \<Rightarrow> Opportunity \<Rightarrow> EvmSimulator \<times> SimulationResult" where
  "simulate_inner latency s opp =
    (let s1 = s\<lparr>es_count := es_count s + 1\<rparr>;
         result = simulate_kind s1 opp;
         s2 = s1\<lparr>es_total_latency_us := es_total_latency_us s1 + latency\<rparr>
     in case result of
          Inr sim \<Rightarrow>
            (if sr_success sim \<and> 0 < sint (sr_profit sim)
             then s2\<lparr>es_success_count := es_success_count s2 + 1\<rparr> else s2, sim)
        | Inl e \<Rightarrow> (s2, failed_result e))"

text \<open>\<open>simulate_inner\<close> has no suspension point, so the single poll that
  \<^verbatim>\<open>tokio::time::timeout\<close> gives its future runs it to the end whatever the timer does;
  \<open>timed_out ms\<close> is the timer's verdict for the configured limit.\<close>

definition simulate ::
  "(u64 \<Rightarrow> bool) \<Rightarrow> u64 \<Rightarrow> EvmSimulator \<Rightarrow> Opportunity \<Rightarrow> EvmSimulator \<times> SimulationResult" where
  "simulate timed_out latency s opp =
    (let (s', result) = simulate_inner latency s opp
     in if timed_out (pf_simulation_timeout_ms (cf_performance (es_config s)))
        then (s', failed_result ''Simulation timed out'') else (s', result))"

section \<open>Simulating a bundle\<close>

definition estimate_tx_gas :: "u64 \<Rightarrow> bytes \<Rightarrow> u64" where
  "estimate_tx_gas gas_limit data =
    (let calldata_gas = sum_list (map (\<lambda>b. if b = 0 then 4 else 16) data);
         estimated = 21000 + calldata_gas + 100000
     in min estimated gas_limit)"

definition decode_addr_bytes :: "hexcrate \<Rightarrow> string \<Rightarrow> address" where
  "decode_addr_bytes hx hex_str =
    (let bytes = (case hex_decode hx (strip_0x hex_str) of Some bs \<Rightarrow> bs | None \<Rightarrow> [])
     in from_be (take 20 bytes))"

text \<open>The loop over the transactions: the accumulated profit, gas and state changes.\<close>

fun bundle_loop ::
  "hexcrate \<Rightarrow> i128 \<Rightarrow> u64 \<Rightarrow> StateChange list \<Rightarrow> BundleTransaction list \<Rightarrow> i128 \<times> u64 \<times> StateChange list" where
  "bundle_loop hx total_profit total_gas all_changes [] = (total_profit, total_gas, all_changes)"
| "bundle_loop hx total_profit total_gas all_changes (tx # txs) =
    (let gas = estimate_tx_gas (bt_gas_limit tx) (bt_data tx);
         tip = (case bt_max_priority_fee_per_gas tx of Some t \<Rightarrow> t | None \<Rightarrow> 1000000000);
         gas_cost = (ucast gas :: i128) * tip;
         profit1 = total_profit - gas_cost;
         profit2 = (if txs = [] then profit1 + bt_value tx else profit1)
     in bundle_loop hx profit2 (total_gas + gas)
          (all_changes @ [\<lparr>sc_address = decode_addr_bytes hx (bt_to tx), sc_slot = 0,
                           sc_old_value = 0, sc_new_value = ucast gas\<rparr>]) txs)"

definition simulate_bundle ::
  "hexcrate \<Rightarrow> u64 \<Rightarrow> EvmSimulator \<Rightarrow> Bundle \<Rightarrow> EvmSimulator \<times> SimulationResult" where
  "simulate_bundle hx latency s bundle =
    (let s1 = s\<lparr>es_count := es_count s + 1\<rparr>;
         (total_profit, total_gas, all_changes) = bundle_loop hx 0 0 [] (bu_transactions bundle);
         s2 = s1\<lparr>es_total_latency_us := es_total_latency_us s1 + latency\<rparr>;
         success = (0 < sint total_profit);
         s3 = (if success then s2\<lparr>es_success_count := es_success_count s2 + 1\<rparr> else s2)
     in (s3, \<lparr>sr_success = success, sr_profit = total_profit, sr_gas_used = total_gas,
              sr_error = None, sr_state_changes = all_changes\<rparr>))"

section \<open>Statistics\<close>

text \<open>The numbers that \<^verbatim>\<open>stop\<close> reports: simulations, successes, average latency.\<close>

definition simulator_stop :: "EvmSimulator \<Rightarrow> u64 \<times> u64 \<times> u64" where
  "simulator_stop s =
     (let avg_us = (if 0 < es_count s then es_total_latency_us s div es_count s else 0)
      in (es_count s, es_success_count s, avg_us))"

section \<open>The cache as a keyed store\<close>

interpretation sim_load: keyed_store load_pool get_pool ps_address "\<lambda>p. p"
  by unfold_locales (simp add: load_pool_def get_pool_def)

interpretation sim_update: keyed_store update_pool get_pool ps_address "\<lambda>p. p"
  by unfold_locales (simp add: update_pool_def get_pool_def Let_def)


text \<open>Bulk loading. After \<open>load_pools\<close> a lookup returns the last pool of the batch with that
  address, and what it returned before for every other address.\<close>

theorem load_pools_lookup:
  "get_pool (load_pools s pools) a =
    (case filter (\<lambda>p. ps_address p = a) (rev pools) of p # _ \<Rightarrow> Some p | [] \<Rightarrow> get_pool s a)"
  unfolding load_pools_def by (rule sim_load.lookup_bulk)

section \<open>The pair index\<close>

text \<open>The two operations that write the cache. \<open>tok\<close> gives the two tokens of a pool, which a pool
  contract never changes.\<close>

definition pool_tokens_ok :: "(address \<Rightarrow> address \<times> address) \<Rightarrow> PoolState \<Rightarrow> bool" where
  "pool_tokens_ok tok p \<longleftrightarrow> tok (ps_address p) = (ps_token0 p, ps_token1 p)"

inductive cache_reachable :: "(address \<Rightarrow> address \<times> address) \<Rightarrow> EvmSimulator \<Rightarrow> bool"
  for tok :: "address \<Rightarrow> address \<times> address" where
  init: "cache_reachable tok (simulator_new config)"
| load: "cache_reachable tok s \<Longrightarrow> list_all (pool_tokens_ok tok) pools
    \<Longrightarrow> cache_reachable tok (load_pools s pools)"
| update: "cache_reachable tok s \<Longrightarrow> pool_tokens_ok tok p \<Longrightarrow> cache_reachable tok (update_pool s p)"
| simulate: "cache_reachable tok s \<Longrightarrow> cache_reachable tok (fst (simulate timed_out latency s opp))"
| simulate_bundle: "cache_reachable tok s
    \<Longrightarrow> cache_reachable tok (fst (simulate_bundle hx latency s bundle))"

definition index_entries :: "EvmSimulator \<Rightarrow> address \<times> address \<Rightarrow> address list" where
  "index_entries s key = (case es_pair_index s key of None \<Rightarrow> [] | Some v \<Rightarrow> v)"

text \<open>The pools indexed under a pair are the cached pools of that pair.\<close>

definition index_inv :: "(address \<Rightarrow> address \<times> address) \<Rightarrow> EvmSimulator \<Rightarrow> bool" where
  "index_inv tok s \<longleftrightarrow>
     (\<forall>key a. a \<in> set (index_entries s key) \<longleftrightarrow>
        es_pool_cache s a \<noteq> None \<and> key = ordered_pair (fst (tok a)) (snd (tok a)))
     \<and> (\<forall>a p. es_pool_cache s a = Some p \<longrightarrow> ps_address p = a \<and> pool_tokens_ok tok p)"

lemma ordered_pair_sym: "ordered_pair a b = ordered_pair b a"
  by (auto simp: ordered_pair_def)

lemma index_entries_load_pool:
  "index_entries (load_pool s p) key =
    (if key = ordered_pair (ps_token0 p) (ps_token1 p) then index_entries s key @ [ps_address p]
     else index_entries s key)"
  by (simp add: index_entries_def load_pool_def index_push_def)

lemma index_inv_load_pool:
  "index_inv tok s \<Longrightarrow> pool_tokens_ok tok p \<Longrightarrow> index_inv tok (load_pool s p)"
  unfolding index_inv_def index_entries_load_pool
  by (simp add: load_pool_def pool_tokens_ok_def del: split_paired_All) blast

lemma index_inv_load_pools:
  "index_inv tok s \<Longrightarrow> list_all (pool_tokens_ok tok) pools \<Longrightarrow> index_inv tok (load_pools s pools)"
  unfolding load_pools_def
  by (induction pools arbitrary: s) (simp_all add: index_inv_load_pool)

lemma index_inv_update_pool:
  assumes "index_inv tok s" "pool_tokens_ok tok p"
  shows "index_inv tok (update_pool s p)"
proof (cases "es_pool_cache s (ps_address p)")
  case None
  then have "update_pool s p = load_pool s p"
    by (simp add: update_pool_def load_pool_def Let_def)
  with assms show ?thesis
    by (simp add: index_inv_load_pool)
next
  case (Some q)
  with assms show ?thesis
    by (auto simp: index_inv_def update_pool_def index_entries_def pool_tokens_ok_def)
qed

text \<open>Simulations leave the cache, the index and the configuration alone.\<close>

lemma simulate_frame:
  "es_pool_cache (fst (simulate t l s opp)) = es_pool_cache s"
  "es_pair_index (fst (simulate t l s opp)) = es_pair_index s"
  "es_config (fst (simulate t l s opp)) = es_config s"
  by (simp_all add: simulate_def simulate_inner_def Let_def split: sum.split prod.split)

lemma simulate_bundle_frame:
  "es_pool_cache (fst (simulate_bundle hx l s b)) = es_pool_cache s"
  "es_pair_index (fst (simulate_bundle hx l s b)) = es_pair_index s"
  "es_config (fst (simulate_bundle hx l s b)) = es_config s"
  by (simp_all add: simulate_bundle_def Let_def split: prod.split)

lemma index_inv_cong:
  "es_pool_cache s' = es_pool_cache s \<Longrightarrow> es_pair_index s' = es_pair_index s \<Longrightarrow> index_inv tok s \<Longrightarrow> index_inv tok s'"
  by (simp add: index_inv_def index_entries_def)

lemma reachable_index_inv: "cache_reachable tok s \<Longrightarrow> index_inv tok s"
proof (induction rule: cache_reachable.induct)
  case (init config)
  show ?case
    by (simp add: index_inv_def simulator_new_def index_entries_def)
next
  case (simulate s timed_out latency opp)
  then show ?case
    by (blast intro: index_inv_cong simulate_frame)
next
  case (simulate_bundle s hx latency b)
  then show ?case
    by (blast intro: index_inv_cong simulate_bundle_frame)
qed (simp_all add: index_inv_load_pools index_inv_update_pool)

text \<open>C10: the pair index mirrors the cache. In every state reached by loads, updates and simulations,
  a pool address is listed under a pair exactly when the pool is cached and the pair is its
  tokens in canonical order (provided pools never change their tokens).\<close>

theorem pair_index_mirrors_cache:
  assumes "cache_reachable tok s"
  shows "a \<in> set (index_entries s key) \<longleftrightarrow>
    get_pool s a \<noteq> None \<and> key = ordered_pair (fst (tok a)) (snd (tok a))"
  using reachable_index_inv [OF assms] unfolding index_inv_def get_pool_def by blast

theorem pair_index_mirrors_cache_witness:
  "cache_reachable (\<lambda>_. (7, 5)) (load_pools (simulator_new (Config_default 8)) [v2_pool 1 7 5 10 20 30, v2_pool 2 7 5 30 40 30])
   \<and> 2 \<in> set (index_entries
       (load_pools (simulator_new (Config_default 8)) [v2_pool 1 7 5 10 20 30, v2_pool 2 7 5 30 40 30]) (5, 7))"
proof -
  let ?s = "load_pools (simulator_new (Config_default 8)) [v2_pool 1 7 5 10 20 30, v2_pool 2 7 5 30 40 30]"
  have r: "cache_reachable (\<lambda>_. (7, 5)) ?s"
    by (rule cache_reachable.load [OF cache_reachable.init])
      (simp add: pool_tokens_ok_def v2_pool_def)
  moreover have "2 \<in> set (index_entries ?s (5, 7))"
    using pair_index_mirrors_cache [OF r, of 2 "(5, 7)"]
    by (simp add: load_pools_def load_pool_def get_pool_def v2_pool_def ordered_pair_def)
  ultimately show ?thesis by simp
qed

section \<open>Arithmetic of the profit calculations\<close>

text \<open>The price of the gas in wei, as a number.\<close>

definition gas_wei :: "EvmSimulator \<Rightarrow> Opportunity \<Rightarrow> nat" where
  "gas_wei s opp = unat (opp_gas_estimate opp) * unat (cfg_max_gas_gwei (es_config s)) * 1000000000"

lemma gas_wei_less:
  assumes "unat (opp_gas_estimate opp) < 2 ^ 32"
  shows "gas_wei s opp < 2 ^ 126"
proof -
  have "unat (cfg_max_gas_gwei (es_config s)) \<le> 2 ^ 64 - 1"
    using unat_bound [of "cfg_max_gas_gwei (es_config s)"] by simp
  with assms have "unat (opp_gas_estimate opp) * unat (cfg_max_gas_gwei (es_config s))
      \<le> (2 ^ 32 - 1) * (2 ^ 64 - 1)"
    by (intro mult_le_mono) simp_all
  then show ?thesis
    by (simp add: gas_wei_def)
qed

lemma gas_cost_wei_of_nat: "gas_cost_wei s opp = of_nat (gas_wei s opp)"
  by (simp add: gas_cost_wei_def gas_wei_def)

lemma arbitrage_gas_of_nat:
  "(ucast (opp_gas_estimate opp) :: i128) * ((ucast (cfg_max_gas_gwei (es_config s)) :: u128) * 1000000000)
    = of_nat (gas_wei s opp)"
  by (simp add: gas_wei_def mult.assoc)

lemma flash_fee_of_nat:
  fixes a :: i128
  assumes "unat a < 2 ^ 124"
  shows "sdiv_word (a * 5) 10000 = of_nat (5 * unat a div 10000)"
proof -
  have "unat (a * 5) = unat a * 5"
    using assms by (subst unat_mult_exact) simp_all
  then show ?thesis
    using assms sdiv_word_nonneg [of "a * 5" 10000] by (simp add: mult.commute)
qed

text \<open>C2: the arbitrage verdict is exact. When both pools are cached and the amounts are below
  \<open>2^124\<close> wei (gas below \<open>2^32\<close>), the reported profit is, as an integer, the output minus the flash
  loan minus the gas cost minus 5 basis points of the loan, with no wrap-around; the result is a
  success exactly when that number is positive, and carries an error text exactly otherwise.\<close>

theorem simulate_arbitrage_exact:
  assumes "swap_through_pool s (opp_amount_in opp) (hop_address opp 0) (hop_fee opp 0) True = Some mid"
    and "swap_through_pool s mid (hop_address opp 1) (hop_fee opp 1) False = Some out"
    and "unat (opp_amount_in opp) < 2 ^ 124" "unat out < 2 ^ 124" "unat (opp_gas_estimate opp) < 2 ^ 32"
  shows "\<exists>r. simulate_arbitrage s opp = Inr r
    \<and> sint (sr_profit r) = int (unat out) - int (unat (opp_amount_in opp)) - int (gas_wei s opp)
        - int (5 * unat (opp_amount_in opp) div 10000)
    \<and> (sr_success r \<longleftrightarrow> unat out > unat (opp_amount_in opp) + gas_wei s opp
        + 5 * unat (opp_amount_in opp) div 10000)
    \<and> (sr_error r = None \<longleftrightarrow> sr_success r)"
proof -
  let ?net = "out - opp_amount_in opp - of_nat (gas_wei s opp)
    - of_nat (5 * unat (opp_amount_in opp) div 10000)"
  have "sint ?net = int (unat out) - int (unat (opp_amount_in opp)) - int (gas_wei s opp)
      - int (5 * unat (opp_amount_in opp) div 10000)"
    using assms(3-5) gas_wei_less [of opp s] by (intro sint_balance) simp_all
  moreover have "\<exists>r. simulate_arbitrage s opp = Inr r \<and> sr_profit r = ?net \<and> sr_success r = (0 < sint ?net)
      \<and> (sr_error r = None) = (0 < sint ?net)"
    using assms(1,2) unfolding simulate_arbitrage_def Let_def
    by (simp add: arbitrage_gas_of_nat flash_fee_of_nat [OF assms(3)] not_le)
  moreover have "0 < int a - int b - int c - int d \<longleftrightarrow> b + c + d < a" for a b c d
    by linarith
  ultimately show ?thesis
    by metis
qed

text \<open>Concrete data for examples.\<close>

definition sample_opportunity ::
  "OpportunityType \<Rightarrow> u128 \<Rightarrow> u128 \<Rightarrow> u64 \<Rightarrow> address list \<Rightarrow> u32 list \<Rightarrow> Opportunity" where
  "sample_opportunity kind amount profit gas pools fees =
    \<lparr>opp_type = kind, opp_token_in = ''WETH'', opp_token_out = ''USDC'', opp_amount_in = amount,
     opp_expected_profit = profit, opp_gas_estimate = gas, opp_deadline = 0, opp_path = [UniswapV2, SushiSwap],
     opp_pool_addresses = pools, opp_pool_fees = fees, opp_target_tx = None\<rparr>"

definition sample_simulator :: EvmSimulator where
  "sample_simulator = load_pools (simulator_new (Config_default 8))
     [v2_pool 1 7 5 5000000000000000 10000000000000000 30, v2_pool 2 7 5 5000000000000000 5000000000000000 30]"

lemma sample_simulator_simps:
  "es_pool_cache sample_simulator =
    [1 \<mapsto> v2_pool 1 7 5 5000000000000000 10000000000000000 30,
     2 \<mapsto> v2_pool 2 7 5 5000000000000000 5000000000000000 30]"
  "es_config sample_simulator = Config_default 8"
  by (simp_all add: sample_simulator_def load_pools_def load_pool_def simulator_new_def v2_pool_def)

lemmas sample_simps = sample_simulator_simps sample_opportunity_def hop_address_def hop_fee_def
  swap_through_pool_def pool_state_full_def v2_pool_def constant_product_swap_def checked_mul_def
  checked_add_def gas_wei_def Config_default_def

theorem simulate_arbitrage_exact_witness:
  "\<exists>r. simulate_arbitrage sample_simulator
      (sample_opportunity Arbitrage 100000000000000 0 10 [1, 2] [3000, 3000]) = Inr r
    \<and> sint (sr_profit r) = 86551899087775 \<and> sr_success r \<and> sr_error r = None"
proof -
  let ?s = sample_simulator and ?o = "sample_opportunity Arbitrage 100000000000000 0 10 [1, 2] [3000, 3000]"
  have m: "swap_through_pool ?s (opp_amount_in ?o) (hop_address ?o 0) (hop_fee ?o 0) True = Some 195501696178206"
    by (simp add: sample_simps)
  have o: "swap_through_pool ?s 195501696178206 (hop_address ?o 1) (hop_fee ?o 1) False = Some 187601899087775"
    by (simp add: sample_simps)
  show ?thesis
    using simulate_arbitrage_exact [OF m o] by (auto simp: sample_simps)
qed

text \<open>The two legs of an arbitrage through pools with the same constant-product state.\<close>

lemma swap_through_v2:
  assumes "es_pool_cache s addr = Some p" "addr \<noteq> 0" "\<not> ps_is_v3 p"
  shows "\<exists>fee. swap_through_pool s a addr fo zf = Some
    (if zf then constant_product_swap a (ps_reserve0 p) (ps_reserve1 p) fee
     else constant_product_swap a (ps_reserve1 p) (ps_reserve0 p) fee)"
  using assms by (auto simp: swap_through_pool_def pool_state_full_def Let_def)

lemma constant_product_round_trip_le:
  "unat (constant_product_swap (constant_product_swap dx x y fee) y x fee') \<le> unat dx"
proof (cases "x = 0 \<or> y = 0 \<or> dx = 0")
  case True
  then show ?thesis by (auto simp: constant_product_swap_def)
next
  case False
  then have "0 < unat x" "0 < unat y" "0 < unat dx"
    by (simp_all add: unat_eq_iff)
  then show ?thesis
    using cps_trip.round_trip_loses [of x y dx fee fee'] by simp
qed

text \<open>Equal markets offer no arbitrage. If the entry and the exit pool of an arbitrage are cached
  constant-product pools with the same reserves (in particular the same pool), the simulation of
  any trade below \<open>2^124\<close> wei completes and is not a success, whatever fees the opportunity
  carries.\<close>

theorem simulate_arbitrage_equal_pools:
  assumes "es_pool_cache s (hop_address opp 0) = Some p" "es_pool_cache s (hop_address opp 1) = Some q"
    and "hop_address opp 0 \<noteq> 0" "hop_address opp 1 \<noteq> 0" "\<not> ps_is_v3 p" "\<not> ps_is_v3 q"
    and "ps_reserve0 p = ps_reserve0 q" "ps_reserve1 p = ps_reserve1 q"
    and "unat (opp_amount_in opp) < 2 ^ 124" "unat (opp_gas_estimate opp) < 2 ^ 32"
  shows "\<exists>r. simulate_arbitrage s opp = Inr r \<and> \<not> sr_success r \<and> sint (sr_profit r) \<le> 0"
proof -
  let ?a = "opp_amount_in opp" and ?x = "ps_reserve0 p" and ?y = "ps_reserve1 p"
  obtain f where m: "swap_through_pool s ?a (hop_address opp 0) (hop_fee opp 0) True
      = Some (constant_product_swap ?a ?x ?y f)"
    using swap_through_v2 [OF assms(1,3,5), where zf = True] by auto
  obtain g where o: "swap_through_pool s (constant_product_swap ?a ?x ?y f) (hop_address opp 1) (hop_fee opp 1) False
      = Some (constant_product_swap (constant_product_swap ?a ?x ?y f) ?y ?x g)"
    using swap_through_v2 [OF assms(2,4,6), where zf = False] assms(7,8) by auto
  let ?out = "constant_product_swap (constant_product_swap ?a ?x ?y f) ?y ?x g"
  let ?net = "?out - ?a - of_nat (gas_wei s opp) - of_nat (5 * unat ?a div 10000)"
  have le: "unat ?out \<le> unat ?a"
    by (rule constant_product_round_trip_le)
  have "sint ?net = int (unat ?out) - int (unat ?a) - int (gas_wei s opp) - int (5 * unat ?a div 10000)"
    using assms(9,10) le gas_wei_less [of opp s] by (intro sint_balance) simp_all
  also have "\<dots> \<le> 0"
    using le by linarith
  finally show ?thesis
    using m o unfolding simulate_arbitrage_def Let_def
    by (simp add: arbitrage_gas_of_nat flash_fee_of_nat [OF assms(9)])
qed

theorem simulate_arbitrage_equal_pools_witness:
  "\<exists>r. simulate_arbitrage sample_simulator
      (sample_opportunity Arbitrage 100000000000000 0 10 [1, 1] [3000, 500]) = Inr r
    \<and> \<not> sr_success r \<and> sint (sr_profit r) \<le> 0"
  by (rule simulate_arbitrage_equal_pools
      [where p = "v2_pool 1 7 5 5000000000000000 10000000000000000 30"
         and q = "v2_pool 1 7 5 5000000000000000 10000000000000000 30"])
    (simp_all add: sample_simps)

section \<open>Error paths\<close>

lemma swap_through_pool_None:
  "swap_through_pool s a addr fo zf = None \<longleftrightarrow> addr = 0 \<or> es_pool_cache s addr = None"
  by (auto simp: swap_through_pool_def pool_state_full_def Let_def split: option.splits)

lemma pool_reserves_None: "pool_reserves s addr = None \<longleftrightarrow> addr = 0 \<or> es_pool_cache s addr = None"
  by (auto simp: pool_reserves_def split: option.splits)

lemma simulate_arbitrage_error_iff:
  "(\<exists>e. simulate_arbitrage s opp = Inl e) \<longleftrightarrow>
    (\<exists>i \<in> {0, 1}. hop_address opp i = 0 \<or> es_pool_cache s (hop_address opp i) = None)"
proof (cases "swap_through_pool s (opp_amount_in opp) (hop_address opp 0) (hop_fee opp 0) True")
  case None
  then have "\<exists>e. simulate_arbitrage s opp = Inl e"
    by (simp add: simulate_arbitrage_def Let_def)
  with None show ?thesis
    by (simp add: swap_through_pool_None)
next
  case (Some mid)
  then have 0: "\<not> (hop_address opp 0 = 0 \<or> es_pool_cache s (hop_address opp 0) = None)"
    by (metis option.distinct(1) swap_through_pool_None)
  show ?thesis
  proof (cases "swap_through_pool s mid (hop_address opp 1) (hop_fee opp 1) False")
    case None
    with Some have "\<exists>e. simulate_arbitrage s opp = Inl e"
      by (simp add: simulate_arbitrage_def Let_def)
    with None show ?thesis
      by (simp add: swap_through_pool_None)
  next
    case (Some out)
    then have "\<not> (hop_address opp 1 = 0 \<or> es_pool_cache s (hop_address opp 1) = None)"
      by (metis option.distinct(1) swap_through_pool_None)
    moreover have "\<exists>r. simulate_arbitrage s opp = Inr r"
      using Some \<open>swap_through_pool s (opp_amount_in opp) _ _ _ = _\<close>
      by (simp add: simulate_arbitrage_def Let_def)
    ultimately show ?thesis
      using 0 by auto
  qed
qed

lemma simulate_backrun_error_iff:
  "(\<exists>e. simulate_backrun s opp = Inl e) \<longleftrightarrow>
    (\<exists>i \<in> {0, 1}. hop_address opp i = 0 \<or> es_pool_cache s (hop_address opp i) = None)"
proof -
  have "(\<exists>e. simulate_backrun s opp = Inl e) \<longleftrightarrow>
      pool_reserves s (hop_address opp 0) = None \<or> pool_reserves s (hop_address opp 1) = None"
    by (cases "pool_reserves s (hop_address opp 0)"; cases "pool_reserves s (hop_address opp 1)")
      (simp_all add: simulate_backrun_def Let_def split: prod.split)
  then show ?thesis
    by (simp only: pool_reserves_None) simp
qed

text \<open>Nothing is simulated against default reserves. A simulation other than of a liquidation
  returns an error exactly when one of its first two pools is the zero address (as for a list of
  fewer than two pools) or is not in the cache; a liquidation never errors.\<close>

theorem simulate_kind_error_iff:
  "(\<exists>e. simulate_kind s opp = Inl e) \<longleftrightarrow>
    opp_type opp \<noteq> Liquidation \<and>
    (\<exists>i \<in> {0, 1}. hop_address opp i = 0 \<or> get_pool s (hop_address opp i) = None)"
proof (cases "opp_type opp")
  case Arbitrage
  then show ?thesis
    using simulate_arbitrage_error_iff [of s opp] by (simp add: simulate_kind_def get_pool_def)
next
  case Backrun
  then show ?thesis
    using simulate_backrun_error_iff [of s opp] by (simp add: simulate_kind_def get_pool_def)
qed (simp add: simulate_kind_def simulate_liquidation_def Let_def)

section \<open>Counters\<close>

text \<open>What a simulation computes depends on the configuration and the cache only.\<close>

lemma simulate_kind_cong:
  assumes "es_pool_cache s' = es_pool_cache s" "es_config s' = es_config s"
  shows "simulate_kind s' opp = simulate_kind s opp"
proof -
  have p: "pool_state_full s' = pool_state_full s" "pool_reserves s' = pool_reserves s"
    using assms by (simp_all add: fun_eq_iff pool_state_full_def pool_reserves_def)
  then have w: "swap_through_pool s' = swap_through_pool s"
    by (simp add: fun_eq_iff swap_through_pool_def)
  have "simulate_arbitrage s' opp = simulate_arbitrage s opp"
    "simulate_backrun s' opp = simulate_backrun s opp"
    "simulate_liquidation s' opp = simulate_liquidation s opp"
    unfolding simulate_arbitrage_def simulate_backrun_def simulate_liquidation_def
      gas_cost_wei_def p w assms by (rule refl)+
  then show ?thesis
    by (simp only: simulate_kind_def)
qed

definition profitable :: "EvmSimulator \<Rightarrow> Opportunity \<Rightarrow> bool" where
  "profitable s opp =
     (case simulate_kind s opp of Inr r \<Rightarrow> sr_success r \<and> 0 < sint (sr_profit r) | Inl e \<Rightarrow> False)"

lemma simulate_counters:
  "es_count (fst (simulate t l s opp)) = es_count s + 1"
  "es_success_count (fst (simulate t l s opp)) = es_success_count s + (if profitable s opp then 1 else 0)"
proof -
  have k: "simulate_kind (s\<lparr>es_count := es_count s + 1\<rparr>) opp = simulate_kind s opp"
    by (rule simulate_kind_cong) simp_all
  show "es_count (fst (simulate t l s opp)) = es_count s + 1"
    by (simp add: simulate_def simulate_inner_def Let_def split: sum.split prod.split)
  show "es_success_count (fst (simulate t l s opp)) = es_success_count s + (if profitable s opp then 1 else 0)"
    by (simp add: simulate_def simulate_inner_def Let_def k profitable_def split: sum.split prod.split)
qed

text \<open>A run of simulation requests, each with the clock and timer it meets.\<close>

fun run_simulations :: "EvmSimulator \<Rightarrow> ((u64 \<Rightarrow> bool) \<times> u64 \<times> Opportunity) list \<Rightarrow> EvmSimulator" where
  "run_simulations s [] = s"
| "run_simulations s ((timed_out, latency, opp) # reqs) =
     run_simulations (fst (simulate timed_out latency s opp)) reqs"

lemma profitable_simulate: "profitable (fst (simulate t l s opp)) o' = profitable s o'"
  by (simp add: profitable_def simulate_kind_cong [OF simulate_frame(1,3)])

lemma run_simulations_counters:
  "es_count (run_simulations s reqs) = es_count s + of_nat (length reqs)
   \<and> es_success_count (run_simulations s reqs)
     = es_success_count s + of_nat (length (filter (\<lambda>(_, _, opp). profitable s opp) reqs))"
proof (induction reqs arbitrary: s)
  case (Cons r reqs)
  obtain t l opp where "r = (t, l, opp)"
    by (cases r)
  with Cons [of "fst (simulate t l s opp)"] show ?case
    by (simp add: simulate_counters profitable_simulate)
qed simp

text \<open>The counters count. After any run of fewer than \<open>2^64\<close> requests on a simulator loaded with
  any pools, the number of simulations is the length of the run, and the number of successes is
  the number of requests that are profitable against those pools: the order, the measured
  latencies and the timers play no role.\<close>

theorem run_simulations_count:
  assumes "length reqs < 2 ^ 64"
  shows "unat (es_count (run_simulations (load_pools (simulator_new c) pools) reqs)) = length reqs
    \<and> unat (es_success_count (run_simulations (load_pools (simulator_new c) pools) reqs))
      = length (filter (\<lambda>(_, _, opp). profitable (load_pools (simulator_new c) pools) opp) reqs)"
proof -
  let ?s = "load_pools (simulator_new c) pools"
  have "es_count (load_pools s ps) = es_count s \<and> es_success_count (load_pools s ps) = es_success_count s"
    for s ps
    unfolding load_pools_def by (induction ps arbitrary: s) (simp_all add: load_pool_def)
  then have z: "es_count ?s = 0" "es_success_count ?s = 0"
    by (simp_all add: simulator_new_def)
  have "length (filter (\<lambda>(_, _, opp). profitable ?s opp) reqs) < 2 ^ 64"
    using assms le_less_trans length_filter_le by blast
  with assms z show ?thesis
    using run_simulations_counters [of ?s reqs] by (simp add: unat_word_of_nat_small)
qed

theorem run_simulations_count_witness:
  "length [(\<lambda>_ :: u64. False, 5 :: u64, sample_opportunity Liquidation 1000 90000000000000 100 [] []),
           (\<lambda>_. True, 7, sample_opportunity Arbitrage 1000 0 10 [] [])] < 2 ^ 64
   \<and> unat (es_success_count (run_simulations (load_pools (simulator_new (Config_default 8)) [])
       [(\<lambda>_. False, 5, sample_opportunity Liquidation 1000 90000000000000 100 [] []),
        (\<lambda>_. True, 7, sample_opportunity Arbitrage 1000 0 10 [] [])])) = 1"
proof -
  let ?s = "load_pools (simulator_new (Config_default 8)) []"
  have "profitable ?s (sample_opportunity Liquidation 1000 90000000000000 100 [] [])"
    by (simp add: profitable_def simulate_kind_def simulate_liquidation_def load_pools_def simulator_new_def
        sample_opportunity_def gas_cost_wei_def Config_default_def sdiv_word_def)
  moreover have "\<not> profitable ?s (sample_opportunity Arbitrage 1000 0 10 [] [])"
    by (simp add: profitable_def simulate_kind_def simulate_arbitrage_def sample_opportunity_def
        hop_address_def swap_through_pool_def pool_state_full_def)
  ultimately show ?thesis
    using run_simulations_count [of
        "[(\<lambda>_. False, 5, sample_opportunity Liquidation 1000 90000000000000 100 [] []),
          (\<lambda>_. True, 7, sample_opportunity Arbitrage 1000 0 10 [] [])]" "Config_default 8" "[]"]
    by simp
qed

section \<open>Bundles\<close>

text \<open>The gas of a bundle transaction as a number: the intrinsic gas, the calldata gas (4 per zero byte,
  16 per other byte) and 100000 for the contract, capped by the gas limit.\<close>

definition tx_gas_spec :: "BundleTransaction \<Rightarrow> nat" where
  "tx_gas_spec tx = min (121000 + (\<Sum>b\<leftarrow>bt_data tx. if b = 0 then 4 else 16)) (unat (bt_gas_limit tx))"

definition tx_tip :: "BundleTransaction \<Rightarrow> nat" where
  "tx_tip tx = (case bt_max_priority_fee_per_gas tx of Some t \<Rightarrow> unat t | None \<Rightarrow> 1000000000)"

definition bundle_cost :: "BundleTransaction list \<Rightarrow> nat" where
  "bundle_cost txs = (\<Sum>tx\<leftarrow>txs. tx_gas_spec tx * tx_tip tx)"

lemma calldata_sum_le: "(\<Sum>b\<leftarrow>(data :: bytes). if b = 0 then 4 else 16) \<le> 16 * length data"
  by (induction data) auto

lemma unat_calldata_sum:
  "length (data :: bytes) < 2 ^ 40 \<Longrightarrow>
    unat (sum_list (map (\<lambda>b. if b = 0 then 4 else 16) data) :: u64) = (\<Sum>b\<leftarrow>data. if b = 0 then 4 else 16)"
proof (induction data)
  case (Cons b data)
  have "(\<Sum>b\<leftarrow>data. if b = 0 then 4 else 16) \<le> (16 :: nat) * length data"
    by (rule calldata_sum_le)
  then have "unat (if b = 0 then 4 else 16 :: u64)
      + unat (sum_list (map (\<lambda>b. if b = 0 then 4 else 16) data) :: u64) < 2 ^ LENGTH(64)"
    using Cons by simp
  with Cons show ?case
    by (simp add: unat_add_exact)
qed simp

lemma estimate_tx_gas_exact:
  assumes "length (bt_data tx) < 2 ^ 40"
  shows "unat (estimate_tx_gas (bt_gas_limit tx) (bt_data tx)) = tx_gas_spec tx"
proof -
  let ?c = "sum_list (map (\<lambda>b. if b = 0 then 4 else 16) (bt_data tx)) :: u64"
  have c: "unat ?c = (\<Sum>b\<leftarrow>bt_data tx. if b = 0 then 4 else 16)"
    using assms by (rule unat_calldata_sum)
  then have "unat ?c \<le> 16 * 2 ^ 40"
    using assms calldata_sum_le [of "bt_data tx"] by simp
  then have "unat (21000 + ?c + 100000) = 121000 + unat ?c"
    by (subst unat_add_exact; simp add: unat_add_exact)
  with c show ?thesis
    unfolding estimate_tx_gas_def tx_gas_spec_def Let_def
    by (simp add: min_def word_le_nat_alt)
qed

lemma estimate_tx_gas_of_nat:
  assumes "length (bt_data tx) < 2 ^ 40"
  shows "estimate_tx_gas (bt_gas_limit tx) (bt_data tx) = of_nat (tx_gas_spec tx)"
    "(ucast (estimate_tx_gas (bt_gas_limit tx) (bt_data tx)) :: i128) = of_nat (tx_gas_spec tx)"
  by (simp_all flip: estimate_tx_gas_exact [OF assms])

lemma bundle_loop_sums:
  assumes "\<forall>tx \<in> set txs. length (bt_data tx) < 2 ^ 40"
  shows "fst (bundle_loop hx p g cs txs) =
      p - of_nat (bundle_cost txs) + (if txs = [] then 0 else bt_value (last txs))"
    "fst (snd (bundle_loop hx p g cs txs)) = g + of_nat (\<Sum>tx\<leftarrow>txs. tx_gas_spec tx)"
    "length (snd (snd (bundle_loop hx p g cs txs))) = length cs + length txs"
  using assms
proof (induction txs arbitrary: p g cs)
  case (Cons tx txs)
  have tip: "(case bt_max_priority_fee_per_gas tx of Some t \<Rightarrow> t | None \<Rightarrow> 1000000000) = of_nat (tx_tip tx)"
    by (simp add: tx_tip_def split: option.split)
  note gas = estimate_tx_gas_of_nat [of tx]
  case 1 with Cons(1) show ?case by (simp add: bundle_cost_def Let_def tip gas(2) diff_diff_eq)
  case 2 with Cons(2) show ?case by (simp add: Let_def tip gas(1) algebra_simps)
  case 3 with Cons(3) show ?case by (simp add: Let_def)
qed (simp_all add: bundle_cost_def)

text \<open>The bundle simulation is exact. For calldata below \<open>2^40\<close> bytes, gas totals below \<open>2^64\<close> and
  costs and revenue below \<open>2^126\<close>, the reported gas is the sum of the transactions' gas, the
  reported profit is the value of the last transaction minus the sum of gas times tip, and the
  bundle succeeds exactly when that is positive; one state change is recorded per transaction.\<close>

theorem simulate_bundle_exact:
  assumes "\<forall>tx \<in> set (bu_transactions b). length (bt_data tx) < 2 ^ 40"
    and "(\<Sum>tx\<leftarrow>bu_transactions b. tx_gas_spec tx) < 2 ^ 64"
    and "bundle_cost (bu_transactions b) < 2 ^ 126"
    and "bu_transactions b \<noteq> []" "unat (bt_value (last (bu_transactions b))) < 2 ^ 126"
    and "snd (simulate_bundle hx l s b) = r"
  shows "unat (sr_gas_used r) = (\<Sum>tx\<leftarrow>bu_transactions b. tx_gas_spec tx)
    \<and> sint (sr_profit r) = int (unat (bt_value (last (bu_transactions b)))) - int (bundle_cost (bu_transactions b))
    \<and> (sr_success r \<longleftrightarrow> bundle_cost (bu_transactions b) < unat (bt_value (last (bu_transactions b))))
    \<and> length (sr_state_changes r) = length (bu_transactions b)"
proof -
  let ?txs = "bu_transactions b"
  let ?v = "bt_value (last ?txs)"
  obtain p g cs where L: "bundle_loop hx 0 0 [] ?txs = (p, g, cs)"
    by (cases "bundle_loop hx 0 0 [] ?txs")
  note sums = bundle_loop_sums [OF assms(1), of hx 0 0 "[]"]
  have p: "p = ?v - 0 - of_nat (bundle_cost ?txs) - of_nat 0"
    and g: "g = of_nat (\<Sum>tx\<leftarrow>?txs. tx_gas_spec tx)" and cs: "length cs = length ?txs"
    using sums assms(4) by (simp_all add: L)
  have "sint p = int (unat ?v) - int (bundle_cost ?txs)"
    unfolding p by (subst sint_balance) (use assms(3,5) in simp_all)
  moreover have "unat g = (\<Sum>tx\<leftarrow>?txs. tx_gas_spec tx)"
    unfolding g using assms(2) by (intro unat_word_of_nat_small) simp
  moreover have "0 < int (unat ?v) - int (bundle_cost ?txs) \<longleftrightarrow> bundle_cost ?txs < unat ?v"
    by linarith
  moreover have "r = \<lparr>sr_success = (0 < sint p), sr_profit = p, sr_gas_used = g, sr_error = None,
      sr_state_changes = cs\<rparr>"
    using assms(6) by (simp add: simulate_bundle_def L Let_def)
  ultimately show ?thesis
    using cs by (simp only: SimulationResult.simps)
qed

definition sample_tx :: "u128 \<Rightarrow> BundleTransaction" where
  "sample_tx v = \<lparr>bt_to = ''0x01'', bt_value = v, bt_gas_limit = 500000, bt_gas_price = None,
     bt_max_fee_per_gas = None, bt_max_priority_fee_per_gas = Some 2, bt_data = [18, 52, 0, 86], bt_nonce = None\<rparr>"

definition sample_bundle :: Bundle where
  "sample_bundle = \<lparr>bu_transactions = [sample_tx 0, sample_tx 1000000], bu_target_block = None,
     bu_max_block_number = None, bu_min_timestamp = None, bu_max_timestamp = None,
     bu_reverting_tx_hashes = []\<rparr>"

theorem simulate_bundle_exact_witness:
  "unat (sr_gas_used (snd (simulate_bundle hex_std 3 sample_simulator sample_bundle))) = 242104
   \<and> sr_success (snd (simulate_bundle hex_std 3 sample_simulator sample_bundle))"
  using simulate_bundle_exact [of sample_bundle, OF _ _ _ _ _ refl, of hex_std 3 sample_simulator]
  by (simp add: sample_bundle_def sample_tx_def tx_gas_spec_def tx_tip_def bundle_cost_def)

end
