(* ===== verification/Arbitrage_Detector.thy ===== *)
theory Arbitrage_Detector
  imports Pool_Store Mev_Config
begin

text \<open>
  The cross-DEX arbitrage detector (\<^verbatim>\<open>core/src/detector/arbitrage.rs\<close>): the calldata parsers,
  the pool cache, the price queries, the profit estimate and \<^verbatim>\<open>detect\<close>. The cache is iterated
  by the code, so it is an association list; a parser that indexes past its input panics, which is
  a value of the model.
\<close>

section \<open>ABI words\<close>

definition read_u128_from_word :: "bytes \<Rightarrow> u128" where
  "read_u128_from_word w = (if length w < 32 then 0 else from_be (sub_bytes 16 32 w))"

definition read_u64_from_word :: "bytes \<Rightarrow> u64" where
  "read_u64_from_word w = (if length w < 32 then 0 else from_be (sub_bytes 24 32 w))"

definition read_u32_from_word :: "bytes \<Rightarrow> u32" where
  "read_u32_from_word w = (if length w < 32 then 0 else from_be (sub_bytes 28 32 w))"

definition read_usize_from_word :: "bytes \<Rightarrow> usize" where
  "read_usize_from_word w = read_u64_from_word w"

definition decode_addr :: "hexcrate \<Rightarrow> string \<Rightarrow> address" where
  "decode_addr hx addr =
    (let bytes = (case hex_decode hx (strip_0x addr) of Some bs \<Rightarrow> bs | None \<Rightarrow> [])
     in if 20 \<le> length bytes then from_be (take 20 bytes) else 0)"

section \<open>Calldata parsers\<close>

definition parse_v2_swap :: "hexcrate \<Rightarrow> bytes \<Rightarrow> bool \<Rightarrow> SwapInfo option exec" where
  "parse_v2_swap hx data exact_output =
    (if length data < 260 then Inr None
     else
       let amount_in = read_u128_from_word (sub_bytes 4 36 data);
           amount_out_min = read_u128_from_word (sub_bytes 36 68 data);
           path_offset = read_usize_from_word (sub_bytes 68 100 data) + 4
       in if length data < unat (path_offset + 32) then Inr None
          else bindE (slice data path_offset (path_offset + 32)) (\<lambda>len_word.
            let path_len = read_usize_from_word len_word
            in if path_len < 2 \<or> length data < unat (path_offset + 32 + path_len * 32) then Inr None
               else
                 let token_in_start = path_offset + 32 + 12;
                     token_out_start = path_offset + 32 + (path_len - 1) * 32 + 12
                 in bindE (slice data token_in_start (token_in_start + 20)) (\<lambda>tin.
                    bindE (slice data token_out_start (token_out_start + 20)) (\<lambda>tout.
                    Inr (Some \<lparr>si_dex = UniswapV2, si_token_in = hex_0x hx tin, si_token_out = hex_0x hx tout,
                               si_amount_in = (if exact_output then amount_out_min else amount_in),
                               si_amount_out_min = (if exact_output then amount_in else amount_out_min),
                               si_fee = 3000\<rparr>)))))"

definition parse_v2_eth_swap :: "hexcrate \<Rightarrow> bytes \<Rightarrow> u128 \<Rightarrow> SwapInfo option exec" where
  "parse_v2_eth_swap hx data tx_val =
    (if length data < 196 then Inr None
     else
       let amount_out_min = read_u128_from_word (sub_bytes 4 36 data);
           path_offset = read_usize_from_word (sub_bytes 36 68 data) + 4
       in if length data < unat (path_offset + 64) then Inr None
          else bindE (slice data path_offset (path_offset + 32)) (\<lambda>len_word.
            let path_len = read_usize_from_word len_word
            in if path_len < 2 \<or> length data < unat (path_offset + 32 + path_len * 32) then Inr None
               else
                 let token_out_start = path_offset + 32 + (path_len - 1) * 32 + 12
                 in bindE (slice data token_out_start (token_out_start + 20)) (\<lambda>tout.
                    Inr (Some \<lparr>si_dex = UniswapV2, si_token_in = ''WETH'', si_token_out = hex_0x hx tout,
                               si_amount_in = tx_val, si_amount_out_min = amount_out_min,
                               si_fee = 3000\<rparr>))))"

definition parse_v3_exact_input_single :: "hexcrate \<Rightarrow> bytes \<Rightarrow> SwapInfo option" where
  "parse_v3_exact_input_single hx data =
    (if length data < 260 then None
     else Some \<lparr>si_dex = UniswapV3,
                si_token_in = hex_0x hx (sub_bytes 16 36 data),
                si_token_out = hex_0x hx (sub_bytes 48 68 data),
                si_amount_in = read_u128_from_word (sub_bytes 164 196 data),
                si_amount_out_min = read_u128_from_word (sub_bytes 196 228 data),
                si_fee = read_u32_from_word (sub_bytes 68 100 data)\<rparr>)"

text \<open>\<^verbatim>\<open>data[i]\<close>\<close>

definition byte_at :: "bytes \<Rightarrow> usize \<Rightarrow> u8 exec" where
  "byte_at data i = (if unat i < length data then Inr (data ! unat i) else Inl IndexOutOfBounds)"

definition parse_v3_exact_input :: "hexcrate \<Rightarrow> bytes \<Rightarrow> SwapInfo option exec" where
  "parse_v3_exact_input hx data =
    (if length data < 196 then Inr None
     else
       let path_offset = read_usize_from_word (sub_bytes 4 36 data) + 4;
           amount_in = read_u128_from_word (sub_bytes 100 132 data);
           amount_out_min = read_u128_from_word (sub_bytes 132 164 data)
       in if length data < unat (path_offset + 32) then Inr None
          else bindE (slice data path_offset (path_offset + 32)) (\<lambda>len_word.
            let path_len = read_usize_from_word len_word;
                path_start = path_offset + 32
            in if length data < unat (path_start + path_len) \<or> path_len < 43 then Inr None
               else
                 bindE (slice data path_start (path_start + 20)) (\<lambda>tin.
                 bindE (byte_at data (path_start + 20)) (\<lambda>f1.
                 bindE (byte_at data (path_start + 21)) (\<lambda>f2.
                 bindE (byte_at data (path_start + 22)) (\<lambda>f3.
                 let token_out_start = path_start + path_len - 20
                 in bindE (slice data token_out_start (token_out_start + 20)) (\<lambda>tout.
                    Inr (Some \<lparr>si_dex = UniswapV3, si_token_in = hex_0x hx tin, si_token_out = hex_0x hx tout,
                               si_amount_in = amount_in, si_amount_out_min = amount_out_min,
                               si_fee = from_be [0, f1, f2, f3]\<rparr>))))))))"

definition parse_v3_exact_output_single :: "hexcrate \<Rightarrow> bytes \<Rightarrow> SwapInfo option" where
  "parse_v3_exact_output_single hx data =
    (if length data < 260 then None
     else Some \<lparr>si_dex = UniswapV3,
                si_token_in = hex_0x hx (sub_bytes 16 36 data),
                si_token_out = hex_0x hx (sub_bytes 48 68 data),
                si_amount_in = read_u128_from_word (sub_bytes 196 228 data),
                si_amount_out_min = read_u128_from_word (sub_bytes 164 196 data),
                si_fee = read_u32_from_word (sub_bytes 68 100 data)\<rparr>)"

definition parse_swap :: "hexcrate \<Rightarrow> PendingTx \<Rightarrow> SwapInfo option exec" where
  "parse_swap hx tx =
    (let data = tx_input tx; selector = take 4 data
     in if length data < 4 then Inr None
        else if selector = [0x38, 0xed, 0x17, 0x39] then parse_v2_swap hx data False
        else if selector = [0x88, 0x03, 0xdb, 0xee] then parse_v2_swap hx data True
        else if selector = [0x7f, 0xf3, 0x6a, 0xb5] then parse_v2_eth_swap hx data (tx_value tx)
        else if selector = [0x18, 0xcb, 0xaf, 0xe5] then parse_v2_swap hx data False
        else if selector = [0x41, 0x4b, 0xf3, 0x89] then Inr (parse_v3_exact_input_single hx data)
        else if selector = [0xc0, 0x4b, 0x8d, 0x59] then parse_v3_exact_input hx data
        else if selector = [0xdb, 0x3e, 0x21, 0x98] then Inr (parse_v3_exact_output_single hx data)
        else Inr None)"

section \<open>The detector and its cache\<close>

text \<open>The composite key: both tokens and the low byte of the fee.\<close>

record PoolKey =
  pk_token0 :: address
  pk_token1 :: address
  pk_dex :: u8

record ArbitrageDetector =
  ad_config :: Config
  ad_pool_cache :: "(PoolKey \<times> PoolState) list"

definition arbitrage_new :: "Config \<Rightarrow> ArbitrageDetector" where
  "arbitrage_new config = \<lparr>ad_config = config, ad_pool_cache = []\<rparr>"

definition pool_key :: "PoolState \<Rightarrow> PoolKey" where
  "pool_key p = \<lparr>pk_token0 = ps_token0 p, pk_token1 = ps_token1 p, pk_dex = ucast (ps_fee p)\<rparr>"

definition arb_update_pool :: "ArbitrageDetector \<Rightarrow> PoolState \<Rightarrow> ArbitrageDetector" where
  "arb_update_pool s p = s\<lparr>ad_pool_cache := AList.update (pool_key p) p (ad_pool_cache s)\<rparr>"

definition arb_load_pools :: "ArbitrageDetector \<Rightarrow> PoolState list \<Rightarrow> ArbitrageDetector" where
  "arb_load_pools s pools = foldl arb_update_pool s pools"

section \<open>Prices\<close>

fun dex_from_fee :: "u32 \<Rightarrow> DexType" where
  "dex_from_fee fee =
    (if fee = 100 \<or> fee = 500 \<or> fee = 3000 \<or> fee = 10000 then UniswapV3
     else if fee = 9970 then SushiSwap else UniswapV2)"

definition match_pool_to_swap :: "hexcrate \<Rightarrow> PoolState \<Rightarrow> SwapInfo \<Rightarrow> bool \<times> bool" where
  "match_pool_to_swap hx pool swap =
    (let token_in_bytes = decode_addr hx (si_token_in swap);
         token_out_bytes = decode_addr hx (si_token_out swap)
     in if ps_token0 pool = token_in_bytes \<and> ps_token1 pool = token_out_bytes then (True, False)
        else if ps_token1 pool = token_in_bytes \<and> ps_token0 pool = token_out_bytes then (True, True)
        else (False, False))"

text \<open>The price of one cached pool, or \<open>None\<close> where the loop continues without a price. The
  arithmetic is unchecked.\<close>

definition pool_quote :: "hexcrate \<Rightarrow> SwapInfo \<Rightarrow> PoolState \<Rightarrow> (DexType \<times> u128) option" where
  "pool_quote hx swap pool =
    (let (is_match, is_reversed) = match_pool_to_swap hx pool swap
     in if \<not> is_match then None
        else
          let (reserve_in, reserve_out) =
                (if is_reversed then (ps_reserve1 pool, ps_reserve0 pool)
                 else (ps_reserve0 pool, ps_reserve1 pool))
          in if reserve_in = 0 \<or> reserve_out = 0 then None
             else
               let fee_bps = (ucast (ps_fee pool) :: u128);
                   amount_in_with_fee = si_amount_in swap * (10000 - fee_bps);
                   numerator = amount_in_with_fee * reserve_out;
                   denominator = reserve_in * 10000 + amount_in_with_fee
               in if denominator = 0 then None
                  else Some (dex_from_fee (ps_fee pool), numerator div denominator))"

definition typical_reserves :: "(DexType \<times> u128 \<times> u128 \<times> u32) list" where
  "typical_reserves =
    [(UniswapV2, 5000000000000000000000, 10000000000000, 3000),
     (SushiSwap, 2000000000000000000000, 4000000000000, 3000),
     (UniswapV3, 8000000000000000000000, 16000000000000, 500)]"

definition estimate_cross_dex_prices :: "SwapInfo \<Rightarrow> (DexType \<times> u128) list option" where
  "estimate_cross_dex_prices swap =
    (if si_amount_in swap < 100000 then None
     else
       let results = List.map_filter (\<lambda>(dex, reserve0, reserve1, fee_bps).
             let amount_in_with_fee = si_amount_in swap * (10000 - (ucast fee_bps :: u128));
                 numerator = amount_in_with_fee * reserve1;
                 denominator = reserve0 * 10000 + amount_in_with_fee
             in if 0 < denominator then Some (dex, numerator div denominator) else None) typical_reserves
       in if results = [] then None else Some results)"

definition get_cross_dex_prices ::
  "hexcrate \<Rightarrow> ArbitrageDetector \<Rightarrow> SwapInfo \<Rightarrow> (DexType \<times> u128) list option" where
  "get_cross_dex_prices hx s swap =
    (if ad_pool_cache s = [] then estimate_cross_dex_prices swap
     else
       let results = List.map_filter (\<lambda>(_, pool). pool_quote hx swap pool) (ad_pool_cache s)
       in if results = [] then None else Some results)"

definition calculate_profit :: "Config \<Rightarrow> (DexType \<times> u128) list \<Rightarrow> u128 option" where
  "calculate_profit config prices =
    (if length prices < 2 then None
     else case iter_min (map snd prices) of
       None \<Rightarrow> None
     | Some min_price \<Rightarrow>
         (case iter_max (map snd prices) of
            None \<Rightarrow> None
          | Some max_price \<Rightarrow>
              if max_price \<le> min_price then None
              else
                let gross_profit = saturating_sub max_price min_price;
                    gas_price_wei = (ucast (cfg_max_gas_gwei config) :: u128) * 1000000000;
                    gas_cost = 250000 * gas_price_wei;
                    slippage_bps = (ucast (cfg_slippage_bps config) :: u128);
                    slippage_cost = gross_profit * slippage_bps div 10000
                in case checked_sub gross_profit gas_cost of
                     None \<Rightarrow> None
                   | Some net \<Rightarrow> checked_sub net slippage_cost))"

definition find_best_exit_dex :: "(DexType \<times> u128) list \<Rightarrow> DexType" where
  "find_best_exit_dex prices =
     (case max_by_key snd prices of Some (d, _) \<Rightarrow> d | None \<Rightarrow> UniswapV3)"

text \<open>The first cached pool of the pair on the given DEX.\<close>

definition resolve_hop ::
  "(PoolKey \<times> PoolState) list \<Rightarrow> address \<Rightarrow> address \<Rightarrow> DexType \<Rightarrow> address option" where
  "resolve_hop cache search_t0 search_t1 dex =
    map_option (\<lambda>(_, pool). ps_address pool)
      (find (\<lambda>(_, pool).
         ((ps_token0 pool = search_t0 \<and> ps_token1 pool = search_t1)
          \<or> (ps_token0 pool = search_t1 \<and> ps_token1 pool = search_t0))
         \<and> dex_from_fee (ps_fee pool) = dex) cache)"

definition resolve_pool_addresses ::
  "hexcrate \<Rightarrow> ArbitrageDetector \<Rightarrow> string \<Rightarrow> string \<Rightarrow> DexType list \<Rightarrow> address list option" where
  "resolve_pool_addresses hx s token_in token_out path =
    (let token_in_bytes = decode_addr hx token_in;
         token_out_bytes = decode_addr hx token_out
     in collect_option (map (\<lambda>(i, dex).
          if i = 0 then resolve_hop (ad_pool_cache s) token_in_bytes token_out_bytes dex
          else resolve_hop (ad_pool_cache s) token_out_bytes token_in_bytes dex)
        (enumerate 0 path)))"

section \<open>Detection\<close>

definition arb_pool_fee :: "DexType \<Rightarrow> u32" where
  "arb_pool_fee d = (case d of UniswapV3 \<Rightarrow> 500 | _ \<Rightarrow> 3000)"

definition arb_detect :: "hexcrate \<Rightarrow> ArbitrageDetector \<Rightarrow> PendingTx \<Rightarrow> Opportunity option exec" where
  "arb_detect hx s tx =
    bindE (parse_swap hx tx) (\<lambda>parsed. Inr (case parsed of
      None \<Rightarrow> None
    | Some swap \<Rightarrow>
        (case get_cross_dex_prices hx s swap of
           None \<Rightarrow> None
         | Some prices \<Rightarrow>
             if length prices < 2 then None
             else case calculate_profit (ad_config s) prices of
               None \<Rightarrow> None
             | Some profit \<Rightarrow>
                 if profit < cfg_min_profit (ad_config s) then None
                 else
                   let exit_dex = find_best_exit_dex prices;
                       path = [si_dex swap, exit_dex]
                   in case resolve_pool_addresses hx s (si_token_in swap) (si_token_out swap) path of
                        None \<Rightarrow> None
                      | Some pool_addresses \<Rightarrow>
                          Some \<lparr>opp_type = Arbitrage, opp_token_in = si_token_in swap,
                                opp_token_out = si_token_out swap, opp_amount_in = si_amount_in swap,
                                opp_expected_profit = profit,
                                opp_gas_estimate = estimate_gas Arbitrage path,
                                opp_deadline = tx_timestamp tx + 12, opp_path = path,
                                opp_pool_addresses = pool_addresses,
                                opp_pool_fees = map arb_pool_fee path,
                                opp_target_tx = Some (tx_hash tx)\<rparr>)))"

interpretation arb_store: keyed_store arb_update_pool "\<lambda>s. map_of (ad_pool_cache s)" pool_key "\<lambda>p. p"
  by unfold_locales (simp add: arb_update_pool_def map_of_alist_update)

section \<open>Parsing inverts the ABI encoding\<close>

lemma read_abi_word [codec_simps]:
  "read_u128_from_word (abi_word (a :: u128)) = a"
  "read_u32_from_word (abi_word (c :: u32)) = c"
  "read_usize_from_word (abi_word (b :: usize)) = b"
  by (simp_all add: read_u128_from_word_def read_usize_from_word_def read_u64_from_word_def
      read_u32_from_word_def abi_word_def sub_bytes_def drop_to_be from_be_to_be_ucast ucast_up_down)

text \<open>Standard ABI calldata of the V2 router calls
  \<^verbatim>\<open>(uint256, uint256, address[] path, address to, uint256 deadline)\<close>.\<close>

definition abi_v2_swap :: "bytes \<Rightarrow> u128 \<Rightarrow> u128 \<Rightarrow> address list \<Rightarrow> address \<Rightarrow> u64 \<Rightarrow> bytes" where
  "abi_v2_swap sel a b path to deadline =
     sel @ abi_word a @ abi_word b @ abi_word (160 :: u64) @ abi_word to @ abi_word deadline
     @ abi_word (of_nat (length path) :: u64) @ concat (map abi_word path)"

lemma length_concat_words [simp]: "length (concat (map abi_word path)) = 32 * length path"
  by (induction path) simp_all

lemma drop_concat_words: "drop (32 * i) (concat (map abi_word path)) = concat (map abi_word (drop i path))"
proof (induction path arbitrary: i)
  case (Cons p path)
  then show ?case by (cases i) (simp_all add: mult_Suc_right)
qed simp

text \<open>The low 20 bytes of the \<open>i\<close>-th word.\<close>

lemma concat_words_addr:
  assumes "i < length path"
  shows "take 20 (drop (32 * i + 12) (concat (map abi_word path))) = to_be 20 (path ! i :: address)"
proof -
  have "drop (32 * i + 12) (concat (map abi_word path)) = drop 12 (concat (map abi_word (drop i path)))"
    by (simp flip: drop_concat_words add: add.commute)
  also have "drop i path = path ! i # drop (Suc i) path"
    using assms by (rule Cons_nth_drop_Suc [symmetric])
  finally show ?thesis
    by (simp add: drop_abi_word)
qed

lemma slice_of_nat:
  assumes "length xs < 2 ^ 64" "m \<le> n" "n \<le> length xs"
  shows "slice xs (of_nat m) (of_nat n) = Inr (take (n - m) (drop m xs))"
proof -
  have "unat (of_nat m :: usize) = m" "unat (of_nat n :: usize) = n"
    using assms by (auto intro!: unat_word_of_nat_small)
  with assms show ?thesis
    by (simp add: slice_def word_le_nat_alt)
qed

lemma last_offset:
  assumes "1 \<le> n"
  shows "(of_nat m :: usize) + (of_nat n - 1) * 32 + 12 = of_nat (m + 32 * (n - 1) + 12)"
  using assms by (simp add: of_nat_diff)

text \<open>What the V2 parser returns, in terms of the offset and the length it reads.\<close>

lemma parse_v2_swap_at:
  assumes len: "260 \<le> length data" "length data < 2 ^ 63"
    and off: "read_usize_from_word (sub_bytes 68 100 data) = of_nat off" "off + 36 \<le> length data"
    and n: "read_usize_from_word (take 32 (drop (off + 4) data)) = of_nat n"
      "2 \<le> n" "off + 36 + 32 * n \<le> length data"
  shows "parse_v2_swap hx data ex = Inr (Some
    \<lparr>si_dex = UniswapV2, si_token_in = hex_0x hx (take 20 (drop (off + 48) data)),
     si_token_out = hex_0x hx (take 20 (drop (off + 36 + 32 * (n - 1) + 12) data)),
     si_amount_in = (if ex then read_u128_from_word (sub_bytes 36 68 data) else read_u128_from_word (sub_bytes 4 36 data)),
     si_amount_out_min = (if ex then read_u128_from_word (sub_bytes 4 36 data) else read_u128_from_word (sub_bytes 36 68 data)),
     si_fee = 3000\<rparr>)"
proof -
  have u: "unat (of_nat k :: usize) = k" if "k \<le> length data" for k
    using that len by (intro unat_word_of_nat_small) simp
  have d: "(of_nat (off + 36) :: usize) + of_nat n * 32 = of_nat (off + 36 + 32 * n)"
    by simp
  have g: "\<not> length data < unat (of_nat (off + 36) :: usize)"
    "\<not> length data < unat (of_nat (off + 36 + 32 * n) :: usize)" "\<not> (of_nat n :: usize) < 2"
    using off n u [of "off + 36"] u [of "off + 36 + 32 * n"] u [of n] by (simp_all only: word_less_nat_alt) simp_all
  have sl: "slice data (of_nat k) (of_nat (k + m)) = Inr (take m (drop k data))" if "k + m \<le> length data" for k m
    using that len slice_of_nat [of data k "k + m"] by simp
  have s: "slice data (of_nat (off + 4)) (of_nat (off + 36)) = Inr (take 32 (drop (off + 4) data))"
    "slice data (of_nat (off + 48)) (of_nat (off + 68)) = Inr (take 20 (drop (off + 48) data))"
    "slice data (of_nat (off + 36 + 32 * (n - 1) + 12)) (of_nat (off + 36 + 32 * (n - 1) + 32))
      = Inr (take 20 (drop (off + 36 + 32 * (n - 1) + 12) data))"
    using off(2) n(2,3) sl [of "off + 4" 32] sl [of "off + 48" 20] sl [of "off + 36 + 32 * (n - 1) + 12" 20]
    by (simp_all only: add.assoc) (simp_all del: of_nat_add of_nat_mult of_nat_diff)
  have len': "\<not> length data < 260"
    using len by simp
  have n1: "1 \<le> n"
    using n(2) by simp
  have e: "(of_nat off :: usize) + 4 = of_nat (off + 4)" "(of_nat (off + 4) :: usize) + 32 = of_nat (off + 36)"
    "(of_nat (off + 36) :: usize) + 12 = of_nat (off + 48)" "(of_nat (off + 48) :: usize) + 20 = of_nat (off + 68)"
    "(of_nat (off + 36 + 32 * (n - 1) + 12) :: usize) + 20 = of_nat (off + 36 + 32 * (n - 1) + 32)"
    by simp_all
  show ?thesis
    by (simp only: parse_v2_swap_def Let_def off(1) e len' g s n(1) d last_offset [OF n1] bindE_simps
        if_False simp_thms)
qed

lemma parse_v2_abi:
  assumes "length sel = 4" "2 \<le> length path" "length path < 2 ^ 32"
  shows "parse_v2_swap hx (abi_v2_swap sel a b path to deadline) ex = Inr (Some
    \<lparr>si_dex = UniswapV2, si_token_in = hex_0x hx (to_be 20 (hd path)),
     si_token_out = hex_0x hx (to_be 20 (last path)),
     si_amount_in = (if ex then b else a), si_amount_out_min = (if ex then a else b), si_fee = 3000\<rparr>)"
proof -
  let ?d = "abi_v2_swap sel a b path to deadline" and ?n = "length path"
  have len: "length ?d = 196 + 32 * ?n"
    using assms by (simp add: abi_v2_swap_def)
  have ne: "path \<noteq> []"
    using assms by auto
  have words: "sub_bytes 4 36 ?d = abi_word a" "sub_bytes 36 68 ?d = abi_word b"
    "sub_bytes 68 100 ?d = abi_word (160 :: u64)"
    "take 32 (drop (160 + 4) ?d) = abi_word (of_nat ?n :: u64)"
    using assms(1) by (simp_all add: abi_v2_swap_def sub_bytes_def)
  have "drop (196 + k) ?d = drop k (concat (map abi_word path))" for k
    using assms(1) by (simp add: abi_v2_swap_def)
  from this [of 12] this [of "32 * (?n - 1) + 12"]
  have tokens: "take 20 (drop (160 + 48) ?d) = to_be 20 (hd path)"
    "take 20 (drop (160 + 36 + 32 * (?n - 1) + 12) ?d) = to_be 20 (last path)"
    using ne concat_words_addr [of 0 path] concat_words_addr [of "?n - 1" path]
    by (simp_all add: hd_conv_nth last_conv_nth add.assoc)
  show ?thesis
    by (subst parse_v2_swap_at [where off = 160 and n = ?n])
      (use len assms in \<open>simp_all only: words tokens codec_simps, simp_all\<close>)
qed


section \<open>Panics\<close>

text \<open>The V2 parser is safe on bounded offsets. If the path offset in the calldata is below
  \<open>2^63\<close> and the path length found there is below \<open>2^57\<close>, the parser returns (a swap or
  nothing) for every byte string: no slice is out of range.\<close>

theorem parse_v2_swap_no_panic:
  assumes "length data < 2 ^ 63"
    and "unat (read_usize_from_word (sub_bytes 68 100 data)) < 2 ^ 63"
    and "unat (read_usize_from_word
      (take 32 (drop (unat (read_usize_from_word (sub_bytes 68 100 data)) + 4) data))) < 2 ^ 57"
  shows "no_panic (parse_v2_swap hx data ex)"
proof -
  define off where "off = unat (read_usize_from_word (sub_bytes 68 100 data))"
  define n where "n = unat (read_usize_from_word (take 32 (drop (off + 4) data)))"
  have w: "read_usize_from_word (sub_bytes 68 100 data) = of_nat off"
    "read_usize_from_word (take 32 (drop (off + 4) data)) = of_nat n"
    by (simp_all add: off_def n_def)
  have b: "off < 2 ^ 63" "n < 2 ^ 57"
    using assms(2,3) by (simp_all add: off_def n_def)
  have u: "unat (of_nat k :: usize) = k" if "k \<le> off + 36 + 32 * n" for k
    using that b by (intro unat_word_of_nat_small) simp
  have e: "(of_nat off :: usize) + 4 = of_nat (off + 4)" "(of_nat (off + 4) :: usize) + 32 = of_nat (off + 36)"
    "(of_nat (off + 36) :: usize) + of_nat n * 32 = of_nat (off + 36 + 32 * n)"
    by simp_all
  consider "length data < 260 \<or> length data < off + 36" | "260 \<le> length data" "off + 36 \<le> length data"
      "n < 2 \<or> length data < off + 36 + 32 * n"
    | "260 \<le> length data" "off + 36 \<le> length data" "2 \<le> n" "off + 36 + 32 * n \<le> length data"
    by linarith
  then show ?thesis
  proof cases
    case 1
    then show ?thesis
      by (auto simp only: parse_v2_swap_def Let_def w e u [of "off + 36"] no_panic_Inr split: if_split)
  next
    case 2
    have "slice data (of_nat (off + 4)) (of_nat (off + 36)) = Inr (take 32 (drop (off + 4) data))"
      using 2(2) assms(1) slice_of_nat [of data "off + 4" "off + 36"] by simp
    moreover have "(of_nat n :: usize) < 2 \<or> length data < unat (of_nat (off + 36 + 32 * n) :: usize)"
      using 2(3) u [of n] u [of "off + 36 + 32 * n"] by (simp only: word_less_nat_alt) auto
    ultimately show ?thesis
      by (simp only: parse_v2_swap_def Let_def w e bindE_simps if_True simp_thms no_panic_Inr split: if_split)
  next
    case 3
    with assms(1) show ?thesis
      by (subst parse_v2_swap_at [OF _ _ w(1) _ w(2)]) simp_all
  qed
qed

theorem parse_v2_swap_no_panic_witness:
  "no_panic (parse_v2_swap hex_std (abi_v2_swap [0x38, 0xed, 0x17, 0x39] 1 2 [3, 4] 5 6) False)"
proof (rule parse_v2_swap_no_panic)
  let ?d = "abi_v2_swap [0x38, 0xed, 0x17, 0x39] 1 2 [3, 4 :: address] 5 6"
  have o: "sub_bytes 68 100 ?d = abi_word (160 :: u64)" and n: "take 32 (drop 164 ?d) = abi_word (2 :: u64)"
    by (simp_all add: abi_v2_swap_def sub_bytes_def)
  show "length ?d < 2 ^ 63"
    by (simp add: abi_v2_swap_def)
  show "unat (read_usize_from_word (sub_bytes 68 100 ?d)) < 2 ^ 63"
    by (simp add: o codec_simps)
  show "unat (read_usize_from_word (take 32 (drop (unat (read_usize_from_word (sub_bytes 68 100 ?d)) + 4) ?d))) < 2 ^ 57"
    by (simp add: o n codec_simps)
qed

lemma slice_backwards: "b < a \<Longrightarrow> slice xs a b = Inl SliceIndex"
  by (auto simp: slice_def)

text \<open>A wrapped end of a slice lies before its start.\<close>

lemma wrapped_end:
  fixes w :: usize
  assumes "2 ^ 64 - 36 \<le> unat w" "unat w < 2 ^ 64 - 4"
  shows "unat (w + 4 + 32) < 32" "w + 4 + 32 < w + 4"
proof -
  have 4: "unat (w + 4) = unat w + 4"
    using assms by (subst unat_add_exact) simp_all
  have "unat (w + 4 + 32) = (unat w + 4 + 32) mod 2 ^ 64"
    by (simp add: unat_word_ariths 4)
  also have "\<dots> = unat w + 36 - 2 ^ 64"
    using assms by (simp add: mod_if)
  finally show "unat (w + 4 + 32) < 32" "w + 4 + 32 < w + 4"
    using assms 4 by (simp_all add: word_less_nat_alt)
qed

text \<open>C40: a pending transaction can crash the engine. The bounds check of the path offset is computed
  with wrap-around, so calldata of at least 260 bytes with the \<open>swapExactTokensForTokens\<close>
  selector and an offset word between \<open>2^64 - 36\<close> and \<open>2^64 - 5\<close> passes it, and the slice that
  follows panics. The panic escapes \<open>detect\<close>; the release profile aborts on it.\<close>

theorem arb_detect_panics:
  assumes "take 4 (tx_input tx) = [0x38, 0xed, 0x17, 0x39]" "260 \<le> length (tx_input tx)"
    and "2 ^ 64 - 36 \<le> unat (read_usize_from_word (sub_bytes 68 100 (tx_input tx)))"
    and "unat (read_usize_from_word (sub_bytes 68 100 (tx_input tx))) < 2 ^ 64 - 4"
  shows "arb_detect hx s tx = Inl SliceIndex"
proof -
  let ?w = "read_usize_from_word (sub_bytes 68 100 (tx_input tx))"
  have "\<not> length (tx_input tx) < unat (?w + 4 + 32)" "\<not> length (tx_input tx) < 260"
    using assms(2) wrapped_end(1) [OF assms(3,4)] by linarith+
  then have "parse_v2_swap hx (tx_input tx) False = Inl SliceIndex"
    using slice_backwards [OF wrapped_end(2) [OF assms(3,4)], of "tx_input tx"]
    by (simp only: parse_v2_swap_def Let_def if_False bindE_simps)
  moreover have "\<not> length (tx_input tx) < 4"
    using assms(2) by simp
  then have "parse_swap hx tx = parse_v2_swap hx (tx_input tx) False"
    by (simp only: parse_swap_def Let_def assms(1) if_False if_True simp_thms)
  ultimately show ?thesis
    by (simp add: arb_detect_def)
qed

definition crash_calldata :: bytes where
  "crash_calldata = [0x38, 0xed, 0x17, 0x39] @ replicate 88 0 @ [255, 255, 255, 255, 255, 255, 255, 224] @ replicate 160 0"

definition sample_tx_with :: "bytes \<Rightarrow> PendingTx" where
  "sample_tx_with data = \<lparr>tx_hash = 1, tx_from = 2, tx_to = Some 3, tx_value = 0, tx_gas_price = 1,
     tx_gas_limit = 21000, tx_input = data, tx_nonce = 0, tx_timestamp = 100\<rparr>"

theorem arb_detect_panics_witness:
  "length crash_calldata = 260 \<and>
   arb_detect hex_std (arbitrage_new (Config_default 8)) (sample_tx_with crash_calldata) = Inl SliceIndex"
proof -
  have w: "sub_bytes 24 32 (sub_bytes 68 100 crash_calldata) = [255, 255, 255, 255, 255, 255, 255, 224]"
    "length (sub_bytes 68 100 crash_calldata) = 32" "length crash_calldata = 260"
    by (simp_all add: crash_calldata_def sub_bytes_def)
  have r: "unat (read_usize_from_word (sub_bytes 68 100 crash_calldata)) = 2 ^ 64 - 32"
    by (simp add: read_usize_from_word_def read_u64_from_word_def w from_be_def)
  have "arb_detect hex_std (arbitrage_new (Config_default 8)) (sample_tx_with crash_calldata) = Inl SliceIndex"
    by (rule arb_detect_panics) (simp_all add: sample_tx_with_def r w, simp add: crash_calldata_def)
  with w show ?thesis by simp
qed


section \<open>The profit estimate\<close>

lemma iter_max_unat:
  assumes "ps \<noteq> []"
  shows "\<exists>m. iter_max ps = Some m \<and> unat m = Max (unat ` set (ps :: u128 list))"
proof -
  from assms have "iter_max ps \<noteq> None"
    by (simp del: not_None_eq)
  then obtain m where m: "iter_max ps = Some m" by blast
  then have "unat m = Max (unat ` set ps)"
    using max_by_key_Some [OF m] by (intro Max_eqI [symmetric]) (auto simp: word_le_nat_alt)
  with m show ?thesis by simp
qed

lemma iter_min_unat:
  assumes "ps \<noteq> []"
  shows "\<exists>m. iter_min ps = Some m \<and> unat m = Min (unat ` set (ps :: u128 list))"
proof -
  from assms have "iter_min ps \<noteq> None"
    by (simp del: not_None_eq)
  then obtain m where m: "iter_min ps = Some m" by blast
  then have "unat m = Min (unat ` set ps)"
    using min_by_key_Some [OF m] by (intro Min_eqI [symmetric]) (auto simp: word_le_nat_alt)
  with m show ?thesis by simp
qed

text \<open>The costs as numbers: 250000 gas at the maximum price, and the slippage share of the spread.\<close>

definition arb_gas :: "Config \<Rightarrow> nat" where
  "arb_gas config = 250000 * unat (cfg_max_gas_gwei config) * 1000000000"

definition arb_slippage :: "Config \<Rightarrow> nat \<Rightarrow> nat" where
  "arb_slippage config gross = gross * unat (cfg_slippage_bps config) div 10000"

lemma unat_arb_gas: "unat (250000 * ((ucast (cfg_max_gas_gwei c) :: u128) * 1000000000)) = arb_gas c"
proof -
  have "(250000 * ((ucast (cfg_max_gas_gwei c) :: u128) * 1000000000)) = of_nat (arb_gas c)"
    by (simp add: arb_gas_def mult.assoc)
  moreover have "arb_gas c < 2 ^ LENGTH(128)"
    using unat_bound [of "cfg_max_gas_gwei c"] by (simp add: arb_gas_def)
  ultimately show ?thesis
    by (simp only: unat_word_of_nat_small)
qed

lemma unat_arb_slippage:
  fixes gross :: u128
  assumes "unat gross < 2 ^ 112"
  shows "unat (gross * (ucast (cfg_slippage_bps c) :: u128) div 10000) = arb_slippage c (unat gross)"
proof -
  have u: "unat (ucast (cfg_slippage_bps c) :: u128) = unat (cfg_slippage_bps c)"
    using unat_bound [of "cfg_slippage_bps c"] by (simp add: unsigned_ucast_eq take_bit_nat_eq_self)
  have "unat gross * unat (cfg_slippage_bps c) < 2 ^ 112 * 2 ^ 16"
    using assms unat_bound [of "cfg_slippage_bps c"] by (intro mult_strict_mono) simp_all
  then have "unat (gross * (ucast (cfg_slippage_bps c) :: u128)) = unat gross * unat (cfg_slippage_bps c)"
    by (subst unat_mult_exact) (simp_all add: u)
  then show ?thesis
    by (simp add: unat_div arb_slippage_def)
qed

text \<open>The profit estimate. For quotes below \<open>2^112\<close> the estimate is, in exact arithmetic, the spread
  between the best and the worst quote minus the gas cost and the slippage share of the spread;
  it is present exactly when there are two quotes, they differ, and the costs do not exceed the
  spread. The order of the quotes (the iteration order of the cache) does not matter.\<close>

theorem calculate_profit_exact:
  fixes prices :: "(DexType \<times> u128) list"
  defines "hi \<equiv> Max (unat ` set (map snd prices))" and "lo \<equiv> Min (unat ` set (map snd prices))"
  assumes "\<forall>p \<in> set prices. unat (snd p) < 2 ^ 112"
  shows "map_option unat (calculate_profit c prices) =
    (if 2 \<le> length prices \<and> lo < hi \<and> arb_gas c + arb_slippage c (hi - lo) \<le> hi - lo
     then Some (hi - lo - (arb_gas c + arb_slippage c (hi - lo))) else None)"
proof (cases "length prices < 2")
  case True
  then show ?thesis by (simp add: calculate_profit_def)
next
  case False
  then have "map snd prices \<noteq> []" by auto
  then obtain M m where M: "iter_max (map snd prices) = Some M" "unat M = hi"
    and m: "iter_min (map snd prices) = Some m" "unat m = lo"
    using iter_max_unat [of "map snd prices"] iter_min_unat [of "map snd prices"]
    unfolding hi_def lo_def by blast
  have "M \<in> snd ` set prices"
    using max_by_key_Some(1) [OF M(1)] by simp
  with assms(3) have g: "unat (saturating_sub M m) < 2 ^ 112" "unat (saturating_sub M m) = hi - lo"
    using M m by (auto simp: unat_saturating_sub)
  let ?gas = "250000 * ((ucast (cfg_max_gas_gwei c) :: u128) * 1000000000)"
  let ?slip = "saturating_sub M m * (ucast (cfg_slippage_bps c) :: u128) div 10000"
  have "calculate_profit c prices = (if M \<le> m then None
      else case checked_sub (saturating_sub M m) ?gas of None \<Rightarrow> None | Some net \<Rightarrow> checked_sub net ?slip)"
    using False by (simp only: calculate_profit_def M m Let_def option.case if_False)
  moreover have "M \<le> m \<longleftrightarrow> hi \<le> lo"
    using M m by (simp add: word_le_nat_alt)
  moreover have "map_option unat (case checked_sub a b of None \<Rightarrow> None | Some net \<Rightarrow> checked_sub net d)
      = (if unat b + unat d \<le> unat a then Some (unat a - (unat b + unat d)) else None)" for a b d :: u128
    by (auto simp: checked_sub_def word_le_nat_alt unat_sub)
  ultimately show ?thesis
    using False unat_arb_gas [of c] unat_arb_slippage [OF g(1), of c] g(2)
    by (cases "hi \<le> lo") (simp_all only: if_True if_False option.map not_less not_le simp_thms, simp_all)
qed

theorem calculate_profit_exact_witness:
  "map_option unat (calculate_profit (Config_default 8) [(UniswapV2, 10 ^ 20), (UniswapV3, 11 * 10 ^ 19)])
    = Some 9925000000000000000"
  using calculate_profit_exact [of "[(UniswapV2, 10 ^ 20), (UniswapV3, 11 * 10 ^ 19)]" "Config_default 8"]
  by (simp add: arb_gas_def arb_slippage_def Config_default_def)

section \<open>Soundness of detection\<close>

abbreviation arb_pools :: "ArbitrageDetector \<Rightarrow> PoolState set" where
  "arb_pools s \<equiv> snd ` set (ad_pool_cache s)"

text \<open>The condition of the search: the pool trades the pair and is classified as the DEX.\<close>

definition on_pair :: "address \<Rightarrow> address \<Rightarrow> DexType \<Rightarrow> PoolState \<Rightarrow> bool" where
  "on_pair t0 t1 dex p \<longleftrightarrow> {ps_token0 p, ps_token1 p} = {t0, t1} \<and> dex_from_fee (ps_fee p) = dex"

lemma on_pair_sym: "on_pair t1 t0 dex p = on_pair t0 t1 dex p"
  by (simp add: on_pair_def insert_commute del: dex_from_fee.simps)

lemma resolve_hop_eq:
  "resolve_hop cache t0 t1 dex = map_option ps_address (find (on_pair t0 t1 dex) (map snd cache))"
  unfolding resolve_hop_def
  by (induction cache) (auto simp: on_pair_def doubleton_eq_iff simp del: dex_from_fee.simps)

lemma resolve_hop_Some:
  "resolve_hop cache t0 t1 dex = Some a \<Longrightarrow> \<exists>p \<in> snd ` set cache. ps_address p = a \<and> on_pair t0 t1 dex p"
  by (auto simp: resolve_hop_eq find_Some_iff)

lemma resolve_hop_None: "resolve_hop cache t0 t1 dex = None \<longleftrightarrow> \<not> (\<exists>p \<in> snd ` set cache. on_pair t0 t1 dex p)"
  by (simp add: resolve_hop_eq find_None_iff)

lemma arb_detect_SomeD:
  assumes "arb_detect hx s tx = Inr (Some opp)"
  obtains swap prices where "parse_swap hx tx = Inr (Some swap)"
    "get_cross_dex_prices hx s swap = Some prices"
    "calculate_profit (ad_config s) prices = Some (opp_expected_profit opp)"
    "cfg_min_profit (ad_config s) \<le> opp_expected_profit opp"
    "resolve_pool_addresses hx s (si_token_in swap) (si_token_out swap)
       [si_dex swap, find_best_exit_dex prices] = Some (opp_pool_addresses opp)"
    "opp_path opp = [si_dex swap, find_best_exit_dex prices]"
    "opp_type opp = Arbitrage" "opp_token_in opp = si_token_in swap" "opp_token_out opp = si_token_out swap"
    "opp_amount_in opp = si_amount_in swap" "opp_pool_fees opp = map arb_pool_fee (opp_path opp)"
    "opp_target_tx opp = Some (tx_hash tx)"
proof -
  obtain swap where p: "parse_swap hx tx = Inr (Some swap)"
    using assms by (auto simp: arb_detect_def bindE_eq_Inr_iff split: option.splits)
  obtain prices where q: "get_cross_dex_prices hx s swap = Some prices"
    using assms by (auto simp: arb_detect_def p split: option.splits)
  from assms p q show thesis
    by (auto simp: arb_detect_def Let_def split: option.splits if_splits intro: that [OF p q])
qed

lemma resolve_pair:
  assumes "resolve_pool_addresses hx s tin tout [d0, d1] = Some as"
  obtains a b where "as = [a, b]"
    "resolve_hop (ad_pool_cache s) (decode_addr hx tin) (decode_addr hx tout) d0 = Some a"
    "resolve_hop (ad_pool_cache s) (decode_addr hx tout) (decode_addr hx tin) d1 = Some b"
  using assms unfolding resolve_pool_addresses_def Let_def
  by (auto simp: enumerate_eq_zip split: option.splits intro: that)

text \<open>C1: everything the arbitrage detector emits is sound. An opportunity comes from a swap that was
  parsed from the transaction; its profit is at least the configured minimum; its two pools are
  cached pools that trade exactly the two tokens of that swap, on the two DEXes of its path; and
  it names the transaction as its target.\<close>

theorem arb_detect_sound:
  assumes "arb_detect hx s tx = Inr (Some opp)"
  shows "\<exists>swap. parse_swap hx tx = Inr (Some swap)
    \<and> opp_type opp = Arbitrage \<and> opp_target_tx opp = Some (tx_hash tx)
    \<and> opp_amount_in opp = si_amount_in swap
    \<and> unat (cfg_min_profit (ad_config s)) \<le> unat (opp_expected_profit opp)
    \<and> length (opp_path opp) = 2 \<and> length (opp_pool_addresses opp) = 2 \<and> length (opp_pool_fees opp) = 2
    \<and> (\<forall>i < 2. \<exists>p \<in> arb_pools s. ps_address p = opp_pool_addresses opp ! i
         \<and> on_pair (decode_addr hx (si_token_in swap)) (decode_addr hx (si_token_out swap)) (opp_path opp ! i) p)"
proof -
  obtain swap prices where d: "parse_swap hx tx = Inr (Some swap)"
    "cfg_min_profit (ad_config s) \<le> opp_expected_profit opp"
    "resolve_pool_addresses hx s (si_token_in swap) (si_token_out swap)
       [si_dex swap, find_best_exit_dex prices] = Some (opp_pool_addresses opp)"
    "opp_path opp = [si_dex swap, find_best_exit_dex prices]"
    "opp_type opp = Arbitrage" "opp_amount_in opp = si_amount_in swap"
    "opp_pool_fees opp = map arb_pool_fee (opp_path opp)" "opp_target_tx opp = Some (tx_hash tx)"
    using arb_detect_SomeD [OF assms] by metis
  obtain a b where ab: "opp_pool_addresses opp = [a, b]"
    "resolve_hop (ad_pool_cache s) (decode_addr hx (si_token_in swap)) (decode_addr hx (si_token_out swap))
       (si_dex swap) = Some a"
    "resolve_hop (ad_pool_cache s) (decode_addr hx (si_token_out swap)) (decode_addr hx (si_token_in swap))
       (find_best_exit_dex prices) = Some b"
    using resolve_pair [OF d(3)] by metis
  have "\<exists>p \<in> arb_pools s. ps_address p = opp_pool_addresses opp ! i
      \<and> on_pair (decode_addr hx (si_token_in swap)) (decode_addr hx (si_token_out swap)) (opp_path opp ! i) p"
    if "i < 2" for i
    using resolve_hop_Some [OF ab(2)] resolve_hop_Some [OF ab(3)] less_2_cases [OF that]
    by (elim disjE) (simp_all add: ab(1) d(4) on_pair_sym [of "decode_addr hx (si_token_out swap)"])
  with d ab(1) show ?thesis
    by (auto simp: word_le_nat_alt)
qed

lemma arb_detect_empty_cache:
  assumes "ad_pool_cache s = []"
  shows "arb_detect hx s tx \<noteq> Inr (Some opp)"
proof
  assume "arb_detect hx s tx = Inr (Some opp)"
  then obtain tin tout d0 d1 where
    "resolve_pool_addresses hx s tin tout [d0, d1] = Some (opp_pool_addresses opp)"
    using arb_detect_SomeD by metis
  then show False
    using assms by (elim resolve_pair) (simp add: resolve_hop_def)
qed

text \<open>A detector whose pool cache is empty never emits an arbitrage, although the price query then
  falls back to built-in reserves: the pools of the path cannot be resolved.\<close>

theorem arb_detect_cold_cache: "arb_detect hx (s\<lparr>ad_pool_cache := []\<rparr>) tx \<noteq> Inr (Some opp)"
  by (rule arb_detect_empty_cache) simp

context hex_codec
begin

lemma decode_addr_hex_0x: "decode_addr hx (hex_0x hx (to_be 20 a)) = a"
  unfolding decode_addr_def hex_0x_def decode_strip_encode
  by (simp add: from_be_to_be)

end

definition sample_detector :: ArbitrageDetector where
  "sample_detector = arb_load_pools (arbitrage_new (Config_default 8))
     [v2_pool 11 3 4 (10 ^ 12) (10 ^ 20) 30, v2_pool 12 3 4 (10 ^ 12) (2 * 10 ^ 20) 500]"

definition sample_swap_tx :: PendingTx where
  "sample_swap_tx = sample_tx_with (abi_v2_swap [0x38, 0xed, 0x17, 0x39] (10 ^ 10) 0 [3, 4] 9 10)"

text \<open>The detector finds the price difference between the two sample pools.\<close>

lemma sample_detect:
  "\<exists>opp. arb_detect hex_std sample_detector sample_swap_tx = Inr (Some opp)
    \<and> opp_pool_addresses opp = [11, 12] \<and> opp_path opp = [UniswapV2, UniswapV3]
    \<and> opp_pool_fees opp = [3000, 500]"
proof -
  let ?swap = "\<lparr>si_dex = UniswapV2, si_token_in = hex_0x hex_std (to_be 20 (3 :: address)),
     si_token_out = hex_0x hex_std (to_be 20 (4 :: address)), si_amount_in = 10 ^ 10,
     si_amount_out_min = 0, si_fee = 3000\<rparr>"
  let ?prices = "[(UniswapV2, 987158034397061298), (UniswapV3, 1882119861317483902)]"
  have d: "decode_addr hex_std (hex_0x hex_std (to_be 20 (3 :: address))) = 3"
    "decode_addr hex_std (hex_0x hex_std (to_be 20 (4 :: address))) = 4"
    by (rule std_hex.decode_addr_hex_0x)+
  have "take 4 (tx_input sample_swap_tx) = [0x38, 0xed, 0x17, 0x39]" "\<not> length (tx_input sample_swap_tx) < 4"
    by (simp_all add: sample_swap_tx_def sample_tx_with_def abi_v2_swap_def)
  then have "parse_swap hex_std sample_swap_tx = parse_v2_swap hex_std (tx_input sample_swap_tx) False"
    by (simp add: parse_swap_def Let_def)
  then have p: "parse_swap hex_std sample_swap_tx = Inr (Some ?swap)"
    using parse_v2_abi [of "[0x38, 0xed, 0x17, 0x39]" "[3, 4]" hex_std "10 ^ 10" 0 9 10 False]
    by (simp add: sample_swap_tx_def sample_tx_with_def)
  have c: "ad_pool_cache sample_detector =
      [(pool_key (v2_pool 11 3 4 (10 ^ 12) (10 ^ 20) 30), v2_pool 11 3 4 (10 ^ 12) (10 ^ 20) 30),
       (pool_key (v2_pool 12 3 4 (10 ^ 12) (2 * 10 ^ 20) 500), v2_pool 12 3 4 (10 ^ 12) (2 * 10 ^ 20) 500)]"
    "ad_config sample_detector = Config_default 8"
    by (simp_all add: sample_detector_def arb_load_pools_def arb_update_pool_def arbitrage_new_def
        pool_key_def v2_pool_def)
  have q: "get_cross_dex_prices hex_std sample_detector ?swap = Some ?prices"
    by (simp add: get_cross_dex_prices_def c List.map_filter_simps pool_quote_def match_pool_to_swap_def
        d v2_pool_def)
  have r: "calculate_profit (Config_default 8) ?prices = Some 865487017785820491"
    by (simp add: calculate_profit_def Config_default_def saturating_sub_def checked_sub_def)
  have a: "resolve_pool_addresses hex_std sample_detector (si_token_in ?swap) (si_token_out ?swap)
      [UniswapV2, UniswapV3] = Some [11, 12]"
    by (simp add: resolve_pool_addresses_def resolve_hop_def c d v2_pool_def enumerate_eq_zip)
  have x: "find_best_exit_dex ?prices = UniswapV3"
    by (simp add: find_best_exit_dex_def)
  show ?thesis
    using a q by (simp add: arb_detect_def p r x c Let_def arb_pool_fee_def) (simp add: Config_default_def)
qed

theorem arb_detect_sound_witness:
  "\<exists>opp. arb_detect hex_std sample_detector sample_swap_tx = Inr (Some opp)
    \<and> opp_pool_addresses opp = [11, 12]
    \<and> 10 ^ 15 \<le> unat (opp_expected_profit opp) \<and> length (opp_path opp) = 2"
proof -
  obtain opp where o: "arb_detect hex_std sample_detector sample_swap_tx = Inr (Some opp)"
    "opp_pool_addresses opp = [11, 12]"
    using sample_detect by blast
  have "ad_config sample_detector = Config_default 8"
    by (simp add: sample_detector_def arb_load_pools_def arb_update_pool_def arbitrage_new_def)
  with arb_detect_sound [OF o(1)] o show ?thesis
    by (auto simp: Config_default_def)
qed

section \<open>Iteration order\<close>

lemma mset_map_filter: "mset xs = mset ys \<Longrightarrow> mset (List.map_filter f xs) = mset (List.map_filter f ys)"
  by (simp add: map_filter_def mset_filter)

text \<open>Every quoted DEX has a cached pool of the pair.\<close>

lemma pool_quote_on_pair:
  "pool_quote hx swap p = Some (d, q) \<Longrightarrow>
    on_pair (decode_addr hx (si_token_in swap)) (decode_addr hx (si_token_out swap)) d p"
  by (auto simp: pool_quote_def match_pool_to_swap_def Let_def on_pair_def split: if_splits
      simp del: dex_from_fee.simps)

lemma best_exit_on_pair:
  assumes "get_cross_dex_prices hx s swap = Some prices" "ad_pool_cache s \<noteq> []"
  shows "\<exists>p \<in> arb_pools s. on_pair (decode_addr hx (si_token_in swap)) (decode_addr hx (si_token_out swap))
    (find_best_exit_dex prices) p"
proof -
  have prices: "prices = List.map_filter (\<lambda>(_, pool). pool_quote hx swap pool) (ad_pool_cache s)" "prices \<noteq> []"
    using assms by (auto simp: get_cross_dex_prices_def Let_def split: if_splits)
  then have "max_by_key snd prices \<noteq> None"
    by (simp del: not_None_eq)
  then obtain d q where m: "max_by_key snd prices = Some (d, q)"
    by (metis not_None_eq surj_pair)
  then have "(d, q) \<in> set prices"
    by (rule max_by_key_Some)
  then obtain k p where "(k, p) \<in> set (ad_pool_cache s)" "pool_quote hx swap p = Some (d, q)"
    unfolding prices(1) by (auto simp: map_filter_def)
  moreover from this have "on_pair (decode_addr hx (si_token_in swap)) (decode_addr hx (si_token_out swap)) d p"
    by (simp add: pool_quote_on_pair)
  ultimately show ?thesis
    using m by (force simp: find_best_exit_dex_def)
qed

text \<open>Whether an opportunity is emitted, and with what profit, in terms of the contents of the cache.\<close>

lemma resolve_pair_iff:
  "resolve_pool_addresses hx s tin tout [d0, d1] = None \<longleftrightarrow>
    \<not> ((\<exists>p \<in> arb_pools s. on_pair (decode_addr hx tin) (decode_addr hx tout) d0 p)
     \<and> (\<exists>p \<in> arb_pools s. on_pair (decode_addr hx tin) (decode_addr hx tout) d1 p))"
proof -
  have "resolve_pool_addresses hx s tin tout [d0, d1] = None \<longleftrightarrow>
      resolve_hop (ad_pool_cache s) (decode_addr hx tin) (decode_addr hx tout) d0 = None
      \<or> resolve_hop (ad_pool_cache s) (decode_addr hx tout) (decode_addr hx tin) d1 = None"
    unfolding resolve_pool_addresses_def Let_def
    by (auto simp: enumerate_eq_zip split: option.splits)
  then show ?thesis
    by (simp only: resolve_hop_None on_pair_sym [of "decode_addr hx tout" "decode_addr hx tin"]) blast
qed

lemma arb_detect_profit:
  assumes "parse_swap hx tx = Inr (Some swap)"
  shows "map_sum id (map_option opp_expected_profit) (arb_detect hx s tx) = Inr
    (case get_cross_dex_prices hx s swap of
       None \<Rightarrow> None
     | Some prices \<Rightarrow>
         (case calculate_profit (ad_config s) prices of
            None \<Rightarrow> None
          | Some profit \<Rightarrow>
              if \<not> profit < cfg_min_profit (ad_config s)
                 \<and> (\<exists>p \<in> arb_pools s. on_pair (decode_addr hx (si_token_in swap))
                       (decode_addr hx (si_token_out swap)) (si_dex swap) p)
              then Some profit else None))"
proof (cases "get_cross_dex_prices hx s swap")
  case None
  with assms show ?thesis by (simp add: arb_detect_def)
next
  case (Some prices)
  have b: "resolve_pool_addresses hx s (si_token_in swap) (si_token_out swap)
      [si_dex swap, find_best_exit_dex prices] = None \<longleftrightarrow>
    \<not> (\<exists>p \<in> arb_pools s. on_pair (decode_addr hx (si_token_in swap)) (decode_addr hx (si_token_out swap)) (si_dex swap) p)"
    unfolding resolve_pair_iff using best_exit_on_pair [OF Some] by (cases "ad_pool_cache s = []") auto
  have l: "length prices < 2 \<Longrightarrow> calculate_profit (ad_config s) prices = None"
    by (simp add: calculate_profit_def)
  show ?thesis
    using assms Some b l by (auto simp: arb_detect_def Let_def split: option.splits)
qed

lemma calculate_profit_cong:
  assumes "mset ps = mset qs"
  shows "calculate_profit c ps = calculate_profit c qs"
proof -
  have "length ps = length qs" "set (map snd ps) = set (map snd qs)"
    using mset_eq_length [OF assms] mset_eq_setD [OF assms] by simp_all
  then show ?thesis
    unfolding calculate_profit_def
    by (simp only: iter_max_cong [of "map snd ps" "map snd qs"] iter_min_cong [of "map snd ps" "map snd qs"])
qed

text \<open>Detection does not depend on the iteration order of the pool map. Two detectors whose caches
  hold the same entries in different orders panic on the same transactions, emit an opportunity
  for the same transactions, and with the same profit.\<close>

theorem arb_detect_order:
  assumes "mset (ad_pool_cache s) = mset (ad_pool_cache s')" "ad_config s = ad_config s'"
  shows "map_sum id (map_option opp_expected_profit) (arb_detect hx s tx)
    = map_sum id (map_option opp_expected_profit) (arb_detect hx s' tx)"
proof (cases "parse_swap hx tx")
  case (Inr parsed)
  show ?thesis
  proof (cases parsed)
    case (Some swap)
    let ?q = "List.map_filter (\<lambda>(_, pool). pool_quote hx swap pool)"
    have m: "mset (?q (ad_pool_cache s)) = mset (?q (ad_pool_cache s'))"
      using assms(1) by (rule mset_map_filter)
    have e: "ad_pool_cache s = [] \<longleftrightarrow> ad_pool_cache s' = []"
      using assms(1) by (metis mset_zero_iff)
    have r: "rel_option (\<lambda>ps qs. mset ps = mset qs) (get_cross_dex_prices hx s swap) (get_cross_dex_prices hx s' swap)"
      using m e by (auto simp: get_cross_dex_prices_def Let_def option.rel_refl)
    have a: "arb_pools s = arb_pools s'"
      using mset_eq_setD [OF assms(1)] by simp
    show ?thesis
    proof (cases "get_cross_dex_prices hx s swap")
      case None
      with r have "get_cross_dex_prices hx s' swap = None"
        by simp
      with None show ?thesis
        by (simp only: arb_detect_profit [OF Inr [unfolded Some]] option.case)
    next
      case (Some ps)
      with r obtain qs where qs: "get_cross_dex_prices hx s' swap = Some qs" "mset ps = mset qs"
        by (auto simp: option_rel_Some1)
      show ?thesis
        using Some qs(1) calculate_profit_cong [OF qs(2), of "ad_config s'"]
        by (simp only: arb_detect_profit [OF Inr [unfolded \<open>parsed = _\<close>]] option.case a assms(2))
    qed
  qed (use Inr in \<open>simp add: arb_detect_def\<close>)
qed (simp add: arb_detect_def)

theorem arb_detect_order_witness:
  "\<exists>profit. map_sum id (map_option opp_expected_profit)
      (arb_detect hex_std (sample_detector\<lparr>ad_pool_cache := rev (ad_pool_cache sample_detector)\<rparr>) sample_swap_tx)
    = Inr (Some profit)"
proof -
  obtain opp where "arb_detect hex_std sample_detector sample_swap_tx = Inr (Some opp)"
    using sample_detect by blast
  then show ?thesis
    using arb_detect_order [of "sample_detector\<lparr>ad_pool_cache := rev (ad_pool_cache sample_detector)\<rparr>"
        sample_detector hex_std sample_swap_tx] by simp
qed

section \<open>The cache key\<close>

lemma arb_cache_inv:
  "distinct (map fst (ad_pool_cache (arb_load_pools (arbitrage_new c) pools)))
   \<and> (\<forall>(k, p) \<in> set (ad_pool_cache (arb_load_pools (arbitrage_new c) pools)). k = pool_key p)"
  unfolding arb_load_pools_def
proof (induction pools rule: rev_induct)
  case (snoc p pools)
  then show ?case
    by (auto simp: arb_update_pool_def distinct_update dest!: set_alist_update)
qed (simp add: arbitrage_new_def)

text \<open>The cache holds at most one pool per ordered pair and low byte of the fee. Loading the pools of
  two exchanges that charge the same fee for the same pair keeps only one of them, so their prices
  are never compared.\<close>

theorem arb_cache_one_pool_per_fee:
  assumes "p \<in> arb_pools (arb_load_pools (arbitrage_new c) pools)"
    and "q \<in> arb_pools (arb_load_pools (arbitrage_new c) pools)"
    and "ps_token0 p = ps_token0 q" "ps_token1 p = ps_token1 q"
    and "unat (ps_fee p) mod 256 = unat (ps_fee q) mod 256"
  shows "p = q"
proof -
  let ?cache = "ad_pool_cache (arb_load_pools (arbitrage_new c) pools)"
  have "(ucast (ps_fee p) :: u8) = ucast (ps_fee q)"
    using assms(5) by (simp add: unat_eq_iff unsigned_ucast_eq take_bit_eq_mod)
  then have "pool_key p = pool_key q"
    using assms(3,4) by (simp add: pool_key_def)
  moreover have "(pool_key p, p) \<in> set ?cache" "(pool_key q, q) \<in> set ?cache"
    using assms(1,2) arb_cache_inv [of c pools] by auto
  moreover have "distinct (map fst ?cache)"
    using arb_cache_inv [of c pools] by blast
  ultimately show ?thesis
    using eq_key_imp_eq_value by fastforce
qed

theorem arb_cache_one_pool_per_fee_witness:
  "v2_pool 12 3 4 7 8 3000 \<in> arb_pools (arb_load_pools (arbitrage_new (Config_default 8))
      [v2_pool 11 3 4 5 6 3000, v2_pool 12 3 4 7 8 3000])
   \<and> v2_pool 11 3 4 5 6 3000 \<notin> arb_pools (arb_load_pools (arbitrage_new (Config_default 8))
      [v2_pool 11 3 4 5 6 3000, v2_pool 12 3 4 7 8 3000])"
proof -
  let ?p = "v2_pool 11 3 4 5 6 3000" and ?q = "v2_pool 12 3 4 7 8 3000"
  let ?s = "arb_load_pools (arbitrage_new (Config_default 8)) [?p, ?q]"
  have q: "?q \<in> arb_pools ?s"
    by (simp add: arb_load_pools_def arb_update_pool_def arbitrage_new_def pool_key_def v2_pool_def)
  have "?p = ?q" if "?p \<in> arb_pools ?s"
    by (rule arb_cache_one_pool_per_fee [OF that q]) (simp_all add: v2_pool_def)
  moreover have "?p \<noteq> ?q"
    by (simp add: v2_pool_def)
  ultimately show ?thesis
    using q by blast
qed

end
