(* ===== verification/F64.thy ===== *)
theory F64
  imports Prelude Complex_Main
begin

text \<open>
  The part of IEEE 754 double arithmetic that the backrun detector and the executables use: conversion from
  \<^verbatim>\<open>u128\<close>, multiplication, division, difference, square root, minimum and the saturating casts back. A non-negative
  double is a mantissa and an exponent. The values that occur lie between \<open>2^(-128)\<close> and \<open>2^256\<close> (or are
  0), far from underflow and overflow, so rounding to 53 bits, to nearest with ties to even, is
  all there is to model.
\<close>

type_synonym f64 = "nat \<times> int"

section \<open>Rounding\<close>

fun bit_len :: "nat \<Rightarrow> nat" where
  "bit_len n = (if n = 0 then 0 else Suc (bit_len (n div 2)))"

declare bit_len.simps [simp del]

definition round53 :: "f64 \<Rightarrow> f64" where
  "round53 x = (case x of (m, e) \<Rightarrow>
     if m < 2 ^ 53 then (m, e)
     else
       let k = bit_len m - 53; q = m div 2 ^ k; r = m mod 2 ^ k
       in (if 2 ^ k < 2 * r \<or> (2 * r = 2 ^ k \<and> odd q) then q + 1 else q, e + int k))"

section \<open>Operations\<close>

text \<open>\<^verbatim>\<open>x as f64\<close> of an integer\<close>

definition f64_of_u128 :: "u128 \<Rightarrow> f64" where
  "f64_of_u128 w = round53 (unat w, 0)"

definition f64_mult :: "f64 \<Rightarrow> f64 \<Rightarrow> f64" where
  "f64_mult x y = round53 (fst x * fst y, snd x + snd y)"

fun isqrt :: "nat \<Rightarrow> nat" where
  "isqrt n = (if n = 0 then 0 else
     let s = 2 * isqrt (n div 4) in if (s + 1) * (s + 1) \<le> n then s + 1 else s)"

declare isqrt.simps [simp del]

text \<open>The correctly rounded square root: the mantissa is scaled by an even power of two so that its
  integer root has more than 54 bits, and an inexact root keeps a sticky bit.\<close>

definition f64_sqrt :: "f64 \<Rightarrow> f64" where
  "f64_sqrt x = (case x of (m, e) \<Rightarrow>
     if m = 0 then (0, 0)
     else
       let j = (if even e then 110 else 111); m' = m * 2 ^ j; e' = (e - int j) div 2; s = isqrt m'
       in if s * s = m' then round53 (s, e') else round53 (2 * s + 1, e' - 1))"

definition f64_le :: "f64 \<Rightarrow> f64 \<Rightarrow> bool" where
  "f64_le x y =
     (if snd x \<le> snd y then fst x \<le> fst y * 2 ^ nat (snd y - snd x)
      else fst x * 2 ^ nat (snd x - snd y) \<le> fst y)"

definition f64_min :: "f64 \<Rightarrow> f64 \<Rightarrow> f64" where
  "f64_min x y = (if f64_le x y then x else y)"

definition f64_max :: "f64 \<Rightarrow> f64 \<Rightarrow> f64" where
  "f64_max x y = (if f64_le x y then y else x)"

definition f64_trunc :: "f64 \<Rightarrow> nat" where
  "f64_trunc x = (if 0 \<le> snd x then fst x * 2 ^ nat (snd x) else fst x div 2 ^ nat (- snd x))"

text \<open>\<^verbatim>\<open>x as u128\<close>: truncation, saturating at the maximum.\<close>

definition f64_to_u128 :: "f64 \<Rightarrow> u128" where
  "f64_to_u128 x = word_of_nat (min (f64_trunc x) (2 ^ 128 - 1))"

text \<open>The double nearest to 0.01.\<close>

definition f64_0_01 :: f64 where
  "f64_0_01 = (5764607523034235, - 59)"

text \<open>Correctly rounded division by a non-zero double: the dividend is scaled so that the integer
  quotient has more than 54 bits, and an inexact quotient keeps a sticky bit.\<close>

definition f64_div :: "f64 \<Rightarrow> f64 \<Rightarrow> f64" where
  "f64_div x y =
    (let m = fst x * 2 ^ 120; q = m div fst y; e = snd x - snd y - 120
     in if m mod fst y = 0 then round53 (q, e) else round53 (2 * q + 1, e - 1))"

text \<open>The difference of two doubles, the first at least the second.\<close>

definition f64_diff :: "f64 \<Rightarrow> f64 \<Rightarrow> f64" where
  "f64_diff x y =
    (let e = min (snd x) (snd y)
     in round53 (fst x * 2 ^ nat (snd x - e) - fst y * 2 ^ nat (snd y - e), e))"

text \<open>\<^verbatim>\<open>x as i32\<close> of a non-negative double.\<close>

definition f64_to_i32 :: "f64 \<Rightarrow> i32" where
  "f64_to_i32 x = word_of_nat (min (f64_trunc x) (2 ^ 31 - 1))"

definition f64_lt :: "f64 \<Rightarrow> f64 \<Rightarrow> bool" where
  "f64_lt x y \<longleftrightarrow> \<not> f64_le y x"

text \<open>The double nearest to 0.0001.\<close>

definition f64_0_0001 :: f64 where
  "f64_0_0001 = (7378697629483821, - 66)"

section \<open>Error bounds\<close>

lemma bit_len_bounds:
  "0 < n \<Longrightarrow> 2 ^ (bit_len n - 1) \<le> n \<and> n < 2 ^ bit_len n"
proof (induction n rule: bit_len.induct)
  case (1 n)
  show ?case
  proof (cases "n div 2 = 0")
    case True
    with 1 have "n = 1" by presburger
    then show ?thesis
      by (simp add: bit_len.simps [of "Suc 0"] bit_len.simps [of 0])
  next
    case False
    with 1 have ih: "2 ^ (bit_len (n div 2) - 1) \<le> n div 2" "n div 2 < 2 ^ bit_len (n div 2)"
      by simp_all
    have l: "bit_len n = Suc (bit_len (n div 2))" "bit_len (n div 2) \<noteq> 0"
      using 1(2) False by (simp_all add: bit_len.simps [of n] bit_len.simps [of "n div 2"])
    then obtain b where b: "bit_len (n div 2) = Suc b"
      using not0_implies_Suc by blast
    show ?thesis
      using ih unfolding l(1) b by (simp; linarith)
  qed
qed

lemma bit_len_eq: "2 ^ k \<le> n \<Longrightarrow> n < 2 ^ Suc k \<Longrightarrow> bit_len n = Suc k"
proof -
  assume n: "2 ^ k \<le> n" "n < 2 ^ Suc k"
  have "0 < n"
    using n(1) by (rule less_le_trans [rotated]) simp
  note b = bit_len_bounds [OF this]
  have "bit_len n - 1 < Suc k"
    using le_less_trans [OF conjunct1 [OF b] n(2)] by (rule power_less_imp_less_exp [rotated]) simp
  moreover have "k < bit_len n"
    using le_less_trans [OF n(1) conjunct2 [OF b]] by (rule power_less_imp_less_exp [rotated]) simp
  ultimately show ?thesis by simp
qed

text \<open>Evaluation of a rounding with a known number of bits.\<close>

lemma round53_eval:
  assumes "2 ^ (52 + k) \<le> m" "m < 2 ^ (53 + k)" "0 < k"
  shows "round53 (m, e) =
    (if 2 ^ k < 2 * (m mod 2 ^ k) \<or> (2 * (m mod 2 ^ k) = 2 ^ k \<and> odd (m div 2 ^ k)) then m div 2 ^ k + 1 else m div 2 ^ k, e + int k)"
proof -
  have "bit_len m = Suc (52 + k)"
    using assms by (intro bit_len_eq) simp_all
  moreover have "(2 :: nat) ^ 53 \<le> 2 ^ (52 + k)"
    using assms(3) by (intro power_increasing) simp_all
  then have "\<not> m < 2 ^ 53"
    using assms(1) by linarith
  ultimately show ?thesis
    by (simp add: round53_def Let_def)
qed

text \<open>Rounding raises a value by at most one part in \<open>2^52\<close>.\<close>

lemma round53_upper:
  assumes "round53 (m, e) = (m', e')"
  shows "e \<le> e' \<and> m' * 2 ^ nat (e' - e) * 2 ^ 52 \<le> m * (2 ^ 52 + 1)"
proof (cases "m < 2 ^ 53")
  case True
  with assms show ?thesis
    by (simp add: round53_def)
next
  case False
  define k where "k = bit_len m - 53"
  define q where "q = m div 2 ^ k"
  have m: "0 < m" "2 ^ 53 \<le> m"
    using False by simp_all
  have lt: "m < 2 ^ bit_len m"
    using bit_len_bounds [OF m(1)] by blast
  have "(2 :: nat) ^ 53 < 2 ^ bit_len m"
    using m(2) lt by (rule le_less_trans)
  then have "53 < bit_len m"
    by (rule power_less_imp_less_exp [rotated]) simp
  then have len: "bit_len m - 1 = 52 + k"
    by (simp add: k_def)
  have "2 ^ 52 * 2 ^ k \<le> m"
    using bit_len_bounds [OF m(1)] unfolding len power_add by blast
  moreover have "q * 2 ^ k \<le> m"
    by (simp add: q_def)
  ultimately have "(q + 1) * 2 ^ k * 2 ^ 52 \<le> m * (2 ^ 52 + 1)"
    by (simp add: algebra_simps)
  moreover have "e' = e + int k" "m' \<le> q + 1"
    using assms False by (auto simp: round53_def Let_def k_def q_def split: if_splits)
  moreover from this have "m' * 2 ^ k * 2 ^ 52 \<le> (q + 1) * 2 ^ k * 2 ^ 52"
    by (intro mult_le_mono1)
  ultimately show ?thesis
    by simp
qed

section \<open>Values\<close>

definition f64_val :: "f64 \<Rightarrow> real" where
  "f64_val x = real (fst x) * 2 powi snd x"

lemma f64_val_nonneg: "0 \<le> f64_val x"
  by (simp add: f64_val_def)

lemma f64_val_shift: "e \<le> e' \<Longrightarrow> f64_val (m, e') = real (m * 2 ^ nat (e' - e)) * 2 powi e"
proof -
  assume "e \<le> e'"
  then have "(2 :: real) powi e' = 2 powi (e' - e) * 2 powi e"
    by (simp flip: power_int_add)
  then show ?thesis
    using \<open>e \<le> e'\<close> by (simp add: f64_val_def power_int_def)
qed

lemma scaled_le_iff: "real m * 2 powi e \<le> real n * 2 powi e \<longleftrightarrow> m \<le> n"
proof -
  have "0 < (2 :: real) powi e" by simp
  then show ?thesis by (simp only: mult_le_cancel_right_pos of_nat_le_iff)
qed

lemma f64_le_val: "f64_le x y \<longleftrightarrow> f64_val x \<le> f64_val y"
proof (cases "snd x \<le> snd y")
  case True
  have "f64_val y = real (fst y * 2 ^ nat (snd y - snd x)) * 2 powi snd x"
    using f64_val_shift [OF True, of "fst y"] by (simp only: prod.collapse)
  moreover have "f64_val x = real (fst x) * 2 powi snd x"
    by (rule f64_val_def)
  ultimately show ?thesis
    using True by (simp only: f64_le_def scaled_le_iff if_True)
next
  case False
  then have "snd y \<le> snd x" by simp
  then have "f64_val x = real (fst x * 2 ^ nat (snd x - snd y)) * 2 powi snd y"
    using f64_val_shift [of "snd y" "snd x" "fst x"] by (simp only: prod.collapse)
  moreover have "f64_val y = real (fst y) * 2 powi snd y"
    by (rule f64_val_def)
  ultimately show ?thesis
    using False by (simp only: f64_le_def scaled_le_iff if_False)
qed

lemma f64_min_val: "f64_val (f64_min x y) = min (f64_val x) (f64_val y)"
  by (simp add: f64_min_def f64_le_val)

lemma f64_trunc_le: "real (f64_trunc x) \<le> f64_val x"
proof (cases "0 \<le> snd x")
  case True
  then show ?thesis
    by (simp add: f64_trunc_def f64_val_def power_int_def)
next
  case False
  define k where "k = nat (- snd x)"
  have k: "2 powi snd x = 1 / (2 :: real) ^ k"
    using False by (simp add: power_int_def k_def inverse_eq_divide power_one_over)
  have "fst x div 2 ^ k * 2 ^ k \<le> fst x"
    by simp
  then have "real (fst x div 2 ^ k) * 2 ^ k \<le> real (fst x)"
    by (metis of_nat_le_iff of_nat_mult of_nat_numeral of_nat_power)
  then have "real (fst x div 2 ^ k) \<le> real (fst x) * (1 / 2 ^ k)"
    by (simp add: pos_le_divide_eq)
  then show ?thesis
    using False by (simp only: f64_trunc_def f64_val_def k k_def [symmetric] if_False)
qed

lemma round53_val: "f64_val (round53 x) * 2 ^ 52 \<le> f64_val x * (2 ^ 52 + 1)"
proof -
  obtain m e m' e' where x: "x = (m, e)" "round53 x = (m', e')"
    by (metis surj_pair)
  then have r: "e \<le> e'" "m' * 2 ^ nat (e' - e) * 2 ^ 52 \<le> m * (2 ^ 52 + 1)"
    using round53_upper [of m e m' e'] by simp_all
  have "real (m' * 2 ^ nat (e' - e) * 2 ^ 52) \<le> real (m * (2 ^ 52 + 1))"
    using r(2) by (rule of_nat_mono)
  then have "real (m' * 2 ^ nat (e' - e)) * 2 ^ 52 * 2 powi e \<le> real m * (2 ^ 52 + 1) * 2 powi e"
    by (intro mult_right_mono) simp_all
  then show ?thesis
    unfolding x(2) f64_val_shift [OF r(1)] using x(1) by (simp add: f64_val_def algebra_simps)
qed

lemma f64_of_u128_val: "f64_val (f64_of_u128 w) * 2 ^ 52 \<le> real (unat w) * (2 ^ 52 + 1)"
  using round53_val [of "(unat w, 0)"] by (simp add: f64_of_u128_def f64_val_def)

lemma f64_mult_val: "f64_val (f64_mult x y) * 2 ^ 52 \<le> f64_val x * f64_val y * (2 ^ 52 + 1)"
  using round53_val [of "(fst x * fst y, snd x + snd y)"]
  by (simp add: f64_mult_def f64_val_def power_int_add algebra_simps)

text \<open>The quotient, whose sticky bit adds less than one part in \<open>2^60\<close>.\<close>

lemma f64_div_val:
  assumes "0 < fst x" "0 < fst y" "fst y \<le> 2 ^ 53"
  shows "f64_val (f64_div x y) * 2 ^ 52 \<le> f64_val x / f64_val y * (1 + 1 / 2 ^ 60) * (2 ^ 52 + 1)"
proof -
  define m where "m = fst x * 2 ^ 120"
  define q where "q = m div fst y"
  define e where "e = snd x - snd y - 120"
  have exact: "f64_val x / f64_val y = real m / real (fst y) * 2 powi e"
    using assms(2) by (simp add: f64_val_def m_def e_def power_int_diff power_int_add field_simps)
  have q: "real q \<le> real m / real (fst y)"
  proof -
    have "real (q * fst y) \<le> real m"
      by (rule of_nat_mono) (simp add: q_def)
    then show ?thesis
      using assms(2) by (simp add: field_simps)
  qed
  have big: "2 ^ 60 \<le> real m / real (fst y)"
  proof -
    have "2 ^ 60 * fst y \<le> 2 ^ 60 * 2 ^ 53"
      using assms(3) by (rule mult_le_mono2)
    also have "\<dots> \<le> m"
      using assms(1) by (simp add: m_def)
    finally have "real (2 ^ 60 * fst y) \<le> real m"
      by (rule of_nat_mono)
    then show ?thesis
      using assms(2) by (simp add: field_simps)
  qed
  have pos: "0 < (2 :: real) powi e" by simp
  have scaled: "v \<le> f64_val x / f64_val y * (1 + 1 / 2 ^ 60)" if "v = c * 2 powi e" "c \<le> real m / real (fst y) * (1 + 1 / 2 ^ 60)" for v c
    using mult_right_mono [OF that(2), of "2 powi e"] pos by (simp add: that(1) exact mult_ac)
  have "\<exists>z. f64_div x y = round53 z \<and> f64_val z \<le> f64_val x / f64_val y * (1 + 1 / 2 ^ 60)"
  proof (cases "m mod fst y = 0")
    case True
    have "f64_val (q, e) \<le> f64_val x / f64_val y * (1 + 1 / 2 ^ 60)"
      using q big by (intro scaled [of _ "real q"]) (simp_all add: f64_val_def algebra_simps)
    with True show ?thesis
      by (intro exI [of _ "(q, e)"]) (simp add: f64_div_def m_def q_def e_def)
  next
    case False
    have "f64_val (2 * q + 1, e - 1) = (real q + 1 / 2) * 2 powi e"
      by (simp add: f64_val_def power_int_diff algebra_simps)
    then have "f64_val (2 * q + 1, e - 1) \<le> f64_val x / f64_val y * (1 + 1 / 2 ^ 60)"
      using q big by (intro scaled [of _ "real q + 1 / 2"]) (simp_all add: algebra_simps)
    with False show ?thesis
      by (intro exI [of _ "(2 * q + 1, e - 1)"]) (simp add: f64_div_def m_def q_def e_def)
  qed
  then obtain z where z: "f64_div x y = round53 z" "f64_val z \<le> f64_val x / f64_val y * (1 + 1 / 2 ^ 60)"
    by blast
  have "f64_val (round53 z) * 2 ^ 52 \<le> f64_val z * (2 ^ 52 + 1)"
    by (rule round53_val)
  also have "\<dots> \<le> f64_val x / f64_val y * (1 + 1 / 2 ^ 60) * (2 ^ 52 + 1)"
    using z(2) by (intro mult_right_mono) simp_all
  finally show ?thesis
    unfolding z(1) .
qed

text \<open>Coarse lower bounds: rounding and division lose at most a factor.\<close>

lemma round53_lower: "f64_val x \<le> 2 * f64_val (round53 x)"
proof -
  obtain m e where x: "x = (m, e)"
    by (cases x)
  show ?thesis
  proof (cases "m < 2 ^ 53")
    case True
    then show ?thesis
      using f64_val_nonneg [of x] by (simp add: x round53_def)
  next
    case False
    define k where "k = bit_len m - 53"
    define q where "q = m div 2 ^ k"
    obtain q' where r: "round53 (m, e) = (q', e + int k)" "q \<le> q'"
      using False by (auto simp: round53_def Let_def k_def q_def)
    have "0 < m"
      using False by simp
    have "(2 :: nat) ^ k \<le> m"
    proof (rule order_trans)
      show "(2 :: nat) ^ k \<le> 2 ^ (bit_len m - 1)"
        by (rule power_increasing) (simp_all add: k_def)
    qed (use bit_len_bounds [OF \<open>0 < m\<close>] in blast)
    then have "1 \<le> q"
      unfolding q_def using div_le_mono [of "2 ^ k" m "2 ^ k"] by simp
    then have "m \<le> 2 * (q' * 2 ^ k)"
    proof -
      have "m \<le> q * 2 ^ k + 2 ^ k"
      proof -
        have "m mod 2 ^ k < 2 ^ k"
          by simp
        then show ?thesis
          using div_mult_mod_eq [of m "2 ^ k"] unfolding q_def by linarith
      qed
      also have "\<dots> \<le> q' * 2 ^ k + q' * 2 ^ k"
        using r(2) \<open>1 \<le> q\<close> by (intro add_mono mult_le_mono1) simp_all
      finally show ?thesis by simp
    qed
    then have "real m \<le> real (2 * (q' * 2 ^ k))"
      by (rule of_nat_mono)
    then have "real m * 2 powi e \<le> real (2 * (q' * 2 ^ k)) * 2 powi e"
      by (intro mult_right_mono) simp_all
    then show ?thesis
      unfolding x r(1) f64_val_shift [of e "e + int k" q', simplified] by (simp add: f64_val_def)
  qed
qed

lemma f64_of_u128_lower: "real (unat w) \<le> 2 * f64_val (f64_of_u128 w)"
  using round53_lower [of "(unat w, 0)"] by (simp add: f64_of_u128_def f64_val_def)

lemma f64_div_lower:
  assumes "0 < fst y" "fst y \<le> fst x * 2 ^ 120"
  shows "f64_val x / f64_val y \<le> 4 * f64_val (f64_div x y)"
proof -
  define m where "m = fst x * 2 ^ 120"
  define q where "q = m div fst y"
  define e where "e = snd x - snd y - 120"
  have exact: "f64_val x / f64_val y = real m / real (fst y) * 2 powi e"
    using assms(1) by (simp add: f64_val_def m_def e_def power_int_diff power_int_add field_simps)
  have "m < (q + 1) * fst y"
    using assms(1) dividend_less_times_div [of "fst y" m] by (simp add: q_def algebra_simps)
  then have "real m < real ((q + 1) * fst y)"
    by (rule of_nat_less_iff [THEN iffD2])
  then have q: "real m / real (fst y) \<le> real q + 1"
    using assms(1) by (simp add: divide_le_eq algebra_simps)
  have "1 \<le> q"
    unfolding q_def using div_le_mono [OF assms(2), of "fst y"] assms(1) by (simp add: m_def)
  obtain z where z: "f64_div x y = round53 z" "f64_val z = real q * 2 powi e \<or> f64_val z = (real q + 1 / 2) * 2 powi e"
  proof (cases "m mod fst y = 0")
    case True
    then show ?thesis
      by (intro that [of "(q, e)"]) (simp_all add: f64_div_def m_def q_def e_def f64_val_def)
  next
    case False
    have "f64_val (2 * q + 1, e - 1) = (real q + 1 / 2) * 2 powi e"
      by (simp add: f64_val_def power_int_diff algebra_simps)
    with False show ?thesis
      by (intro that [of "(2 * q + 1, e - 1)"]) (simp_all add: f64_div_def m_def q_def e_def)
  qed
  have "real m / real (fst y) * 2 powi e \<le> 2 * real q * 2 powi e"
    using q \<open>1 \<le> q\<close> by (intro mult_right_mono) auto
  also have "\<dots> \<le> 2 * f64_val z"
    using z(2) by (auto simp: algebra_simps)
  also have "\<dots> \<le> 2 * (2 * f64_val (round53 z))"
    using round53_lower [of z] by simp
  finally show ?thesis
    by (simp add: exact z(1))
qed

text \<open>The square root is the correct integer root of the scaled mantissa.\<close>

lemma isqrt_bounds: "isqrt n * isqrt n \<le> n \<and> n < (isqrt n + 1) * (isqrt n + 1)"
proof (induction n rule: isqrt.induct)
  case (1 n)
  show ?case
  proof (cases "n = 0")
    case True
    then show ?thesis by (simp add: isqrt.simps [of 0])
  next
    case False
    define s where "s = isqrt (n div 4)"
    have "s * s \<le> n div 4" "n div 4 < (s + 1) * (s + 1)"
      using 1 False by (simp_all add: s_def)
    then have "4 * (s * s) \<le> n" "n < 4 * ((s + 1) * (s + 1))"
      by linarith+
    moreover have "isqrt n = (if (2 * s + 1) * (2 * s + 1) \<le> n then 2 * s + 1 else 2 * s)"
      using False by (simp add: isqrt.simps [of n] s_def Let_def)
    ultimately show ?thesis
      by (simp add: algebra_simps)
  qed
qed

end
