(* ===== verification/Backrun_Detector.thy ===== *)
theory Backrun_Detector
  imports F64 Pool_Store Arbitrage_Detector
begin

text \<open>
  The backrun detector (\<^verbatim>\<open>core/src/detector/backrun.rs\<close>): swap recognition, size and impact
  estimates, the profit estimate and \<^verbatim>\<open>detect\<close>. The liquidity cache is read by key only, so it
  is a map. The division in the impact estimate can divide by zero, which panics.
\<close>

section \<open>State\<close>

definition SWAP_SELECTORS :: "bytes list" where
  "SWAP_SELECTORS =
    [[0x38, 0xed, 0x17, 0x39], [0x88, 0x03, 0xdb, 0xee], [0x7f, 0xf3, 0x6a, 0xb5], [0x18, 0xcb, 0xaf, 0xe5],
     [0x41, 0x4b, 0xf3, 0x89], [0xc0, 0x4b, 0x8d, 0x59], [0xdb, 0x3e, 0x21, 0x98], [0xfb, 0x3b, 0xdb, 0x41]]"

record BackrunDetector =
  bd_config :: Config
  bd_min_swap_size_wei :: u128
  bd_pool_liquidity :: "address \<rightharpoonup> u128"

definition backrun_new :: "Config \<Rightarrow> BackrunDetector" where
  "backrun_new config =
    \<lparr>bd_config = config, bd_min_swap_size_wei = st_min_backrun_swap_wei (cf_strategy config),
     bd_pool_liquidity = Map.empty\<rparr>"

definition update_liquidity :: "BackrunDetector \<Rightarrow> address \<times> u128 \<Rightarrow> BackrunDetector" where
  "update_liquidity s entry = s\<lparr>bd_pool_liquidity := (bd_pool_liquidity s)(fst entry \<mapsto> snd entry)\<rparr>"

section \<open>Estimates\<close>

definition is_swap :: "PendingTx \<Rightarrow> bool" where
  "is_swap tx = (if length (tx_input tx) < 4 then False else take 4 (tx_input tx) \<in> set SWAP_SELECTORS)"

definition estimate_swap_size :: "PendingTx \<Rightarrow> u128 option" where
  "estimate_swap_size tx =
    (if 0 < tx_value tx then Some (tx_value tx)
     else if 36 \<le> length (tx_input tx)
       then let amount = from_be (sub_bytes 20 36 (tx_input tx)) :: u128
            in if 0 < amount then Some amount else None
     else None)"

definition extract_router_target :: "PendingTx \<Rightarrow> address option" where
  "extract_router_target tx = tx_to tx"

definition get_pool_liquidity :: "BackrunDetector \<Rightarrow> address \<Rightarrow> u128" where
  "get_pool_liquidity s pool_addr =
    (case bd_pool_liquidity s pool_addr of Some l \<Rightarrow> l | None \<Rightarrow> 2500000000000000000000)"

definition calculate_price_impact :: "u128 \<Rightarrow> u128 \<Rightarrow> u128 option exec" where
  "calculate_price_impact swap_size pool_liquidity =
    (if pool_liquidity = 0 then Inr None
     else
       let reserve = pool_liquidity div 2
       in if reserve = 0 then Inr None
          else if reserve + swap_size = 0 then Inl DivisionByZero
          else let impact_bps = swap_size * 10000 div (reserve + swap_size)
               in Inr (Some (min impact_bps 1000)))"

definition calculate_backrun_profit :: "Config \<Rightarrow> u128 \<Rightarrow> u128 \<Rightarrow> u128 option" where
  "calculate_backrun_profit config swap_size price_impact_bps =
    (let recovery_rate_pct = 45;
         gross = swap_size * price_impact_bps * recovery_rate_pct div (10000 * 100);
         gas_price_wei = (ucast (cfg_max_gas_gwei config) :: u128) * 1000000000;
         gas_cost = 180000 * gas_price_wei;
         slippage_cost = gross * (ucast (cfg_slippage_bps config) :: u128) div 10000
     in case checked_sub gross gas_cost of
          None \<Rightarrow> None
        | Some net \<Rightarrow> checked_sub net slippage_cost)"

text \<open>The size of the backrun trade, in double arithmetic.\<close>

definition backrun_amount :: "u128 \<Rightarrow> u128 \<Rightarrow> u128" where
  "backrun_amount swap_size pool_liquidity =
    (let geometric_mean = f64_sqrt (f64_mult (f64_of_u128 swap_size) (f64_of_u128 pool_liquidity));
         cap = f64_mult (f64_of_u128 pool_liquidity) f64_0_01
     in max (f64_to_u128 (f64_min geometric_mean cap)) 1)"

section \<open>Detection\<close>

definition backrun_detect :: "hexcrate \<Rightarrow> BackrunDetector \<Rightarrow> PendingTx \<Rightarrow> Opportunity option exec" where
  "backrun_detect hx s tx =
    (if \<not> is_swap tx then Inr None
     else case estimate_swap_size tx of
       None \<Rightarrow> Inr None
     | Some swap_size \<Rightarrow>
         if swap_size < bd_min_swap_size_wei s then Inr None
         else case extract_router_target tx of
           None \<Rightarrow> Inr None
         | Some pool_addr \<Rightarrow>
             let pool_liquidity = get_pool_liquidity s pool_addr
             in bindE (calculate_price_impact swap_size pool_liquidity) (\<lambda>impact. Inr (case impact of
                  None \<Rightarrow> None
                | Some price_impact_bps \<Rightarrow>
                    if price_impact_bps < 5 then None
                    else case calculate_backrun_profit (bd_config s) swap_size price_impact_bps of
                      None \<Rightarrow> None
                    | Some profit \<Rightarrow>
                        if profit < cfg_min_profit (bd_config s) then None
                        else Some
                          \<lparr>opp_type = Backrun, opp_token_in = hex_0x hx (to_be 20 pool_addr),
                           opp_token_out = ''TARGET'', opp_amount_in = backrun_amount swap_size pool_liquidity,
                           opp_expected_profit = profit, opp_gas_estimate = estimate_gas Backrun [UniswapV3],
                           opp_deadline = tx_timestamp tx + 12, opp_path = [UniswapV3],
                           opp_pool_addresses = [pool_addr], opp_pool_fees = [500],
                           opp_target_tx = Some (tx_hash tx)\<rparr>)))"

interpretation backrun_store: keyed_store update_liquidity bd_pool_liquidity fst snd
  by unfold_locales (simp add: update_liquidity_def)

section \<open>The trade size\<close>

text \<open>The backrun never trades more than one percent of the pool. The amount is at least 1, and is
  either 1 or at most 1 percent of the pool's liquidity up to one part in a billion, the rounding
  of the double arithmetic included.\<close>

theorem backrun_amount_bounds:
  "1 \<le> unat (backrun_amount swap_size liq)
   \<and> (unat (backrun_amount swap_size liq) = 1
      \<or> unat (backrun_amount swap_size liq) * 10 ^ 11 \<le> unat liq * (10 ^ 9 + 1))"
proof -
  define cap where "cap = f64_mult (f64_of_u128 liq) f64_0_01"
  define g where "g = f64_sqrt (f64_mult (f64_of_u128 swap_size) (f64_of_u128 liq))"
  define t where "t = f64_trunc (f64_min g cap)"
  have "f64_val cap * 2 ^ 52 \<le> f64_val (f64_of_u128 liq) * f64_val f64_0_01 * (2 ^ 52 + 1)"
    unfolding cap_def by (rule f64_mult_val)
  moreover have "f64_val f64_0_01 = 5764607523034235 / 2 ^ 59"
    by (simp add: f64_val_def f64_0_01_def power_int_def power_one_over)
  ultimately have "f64_val cap * 2 ^ 111 \<le> f64_val (f64_of_u128 liq) * (5764607523034235 * (2 ^ 52 + 1))"
    by simp
  moreover have "f64_val (f64_of_u128 liq) * 2 ^ 52 \<le> real (unat liq) * (2 ^ 52 + 1)"
    by (rule f64_of_u128_val)
  moreover have "0 \<le> real (unat liq)"
    by (rule of_nat_0_le_iff)
  ultimately have "f64_val cap * 10 ^ 11 \<le> real (unat liq) * (10 ^ 9 + 1)"
    by (simp only: power_numeral_even power_numeral_odd) simp
  moreover have "real t \<le> f64_val cap"
    using f64_trunc_le [of "f64_min g cap"] by (simp add: t_def f64_min_val)
  ultimately have "real t * 10 ^ 11 \<le> real (unat liq) * (10 ^ 9 + 1)"
    by simp
  then have "real (t * 10 ^ 11) \<le> real (unat liq * (10 ^ 9 + 1))"
    by simp
  then have t: "t * 10 ^ 11 \<le> unat liq * (10 ^ 9 + 1)"
    by (simp only: of_nat_le_iff)
  have "t < 2 ^ 128"
    using t unat_bound [of liq] by simp
  then have "unat (f64_to_u128 (f64_min g cap)) = t"
    by (simp add: f64_to_u128_def unat_word_of_nat_small flip: t_def)
  then have "unat (backrun_amount swap_size liq) = max t 1"
    by (simp add: backrun_amount_def Let_def max_def word_le_nat_alt flip: g_def cap_def)
  with t show ?thesis
    by (simp add: max_def)
qed

section \<open>Impact and profit\<close>

lemma word_eq_of_nat: "unat w = n \<Longrightarrow> w = of_nat n"
  by auto

lemma unat_half: "unat (liq div 2 :: u128) = unat liq div 2"
  by (simp add: unat_div)

lemma impact_value:
  fixes swap liq :: u128
  assumes "unat swap < 2 ^ 114"
  shows "unat (swap * 10000 div (liq div 2 + swap)) = unat swap * 10000 div (unat liq div 2 + unat swap)"
    "unat (liq div 2 + swap) = unat liq div 2 + unat swap"
proof -
  have "unat liq div 2 < 2 ^ 127"
    using unat_bound [of liq] by simp
  then show s: "unat (liq div 2 + swap) = unat liq div 2 + unat swap"
    using assms by (subst unat_add_exact) (simp_all add: unat_half)
  have "unat (swap * 10000) = unat swap * 10000"
    using assms by (subst unat_mult_exact) simp_all
  with s show "unat (swap * 10000 div (liq div 2 + swap)) = unat swap * 10000 div (unat liq div 2 + unat swap)"
    by (simp add: unat_div)
qed

text \<open>The price impact. For swaps below \<open>2^114\<close> wei the estimate returns without a panic: nothing for a
  pool of liquidity 0 or 1, and otherwise the exact quotient
  \<open>swap * 10000 / (liquidity / 2 + swap)\<close>, capped at 1000 basis points.\<close>

theorem calculate_price_impact_exact:
  assumes "unat swap_size < 2 ^ 114"
  shows "calculate_price_impact swap_size liq = Inr
    (if unat liq < 2 then None
     else Some (of_nat (min (unat swap_size * 10000 div (unat liq div 2 + unat swap_size)) 1000)))"
proof (cases "unat liq < 2")
  case True
  then have "liq div 2 = 0"
    by (simp add: unat_eq_iff unat_div)
  with True show ?thesis
    by (simp add: calculate_price_impact_def)
next
  case False
  let ?q = "unat swap_size * 10000 div (unat liq div 2 + unat swap_size)"
  have r: "liq div 2 \<noteq> 0" "liq \<noteq> 0" "liq div 2 + swap_size \<noteq> 0"
    using False impact_value(2) [OF assms, of liq] by (auto simp: unat_eq_iff unat_div)
  have "unat (min (swap_size * 10000 div (liq div 2 + swap_size)) 1000) = min ?q 1000"
    using impact_value(1) [OF assms, of liq] by (simp add: min_def word_le_nat_alt)
  then have "min (swap_size * 10000 div (liq div 2 + swap_size)) 1000 = of_nat (min ?q 1000)"
    by (rule word_eq_of_nat)
  with r False show ?thesis
    by (simp add: calculate_price_impact_def Let_def)
qed

theorem calculate_price_impact_exact_witness:
  "calculate_price_impact (10 ^ 20) (2500 * 10 ^ 18) = Inr (Some 740)"
  using calculate_price_impact_exact [of "10 ^ 20" "2500 * 10 ^ 18"] by simp

text \<open>A second way to crash the engine. A swap whose size is the two's complement of half the
  liquidity makes the divisor of the impact estimate wrap to zero; the division panics inside
  \<open>detect\<close>. The size is read from the calldata of the pending transaction.\<close>

theorem backrun_detect_divides_by_zero:
  assumes "is_swap tx" "estimate_swap_size tx = Some (- (get_pool_liquidity s a div 2))"
    and "tx_to tx = Some a" "2 \<le> unat (get_pool_liquidity s a)"
    and "bd_min_swap_size_wei s \<le> - (get_pool_liquidity s a div 2)"
  shows "backrun_detect hx s tx = Inl DivisionByZero"
proof -
  have "get_pool_liquidity s a \<noteq> 0" "get_pool_liquidity s a div 2 \<noteq> 0"
    using assms(4) by (auto simp: unat_eq_iff unat_div)
  then have "calculate_price_impact (- (get_pool_liquidity s a div 2)) (get_pool_liquidity s a) = Inl DivisionByZero"
    by (simp add: calculate_price_impact_def)
  with assms show ?thesis
    by (simp add: backrun_detect_def extract_router_target_def Let_def not_less)
qed

text \<open>36 bytes of calldata are enough against the default liquidity.\<close>

definition div_zero_calldata :: bytes where
  "div_zero_calldata = [0x38, 0xed, 0x17, 0x39] @ replicate 16 0 @ to_be 16 (- 1250000000000000000000 :: u128)"

theorem backrun_detect_divides_by_zero_witness:
  "length div_zero_calldata = 36 \<and>
   backrun_detect hex_std (backrun_new (Config_default 8)) (sample_tx_with div_zero_calldata) = Inl DivisionByZero"
proof -
  let ?s = "backrun_new (Config_default 8)" and ?tx = "sample_tx_with div_zero_calldata"
  have l: "get_pool_liquidity ?s 3 = 2500000000000000000000"
    by (simp add: get_pool_liquidity_def backrun_new_def)
  have len: "length div_zero_calldata = 36"
    by (simp add: div_zero_calldata_def)
  have "sub_bytes 20 36 div_zero_calldata = to_be 16 (- 1250000000000000000000 :: u128)"
    by (simp add: div_zero_calldata_def sub_bytes_def)
  then have "(from_be (sub_bytes 20 36 div_zero_calldata) :: u128) = - 1250000000000000000000"
    by (simp only: from_be_to_be len_num1 len_bit0 len_bit1)
  then have e: "estimate_swap_size ?tx = Some (- (get_pool_liquidity ?s 3 div 2))"
    using len by (simp add: estimate_swap_size_def sample_tx_with_def l word_gt_0)
  have w: "is_swap ?tx"
    by (simp add: is_swap_def sample_tx_with_def div_zero_calldata_def SWAP_SELECTORS_def)
  have "backrun_detect hex_std ?s ?tx = Inl DivisionByZero"
    by (rule backrun_detect_divides_by_zero [OF w e])
      (simp_all add: l, simp_all add: sample_tx_with_def backrun_new_def Config_default_def
        default_min_backrun_swap_wei_def)
  with len show ?thesis by simp
qed

text \<open>The profit of a backrun as a number: 45 percent of the impact on the swap, less gas and slippage.\<close>

definition backrun_gross :: "nat \<Rightarrow> nat \<Rightarrow> nat" where
  "backrun_gross sz impact = sz * impact * 45 div 1000000"

definition backrun_costs :: "Config \<Rightarrow> nat \<Rightarrow> nat" where
  "backrun_costs c gross = 180000 * unat (cfg_max_gas_gwei c) * 1000000000
     + gross * unat (cfg_slippage_bps c) div 10000"

lemma unat_backrun_gas:
  "unat (180000 * ((ucast (cfg_max_gas_gwei c) :: u128) * 1000000000)) = 180000 * unat (cfg_max_gas_gwei c) * 1000000000"
proof -
  have "(180000 * ((ucast (cfg_max_gas_gwei c) :: u128) * 1000000000))
      = of_nat (180000 * unat (cfg_max_gas_gwei c) * 1000000000)"
    by (simp add: mult.assoc)
  moreover have "180000 * unat (cfg_max_gas_gwei c) * 1000000000 < 2 ^ LENGTH(128)"
    using unat_bound [of "cfg_max_gas_gwei c"] by simp
  ultimately show ?thesis
    by (simp only: unat_word_of_nat_small)
qed

lemma unat_backrun_gross:
  fixes sz impact :: u128
  assumes "unat sz < 2 ^ 110" "unat impact \<le> 1000"
  shows "unat (sz * impact * 45 div (10000 * 100)) = backrun_gross (unat sz) (unat impact)"
    "backrun_gross (unat sz) (unat impact) < 2 ^ 112"
proof -
  have le: "unat sz * unat impact \<le> 2 ^ 110 * 1000"
    using assms by (intro mult_le_mono) simp_all
  then have "unat (sz * impact) = unat sz * unat impact"
    by (subst unat_mult_exact) simp_all
  with le have "unat (sz * impact * 45) = unat sz * unat impact * 45"
    by (subst unat_mult_exact) simp_all
  then show "unat (sz * impact * 45 div (10000 * 100)) = backrun_gross (unat sz) (unat impact)"
    by (simp add: unat_div backrun_gross_def)
  show "backrun_gross (unat sz) (unat impact) < 2 ^ 112"
    unfolding backrun_gross_def using div_le_mono [OF mult_le_mono1 [OF le, of 45], of 1000000]
    by (rule le_less_trans) simp
qed

lemma calculate_backrun_profit_exact:
  assumes "unat sz < 2 ^ 110" "unat impact \<le> 1000"
  shows "map_option unat (calculate_backrun_profit c sz impact) =
    (let gross = backrun_gross (unat sz) (unat impact)
     in if backrun_costs c gross \<le> gross then Some (gross - backrun_costs c gross) else None)"
proof -
  let ?gross = "sz * impact * 45 div (10000 * 100)"
  have g: "unat ?gross = backrun_gross (unat sz) (unat impact)" "unat ?gross < 2 ^ 112"
    using unat_backrun_gross [OF assms] by simp_all
  have s: "unat (?gross * (ucast (cfg_slippage_bps c) :: u128) div 10000) = unat ?gross * unat (cfg_slippage_bps c) div 10000"
    using unat_arb_slippage [OF g(2), of c] by (simp add: arb_slippage_def)
  have "map_option unat (case checked_sub a b of None \<Rightarrow> None | Some net \<Rightarrow> checked_sub net d)
      = (if unat b + unat d \<le> unat a then Some (unat a - (unat b + unat d)) else None)" for a b d :: u128
    by (auto simp: checked_sub_def word_le_nat_alt unat_sub)
  then show ?thesis
    unfolding calculate_backrun_profit_def Let_def
    by (simp only: unat_backrun_gas s g(1) backrun_costs_def)
qed

lemma backrun_detect_SomeD:
  assumes "backrun_detect hx s tx = Inr (Some opp)"
  obtains sz a impact where "is_swap tx" "estimate_swap_size tx = Some sz"
    "bd_min_swap_size_wei s \<le> sz" "tx_to tx = Some a"
    "calculate_price_impact sz (get_pool_liquidity s a) = Inr (Some impact)" "5 \<le> impact"
    "calculate_backrun_profit (bd_config s) sz impact = Some (opp_expected_profit opp)"
    "cfg_min_profit (bd_config s) \<le> opp_expected_profit opp"
    "opp_amount_in opp = backrun_amount sz (get_pool_liquidity s a)"
    "opp_type opp = Backrun" "opp_path opp = [UniswapV3]" "opp_pool_addresses opp = [a]"
    "opp_pool_fees opp = [500]" "opp_target_tx opp = Some (tx_hash tx)"
proof -
  obtain sz where w: "is_swap tx" "estimate_swap_size tx = Some sz" "\<not> sz < bd_min_swap_size_wei s"
    using assms by (auto simp: backrun_detect_def split: if_splits option.splits)
  obtain a where a: "tx_to tx = Some a"
    using assms w by (auto simp: backrun_detect_def extract_router_target_def split: option.splits)
  obtain impact where i: "calculate_price_impact sz (get_pool_liquidity s a) = Inr (Some impact)" "\<not> impact < 5"
    using assms w a
    by (cases "calculate_price_impact sz (get_pool_liquidity s a)")
      (auto simp: backrun_detect_def extract_router_target_def Let_def split: option.splits if_splits)
  obtain profit where "calculate_backrun_profit (bd_config s) sz impact = Some profit"
    "\<not> profit < cfg_min_profit (bd_config s)"
    using assms w a i
    by (auto simp: backrun_detect_def extract_router_target_def Let_def split: option.splits if_splits)
  with assms w a i show thesis
    by (intro that [of sz a impact]) (auto simp: backrun_detect_def extract_router_target_def Let_def not_less)
qed

lemma price_impact_le: "calculate_price_impact sz liq = Inr (Some i) \<Longrightarrow> unat i \<le> 1000"
  by (auto simp: calculate_price_impact_def Let_def min_def word_le_nat_alt split: if_splits)


definition backrun_sample_tx :: PendingTx where
  "backrun_sample_tx = (sample_tx_with [0x7f, 0xf3, 0x6a, 0xb5])\<lparr>tx_value := 100000000000000000000\<rparr>"

text \<open>A 100 ETH swap against the default liquidity is worth backrunning.\<close>

lemma backrun_sample:
  "\<exists>opp. backrun_detect hex_std (backrun_new (Config_default 8)) backrun_sample_tx = Inr (Some opp)
    \<and> opp_pool_addresses opp = [3] \<and> opp_expected_profit opp = 3295350000000000000"
proof -
  let ?s = "backrun_new (Config_default 8)" and ?tx = backrun_sample_tx
  have "is_swap ?tx" "estimate_swap_size ?tx = Some 100000000000000000000" "tx_to ?tx = Some 3"
    by (simp_all add: is_swap_def estimate_swap_size_def backrun_sample_tx_def sample_tx_with_def
        SWAP_SELECTORS_def word_gt_0)
  moreover have "get_pool_liquidity ?s 3 = 2500000000000000000000"
    by (simp add: get_pool_liquidity_def backrun_new_def)
  moreover have "calculate_price_impact 100000000000000000000 2500000000000000000000 = Inr (Some 740)"
    by (simp add: calculate_price_impact_def)
  moreover have "calculate_backrun_profit (Config_default 8) 100000000000000000000 740
      = Some 3295350000000000000"
    by (simp add: calculate_backrun_profit_def Config_default_def checked_sub_def)
  moreover have "bd_config ?s = Config_default 8" "bd_min_swap_size_wei ?s = 10000000000000000000"
    "cfg_min_profit (Config_default 8) = 1000000000000000"
    by (simp_all add: backrun_new_def Config_default_def default_min_backrun_swap_wei_def)
  ultimately show ?thesis
    by (simp add: backrun_detect_def extract_router_target_def)
qed


end
