(* ===== verification/Liquidation_Detector.thy ===== *)
theory Liquidation_Detector
  imports Wide_Arith Pool_Store Mev_Config
begin

text \<open>
  The liquidation detector (\<^verbatim>\<open>core/src/detector/liquidation.rs\<close>): the tracked positions, the pool
  cache, and the evaluation of a position in debt-token units with the 256-bit conversion to
  collateral units. Both hash maps are iterated by the code, so they are association lists.
\<close>

section \<open>Positions and protocols\<close>

datatype LendingProtocol = AaveV3 | CompoundV3 | Morpho

record Position =
  po_user :: address
  po_protocol :: LendingProtocol
  po_collateral_token :: address
  po_collateral_amount :: u128
  po_debt_token :: address
  po_debt_amount :: u128
  po_health_factor :: u128
  po_last_updated :: u64
  po_collateral_price_e18 :: "u128 option"

fun liquidation_bonus_bps :: "LendingProtocol \<Rightarrow> u128" where
  "liquidation_bonus_bps AaveV3 = 500"
| "liquidation_bonus_bps CompoundV3 = 800"
| "liquidation_bonus_bps Morpho = 500"

fun close_factor :: "LendingProtocol \<Rightarrow> u128" where
  "close_factor AaveV3 = 5000"
| "close_factor CompoundV3 = 5000"
| "close_factor Morpho = 10000"

fun flash_loan_fee_bps :: "LendingProtocol \<Rightarrow> u128" where
  "flash_loan_fee_bps AaveV3 = 5"
| "flash_loan_fee_bps CompoundV3 = 0"
| "flash_loan_fee_bps Morpho = 0"

fun gas_estimate :: "LendingProtocol \<Rightarrow> u64" where
  "gas_estimate AaveV3 = 450000"
| "gas_estimate CompoundV3 = 500000"
| "gas_estimate Morpho = 400000"

section \<open>State\<close>

record LiquidationDetector =
  ld_config :: Config
  ld_positions :: "(address \<times> Position list) list"
  ld_pool_cache :: "(address \<times> PoolState) list"
  ld_found_count :: u64

definition liquidation_new :: "Config \<Rightarrow> LiquidationDetector" where
  "liquidation_new config =
    \<lparr>ld_config = config, ld_positions = [], ld_pool_cache = [], ld_found_count = 0\<rparr>"

definition liq_load_pool :: "LiquidationDetector \<Rightarrow> PoolState \<Rightarrow> LiquidationDetector" where
  "liq_load_pool s pool = s\<lparr>ld_pool_cache := AList.update (ps_address pool) pool (ld_pool_cache s)\<rparr>"

definition liq_load_pools :: "LiquidationDetector \<Rightarrow> PoolState list \<Rightarrow> LiquidationDetector" where
  "liq_load_pools s pools = foldl liq_load_pool s pools"

definition resolve_pool_for_pair :: "LiquidationDetector \<Rightarrow> address \<Rightarrow> address \<Rightarrow> (address \<times> u32) option" where
  "resolve_pool_for_pair s token_a token_b =
    map_option (\<lambda>pool. (ps_address pool, ps_fee pool))
      (find (\<lambda>pool. (ps_token0 pool = token_a \<and> ps_token1 pool = token_b)
                   \<or> (ps_token0 pool = token_b \<and> ps_token1 pool = token_a))
        (map snd (ld_pool_cache s)))"

text \<open>\<^verbatim>\<open>map.entry(user).or_insert_with(Vec::new).push(pos)\<close>\<close>

definition push_position :: "(address \<times> Position list) list \<Rightarrow> Position \<Rightarrow> (address \<times> Position list) list" where
  "push_position m p =
     AList.update (po_user p) ((case map_of m (po_user p) of Some v \<Rightarrow> v | None \<Rightarrow> []) @ [p]) m"

definition update_positions :: "LiquidationDetector \<Rightarrow> Position list \<Rightarrow> LiquidationDetector" where
  "update_positions s new_positions = s\<lparr>ld_positions := foldl push_position (ld_positions s) new_positions\<rparr>"

definition prune_stale :: "LiquidationDetector \<Rightarrow> u64 \<Rightarrow> u64 \<Rightarrow> LiquidationDetector" where
  "prune_stale s now max_age_seconds =
    (let m = map (\<lambda>(u, ps). (u, filter (\<lambda>p. saturating_sub now (po_last_updated p) < max_age_seconds) ps))
               (ld_positions s)
     in s\<lparr>ld_positions := filter (\<lambda>(_, v). v \<noteq> []) m\<rparr>)"

definition tracked_positions :: "LiquidationDetector \<Rightarrow> usize" where
  "tracked_positions s = sum_list (map (\<lambda>(_, v). word_of_nat (length v)) (ld_positions s))"

section \<open>Evaluation\<close>

definition evaluate_liquidation :: "hexcrate \<Rightarrow> LiquidationDetector \<Rightarrow> Position \<Rightarrow> Opportunity option" where
  "evaluate_liquidation hx s position =
    Option.bind (checked_mul (po_debt_amount position) (close_factor (po_protocol position))) (\<lambda>v1.
    let max_repay = v1 div 10000; bonus_bps = liquidation_bonus_bps (po_protocol position) in
    Option.bind (checked_mul max_repay (10000 + bonus_bps)) (\<lambda>v2.
    let collateral_value_in_debt = v2 div 10000 in
    Option.bind
      (if po_collateral_token position = po_debt_token position then Some collateral_value_in_debt
       else case po_collateral_price_e18 position of
         Some price \<Rightarrow> if 0 < price then liq_mul_div_u128 collateral_value_in_debt 1000000000000000000 price
                       else None
       | None \<Rightarrow> None) (\<lambda>collateral_needed_native.
    if po_collateral_amount position < collateral_needed_native then None
    else
    Option.bind (checked_mul max_repay bonus_bps) (\<lambda>v3.
    let gross_profit = v3 div 10000 in
    Option.bind (checked_mul max_repay (flash_loan_fee_bps (po_protocol position))) (\<lambda>v4.
    let flash_fee = v4 div 10000;
        gas = gas_estimate (po_protocol position);
        gas_price_wei = (ucast (cfg_max_gas_gwei (ld_config s)) :: u128) * 1000000000 in
    Option.bind (checked_mul (ucast gas) gas_price_wei) (\<lambda>gas_cost.
    Option.bind (checked_mul collateral_value_in_debt 30) (\<lambda>v5.
    let swap_cost = v5 div 10000 in
    Option.bind (checked_sub gross_profit flash_fee) (\<lambda>n1.
    Option.bind (checked_sub n1 gas_cost) (\<lambda>n2.
    Option.bind (checked_sub n2 swap_cost) (\<lambda>net_profit.
    if net_profit < cfg_min_profit (ld_config s) then None
    else
    Option.bind (resolve_pool_for_pair s (po_collateral_token position) (po_debt_token position))
      (\<lambda>(pool_addr, pool_fee).
    Some \<lparr>opp_type = Liquidation, opp_token_in = hex_0x hx (to_be 20 (po_debt_token position)),
          opp_token_out = hex_0x hx (to_be 20 (po_collateral_token position)),
          opp_amount_in = max_repay, opp_expected_profit = net_profit, opp_gas_estimate = gas,
          opp_deadline = - 1, opp_path = [UniswapV3], opp_pool_addresses = [pool_addr],
          opp_pool_fees = [pool_fee], opp_target_tx = None\<rparr>)))))))))))"

section \<open>Scanning\<close>

definition all_positions :: "LiquidationDetector \<Rightarrow> Position list" where
  "all_positions s = concat (map snd (ld_positions s))"

definition liquidatable :: "hexcrate \<Rightarrow> LiquidationDetector \<Rightarrow> Position \<Rightarrow> Opportunity option" where
  "liquidatable hx s p =
     (if po_health_factor p < 1000000000000000000 then evaluate_liquidation hx s p else None)"

text \<open>\<^verbatim>\<open>sort_by(|a, b| b.expected_profit.cmp(&a.expected_profit))\<close> is a stable sort, largest
  profit first.\<close>

definition find_liquidatable :: "hexcrate \<Rightarrow> LiquidationDetector \<Rightarrow> LiquidationDetector \<times> Opportunity list" where
  "find_liquidatable hx s =
    (let opportunities = List.map_filter (liquidatable hx s) (all_positions s)
     in (s\<lparr>ld_found_count := ld_found_count s + word_of_nat (length opportunities)\<rparr>,
         sort_key (\<lambda>opp. - int (unat (opp_expected_profit opp))) opportunities))"

interpretation liq_store: keyed_store liq_load_pool "\<lambda>s. map_of (ld_pool_cache s)" ps_address "\<lambda>p. p"
  by unfold_locales (simp add: liq_load_pool_def map_of_alist_update)

section \<open>The specification of an evaluation\<close>

text \<open>The same calculation in natural numbers: what is repaid, what the protocol owes in debt units and
  in collateral units, and the net profit.\<close>

definition liq_repay :: "Position \<Rightarrow> nat" where
  "liq_repay p = unat (po_debt_amount p) * unat (close_factor (po_protocol p)) div 10000"

definition liq_value :: "Position \<Rightarrow> nat" where
  "liq_value p = liq_repay p * (10000 + unat (liquidation_bonus_bps (po_protocol p))) div 10000"

definition liq_needed :: "Position \<Rightarrow> nat option" where
  "liq_needed p =
    (if po_collateral_token p = po_debt_token p then Some (liq_value p)
     else case po_collateral_price_e18 p of
       Some price \<Rightarrow> if price = 0 then None else Some (liq_value p * 10 ^ 18 div unat price)
     | None \<Rightarrow> None)"

definition liq_gross :: "Position \<Rightarrow> nat" where
  "liq_gross p = liq_repay p * unat (liquidation_bonus_bps (po_protocol p)) div 10000"

definition liq_costs :: "Config \<Rightarrow> Position \<Rightarrow> nat" where
  "liq_costs c p = liq_repay p * unat (flash_loan_fee_bps (po_protocol p)) div 10000
     + unat (gas_estimate (po_protocol p)) * (unat (cfg_max_gas_gwei c) * 1000000000)
     + liq_value p * 30 div 10000"

definition liq_spec :: "Config \<Rightarrow> Position \<Rightarrow> nat option" where
  "liq_spec c p =
    (case liq_needed p of
       None \<Rightarrow> None
     | Some needed \<Rightarrow>
         if needed \<le> unat (po_collateral_amount p) \<and> liq_costs c p + unat (cfg_min_profit c) \<le> liq_gross p
            \<and> liq_costs c p \<le> liq_gross p
         then Some (liq_gross p - liq_costs c p) else None)"

lemma protocol_bounds:
  "unat (close_factor q) \<le> 10000" "unat (liquidation_bonus_bps q) \<le> 800" "unat (flash_loan_fee_bps q) \<le> 5"
  "unat (gas_estimate q) \<le> 500000" "unat (10000 + liquidation_bonus_bps q) = 10000 + unat (liquidation_bonus_bps q)"
  "unat (ucast (gas_estimate q) :: u128) = unat (gas_estimate q)"
  by (cases q; simp)+

lemma checked_mul_ok:
  fixes a b :: u128
  assumes "unat a * unat b < 2 ^ 128"
  shows "checked_mul a b = Some (a * b)" "unat (a * b) = unat a * unat b"
  using assms by (simp_all add: checked_mul_def unat_mult_exact)

lemma scaled_less:
  fixes a f :: nat
  assumes "a < 2 ^ 110" "f \<le> 10800"
  shows "a * f < 2 ^ 124"
proof -
  have "a * f \<le> a * 10800"
    using assms(2) by (rule mult_le_mono2)
  also have "\<dots> < 2 ^ 124"
    using assms(1) by simp
  finally show ?thesis .
qed

lemma repay_bound:
  assumes "unat (po_debt_amount p) < 2 ^ 110"
  shows "unat (po_debt_amount p) * unat (close_factor (po_protocol p)) < 2 ^ 124" "liq_repay p < 2 ^ 110"
proof -
  show "unat (po_debt_amount p) * unat (close_factor (po_protocol p)) < 2 ^ 124"
    using assms protocol_bounds(1) [of "po_protocol p"] by (intro scaled_less) simp_all
  have "unat (po_debt_amount p) * unat (close_factor (po_protocol p)) \<le> unat (po_debt_amount p) * 10000"
    by (intro mult_le_mono2 protocol_bounds)
  from div_le_mono [OF this, of 10000] have "liq_repay p \<le> unat (po_debt_amount p)"
    by (simp add: liq_repay_def)
  with assms show "liq_repay p < 2 ^ 110"
    by (rule le_less_trans [rotated])
qed

lemma value_bound:
  assumes "unat (po_debt_amount p) < 2 ^ 110"
  shows "liq_repay p * (10000 + unat (liquidation_bonus_bps (po_protocol p))) < 2 ^ 124" "liq_value p < 2 ^ 111"
proof -
  show lt: "liq_repay p * (10000 + unat (liquidation_bonus_bps (po_protocol p))) < 2 ^ 124"
    using repay_bound(2) [OF assms] protocol_bounds(2) [of "po_protocol p"] by (intro scaled_less) simp_all
  show "liq_value p < 2 ^ 111"
    unfolding liq_value_def by (rule le_less_trans [OF div_le_mono [OF less_imp_le [OF lt]]]) simp
qed

text \<open>The words of the evaluation denote these numbers.\<close>

lemma liq_words:
  assumes "unat (po_debt_amount p) < 2 ^ 110"
  defines "repay \<equiv> po_debt_amount p * close_factor (po_protocol p) div 10000"
  defines "val \<equiv> repay * (10000 + liquidation_bonus_bps (po_protocol p)) div 10000"
  shows "checked_mul (po_debt_amount p) (close_factor (po_protocol p))
      = Some (po_debt_amount p * close_factor (po_protocol p))"
    "unat repay = liq_repay p"
    "checked_mul repay (10000 + liquidation_bonus_bps (po_protocol p))
      = Some (repay * (10000 + liquidation_bonus_bps (po_protocol p)))"
    "unat val = liq_value p"
    "checked_mul repay (liquidation_bonus_bps (po_protocol p)) = Some (repay * liquidation_bonus_bps (po_protocol p))"
    "unat (repay * liquidation_bonus_bps (po_protocol p) div 10000) = liq_gross p"
    "checked_mul repay (flash_loan_fee_bps (po_protocol p)) = Some (repay * flash_loan_fee_bps (po_protocol p))"
    "unat (repay * flash_loan_fee_bps (po_protocol p) div 10000)
      = liq_repay p * unat (flash_loan_fee_bps (po_protocol p)) div 10000"
    "checked_mul val 30 = Some (val * 30)" "unat (val * 30 div 10000) = liq_value p * 30 div 10000"
proof -
  note b = repay_bound [OF assms(1)] value_bound [OF assms(1)] protocol_bounds [of "po_protocol p"]
  have c1: "unat (po_debt_amount p) * unat (close_factor (po_protocol p)) < 2 ^ 128"
    using b(1) by simp
  note 1 = checked_mul_ok [OF c1]
  show "checked_mul (po_debt_amount p) (close_factor (po_protocol p))
      = Some (po_debt_amount p * close_factor (po_protocol p))"
    by (rule 1)
  show r: "unat repay = liq_repay p"
    by (simp add: repay_def liq_repay_def unat_div 1(2))
  have c2: "unat repay * unat (10000 + liquidation_bonus_bps (po_protocol p)) < 2 ^ 128"
    using b(3) by (simp add: r b(9))
  note 2 = checked_mul_ok [OF c2]
  show "checked_mul repay (10000 + liquidation_bonus_bps (po_protocol p))
      = Some (repay * (10000 + liquidation_bonus_bps (po_protocol p)))"
    by (rule 2)
  show v: "unat val = liq_value p"
    by (simp only: val_def liq_value_def unat_div 2(2) r b(9)) simp
  have c3: "unat repay * unat (liquidation_bonus_bps (po_protocol p)) < 2 ^ 128"
    "unat repay * unat (flash_loan_fee_bps (po_protocol p)) < 2 ^ 128"
    unfolding r using b(6,7) by (intro less_trans [OF scaled_less [OF b(2)]]; simp)+
  note 3 = checked_mul_ok [OF c3(1)] checked_mul_ok [OF c3(2)]
  show "checked_mul repay (liquidation_bonus_bps (po_protocol p)) = Some (repay * liquidation_bonus_bps (po_protocol p))"
    "checked_mul repay (flash_loan_fee_bps (po_protocol p)) = Some (repay * flash_loan_fee_bps (po_protocol p))"
    by (rule 3)+
  show "unat (repay * liquidation_bonus_bps (po_protocol p) div 10000) = liq_gross p"
    "unat (repay * flash_loan_fee_bps (po_protocol p) div 10000)
      = liq_repay p * unat (flash_loan_fee_bps (po_protocol p)) div 10000"
    by (simp_all add: unat_div 3(2,4) r liq_gross_def)
  have c4: "unat val * unat (30 :: u128) < 2 ^ 128"
    using b(4) by (simp add: v)
  note 4 = checked_mul_ok [OF c4]
  show "checked_mul val 30 = Some (val * 30)" "unat (val * 30 div 10000) = liq_value p * 30 div 10000"
    using 4 by (simp_all add: unat_div v)
qed

lemma liq_gas_word:
  "checked_mul (ucast (gas_estimate q)) ((ucast (cfg_max_gas_gwei c) :: u128) * 1000000000)
    = Some (ucast (gas_estimate q) * ((ucast (cfg_max_gas_gwei c) :: u128) * 1000000000))"
  "unat (ucast (gas_estimate q) * ((ucast (cfg_max_gas_gwei c) :: u128) * 1000000000))
    = unat (gas_estimate q) * (unat (cfg_max_gas_gwei c) * 1000000000)"
proof -
  have g: "unat (cfg_max_gas_gwei c) < 2 ^ 64"
    using unat_bound [of "cfg_max_gas_gwei c"] by simp
  then have "unat (of_nat (unat (cfg_max_gas_gwei c) * 1000000000) :: u128) = unat (cfg_max_gas_gwei c) * 1000000000"
    by (intro unat_word_of_nat_small) simp
  then have w: "unat ((ucast (cfg_max_gas_gwei c) :: u128) * 1000000000) = unat (cfg_max_gas_gwei c) * 1000000000"
    by simp
  have "unat (gas_estimate q) * (unat (cfg_max_gas_gwei c) * 1000000000) \<le> 500000 * (2 ^ 64 * 1000000000)"
    using g by (intro mult_le_mono protocol_bounds) simp_all
  then have "unat (ucast (gas_estimate q) :: u128) * unat ((ucast (cfg_max_gas_gwei c) :: u128) * 1000000000) < 2 ^ 128"
    unfolding w protocol_bounds(6) by (rule le_less_trans) simp
  from checked_mul_ok [OF this]
  show "checked_mul (ucast (gas_estimate q)) ((ucast (cfg_max_gas_gwei c) :: u128) * 1000000000)
      = Some (ucast (gas_estimate q) * ((ucast (cfg_max_gas_gwei c) :: u128) * 1000000000))"
    "unat (ucast (gas_estimate q) * ((ucast (cfg_max_gas_gwei c) :: u128) * 1000000000))
      = unat (gas_estimate q) * (unat (cfg_max_gas_gwei c) * 1000000000)"
    by (simp_all only: w protocol_bounds(6))
qed

text \<open>The collateral the liquidator needs, computed with 256-bit precision.\<close>

lemma liq_needed_word:
  assumes "unat v = liq_value p" "\<forall>price. po_collateral_price_e18 p = Some price \<longrightarrow> unat price \<le> 2 ^ 127"
  shows "(if po_collateral_token p = po_debt_token p then Some v
       else case po_collateral_price_e18 p of
         Some price \<Rightarrow> if 0 < price then liq_mul_div_u128 v 1000000000000000000 price else None
       | None \<Rightarrow> None)
    = (case liq_needed p of None \<Rightarrow> None | Some n \<Rightarrow> if n < 2 ^ 128 then Some (word_of_nat n) else None)"
proof -
  have "v = word_of_nat (liq_value p)"
    by (simp flip: assms(1))
  moreover have "liq_value p < 2 ^ 128"
    using assms(1) unat_bound [of v] by simp
  moreover have "liq_mul_div_u128 v 1000000000000000000 price =
      (if liq_value p * 10 ^ 18 div unat price < 2 ^ 128
       then Some (word_of_nat (liq_value p * 10 ^ 18 div unat price)) else None)"
    if "price \<noteq> 0" "unat price \<le> 2 ^ 127" for price
    using that by (simp add: liq_mul_div_u128_value assms(1) not_less)
  ultimately show ?thesis
    using assms(2) by (auto simp: liq_needed_def word_gt_0 split: option.splits)
qed

text \<open>Three checked subtractions are one subtraction of the sum.\<close>

lemma checked_sub3:
  fixes g f w c :: u128
  shows "Option.bind (checked_sub g f) (\<lambda>n1. Option.bind (checked_sub n1 w) (\<lambda>n2.
      Option.bind (checked_sub n2 c) k))
    = (if unat f + unat w + unat c \<le> unat g then k (g - f - w - c) else None)"
  by (auto simp: checked_sub_def word_le_nat_alt unat_sub)

lemma unat_sub3:
  fixes g f w c :: u128
  assumes "unat f + unat w + unat c \<le> unat g"
  shows "unat (g - f - w - c) = unat g - (unat f + unat w + unat c)"
proof -
  have 1: "unat (g - f) = unat g - unat f"
    using assms by (intro unat_sub_exact) (simp add: word_le_nat_alt)
  have 2: "unat (g - f - w) = unat g - unat f - unat w"
    using assms by (subst unat_sub_exact) (simp_all add: word_le_nat_alt 1)
  show ?thesis
    using assms by (subst unat_sub_exact) (simp_all add: word_le_nat_alt 2)
qed

lemma evaluate_liquidation_value:
  assumes debt: "unat (po_debt_amount p) < 2 ^ 110"
    and price: "\<forall>price. po_collateral_price_e18 p = Some price \<longrightarrow> unat price \<le> 2 ^ 127"
  shows "map_option (\<lambda>opp. (unat (opp_amount_in opp), unat (opp_expected_profit opp)))
      (evaluate_liquidation hx s p) =
    (case resolve_pool_for_pair s (po_collateral_token p) (po_debt_token p) of
       None \<Rightarrow> None
     | Some _ \<Rightarrow> map_option (\<lambda>n. (liq_repay p, n)) (liq_spec (ld_config s) p))"
proof -
  let ?q = "po_protocol p"
  define repay where "repay = po_debt_amount p * close_factor ?q div 10000"
  define val where "val = repay * (10000 + liquidation_bonus_bps ?q) div 10000"
  note w = liq_words [OF debt, folded repay_def, folded val_def]
  define f where "f = repay * flash_loan_fee_bps ?q div 10000"
  define g where "g = repay * liquidation_bonus_bps ?q div 10000"
  define gas where "gas = (ucast (gas_estimate ?q) :: u128) * ((ucast (cfg_max_gas_gwei (ld_config s)) :: u128) * 1000000000)"
  define sw where "sw = val * 30 div 10000"
  have costs: "unat f + unat gas + unat sw = liq_costs (ld_config s) p" "unat g = liq_gross p"
    by (simp_all add: f_def g_def gas_def sw_def liq_costs_def w liq_gas_word)
  have le: "unat f + unat gas + unat sw \<le> unat g \<longleftrightarrow> liq_costs (ld_config s) p \<le> liq_gross p"
    by (simp only: costs)
  have net: "unat (g - f - gas - sw) = liq_gross p - liq_costs (ld_config s) p"
    if "liq_costs (ld_config s) p \<le> liq_gross p"
    using that unat_sub3 [of f gas sw g] by (simp only: costs)
  have small: "po_collateral_amount p < word_of_nat n \<longleftrightarrow> unat (po_collateral_amount p) < n" if "n < 2 ^ 128" for n
    using that by (simp add: word_less_nat_alt unat_word_of_nat_small)
  have big: "\<not> n \<le> unat (po_collateral_amount p)" if "\<not> n < 2 ^ 128" for n
    using that unat_bound [of "po_collateral_amount p"] by simp
  have e: "evaluate_liquidation hx s p =
    Option.bind (case liq_needed p of None \<Rightarrow> None | Some n \<Rightarrow> if n < 2 ^ 128 then Some (word_of_nat n) else None)
      (\<lambda>needed. if po_collateral_amount p < needed then None
        else if unat f + unat gas + unat sw \<le> unat g
          then if g - f - gas - sw < cfg_min_profit (ld_config s) then None
            else Option.bind (resolve_pool_for_pair s (po_collateral_token p) (po_debt_token p))
              (\<lambda>(pool_addr, pool_fee). Some \<lparr>opp_type = Liquidation,
                  opp_token_in = hex_0x hx (to_be 20 (po_debt_token p)),
                  opp_token_out = hex_0x hx (to_be 20 (po_collateral_token p)),
                  opp_amount_in = repay, opp_expected_profit = g - f - gas - sw,
                  opp_gas_estimate = gas_estimate ?q, opp_deadline = - 1, opp_path = [UniswapV3],
                  opp_pool_addresses = [pool_addr], opp_pool_fees = [pool_fee], opp_target_tx = None\<rparr>)
          else None)"
    unfolding evaluate_liquidation_def Let_def
    by (simp only: w liq_gas_word Option.bind.bind_lunit checked_sub3 liq_needed_word [OF w(4) price]
        repay_def [symmetric] val_def [symmetric] f_def [symmetric] g_def [symmetric] gas_def [symmetric]
        sw_def [symmetric])
  show ?thesis
  proof (cases "liq_needed p")
    case None
    then show ?thesis by (simp add: e liq_spec_def split: option.split)
  next
    case (Some n)
    then show ?thesis
      unfolding e liq_spec_def le using small [of n] big [of n] net
      by (auto simp: word_less_nat_alt w(2) split: option.splits)
  qed
qed

text \<open>C8: the evaluation refines its specification. For debts below \<open>2^110\<close> and prices up to \<open>2^127\<close>, an
  opportunity is produced exactly when a pool for the pair is cached and the specification over
  the natural numbers gives a profit: the collateral owed (converted at the price when the tokens
  differ) does not exceed what the position holds, and the bonus covers the flash-loan fee, the
  gas, the swap cost and the minimum profit. The amount is the repayable share of the debt and the
  profit is the exact difference; no intermediate value wraps or is dropped.\<close>

theorem evaluate_liquidation_refines:
  assumes "unat (po_debt_amount p) < 2 ^ 110"
    and "\<forall>price. po_collateral_price_e18 p = Some price \<longrightarrow> unat price \<le> 2 ^ 127"
  shows "map_option (\<lambda>opp. (unat (opp_amount_in opp), unat (opp_expected_profit opp)))
      (evaluate_liquidation hx s p) =
    (case resolve_pool_for_pair s (po_collateral_token p) (po_debt_token p) of
       None \<Rightarrow> None
     | Some _ \<Rightarrow> map_option (\<lambda>n. (liq_repay p, n)) (liq_spec (ld_config s) p))"
  using assms by (rule evaluate_liquidation_value)

definition sample_position :: "u128 \<Rightarrow> Position" where
  "sample_position health = \<lparr>po_user = 77, po_protocol = AaveV3, po_collateral_token = 3,
     po_collateral_amount = 600000000000000000000, po_debt_token = 4, po_debt_amount = 1000000000000000000000,
     po_health_factor = health, po_last_updated = 100, po_collateral_price_e18 = Some 2000000000000000000\<rparr>"

definition sample_liquidator :: LiquidationDetector where
  "sample_liquidator = liq_load_pools (liquidation_new (Config_default 8)) [v2_pool 11 3 4 1000 1000 3000]"

lemma sample_liquidator_simps:
  "ld_config sample_liquidator = Config_default 8" "ld_positions sample_liquidator = []"
  "resolve_pool_for_pair sample_liquidator 3 4 = Some (11, 3000)" "ld_found_count sample_liquidator = 0"
  by (simp_all add: sample_liquidator_def liq_load_pools_def liq_load_pool_def liquidation_new_def
      resolve_pool_for_pair_def v2_pool_def)

theorem evaluate_liquidation_refines_witness:
  "map_option (\<lambda>opp. (unat (opp_amount_in opp), unat (opp_expected_profit opp)))
      (evaluate_liquidation hex_std sample_liquidator (sample_position 900000000000000000))
    = Some (500000000000000000000, 23130000000000000000)"
  using evaluate_liquidation_refines [of "sample_position 900000000000000000" hex_std sample_liquidator]
  by (simp add: sample_liquidator_simps sample_position_def liq_spec_def liq_needed_def liq_costs_def
      liq_gross_def liq_value_def liq_repay_def Config_default_def)

section \<open>The scan\<close>


text \<open>Bookkeeping of the position map.\<close>

lemma concat_update:
  assumes "distinct (map fst m)"
  shows "mset (concat (map snd (AList.update k ((case map_of m k of Some v \<Rightarrow> v | None \<Rightarrow> []) @ [p]) m)))
    = add_mset p (mset (concat (map snd m)))"
  using assms
proof (induction m)
  case (Cons e m)
  obtain k' v where e: "e = (k', v)" by (cases e)
  show ?case
    using Cons by (cases "k' = k") (auto simp: e)
qed simp

lemma push_position_distinct: "distinct (map fst m) \<Longrightarrow> distinct (map fst (push_position m p))"
  by (simp add: push_position_def distinct_update)

lemma push_positions_mset:
  "distinct (map fst m) \<Longrightarrow> distinct (map fst (foldl push_position m ps))
    \<and> mset (concat (map snd (foldl push_position m ps))) = mset (concat (map snd m)) + mset ps"
proof (induction ps arbitrary: m)
  case (Cons p ps)
  then show ?case
    using Cons.IH [OF push_position_distinct [OF Cons.prems, of p]] concat_update [OF Cons.prems, of "po_user p" p]
    by (simp add: push_position_def)
qed simp

text \<open>The map never holds two entries for a user.\<close>

inductive liq_reachable :: "LiquidationDetector \<Rightarrow> bool" where
  init: "liq_reachable (liquidation_new config)"
| load: "liq_reachable s \<Longrightarrow> liq_reachable (liq_load_pools s pools)"
| update: "liq_reachable s \<Longrightarrow> liq_reachable (update_positions s ps)"
| prune: "liq_reachable s \<Longrightarrow> liq_reachable (prune_stale s now max_age)"
| find: "liq_reachable s \<Longrightarrow> liq_reachable (fst (find_liquidatable hx s))"

lemma liq_load_pools_frame: "ld_positions (liq_load_pools s pools) = ld_positions s"
  unfolding liq_load_pools_def by (induction pools arbitrary: s) (simp_all add: liq_load_pool_def)

lemma reachable_distinct: "liq_reachable s \<Longrightarrow> distinct (map fst (ld_positions s))"
proof (induction rule: liq_reachable.induct)
  case (prune s now max_age)
  let ?m = "map (\<lambda>(u, ps). (u, filter (\<lambda>p. saturating_sub now (po_last_updated p) < max_age) ps)) (ld_positions s)"
  have "map fst ?m = map fst (ld_positions s)"
    by (auto simp: split_beta)
  with prune have "distinct (map fst ?m)"
    by (simp only:)
  then show ?case
    by (simp add: prune_stale_def Let_def distinct_map_filter)
qed (simp_all add: liquidation_new_def liq_load_pools_frame update_positions_def push_positions_mset
    find_liquidatable_def Let_def)

text \<open>Pruning removes exactly the stale positions. What remains, in order, is the positions younger than
  the limit (a position dated in the future counts as new), and no user is left with an empty
  list.\<close>

theorem prune_stale_correct:
  "all_positions (prune_stale s now max_age)
     = filter (\<lambda>p. unat now - unat (po_last_updated p) < unat max_age) (all_positions s)
   \<and> (\<forall>e \<in> set (ld_positions (prune_stale s now max_age)). snd e \<noteq> [])"
proof -
  have c: "concat (map snd (filter (\<lambda>(_, v). v \<noteq> []) (map (\<lambda>(u, ps). (u, filter P ps)) m)))
      = filter P (concat (map snd m))" for P and m :: "(address \<times> Position list) list"
    by (induction m) auto
  have e: "(saturating_sub now (po_last_updated p) < max_age)
      = (unat now - unat (po_last_updated p) < unat max_age)" for p
    by (simp add: word_less_nat_alt unat_saturating_sub)
  have "all_positions (prune_stale s now max_age)
      = filter (\<lambda>p. unat now - unat (po_last_updated p) < unat max_age) (all_positions s)"
    unfolding all_positions_def prune_stale_def Let_def e by (simp add: c)
  then show ?thesis
    by (auto simp: prune_stale_def Let_def)
qed

theorem prune_stale_correct_witness:
  "all_positions (prune_stale (update_positions sample_liquidator [sample_position 5, (sample_position 7)\<lparr>po_last_updated := 10\<rparr>]) 120 60)
    = [sample_position 5]"
proof -
  have "all_positions (update_positions sample_liquidator [sample_position 5, (sample_position 7)\<lparr>po_last_updated := 10\<rparr>])
      = [sample_position 5, (sample_position 7)\<lparr>po_last_updated := 10\<rparr>]"
    by (simp add: all_positions_def update_positions_def push_position_def sample_liquidator_simps sample_position_def)
  then show ?thesis
    using prune_stale_correct [of "update_positions sample_liquidator
        [sample_position 5, (sample_position 7)\<lparr>po_last_updated := 10\<rparr>]" 120 60]
    by (simp add: sample_position_def)
qed

lemma liquidatable_update: "liquidatable hx (update_positions s ps) = liquidatable hx s"
proof -
  have r: "resolve_pool_for_pair (update_positions s ps) = resolve_pool_for_pair s"
    "ld_config (update_positions s ps) = ld_config s"
    by (simp_all add: fun_eq_iff resolve_pool_for_pair_def update_positions_def)
  have "evaluate_liquidation hx (update_positions s ps) = evaluate_liquidation hx s"
    by (rule ext) (simp only: evaluate_liquidation_def r)
  then show ?thesis
    by (simp add: fun_eq_iff liquidatable_def)
qed

text \<open>An update never replaces a position. In every reachable state, the opportunities found after an
  update are those found before it together with those of the new positions: a position that was
  liquidatable stays in the scan although a newer record of the same user says it has recovered.\<close>

theorem update_positions_keeps_old:
  assumes "liq_reachable s"
  shows "mset (snd (find_liquidatable hx (update_positions s ps)))
    = mset (snd (find_liquidatable hx s)) + mset (List.map_filter (liquidatable hx s) ps)"
proof -
  have "mset (all_positions (update_positions s ps)) = mset (all_positions s @ ps)"
    using push_positions_mset [OF reachable_distinct [OF assms], of ps]
    by (simp add: all_positions_def update_positions_def)
  then have "mset (List.map_filter (liquidatable hx s) (all_positions (update_positions s ps)))
      = mset (List.map_filter (liquidatable hx s) (all_positions s @ ps))"
    by (simp add: map_filter_def mset_filter)
  then show ?thesis
    by (simp add: find_liquidatable_def Let_def liquidatable_update map_filter_def)
qed

theorem update_positions_keeps_old_witness:
  "liq_reachable (update_positions sample_liquidator [sample_position 900000000000000000])
   \<and> size (mset (snd (find_liquidatable hex_std (update_positions
       (update_positions sample_liquidator [sample_position 900000000000000000])
       [sample_position 2000000000000000000])))) = 1"
proof -
  let ?old = "sample_position 900000000000000000" and ?new = "sample_position 2000000000000000000"
  have r0: "liq_reachable sample_liquidator"
    unfolding sample_liquidator_def by (intro liq_reachable.intros)
  then have r: "liq_reachable (update_positions sample_liquidator [?old])"
    by (rule liq_reachable.update)
  have "evaluate_liquidation hex_std sample_liquidator ?old \<noteq> None"
    using evaluate_liquidation_value [of ?old hex_std sample_liquidator]
    by (auto simp: sample_liquidator_simps sample_position_def liq_spec_def liq_needed_def liq_costs_def
        liq_gross_def liq_value_def liq_repay_def Config_default_def)
  then obtain opp where e: "liquidatable hex_std sample_liquidator ?old = Some opp"
    by (auto simp: liquidatable_def sample_position_def)
  have n: "liquidatable hex_std sample_liquidator ?new = None"
    by (simp add: liquidatable_def sample_position_def)
  have a: "all_positions (update_positions sample_liquidator [?old]) = [?old]"
    by (simp add: all_positions_def update_positions_def push_position_def sample_liquidator_simps)
  have "mset (snd (find_liquidatable hex_std (update_positions sample_liquidator [?old]))) = {#opp#}"
    by (simp add: find_liquidatable_def Let_def a liquidatable_update e List.map_filter_simps)
  with update_positions_keeps_old [OF r, of hex_std "[?new]"] r show ?thesis
    by (simp add: liquidatable_update n List.map_filter_simps del: mset_map)
qed


end
