(* ===== verification/Opportunity_Detector.thy ===== *)
theory Opportunity_Detector
  imports Arbitrage_Detector Backrun_Detector Liquidation_Detector
begin

text \<open>
  The detector front end (\<^verbatim>\<open>OpportunityDetector\<close> of \<^verbatim>\<open>core/src/detector/mod.rs\<close>): one
  pending transaction is given to the enabled strategies in the order arbitrage, backrun,
  liquidation.
\<close>

section \<open>State and operations\<close>

record OpportunityDetector =
  od_config :: Config
  od_arbitrage :: ArbitrageDetector
  od_backrun :: BackrunDetector
  od_liquidation :: LiquidationDetector
  od_count :: u64

definition detector_new :: "Config \<Rightarrow> OpportunityDetector" where
  "detector_new config =
    \<lparr>od_config = config, od_arbitrage = arbitrage_new config, od_backrun = backrun_new config,
     od_liquidation = liquidation_new config, od_count = 0\<rparr>"

definition enabled :: "OpportunityDetector \<Rightarrow> string \<Rightarrow> bool" where
  "enabled s name = list_ex (\<lambda>x. x = name) (st_enabled_strategies (cf_strategy (od_config s)))"

definition option_list :: "'a option \<Rightarrow> 'a list" where
  "option_list x = (case x of Some a \<Rightarrow> [a] | None \<Rightarrow> [])"

definition process_tx ::
  "hexcrate \<Rightarrow> OpportunityDetector \<Rightarrow> PendingTx \<Rightarrow> (OpportunityDetector \<times> Opportunity list) exec" where
  "process_tx hx s tx =
    bindE (if enabled s ''arbitrage'' then arb_detect hx (od_arbitrage s) tx else Inr None) (\<lambda>arb.
    bindE (if enabled s ''backrun'' then backrun_detect hx (od_backrun s) tx else Inr None) (\<lambda>bkr.
    let (liquidation, liqs) =
          (if enabled s ''liquidation'' then find_liquidatable hx (od_liquidation s)
           else (od_liquidation s, []));
        opportunities = option_list arb @ option_list bkr @ liqs
    in Inr (s\<lparr>od_liquidation := liquidation, od_count := od_count s + word_of_nat (length opportunities)\<rparr>,
            opportunities)))"

section \<open>Where opportunities come from\<close>

lemma set_option_list [simp]: "x \<in> set (option_list m) \<longleftrightarrow> m = Some x"
  by (cases m) (auto simp: option_list_def)

lemma set_find_liquidatable:
  "opp \<in> set (snd (find_liquidatable hx s)) \<Longrightarrow>
    \<exists>p \<in> set (all_positions s). po_health_factor p < 10 ^ 18 \<and> evaluate_liquidation hx s p = Some opp"
  by (auto simp: find_liquidatable_def Let_def map_filter_def liquidatable_def split: if_splits)

lemma process_tx_InrD:
  assumes "process_tx hx s tx = Inr (s', opps)"
  obtains arb bkr liq liqs where
    "(if enabled s ''arbitrage'' then arb_detect hx (od_arbitrage s) tx else Inr None) = Inr arb"
    "(if enabled s ''backrun'' then backrun_detect hx (od_backrun s) tx else Inr None) = Inr bkr"
    "(if enabled s ''liquidation'' then find_liquidatable hx (od_liquidation s)
      else (od_liquidation s, [])) = (liq, liqs)"
    "opps = option_list arb @ option_list bkr @ liqs"
    "s' = s\<lparr>od_liquidation := liq, od_count := od_count s + word_of_nat (length opps)\<rparr>"
proof -
  obtain liq liqs where l: "(if enabled s ''liquidation'' then find_liquidatable hx (od_liquidation s)
      else (od_liquidation s, [])) = (liq, liqs)"
    by fastforce
  from assms show thesis
    unfolding process_tx_def bindE_eq_Inr_iff Let_def l prod.case by (auto intro!: that l)
qed

lemma process_tx_cases:
  assumes "process_tx hx s tx = Inr (s', opps)" "opp \<in> set opps"
  shows "(enabled s ''arbitrage'' \<and> arb_detect hx (od_arbitrage s) tx = Inr (Some opp))
    \<or> (enabled s ''backrun'' \<and> backrun_detect hx (od_backrun s) tx = Inr (Some opp))
    \<or> (enabled s ''liquidation'' \<and> (\<exists>p \<in> set (all_positions (od_liquidation s)).
         po_health_factor p < 10 ^ 18 \<and> evaluate_liquidation hx (od_liquidation s) p = Some opp))"
proof -
  obtain arb bkr liq liqs where
    a: "(if enabled s ''arbitrage'' then arb_detect hx (od_arbitrage s) tx else Inr None) = Inr arb"
    and b: "(if enabled s ''backrun'' then backrun_detect hx (od_backrun s) tx else Inr None) = Inr bkr"
    and l: "(if enabled s ''liquidation'' then find_liquidatable hx (od_liquidation s)
      else (od_liquidation s, [])) = (liq, liqs)"
    and o: "opps = option_list arb @ option_list bkr @ liqs"
    by (rule process_tx_InrD [OF assms(1)])
  from assms(2) consider "arb = Some opp" | "bkr = Some opp" | "opp \<in> set liqs"
    by (auto simp: o)
  then show ?thesis
  proof cases
    case 1 with a show ?thesis by (simp split: if_splits)
  next
    case 2 with b show ?thesis by (simp split: if_splits)
  next
    case 3
    with l have "enabled s ''liquidation''" "opp \<in> set (snd (find_liquidatable hx (od_liquidation s)))"
      by (auto split: if_splits)
    then show ?thesis
      using set_find_liquidatable by blast
  qed
qed

text \<open>Provenance. Every opportunity that \<open>process_tx\<close> returns was produced by a strategy that the
  configuration enables: the arbitrage or the backrun detector on this transaction, or the
  evaluation of a tracked position with a health factor below one. The counter grows by the number
  of opportunities returned.\<close>

theorem process_tx_provenance:
  assumes "process_tx hx s tx = Inr (s', opps)" "opp \<in> set opps"
  shows "(enabled s ''arbitrage'' \<and> arb_detect hx (od_arbitrage s) tx = Inr (Some opp))
    \<or> (enabled s ''backrun'' \<and> backrun_detect hx (od_backrun s) tx = Inr (Some opp))
    \<or> (enabled s ''liquidation'' \<and> (\<exists>p \<in> set (all_positions (od_liquidation s)).
         po_health_factor p < 10 ^ 18 \<and> evaluate_liquidation hx (od_liquidation s) p = Some opp))"
  using assms by (rule process_tx_cases)

lemma process_sample:
  "\<exists>s' opp. process_tx hex_std (detector_new (Config_default 8)) backrun_sample_tx = Inr (s', [opp])
    \<and> arb_detect hex_std (arbitrage_new (Config_default 8)) backrun_sample_tx = Inr None"
proof -
  let ?s = "detector_new (Config_default 8)"
  have e: "enabled ?s ''arbitrage''" "enabled ?s ''backrun''" "\<not> enabled ?s ''liquidation''"
    by (simp_all add: enabled_def detector_new_def Config_default_def)
  have d: "od_arbitrage ?s = arbitrage_new (Config_default 8)" "od_backrun ?s = backrun_new (Config_default 8)"
    by (simp_all add: detector_new_def)
  have a: "arb_detect hex_std (arbitrage_new (Config_default 8)) backrun_sample_tx = Inr None"
    by (simp add: arb_detect_def parse_swap_def parse_v2_eth_swap_def backrun_sample_tx_def sample_tx_with_def)
  obtain opp where "backrun_detect hex_std (backrun_new (Config_default 8)) backrun_sample_tx = Inr (Some opp)"
    using backrun_sample by blast
  with a show ?thesis
    by (simp add: process_tx_def e d option_list_def)
qed

theorem process_tx_provenance_witness:
  "\<exists>s' opp. process_tx hex_std (detector_new (Config_default 8)) backrun_sample_tx = Inr (s', [opp])
    \<and> backrun_detect hex_std (backrun_new (Config_default 8)) backrun_sample_tx = Inr (Some opp)"
proof -
  obtain s' opp where p: "process_tx hex_std (detector_new (Config_default 8)) backrun_sample_tx = Inr (s', [opp])"
    and a: "arb_detect hex_std (arbitrage_new (Config_default 8)) backrun_sample_tx = Inr None"
    using process_sample by blast
  have "\<not> enabled (detector_new (Config_default 8)) ''liquidation''"
    by (simp add: enabled_def detector_new_def Config_default_def)
  then show ?thesis
    using process_tx_provenance [OF p, of opp] p a by (simp add: detector_new_def)
qed

section \<open>The detector as it is wired\<close>

text \<open>The fields of the front end are private and it has no operation that loads pools or positions: a
  state is reached by \<open>new\<close> and calls of \<open>process_tx\<close> only.\<close>

inductive detector_reachable :: "hexcrate \<Rightarrow> Config \<Rightarrow> OpportunityDetector \<Rightarrow> bool"
  for hx :: hexcrate and config :: Config where
  init: "detector_reachable hx config (detector_new config)"
| step: "detector_reachable hx config s \<Longrightarrow> process_tx hx s tx = Inr (s', opps) \<Longrightarrow> detector_reachable hx config s'"

inductive_cases detector_reachableE: "detector_reachable hx config s"

lemma process_tx_frame:
  assumes "process_tx hx s tx = Inr (s', opps)"
  shows "od_config s' = od_config s" "od_arbitrage s' = od_arbitrage s" "od_backrun s' = od_backrun s"
    "ld_positions (od_liquidation s') = ld_positions (od_liquidation s)"
    "od_count s' = od_count s + of_nat (length opps)"
  by (rule process_tx_InrD [OF assms], auto simp: find_liquidatable_def Let_def split: if_splits)+

lemma detector_reachable_empty:
  "detector_reachable hx config s \<Longrightarrow> od_arbitrage s = arbitrage_new config
    \<and> od_backrun s = backrun_new config \<and> ld_positions (od_liquidation s) = []"
proof (induction rule: detector_reachable.induct)
  case init
  show ?case by (simp add: detector_new_def liquidation_new_def)
next
  case (step s tx s' opps)
  then show ?case by (simp add: process_tx_frame)
qed

lemma only_backruns:
  assumes "detector_reachable hx config s" "process_tx hx s tx = Inr (s', opps)" "opp \<in> set opps"
  shows "opp_type opp = Backrun \<and> backrun_detect hx (backrun_new config) tx = Inr (Some opp)"
proof -
  note r = detector_reachable_empty [OF assms(1)]
  have "arb_detect hx (od_arbitrage s) tx \<noteq> Inr (Some opp)"
    using r by (intro arb_detect_empty_cache) (simp add: arbitrage_new_def)
  moreover have "all_positions (od_liquidation s) = []"
    using r by (simp add: all_positions_def)
  ultimately have "backrun_detect hx (backrun_new config) tx = Inr (Some opp)"
    using process_tx_cases [OF assms(2,3)] r by auto
  moreover from this have "opp_type opp = Backrun"
    by (rule backrun_detect_SomeD)
  ultimately show ?thesis by simp
qed

text \<open>As wired, the detector only ever finds backruns. In every state that the front end can reach, each
  opportunity it returns is a backrun produced from the transaction: the pool cache of the
  arbitrage detector and the positions of the liquidation detector stay empty, because nothing in
  the program fills them.\<close>

theorem process_tx_only_backruns:
  assumes "detector_reachable hx config s" "process_tx hx s tx = Inr (s', opps)" "opp \<in> set opps"
  shows "opp_type opp = Backrun \<and> backrun_detect hx (backrun_new config) tx = Inr (Some opp)"
  using assms by (rule only_backruns)

theorem process_tx_only_backruns_witness:
  "\<exists>s' opp. detector_reachable hex_std (Config_default 8) (detector_new (Config_default 8))
    \<and> process_tx hex_std (detector_new (Config_default 8)) backrun_sample_tx = Inr (s', [opp])
    \<and> opp_type opp = Backrun"
proof -
  obtain s' opp where p: "process_tx hex_std (detector_new (Config_default 8)) backrun_sample_tx = Inr (s', [opp])"
    using process_sample by blast
  have r: "detector_reachable hex_std (Config_default 8) (detector_new (Config_default 8))"
    by (rule detector_reachable.init)
  with p process_tx_only_backruns [OF r p, of opp] show ?thesis
    by auto
qed

end
