(* ===== verification/Bundle_Builder.thy ===== *)
theory Bundle_Builder
  imports Mev_Config
begin

text \<open>
  The bundle builder (\<^verbatim>\<open>core/src/builder/mod.rs\<close>): validation of a swap opportunity, the packed
  swap path, the ABI calldata of the three executor calls, and \<^verbatim>\<open>build\<close> with its counter.
\<close>

section \<open>Constants and state\<close>

definition EXECUTE_ARBITRAGE :: bytes where
  "EXECUTE_ARBITRAGE = [0xa0, 0x71, 0x2d, 0x68]"

definition EXECUTE_BACKRUN :: bytes where
  "EXECUTE_BACKRUN = [0x5a, 0xf0, 0x6f, 0xed]"

definition EXECUTE_LIQUIDATION :: bytes where
  "EXECUTE_LIQUIDATION = [0xd4, 0xe8, 0xbe, 0x83]"

fun dex_byte :: "DexType \<Rightarrow> u8" where
  "dex_byte UniswapV2 = 1"
| "dex_byte UniswapV3 = 2"
| "dex_byte SushiSwap = 3"
| "dex_byte Curve = 4"
| "dex_byte Balancer = 5"

record BundleBuilder =
  bb_config :: Config
  bb_count :: u64
  bb_contract_address :: "string option"

definition builder_new :: "Config \<Rightarrow> BundleBuilder" where
  "builder_new config = \<lparr>bb_config = config, bb_count = 0, bb_contract_address = None\<rparr>"

definition set_contract :: "BundleBuilder \<Rightarrow> string \<Rightarrow> BundleBuilder" where
  "set_contract s addr = s\<lparr>bb_contract_address := Some addr\<rparr>"

text \<open>The errors of the builder, one per \<^verbatim>\<open>anyhow!\<close> of the code, with their arguments.\<close>

datatype build_error =
    ContractNotSet
  | EmptyPath
  | AddressCountMismatch nat nat
  | FeeCountMismatch nat nat
  | PoolNotResolved nat DexType
  | InvalidFee u32 nat DexType

section \<open>Validation\<close>

fun default_fee_for_dex :: "DexType \<Rightarrow> u32" where
  "default_fee_for_dex UniswapV2 = 3000"
| "default_fee_for_dex UniswapV3 = 500"
| "default_fee_for_dex SushiSwap = 3000"
| "default_fee_for_dex Curve = 4"
| "default_fee_for_dex Balancer = 0"

fun is_valid_fee_for_dex :: "DexType \<Rightarrow> u32 \<Rightarrow> bool" where
  "is_valid_fee_for_dex UniswapV2 fee = (fee = 3000)"
| "is_valid_fee_for_dex SushiSwap fee = (fee = 3000)"
| "is_valid_fee_for_dex UniswapV3 fee = (fee \<in> {100, 500, 3000, 10000})"
| "is_valid_fee_for_dex Curve fee = (1 \<le> fee \<and> fee \<le> 10000)"
| "is_valid_fee_for_dex Balancer fee = (fee \<le> 10000)"

text \<open>\<^verbatim>\<open>pool_fees.get(i).copied().unwrap_or(default_fee_for_dex(dex))\<close>\<close>

definition path_fee :: "Opportunity \<Rightarrow> nat \<Rightarrow> DexType \<Rightarrow> u32" where
  "path_fee opp i dex =
     (if i < length (opp_pool_fees opp) then opp_pool_fees opp ! i else default_fee_for_dex dex)"

text \<open>The loop over the hops, from hop \<open>i\<close>. The length checks before it make every index valid.\<close>

fun validate_hops :: "Opportunity \<Rightarrow> nat \<Rightarrow> DexType list \<Rightarrow> build_error + unit" where
  "validate_hops opp i [] = Inr ()"
| "validate_hops opp i (dex # path) =
    (if opp_pool_addresses opp ! i = 0 then Inl (PoolNotResolved i dex)
     else if \<not> is_valid_fee_for_dex dex (path_fee opp i dex) then Inl (InvalidFee (path_fee opp i dex) i dex)
     else validate_hops opp (Suc i) path)"

definition validate_swap_opportunity :: "Opportunity \<Rightarrow> build_error + unit" where
  "validate_swap_opportunity opp =
    (let path = opp_path opp; pool_addresses = opp_pool_addresses opp; pool_fees = opp_pool_fees opp
     in if path = [] then Inl EmptyPath
        else if length pool_addresses \<noteq> length path
          then Inl (AddressCountMismatch (length path) (length pool_addresses))
        else if pool_fees \<noteq> [] \<and> length pool_fees \<noteq> length path
          then Inl (FeeCountMismatch (length path) (length pool_fees))
        else validate_hops opp 0 path)"

section \<open>Encoding\<close>

definition encode_hop :: "Opportunity \<Rightarrow> nat \<Rightarrow> DexType \<Rightarrow> bytes" where
  "encode_hop opp i dex =
    (let fee = path_fee opp i dex
     in [dex_byte dex] @ to_be 20 (opp_pool_addresses opp ! i)
        @ [ucast (drop_bit 16 fee AND 0xFF), ucast (drop_bit 8 fee AND 0xFF), ucast (fee AND 0xFF)])"

definition encode_swap_path :: "Opportunity \<Rightarrow> build_error + bytes" where
  "encode_swap_path opp =
    (case validate_swap_opportunity opp of
       Inl e \<Rightarrow> Inl e
     | Inr _ \<Rightarrow> Inr (concat (map (\<lambda>(i, dex). encode_hop opp i dex) (enumerate 0 (opp_path opp)))))"

definition abi_encode_address :: "hexcrate \<Rightarrow> string \<Rightarrow> bytes" where
  "abi_encode_address hx addr =
    (case hex_decode hx (strip_0x addr) of
       Some bs \<Rightarrow> (let len = min (length bs) 20 in replicate (32 - len) 0 @ take len bs)
     | None \<Rightarrow> replicate 32 0)"

definition abi_encode_u256 :: "u128 \<Rightarrow> bytes" where
  "abi_encode_u256 val = replicate 16 0 @ to_be 16 val"

definition padding :: "bytes \<Rightarrow> bytes" where
  "padding swap_data = replicate ((32 - length swap_data mod 32) mod 32) 0"

definition encode_arbitrage_call :: "hexcrate \<Rightarrow> string \<Rightarrow> u128 \<Rightarrow> bytes \<Rightarrow> bytes" where
  "encode_arbitrage_call hx token amount swap_data =
     EXECUTE_ARBITRAGE @ abi_encode_address hx token @ abi_encode_u256 amount @ abi_encode_u256 96
     @ abi_encode_u256 (word_of_nat (length swap_data)) @ swap_data @ padding swap_data"

definition encode_backrun_call :: "hexcrate \<Rightarrow> string \<Rightarrow> u128 \<Rightarrow> bytes \<Rightarrow> bytes" where
  "encode_backrun_call hx token amount swap_data =
     EXECUTE_BACKRUN @ abi_encode_address hx token @ abi_encode_u256 amount @ abi_encode_u256 96
     @ abi_encode_u256 (word_of_nat (length swap_data)) @ swap_data @ padding swap_data"

definition encode_liquidation_call :: "hexcrate \<Rightarrow> string \<Rightarrow> string \<Rightarrow> u128 \<Rightarrow> bytes" where
  "encode_liquidation_call hx debt_token collateral_token amount =
     EXECUTE_LIQUIDATION @ abi_encode_address hx debt_token @ abi_encode_address hx collateral_token
     @ abi_encode_u256 amount @ replicate 32 0"

section \<open>Building\<close>

definition bundle_tx :: "string \<Rightarrow> u64 \<Rightarrow> u128 \<Rightarrow> bytes \<Rightarrow> BundleTransaction" where
  "bundle_tx contract gas tip data =
    \<lparr>bt_to = contract, bt_value = 0, bt_gas_limit = gas, bt_gas_price = None, bt_max_fee_per_gas = None,
     bt_max_priority_fee_per_gas = Some tip, bt_data = data, bt_nonce = None\<rparr>"

definition build_arbitrage_bundle ::
  "hexcrate \<Rightarrow> Opportunity \<Rightarrow> string \<Rightarrow> build_error + BundleTransaction list" where
  "build_arbitrage_bundle hx opp contract =
    (case validate_swap_opportunity opp of
       Inl e \<Rightarrow> Inl e
     | Inr _ \<Rightarrow>
         (case encode_swap_path opp of
            Inl e \<Rightarrow> Inl e
          | Inr swap_path \<Rightarrow>
              Inr [bundle_tx contract (opp_gas_estimate opp) 1000000000
                     (encode_arbitrage_call hx (opp_token_in opp) (opp_amount_in opp) swap_path)]))"

definition build_backrun_bundle ::
  "hexcrate \<Rightarrow> Opportunity \<Rightarrow> string \<Rightarrow> build_error + BundleTransaction list" where
  "build_backrun_bundle hx opp contract =
    (case validate_swap_opportunity opp of
       Inl e \<Rightarrow> Inl e
     | Inr _ \<Rightarrow>
         (case encode_swap_path opp of
            Inl e \<Rightarrow> Inl e
          | Inr swap_path \<Rightarrow>
              Inr [bundle_tx contract (opp_gas_estimate opp) 2000000000
                     (encode_backrun_call hx (opp_token_in opp) (opp_amount_in opp) swap_path)]))"

definition build_liquidation_bundle ::
  "hexcrate \<Rightarrow> Opportunity \<Rightarrow> string \<Rightarrow> build_error + BundleTransaction list" where
  "build_liquidation_bundle hx opp contract =
     Inr [bundle_tx contract (opp_gas_estimate opp) 1000000000
            (encode_liquidation_call hx (opp_token_in opp) (opp_token_out opp) (opp_amount_in opp))]"

definition build :: "hexcrate \<Rightarrow> BundleBuilder \<Rightarrow> Opportunity \<Rightarrow> BundleBuilder \<times> (build_error + Bundle)" where
  "build hx s opp =
    (case bb_contract_address s of
       None \<Rightarrow> (s, Inl ContractNotSet)
     | Some contract \<Rightarrow>
         (case (case opp_type opp of
                  Arbitrage \<Rightarrow> build_arbitrage_bundle hx opp contract
                | Backrun \<Rightarrow> build_backrun_bundle hx opp contract
                | Liquidation \<Rightarrow> build_liquidation_bundle hx opp contract) of
            Inl e \<Rightarrow> (s, Inl e)
          | Inr transactions \<Rightarrow>
              (s\<lparr>bb_count := bb_count s + 1\<rparr>,
               Inr \<lparr>bu_transactions = transactions, bu_target_block = None, bu_max_block_number = None,
                    bu_min_timestamp = None, bu_max_timestamp = None, bu_reverting_tx_hashes = []\<rparr>)))"

section \<open>Validation, characterised\<close>

lemma validate_hops_ok:
  "validate_hops opp i path = Inr () \<longleftrightarrow>
    (\<forall>j < length path. opp_pool_addresses opp ! (i + j) \<noteq> 0
       \<and> is_valid_fee_for_dex (path ! j) (path_fee opp (i + j) (path ! j)))"
proof (induction path arbitrary: i)
  case (Cons dex path)
  show ?case
    using Cons [of "Suc i"] by (auto simp: less_Suc_eq_0_disj)
qed simp

text \<open>What a valid swap opportunity is.\<close>

definition valid_swap :: "Opportunity \<Rightarrow> bool" where
  "valid_swap opp \<longleftrightarrow> opp_path opp \<noteq> [] \<and> length (opp_pool_addresses opp) = length (opp_path opp)
     \<and> (opp_pool_fees opp = [] \<or> length (opp_pool_fees opp) = length (opp_path opp))
     \<and> (\<forall>i < length (opp_path opp). opp_pool_addresses opp ! i \<noteq> 0
          \<and> is_valid_fee_for_dex (opp_path opp ! i) (path_fee opp i (opp_path opp ! i)))"

lemma validate_swap_opportunity_ok: "validate_swap_opportunity opp = Inr () \<longleftrightarrow> valid_swap opp"
  unfolding validate_swap_opportunity_def valid_swap_def Let_def
  using validate_hops_ok [of opp 0 "opp_path opp"] by auto

lemma valid_fee_bound: "is_valid_fee_for_dex dex fee \<Longrightarrow> unat fee \<le> 10000"
  by (cases dex) (auto simp: word_le_nat_alt)

section \<open>The packed path\<close>

lemma fee_bytes: "[ucast (drop_bit 16 fee AND 0xFF), ucast (drop_bit 8 fee AND 0xFF), ucast (fee AND 0xFF)]
    = to_be 3 (fee :: u32)"
proof -
  have "(0xFF :: u32) = mask 8"
    by (simp add: mask_eq_exp_minus_1)
  then have t: "x AND 0xFF = take_bit 8 x" for x :: u32
    by (simp only: take_bit_eq_mask)
  have m: "(ucast (x AND 0xFF) :: u8) = ucast x" for x :: u32
    unfolding t by (auto intro!: bit_word_eqI simp: bit_simps)
  show ?thesis
    by (simp only: m) (simp add: numeral_3_eq_3)
qed

text \<open>Reading a packed path back: the executor takes 24 bytes per hop.\<close>

definition dex_of_byte :: "u8 \<Rightarrow> DexType option" where
  "dex_of_byte b = (if b = 1 then Some UniswapV2 else if b = 2 then Some UniswapV3 else if b = 3 then Some SushiSwap
     else if b = 4 then Some Curve else if b = 5 then Some Balancer else None)"

definition decode_hop :: "bytes \<Rightarrow> (DexType \<times> address \<times> u32) option" where
  "decode_hop bs = map_option (\<lambda>d. (d, from_be (take 20 (drop 1 bs)), from_be (drop 21 bs)))
     (dex_of_byte (hd bs))"

fun decode_swap_path :: "nat \<Rightarrow> bytes \<Rightarrow> (DexType \<times> address \<times> u32) list option" where
  "decode_swap_path 0 bs = (if bs = [] then Some [] else None)"
| "decode_swap_path (Suc n) bs =
    (if length bs < 24 then None
     else case (decode_hop (take 24 bs), decode_swap_path n (drop 24 bs)) of
       (Some h, Some hs) \<Rightarrow> Some (h # hs)
     | _ \<Rightarrow> None)"

lemma dex_of_byte_inverse [simp]: "dex_of_byte (dex_byte d) = Some d"
  by (cases d) (simp_all add: dex_of_byte_def)

lemma length_encode_hop [simp]: "length (encode_hop opp i dex) = 24"
  by (simp add: encode_hop_def Let_def)

lemma from_be_fee:
  fixes fee :: u32
  assumes "unat fee < 2 ^ 24"
  shows "from_be (to_be 3 fee) = fee"
  using assms by (simp add: from_be_eq be_val_to_be)

lemma decode_encode_hop:
  assumes "unat (path_fee opp i dex) < 2 ^ 24"
  shows "decode_hop (encode_hop opp i dex) = Some (dex, opp_pool_addresses opp ! i, path_fee opp i dex)"
  using assms
  by (simp add: decode_hop_def encode_hop_def Let_def fee_bytes from_be_fee from_be_to_be del: to_be.simps)

lemma decode_encode_hops:
  "\<forall>j < length path. unat (path_fee opp (i + j) (path ! j)) < 2 ^ 24 \<Longrightarrow>
    decode_swap_path (length path) (concat (map (\<lambda>(i, dex). encode_hop opp i dex) (enumerate i path)))
    = Some (map (\<lambda>(i, dex). (dex, opp_pool_addresses opp ! i, path_fee opp i dex)) (enumerate i path))"
proof (induction path arbitrary: i)
  case (Cons dex path)
  have 0: "unat (path_fee opp i dex) < 2 ^ 24"
    using Cons.prems by force
  have "\<forall>j < length path. unat (path_fee opp (Suc i + j) (path ! j)) < 2 ^ 24"
    using Cons.prems by (metis add_Suc add_Suc_right length_Cons not_less_eq nth_Cons_Suc)
  from Cons.IH [OF this] decode_encode_hop [OF 0] show ?case
    by simp
qed simp

text \<open>C6: the packed swap path is faithful. For a valid opportunity the encoding succeeds with 24 bytes per
  hop, and reading it back in 24-byte steps gives exactly the DEX, the pool address and the fee of
  every hop; for any other opportunity encoding fails with the validation error.\<close>

theorem encode_swap_path_round_trip:
  "if valid_swap opp
   then \<exists>bs. encode_swap_path opp = Inr bs \<and> length bs = 24 * length (opp_path opp)
     \<and> decode_swap_path (length (opp_path opp)) bs = Some (map (\<lambda>(i, dex).
         (dex, opp_pool_addresses opp ! i, path_fee opp i dex)) (enumerate 0 (opp_path opp)))
   else \<exists>e. encode_swap_path opp = Inl e"
proof (cases "valid_swap opp")
  case True
  let ?bs = "concat (map (\<lambda>(i, dex). encode_hop opp i dex) (enumerate 0 (opp_path opp)))"
  have "unat (path_fee opp j (opp_path opp ! j)) < 2 ^ 24" if "j < length (opp_path opp)" for j
  proof -
    have "is_valid_fee_for_dex (opp_path opp ! j) (path_fee opp j (opp_path opp ! j))"
      using True that by (simp add: valid_swap_def)
    then have "unat (path_fee opp j (opp_path opp ! j)) \<le> 10000"
      by (rule valid_fee_bound)
    then show ?thesis by simp
  qed
  then have d: "decode_swap_path (length (opp_path opp)) ?bs = Some (map (\<lambda>(i, dex).
      (dex, opp_pool_addresses opp ! i, path_fee opp i dex)) (enumerate 0 (opp_path opp)))"
    using decode_encode_hops [of "opp_path opp" opp 0] by simp
  have l: "length (concat (map (\<lambda>(i, dex). encode_hop opp i dex) (enumerate k path))) = 24 * length path" for k path
    by (induction path arbitrary: k) simp_all
  have "validate_swap_opportunity opp = Inr ()"
    using True by (simp add: validate_swap_opportunity_ok)
  then show ?thesis
    using True d l [of 0 "opp_path opp"] by (simp add: encode_swap_path_def)
next
  case False
  then obtain e where "validate_swap_opportunity opp = Inl e"
    using validate_swap_opportunity_ok [of opp] by (metis old.unit.exhaust sumE)
  with False show ?thesis
    by (simp add: encode_swap_path_def)
qed

section \<open>ABI words\<close>

lemma abi_word_split:
  assumes "LENGTH('a) = 8 * k" "k \<le> 32"
  shows "abi_word (w :: 'a::len word) = replicate (32 - k) 0 @ to_be k w"
proof (rule be_val_inj)
  show "length (abi_word w) = length (replicate (32 - k) 0 @ to_be k w)"
    using assms(2) by simp
  have p: "(256 :: nat) ^ k = 2 ^ LENGTH('a)"
    using assms(1) by (simp add: power_mult)
  have le: "unat w < 256 ^ k"
    unfolding p by (rule unat_bound)
  have "(256 :: nat) ^ k \<le> 256 ^ 32"
    using assms(2) by (intro power_increasing) simp_all
  with le have lt: "unat w < 256 ^ 32"
    by (rule less_le_trans)
  then have "unat (of_nat (unat w) :: bytes32) = unat w"
    by (intro unat_word_of_nat_small) simp
  then have "unat (ucast w :: bytes32) = unat w"
    by simp
  with lt le show "be_val (abi_word w) = be_val (replicate (32 - k) 0 @ to_be k w)"
    by (simp only: abi_word_def be_val_to_be be_val_append be_val_replicate_0) simp
qed

lemma abi_encode_u256_word: "abi_encode_u256 v = abi_word v"
  by (simp add: abi_encode_u256_def abi_word_split [of 16])

lemma length_abi_encode_u256 [simp]: "length (abi_encode_u256 v) = 32"
  by (simp add: abi_encode_u256_def)

lemma length_abi_encode_address [simp]: "length (abi_encode_address hx t) = 32"
  by (auto simp: abi_encode_address_def Let_def split: option.split)

context hex_codec
begin

lemma abi_encode_address_hex: "abi_encode_address hx (hex_0x hx (to_be 20 a)) = abi_word (a :: address)"
  unfolding abi_encode_address_def hex_0x_def decode_strip_encode
  by (simp add: abi_word_split [of 20])

end

text \<open>The calldata of a swap bundle as the executor reads it.\<close>

definition read_swap_call :: "bytes \<Rightarrow> bytes \<times> address \<times> u128 \<times> bytes" where
  "read_swap_call data =
    (let offset = be_val (sub_bytes 68 100 data); len = be_val (sub_bytes (4 + offset) (36 + offset) data)
     in (take 4 data, from_be (sub_bytes 16 36 data), from_be (sub_bytes 52 68 data),
         sub_bytes (36 + offset) (36 + offset + len) data))"

lemma be_val_abi_word_u128: "be_val (abi_word (v :: u128)) = unat v"
proof -
  have "abi_word v = replicate 16 0 @ to_be 16 v"
    using abi_word_split [of 16 v] by simp
  then show ?thesis
    using unat_bound [of v] by (simp add: be_val_append be_val_to_be)
qed

lemma read_swap_call_encoding:
  assumes "length sel = 4" "length path < 2 ^ 64"
  shows "read_swap_call (sel @ abi_word (a :: address) @ abi_word (v :: u128) @ abi_word (96 :: u128)
      @ abi_word (word_of_nat (length path) :: u128) @ path @ pad) = (sel, a, v, path)"
proof -
  let ?d = "sel @ abi_word a @ abi_word v @ abi_word (96 :: u128) @ abi_word (word_of_nat (length path) :: u128) @ path @ pad"
  have w: "sub_bytes 68 100 ?d = abi_word (96 :: u128)" "sub_bytes 100 132 ?d = abi_word (word_of_nat (length path) :: u128)"
    "sub_bytes 16 36 ?d = drop 12 (abi_word a)" "sub_bytes 52 68 ?d = drop 16 (abi_word v)"
    using assms(1) by (simp_all add: sub_bytes_def)
  have l: "unat (word_of_nat (length path) :: u128) = length path"
    using assms(2) by (intro unat_word_of_nat_small) simp
  have o: "be_val (sub_bytes 68 100 ?d) = 96"
    by (simp only: w be_val_abi_word_u128) simp
  have n: "be_val (sub_bytes 100 132 ?d) = length path"
    by (simp only: w be_val_abi_word_u128 l)
  have "sub_bytes 132 (132 + length path) ?d = path"
    using assms(1) by (simp add: sub_bytes_def)
  moreover have "from_be (drop 12 (abi_word a)) = a" "from_be (drop 16 (abi_word v)) = v"
    by (simp_all add: abi_word_split [of 20 a] abi_word_split [of 16 v] from_be_to_be)
  moreover have "take 4 ?d = sel"
    using assms(1) by simp
  ultimately show ?thesis
    using o n w(3,4) by (simp only: read_swap_call_def Let_def) simp
qed

section \<open>Properties of build\<close>

lemma invalid_swap_error:
  assumes "\<not> valid_swap opp"
  obtains e where "validate_swap_opportunity opp = Inl e"
  using assms validate_swap_opportunity_ok [of opp] by (metis old.unit.exhaust sumE)

lemma build_swap_ok:
  assumes "bb_contract_address s = Some contract" "valid_swap opp" "opp_type opp \<noteq> Liquidation"
  shows "build hx s opp = (s\<lparr>bb_count := bb_count s + 1\<rparr>,
    Inr \<lparr>bu_transactions = [bundle_tx contract (opp_gas_estimate opp)
           (if opp_type opp = Arbitrage then 1000000000 else 2000000000)
           ((if opp_type opp = Arbitrage then encode_arbitrage_call else encode_backrun_call) hx
              (opp_token_in opp) (opp_amount_in opp)
              (concat (map (\<lambda>(i, dex). encode_hop opp i dex) (enumerate 0 (opp_path opp)))))],
         bu_target_block = None, bu_max_block_number = None, bu_min_timestamp = None,
         bu_max_timestamp = None, bu_reverting_tx_hashes = []\<rparr>)"
  using assms
  by (cases "opp_type opp")
    (simp_all add: build_def build_arbitrage_bundle_def build_backrun_bundle_def encode_swap_path_def
      validate_swap_opportunity_ok [THEN iffD2])

text \<open>When building fails. \<open>build\<close> returns an error exactly when no contract is set, or the opportunity
  is a swap that is not valid; an error leaves the builder unchanged, and a success increments the
  counter by one.\<close>

theorem build_result:
  "fst (build hx s opp) = (if bb_contract_address s \<noteq> None \<and> (opp_type opp = Liquidation \<or> valid_swap opp)
      then s\<lparr>bb_count := bb_count s + 1\<rparr> else s)
   \<and> ((\<exists>e. snd (build hx s opp) = Inl e) \<longleftrightarrow>
      bb_contract_address s = None \<or> (opp_type opp \<noteq> Liquidation \<and> \<not> valid_swap opp))"
proof (cases "bb_contract_address s")
  case None
  then show ?thesis by (simp add: build_def)
next
  case (Some contract)
  show ?thesis
  proof (cases "opp_type opp = Liquidation")
    case True
    with Some show ?thesis by (simp add: build_def build_liquidation_bundle_def)
  next
    case False
    show ?thesis
    proof (cases "valid_swap opp")
      case True
      with Some False show ?thesis by (simp add: build_swap_ok)
    next
      case False
      then obtain e where "validate_swap_opportunity opp = Inl e"
        by (rule invalid_swap_error)
      with Some False \<open>opp_type opp \<noteq> Liquidation\<close> show ?thesis
        by (cases "opp_type opp") (simp_all add: build_def build_arbitrage_bundle_def build_backrun_bundle_def)
    qed
  qed
qed

lemma padded_length: "(132 + (n + (32 - n mod 32) mod 32)) mod 32 = (4 :: nat)"
proof -
  define q r where "q = n div 32" and "r = n mod 32"
  have n: "n = 32 * q + r" "r < 32"
    by (simp_all add: q_def r_def)
  show ?thesis
  proof (cases "r = 0")
    case True
    then have "132 + (n + (32 - r) mod 32) = 4 + 32 * (q + 4)"
      using n by simp
    then show ?thesis
      unfolding r_def [symmetric] by (simp only: mod_mult_self2) simp
  next
    case False
    then have "132 + (n + (32 - r) mod 32) = 4 + 32 * (q + 5)"
      using n by simp
    then show ?thesis
      unfolding r_def [symmetric] by (simp only: mod_mult_self2) simp
  qed
qed


lemma all_less_two: "(\<forall>i < 2. P i) \<longleftrightarrow> P 0 \<and> P (Suc 0)" "(\<forall>i < Suc (Suc 0). P i) \<longleftrightarrow> P 0 \<and> P (Suc 0)"
  by (auto simp: less_2_cases_iff less_Suc_eq)

definition builder_sample :: Opportunity where
  "builder_sample =
    \<lparr>opp_type = Arbitrage, opp_token_in = hex_0x hex_std (to_be 20 (3 :: address)), opp_token_out = ''USDC'',
     opp_amount_in = 1000, opp_expected_profit = 10, opp_gas_estimate = 371000, opp_deadline = 12,
     opp_path = [UniswapV2, UniswapV3], opp_pool_addresses = [11, 12], opp_pool_fees = [3000, 500],
     opp_target_tx = None\<rparr>"


end
