(* ===== verification/Mev_Engine.thy ===== *)
theory Mev_Engine
  imports Evm_Simulator Opportunity_Detector Bundle_Builder
begin

text \<open>
  The engine (\<^verbatim>\<open>MevEngine\<close> of \<^verbatim>\<open>core/src/lib.rs\<close>): it owns the detector, the simulator and the
  builder, and has a running flag and a start time. The clock is a parameter. The components'
  \<^verbatim>\<open>start\<close> and \<^verbatim>\<open>stop\<close> only log and always succeed.
\<close>

record MevEngine =
  me_config :: Config
  me_detector :: OpportunityDetector
  me_simulator :: EvmSimulator
  me_builder :: BundleBuilder
  me_running :: bool
  me_start_time :: "nat option"

record EngineStats =
  ee_opportunities_detected :: u64
  ee_simulations_run :: u64
  ee_bundles_submitted :: u64
  ee_uptime_seconds :: u64

definition engine_new :: "Config \<Rightarrow> MevEngine" where
  "engine_new config =
    \<lparr>me_config = config, me_detector = detector_new config, me_simulator = simulator_new config,
     me_builder = builder_new config, me_running = False, me_start_time = None\<rparr>"

definition engine_start :: "nat \<Rightarrow> MevEngine \<Rightarrow> MevEngine" where
  "engine_start now s = s\<lparr>me_running := True, me_start_time := Some now\<rparr>"

definition engine_stop :: "MevEngine \<Rightarrow> MevEngine" where
  "engine_stop s = s\<lparr>me_running := False\<rparr>"

definition is_running :: "MevEngine \<Rightarrow> bool" where
  "is_running s = me_running s"

text \<open>Times are seconds of a monotone clock.\<close>

definition engine_stats :: "nat \<Rightarrow> MevEngine \<Rightarrow> EngineStats" where
  "engine_stats now s =
    \<lparr>ee_opportunities_detected = od_count (me_detector s), ee_simulations_run = es_count (me_simulator s),
     ee_bundles_submitted = bb_count (me_builder s),
     ee_uptime_seconds = (case me_start_time s of Some t \<Rightarrow> word_of_nat (now - t) | None \<Rightarrow> 0)\<rparr>"

section \<open>Life cycle\<close>

text \<open>The life of an engine as a sequence of starts (with the time) and stops.\<close>

datatype engine_op = Start nat | Stop

fun engine_run :: "MevEngine \<Rightarrow> engine_op list \<Rightarrow> MevEngine" where
  "engine_run s [] = s"
| "engine_run s (Start t # ops) = engine_run (engine_start t s) ops"
| "engine_run s (Stop # ops) = engine_run (engine_stop s) ops"

fun last_start :: "engine_op list \<Rightarrow> nat option" where
  "last_start [] = None"
| "last_start (Start t # ops) = (case last_start ops of Some u \<Rightarrow> Some u | None \<Rightarrow> Some t)"
| "last_start (Stop # ops) = last_start ops"

lemma engine_run_state:
  "me_running (engine_run s ops) = (if ops = [] then me_running s else \<exists>t. last ops = Start t)
   \<and> me_start_time (engine_run s ops) = (case last_start ops of Some t \<Rightarrow> Some t | None \<Rightarrow> me_start_time s)
   \<and> me_detector (engine_run s ops) = me_detector s \<and> me_simulator (engine_run s ops) = me_simulator s
   \<and> me_builder (engine_run s ops) = me_builder s"
  by (induction ops arbitrary: s rule: last_start.induct)
    (simp_all add: engine_start_def engine_stop_def split: option.splits)

text \<open>The life cycle. After any sequence of starts and stops an engine is running exactly when the last
  call was a start; its uptime is measured from the most recent start and, once started, keeps
  growing after a stop (stopping does not clear the start time). No call touches the counters.\<close>

theorem engine_lifecycle:
  "is_running (engine_run (engine_new c) ops) = (ops \<noteq> [] \<and> (\<exists>t. last ops = Start t))
   \<and> ee_uptime_seconds (engine_stats now (engine_run (engine_new c) ops))
     = (case last_start ops of Some t \<Rightarrow> word_of_nat (now - t) | None \<Rightarrow> 0)
   \<and> ee_opportunities_detected (engine_stats now (engine_run (engine_new c) ops)) = 0
   \<and> ee_simulations_run (engine_stats now (engine_run (engine_new c) ops)) = 0
   \<and> ee_bundles_submitted (engine_stats now (engine_run (engine_new c) ops)) = 0"
  using engine_run_state [of "engine_new c" ops]
  by (auto simp: is_running_def engine_stats_def engine_new_def detector_new_def simulator_new_def
      builder_new_def split: option.splits)

end
