(* ===== verification/Evm_Fork.thy ===== *)
theory Evm_Fork
  imports Mev_Config Pool_Store
begin

text \<open>
  The stage-2 simulator (\<^verbatim>\<open>core/src/simulator/evm.rs\<close>): the fork database, the block context,
  the single call, the opportunity and the bundle simulation, and the codecs around them.
  \<^verbatim>\<open>revm\<close> and Keccak-256 are third-party code: the interpreter and its database are a record of
  functions that every definition takes. Their \<^verbatim>\<open>Debug\<close> renderings are the strings in the error
  values.
\<close>

section \<open>The parameter: revm\<close>

text \<open>The result of an execution. The output of a call and of a creation are both its bytes.\<close>

datatype ExecutionResult =
    ExSuccess u64 bytes
  | ExRevert u64 bytes
  | ExHalt string u64

text \<open>A state diff in the order of its iteration: per account the storage slots with the values before and
  after and the flag \<^verbatim>\<open>is_changed\<close>.\<close>

type_synonym slot_diff = "bytes32 \<times> bool \<times> bytes32 \<times> bytes32"
type_synonym evm_state = "(address \<times> slot_diff list) list"

record AccountInfo =
  ai_balance :: bytes32
  ai_nonce :: u64
  ai_code_hash :: bytes32
  ai_code :: bytes

record EvmEnv =
  en_number :: bytes32
  en_timestamp :: bytes32
  en_basefee :: bytes32
  en_coinbase :: address
  en_prevrandao :: "bytes32 option"
  en_chain_id :: u64
  en_caller :: address
  en_to :: address
  en_data :: bytes
  en_value :: bytes32
  en_gas_limit :: u64
  en_gas_price :: bytes32

record 'db revm =
  rv_empty :: 'db
  rv_insert_account_info :: "'db \<Rightarrow> address \<Rightarrow> AccountInfo \<Rightarrow> 'db"
  rv_insert_account_storage :: "'db \<Rightarrow> address \<Rightarrow> bytes32 \<Rightarrow> bytes32 \<Rightarrow> 'db"
  rv_transact :: "'db \<Rightarrow> EvmEnv \<Rightarrow> string + (ExecutionResult \<times> evm_state)"
  rv_transact_commit :: "'db \<Rightarrow> EvmEnv \<Rightarrow> (string + ExecutionResult) \<times> 'db"
  rv_keccak256 :: "bytes \<Rightarrow> bytes32"
  rv_KECCAK_EMPTY :: bytes32

section \<open>Constants and block context\<close>

definition ARBITRUM_CHAIN_ID :: u64 where
  "ARBITRUM_CHAIN_ID = 42161"

definition SIM_GAS_LIMIT :: u64 where
  "SIM_GAS_LIMIT = 1500000"

definition BALANCER_VAULT :: bytes where
  "BALANCER_VAULT =
    [0xBA, 0x12, 0x22, 0x22, 0x22, 0x8d, 0x8B, 0xa4, 0x45, 0x95,
     0x8a, 0x75, 0xa0, 0x70, 0x4d, 0x56, 0x6B, 0xF2, 0xC8, 0x00]"

record BlockContext =
  bc_number :: u64
  bc_timestamp :: u64
  bc_base_fee :: u128
  bc_coinbase :: address

definition BlockContext_default :: BlockContext where
  "BlockContext_default = \<lparr>bc_number = 0, bc_timestamp = 0, bc_base_fee = 20000000, bc_coinbase = 0\<rparr>"

section \<open>Fork database\<close>

record 'db ForkDB =
  fd_inner :: 'db
  fd_loaded_accounts :: "address \<rightharpoonup> bool"
  fd_loaded_storage :: "address \<times> bytes32 \<rightharpoonup> bool"

definition forkdb_new :: "'db revm \<Rightarrow> 'db ForkDB" where
  "forkdb_new rv = \<lparr>fd_inner = rv_empty rv, fd_loaded_accounts = Map.empty, fd_loaded_storage = Map.empty\<rparr>"

definition insert_account ::
  "'db revm \<Rightarrow> 'db ForkDB \<Rightarrow> address \<Rightarrow> bytes32 \<Rightarrow> u64 \<Rightarrow> bytes \<Rightarrow> 'db ForkDB" where
  "insert_account rv db addr balance nonce code =
    (let code_hash = (if code = [] then rv_KECCAK_EMPTY rv else rv_keccak256 rv code);
         info = \<lparr>ai_balance = balance, ai_nonce = nonce, ai_code_hash = code_hash, ai_code = code\<rparr>
     in db\<lparr>fd_inner := rv_insert_account_info rv (fd_inner db) addr info,
           fd_loaded_accounts := (fd_loaded_accounts db)(addr \<mapsto> True)\<rparr>)"

definition insert_storage ::
  "'db revm \<Rightarrow> 'db ForkDB \<Rightarrow> address \<Rightarrow> bytes32 \<Rightarrow> bytes32 \<Rightarrow> 'db ForkDB" where
  "insert_storage rv db addr slot val =
     db\<lparr>fd_inner := rv_insert_account_storage rv (fd_inner db) addr slot val,
        fd_loaded_storage := (fd_loaded_storage db)((addr, slot) \<mapsto> True)\<rparr>"

definition is_account_loaded :: "'db ForkDB \<Rightarrow> address \<Rightarrow> bool" where
  "is_account_loaded db addr = (fd_loaded_accounts db addr \<noteq> None)"

section \<open>Codecs\<close>

definition fork_parse_address :: "hexcrate \<Rightarrow> string \<Rightarrow> address" where
  "fork_parse_address hx s =
    (let bytes = (case hex_decode hx (strip_0x s) of Some bs \<Rightarrow> bs | None \<Rightarrow> [])
     in from_be (take 20 bytes))"

text \<open>The count byte keeps only the low 8 bits of the number of pools.\<close>

definition encode_flash_arb_calldata :: "Opportunity \<Rightarrow> bytes" where
  "encode_flash_arb_calldata opp =
     [0x8a, 0x2e, 0x4e, 0x40]
     @ (replicate 16 0 @ to_be 16 (opp_amount_in opp))
     @ (replicate 31 0 @ [word_of_nat (length (opp_pool_addresses opp))])
     @ concat (map (\<lambda>addr. replicate 12 0 @ to_be 20 addr) (opp_pool_addresses opp))
     @ concat (map (\<lambda>fee. replicate 28 0 @ to_be 4 fee) (opp_pool_fees opp))"

definition decode_profit_from_output :: "bytes \<Rightarrow> i128" where
  "decode_profit_from_output output =
     (if 32 \<le> length output then from_be (sub_bytes 16 32 output) else 0)"

text \<open>\<^verbatim>\<open>String::from_utf8_lossy\<close>: each maximal prefix of a broken sequence becomes U+FFFD.
  \<open>utf8_need b\<close> gives the number of continuation bytes after \<open>b\<close> and the range of the first.\<close>

definition utf8_need :: "nat \<Rightarrow> (nat \<times> nat \<times> nat) option" where
  "utf8_need b =
    (if b < 128 then Some (0, 128, 191)
     else if 194 \<le> b \<and> b \<le> 223 then Some (1, 128, 191)
     else if b = 224 then Some (2, 160, 191)
     else if b = 237 then Some (2, 128, 159)
     else if 225 \<le> b \<and> b \<le> 239 then Some (2, 128, 191)
     else if b = 240 then Some (3, 144, 191)
     else if 241 \<le> b \<and> b \<le> 243 then Some (3, 128, 191)
     else if b = 244 then Some (3, 128, 143)
     else None)"

fun utf8_cont :: "nat \<Rightarrow> nat \<Rightarrow> nat \<Rightarrow> nat list \<Rightarrow> nat" where
  "utf8_cont 0 lo hi bs = 0"
| "utf8_cont (Suc n) lo hi [] = 0"
| "utf8_cont (Suc n) lo hi (b # bs) = (if lo \<le> b \<and> b \<le> hi then Suc (utf8_cont n 128 191 bs) else 0)"

function from_utf8_lossy :: "nat list \<Rightarrow> nat list" where
  "from_utf8_lossy [] = []"
| "from_utf8_lossy (b # bs) =
    (case utf8_need b of
       None \<Rightarrow> [239, 191, 189] @ from_utf8_lossy bs
     | Some (n, lo, hi) \<Rightarrow>
         let k = utf8_cont n lo hi bs
         in (if k = n then b # take n bs else [239, 191, 189]) @ from_utf8_lossy (drop k bs))"
  by pat_completeness auto

termination from_utf8_lossy
  by (relation "measure length") auto

definition hex_2 :: "nat \<Rightarrow> string" where
  "hex_2 n = [hex_digit (n div 16), hex_digit (n mod 16)]"

definition decode_revert_reason :: "hexcrate \<Rightarrow> bytes \<Rightarrow> string" where
  "decode_revert_reason hx data =
    (let selector = take 4 data;
         len = unat (from_be (sub_bytes 64 68 data) :: u32)
     in if length data < 4 then ''unknown revert''
        else if selector = [0x08, 0xc3, 0x79, 0xa0] \<and> 68 \<le> length data \<and> 68 + len \<le> length data
          then map char_of (from_utf8_lossy (map unat (sub_bytes 68 (68 + len) data)))
        else if selector = [0x4e, 0x48, 0x7b, 0x71] \<and> 36 \<le> length data
          then ''Panic(0x'' @ hex_2 (unat (data ! 35)) @ '')''
        else ''0x'' @ hex_encode hx (take 64 data))"

definition extract_state_changes :: "evm_state \<Rightarrow> StateChange list" where
  "extract_state_changes st =
     concat (map (\<lambda>(addr, slots). List.map_filter (\<lambda>(slot, changed, old, present).
        if changed then Some \<lparr>sc_address = addr, sc_slot = slot, sc_old_value = old, sc_new_value = present\<rparr>
        else None) slots) st)"

section \<open>The simulator\<close>

record EvmForkSimulator =
  ef_config :: Config
  ef_block_ctx :: BlockContext
  ef_sim_count :: u64
  ef_sim_success :: u64
  ef_total_latency_us :: u64

definition fork_new :: "Config \<Rightarrow> EvmForkSimulator" where
  "fork_new config = \<lparr>ef_config = config, ef_block_ctx = BlockContext_default, ef_sim_count = 0,
     ef_sim_success = 0, ef_total_latency_us = 0\<rparr>"

definition update_block :: "EvmForkSimulator \<Rightarrow> BlockContext \<Rightarrow> EvmForkSimulator" where
  "update_block s ctx = s\<lparr>ef_block_ctx := ctx\<rparr>"

text \<open>\<open>build_evm\<close>: the environment before the transaction fields are set.\<close>

definition build_evm :: "EvmForkSimulator \<Rightarrow> EvmEnv" where
  "build_evm s =
    (let block_ctx = ef_block_ctx s
     in \<lparr>en_number = ucast (bc_number block_ctx), en_timestamp = ucast (bc_timestamp block_ctx),
         en_basefee = ucast (bc_base_fee block_ctx), en_coinbase = bc_coinbase block_ctx,
         en_prevrandao = Some 0, en_chain_id = ARBITRUM_CHAIN_ID, en_caller = 0, en_to = 0, en_data = [],
         en_value = 0, en_gas_limit = - 1, en_gas_price = 0\<rparr>)"

record SimCallResult =
  cr_success :: bool
  cr_gas_used :: u64
  cr_output :: bytes
  cr_state_changes :: "StateChange list"
  cr_error :: "string option"

definition simulate_call ::
  "hexcrate \<Rightarrow> 'db revm \<Rightarrow> EvmForkSimulator \<Rightarrow> 'db \<Rightarrow> address \<Rightarrow> address \<Rightarrow> bytes \<Rightarrow> bytes32 \<Rightarrow> u64 \<Rightarrow> SimCallResult" where
  "simulate_call hx rv s db caller to calldata val gas_limit =
    (let env = (build_evm s)\<lparr>en_caller := caller, en_to := to, en_data := calldata, en_value := val,
                 en_gas_limit := gas_limit, en_gas_price := ucast (bc_base_fee (ef_block_ctx s))\<rparr>
     in case rv_transact rv db env of
          Inr (ExSuccess gas_used output, st) \<Rightarrow>
            \<lparr>cr_success = True, cr_gas_used = gas_used, cr_output = output,
             cr_state_changes = extract_state_changes st, cr_error = None\<rparr>
        | Inr (ExRevert gas_used output, st) \<Rightarrow>
            \<lparr>cr_success = False, cr_gas_used = gas_used, cr_output = output, cr_state_changes = [],
             cr_error = Some (''Revert: '' @ decode_revert_reason hx output)\<rparr>
        | Inr (ExHalt reason gas_used, st) \<Rightarrow>
            \<lparr>cr_success = False, cr_gas_used = gas_used, cr_output = [], cr_state_changes = [],
             cr_error = Some (''Halt: '' @ reason)\<rparr>
        | Inl e \<Rightarrow>
            \<lparr>cr_success = False, cr_gas_used = 0, cr_output = [], cr_state_changes = [],
             cr_error = Some (''EVM error: '' @ e)\<rparr>)"

definition fork_simulate_opportunity ::
  "hexcrate \<Rightarrow> 'db revm \<Rightarrow> u64 \<Rightarrow> EvmForkSimulator \<Rightarrow> 'db ForkDB \<Rightarrow> Opportunity \<Rightarrow> address
   \<Rightarrow> EvmForkSimulator \<times> SimulationResult" where
  "fork_simulate_opportunity hx rv latency s fork_db opp executor_address =
    (let s1 = s\<lparr>ef_sim_count := ef_sim_count s + 1\<rparr>;
         block_ctx = ef_block_ctx s1;
         calldata = encode_flash_arb_calldata opp;
         flash_arb_addr =
           (case Option.bind (cf_chains (ef_config s1) ARBITRUM_CHAIN_ID) ch_contract_address of
              Some addr \<Rightarrow> fork_parse_address hx addr
            | None \<Rightarrow> executor_address);
         result = simulate_call hx rv s1 (fd_inner fork_db) executor_address flash_arb_addr calldata 0 SIM_GAS_LIMIT;
         s2 = s1\<lparr>ef_total_latency_us := ef_total_latency_us s1 + latency\<rparr>;
         gas_cost_wei = (ucast (cr_gas_used result) :: i128) * bc_base_fee block_ctx;
         gross_profit = (if cr_success result then decode_profit_from_output (cr_output result) else 0);
         net_profit = gross_profit - gas_cost_wei;
         success = (cr_success result \<and> 0 < sint net_profit);
         s3 = (if success then s2\<lparr>ef_sim_success := ef_sim_success s2 + 1\<rparr> else s2)
     in (s3, \<lparr>sr_success = success, sr_profit = net_profit, sr_gas_used = cr_gas_used result,
              sr_error = cr_error result, sr_state_changes = cr_state_changes result\<rparr>))"

section \<open>Bundles\<close>

text \<open>The loop of \<^verbatim>\<open>simulate_bundle\<close> from transaction \<open>idx\<close>: either it stops with the gas and the
  error of the failing transaction, or it ends with the total gas and the last output. The database
  is threaded through the commits.\<close>

fun fork_bundle_loop ::
  "hexcrate \<Rightarrow> 'db revm \<Rightarrow> EvmForkSimulator \<Rightarrow> address \<Rightarrow> bytes32 list \<Rightarrow> 'db \<Rightarrow> nat \<Rightarrow> u64 \<Rightarrow> bytes
   \<Rightarrow> BundleTransaction list \<Rightarrow> 'db \<times> ((u64 \<times> string) + (u64 \<times> bytes))" where
  "fork_bundle_loop hx rv s executor reverting db idx total_gas last_output [] = (db, Inr (total_gas, last_output))"
| "fork_bundle_loop hx rv s executor reverting db idx total_gas last_output (tx # txs) =
    (let env = (build_evm s)\<lparr>en_caller := executor, en_to := fork_parse_address hx (bt_to tx),
                 en_data := bt_data tx, en_value := ucast (bt_value tx),
                 en_gas_limit := min (bt_gas_limit tx) SIM_GAS_LIMIT,
                 en_gas_price := ucast (case bt_max_fee_per_gas tx of Some f \<Rightarrow> f
                                        | None \<Rightarrow> bc_base_fee (ef_block_ctx s))\<rparr>
     in case rv_transact_commit rv db env of
          (Inr (ExSuccess gas_used output), db') \<Rightarrow>
            fork_bundle_loop hx rv s executor reverting db' (Suc idx) (total_gas + gas_used) output txs
        | (Inr (ExRevert gas_used output), db') \<Rightarrow>
            (if rv_keccak256 rv (bt_data tx) \<in> set reverting
             then fork_bundle_loop hx rv s executor reverting db' (Suc idx) (total_gas + gas_used) last_output txs
             else (db', Inl (total_gas + gas_used,
                     ''Tx '' @ show_nat idx @ '' reverted: '' @ decode_revert_reason hx output)))
        | (Inr (ExHalt reason gas_used), db') \<Rightarrow>
            (db', Inl (total_gas + gas_used, ''Tx '' @ show_nat idx @ '' halted: '' @ reason))
        | (Inl e, db') \<Rightarrow>
            (db', Inl (total_gas, ''Tx '' @ show_nat idx @ '' EVM error: '' @ e)))"

definition fork_simulate_bundle ::
  "hexcrate \<Rightarrow> 'db revm \<Rightarrow> u64 \<Rightarrow> EvmForkSimulator \<Rightarrow> 'db ForkDB \<Rightarrow> Bundle \<Rightarrow> address
   \<Rightarrow> EvmForkSimulator \<times> 'db ForkDB \<times> SimulationResult" where
  "fork_simulate_bundle hx rv latency s fork_db bundle executor =
    (let s1 = s\<lparr>ef_sim_count := ef_sim_count s + 1\<rparr>;
         block_ctx = ef_block_ctx s1;
         (db', outcome) = fork_bundle_loop hx rv s1 executor (bu_reverting_tx_hashes bundle)
                            (fd_inner fork_db) 0 0 [] (bu_transactions bundle);
         fork_db' = fork_db\<lparr>fd_inner := db'\<rparr>;
         s2 = s1\<lparr>ef_total_latency_us := ef_total_latency_us s1 + latency\<rparr>
     in case outcome of
          Inl (gas, err) \<Rightarrow>
            (s2, fork_db', \<lparr>sr_success = False, sr_profit = 0, sr_gas_used = gas, sr_error = Some err,
                            sr_state_changes = []\<rparr>)
        | Inr (total_gas, last_output) \<Rightarrow>
            let gas_cost = (ucast total_gas :: i128) * bc_base_fee block_ctx;
                net = decode_profit_from_output last_output - gas_cost;
                success = (0 < sint net)
            in (if success then s2\<lparr>ef_sim_success := ef_sim_success s2 + 1\<rparr> else s2, fork_db',
                \<lparr>sr_success = success, sr_profit = net, sr_gas_used = total_gas, sr_error = None,
                 sr_state_changes = []\<rparr>))"

record EvmSimMetrics =
  em_total_simulations :: u64
  em_successful :: u64
  em_avg_latency_us :: u64

definition fork_metrics :: "EvmForkSimulator \<Rightarrow> EvmSimMetrics" where
  "fork_metrics s =
    \<lparr>em_total_simulations = ef_sim_count s, em_successful = ef_sim_success s,
     em_avg_latency_us = (if 0 < ef_sim_count s then ef_total_latency_us s div ef_sim_count s else 0)\<rparr>"

section \<open>The calldata codec\<close>

text \<open>Reading the simulation calldata back: the amount, the number of pools, then one word per pool and per
  fee.\<close>

fun words_of :: "nat \<Rightarrow> bytes \<Rightarrow> bytes list" where
  "words_of 0 bs = []"
| "words_of (Suc n) bs = take 32 bs # words_of n (drop 32 bs)"

definition decode_flash_arb_calldata :: "bytes \<Rightarrow> u128 \<times> address list \<times> u32 list" where
  "decode_flash_arb_calldata data =
    (let n = be_val (sub_bytes 36 68 data); body = drop 68 data
     in (from_be (sub_bytes 20 36 data),
         map (\<lambda>w. from_be (drop 12 w)) (words_of n body),
         map (\<lambda>w. from_be (drop 28 w)) (words_of ((length body - 32 * n) div 32) (drop (32 * n) body))))"

lemma words_of_concat:
  assumes "\<And>x. length (f x) = 32"
  shows "words_of (length xs) (concat (map f xs) @ rest) = map f xs"
    and "drop (32 * length xs) (concat (map f xs) @ rest) = rest"
    and "length (concat (map f xs)) = 32 * length xs"
  using assms by (induction xs) simp_all

text \<open>The stage-2 calldata is faithful. For up to 255 pools, reading the words back gives the amount, the
  pool addresses and the fees of the opportunity (the count is a single byte).\<close>

theorem flash_arb_calldata_round_trip:
  assumes "length (opp_pool_addresses opp) < 256"
  shows "decode_flash_arb_calldata (encode_flash_arb_calldata opp)
    = (opp_amount_in opp, opp_pool_addresses opp, opp_pool_fees opp)"
proof -
  let ?as = "opp_pool_addresses opp" and ?fs = "opp_pool_fees opp"
  let ?fa = "\<lambda>addr :: address. replicate 12 (0 :: u8) @ to_be 20 addr"
  let ?ff = "\<lambda>fee :: u32. replicate 28 (0 :: u8) @ to_be 4 fee"
  let ?d = "encode_flash_arb_calldata opp"
  let ?cnt = "replicate 31 (0 :: u8) @ [word_of_nat (length ?as)]"
  have d: "sub_bytes 20 36 ?d = to_be 16 (opp_amount_in opp)" "sub_bytes 36 68 ?d = ?cnt"
    "drop 68 ?d = concat (map ?fa ?as) @ concat (map ?ff ?fs)"
    by (simp_all add: encode_flash_arb_calldata_def sub_bytes_def)
  have n: "be_val ?cnt = length ?as"
    using assms by (simp only: be_val_append be_val_replicate_0) (simp add: unat_of_nat)
  have a: "words_of (length ?as) (concat (map ?fa ?as) @ concat (map ?ff ?fs)) = map ?fa ?as"
    "drop (32 * length ?as) (concat (map ?fa ?as) @ concat (map ?ff ?fs)) = concat (map ?ff ?fs)"
    by (rule words_of_concat; simp)+
  have l: "length (concat (map ?fa ?as)) = 32 * length ?as" "length (concat (map ?ff ?fs)) = 32 * length ?fs"
    by (rule words_of_concat(3); simp)+
  have f: "words_of (length ?fs) (concat (map ?ff ?fs)) = map ?ff ?fs"
    using words_of_concat(1) [of ?ff ?fs "[]"] by simp
  have k: "(length (concat (map ?fa ?as) @ concat (map ?ff ?fs)) - 32 * length ?as) div 32 = length ?fs"
    by (simp add: l del: length_concat)
  show ?thesis
    unfolding decode_flash_arb_calldata_def Let_def d n a k f
    by (simp add: from_be_to_be o_def del: to_be.simps)
qed

section \<open>The verdict\<close>

text \<open>What makes an opportunity pass stage 2. It passes exactly when the interpreter reports success and
  the profit word returned exceeds the gas used times the base fee (profit words below \<open>2^126\<close> and
  costs below \<open>2^126\<close> are compared exactly); in particular an execution that returns fewer than 32
  bytes never passes.\<close>

theorem fork_simulate_opportunity_verdict:
  fixes rv :: "'db revm"
  assumes "fork_simulate_opportunity hx rv l s db opp executor = (s', r)"
    and "simulate_call hx rv (s\<lparr>ef_sim_count := ef_sim_count s + 1\<rparr>) (fd_inner db) executor
      (case Option.bind (cf_chains (ef_config s) ARBITRUM_CHAIN_ID) ch_contract_address of
         Some addr \<Rightarrow> fork_parse_address hx addr | None \<Rightarrow> executor)
      (encode_flash_arb_calldata opp) 0 SIM_GAS_LIMIT = c"
    and "unat (cr_gas_used c) * unat (bc_base_fee (ef_block_ctx s)) < 2 ^ 126"
    and "unat (decode_profit_from_output (cr_output c)) < 2 ^ 126"
  shows "sr_success r \<longleftrightarrow> cr_success c \<and> 32 \<le> length (cr_output c)
    \<and> unat (cr_gas_used c) * unat (bc_base_fee (ef_block_ctx s)) < unat (decode_profit_from_output (cr_output c))"
proof -
  let ?cost = "unat (cr_gas_used c) * unat (bc_base_fee (ef_block_ctx s))"
  define g where "g = (if cr_success c then decode_profit_from_output (cr_output c) else 0)"
  have "(ucast (cr_gas_used c) :: i128) * bc_base_fee (ef_block_ctx s) = of_nat ?cost"
    by simp
  then have r: "sr_success r \<longleftrightarrow> cr_success c \<and> 0 < sint (g - of_nat ?cost)"
    using assms(1,2) by (auto simp: fork_simulate_opportunity_def Let_def g_def)
  have "unat g < 2 ^ 126"
    using assms(4) by (simp add: g_def)
  then have "sint (g - of_nat ?cost) = int (unat g) - int ?cost"
    using sint_balance [of g 0 ?cost 0] assms(3) by simp
  then have "0 < sint (g - of_nat ?cost) \<longleftrightarrow> ?cost < unat g"
    by linarith
  with r show ?thesis
    by (auto simp: g_def decode_profit_from_output_def)
qed

definition fork_sample :: Opportunity where
  "fork_sample =
    \<lparr>opp_type = Arbitrage, opp_token_in = ''WETH'', opp_token_out = ''USDC'', opp_amount_in = 1000,
     opp_expected_profit = 10, opp_gas_estimate = 371000, opp_deadline = 12, opp_path = [UniswapV2, UniswapV3],
     opp_pool_addresses = [11, 12], opp_pool_fees = [3000, 500], opp_target_tx = None\<rparr>"

theorem flash_arb_calldata_round_trip_witness:
  "decode_flash_arb_calldata (encode_flash_arb_calldata fork_sample) = (1000, [11, 12], [3000, 500])"
  using flash_arb_calldata_round_trip [of fork_sample] by (simp add: fork_sample_def)

text \<open>An interpreter whose every call uses 100 gas and returns a profit of 3 gwei.\<close>

definition revm_sample :: "unit revm" where
  "revm_sample =
    \<lparr>rv_empty = (), rv_insert_account_info = (\<lambda>_ _ _. ()), rv_insert_account_storage = (\<lambda>_ _ _ _. ()),
     rv_transact = (\<lambda>_ _. Inr (ExSuccess 100 (replicate 16 0 @ to_be 16 (3000000000 :: u128)), [])),
     rv_transact_commit = (\<lambda>_ _. (Inr (ExSuccess 100 []), ())), rv_keccak256 = (\<lambda>_. 0), rv_KECCAK_EMPTY = 0\<rparr>"

theorem fork_simulate_opportunity_verdict_witness:
  "sr_success (snd (fork_simulate_opportunity hex_std revm_sample 5 (fork_new (Config_default 8))
     (forkdb_new revm_sample) fork_sample 77))"
proof -
  let ?s = "fork_new (Config_default 8)" and ?db = "forkdb_new revm_sample"
  let ?out = "replicate 16 0 @ to_be 16 (3000000000 :: u128)"
  let ?c = "\<lparr>cr_success = True, cr_gas_used = 100, cr_output = ?out, cr_state_changes = [], cr_error = None\<rparr>"
  obtain s' r where f: "fork_simulate_opportunity hex_std revm_sample 5 ?s ?db fork_sample 77 = (s', r)"
    by (cases "fork_simulate_opportunity hex_std revm_sample 5 ?s ?db fork_sample 77")
  have c: "simulate_call hex_std revm_sample s db a t d v g = ?c" for s db a t d v g
    by (simp add: simulate_call_def revm_sample_def extract_state_changes_def)
  have p: "decode_profit_from_output ?out = 3000000000"
    by (simp add: decode_profit_from_output_def sub_bytes_def from_be_to_be del: to_be.simps)
  have b: "unat (bc_base_fee (ef_block_ctx ?s)) = 20000000"
    by (simp add: fork_new_def BlockContext_default_def)
  show ?thesis
    using fork_simulate_opportunity_verdict [OF f c] by (simp add: f p b del: to_be.simps)
qed

end
