(* ===== verification/Grpc_Server.thy ===== *)
theory Grpc_Server
  imports Evm_Simulator Opportunity_Detector Bundle_Builder Evm_Fork
begin

text \<open>
  The gRPC service (\<^verbatim>\<open>core/src/grpc/server.rs\<close>), which the Go network layer calls: a classified
  transaction is decoded, given to the detector, and each opportunity is simulated in stage 1, in
  stage 2 when it is enabled, and turned into a bundle. The protobuf messages are records with the
  fields of the generated \<^verbatim>\<open>mev.rs\<close>. Clocks and timers are a parameter of each request.
\<close>

section \<open>Messages\<close>

record ProtoSwapInfo =
  pi_amount_in :: bytes
  pi_amount_out_min :: bytes
  pi_path_length :: u32
  pi_deadline :: u64

text \<open>The handlers never read \<open>ct_tx_class\<close>, \<open>ct_swap_info\<close> and \<open>ct_base_fee\<close>.\<close>

record ClassifiedTransaction =
  ct_tx_hash :: bytes
  ct_from :: bytes
  ct_to :: bytes
  ct_value :: bytes
  ct_gas_price :: u64
  ct_gas_limit :: u64
  ct_input :: bytes
  ct_nonce :: u64
  ct_tx_class :: i32
  ct_swap_info :: "ProtoSwapInfo option"
  ct_target_block :: u64
  ct_base_fee :: bytes

record ProtoBundleTx =
  pt_to :: bytes
  pt_value :: bytes
  pt_gas_limit :: u64
  pt_max_fee_per_gas :: bytes
  pt_max_priority_fee_per_gas :: bytes
  pt_data :: bytes

record ProtoBundle =
  pb_transactions :: "ProtoBundleTx list"
  pb_target_block :: u64

record ProtoOpportunity =
  pp_type :: i32
  pp_token_in :: string
  pp_token_out :: string
  pp_amount_in :: bytes
  pp_expected_profit :: bytes
  pp_gas_estimate :: u64
  pp_bundle :: "ProtoBundle option"

record DetectionResult =
  dr_found :: bool
  dr_opportunities :: "ProtoOpportunity list"
  dr_detection_latency_ns :: u64

record StatusResponse =
  sp_running :: bool
  sp_opportunities_detected :: u64
  sp_simulations_run :: u64
  sp_bundles_built :: u64
  sp_uptime_seconds :: u64

datatype Status = InvalidArgument string

section \<open>State\<close>

text \<open>\<open>gs_published\<close> is the sequence of results sent to the broadcast channel.\<close>

record MevGrpcServer =
  gs_config :: Config
  gs_detector :: OpportunityDetector
  gs_simulator :: EvmSimulator
  gs_fork_simulator :: "EvmForkSimulator option"
  gs_builder :: BundleBuilder
  gs_published :: "DetectionResult list"

text \<open>\<^verbatim>\<open>str::trim\<close>: without the longest blank prefix and the longest blank suffix.\<close>

definition trim :: "string \<Rightarrow> string" where
  "trim s =
    (let t = drop (last (filter (\<lambda>n. blank (take n s)) [0..<Suc (length s)])) s
     in take (hd (filter (\<lambda>n. blank (drop n t)) [0..<Suc (length t)])) t)"

definition ascii_lower :: "char \<Rightarrow> char" where
  "ascii_lower c = (let n = of_char c :: nat in if 65 \<le> n \<and> n \<le> 90 then char_of (n + 32) else c)"

definition fork_sim_enabled :: "(string \<rightharpoonup> string) \<Rightarrow> bool" where
  "fork_sim_enabled env =
    (case env ''MEV_ENABLE_FORK_SIM'' of
       Some v \<Rightarrow> map ascii_lower (trim v) \<in> {''1'', ''true'', ''yes'', ''on''}
     | None \<Rightarrow> False)"

definition server_new :: "(string \<rightharpoonup> string) \<Rightarrow> Config \<Rightarrow> MevGrpcServer" where
  "server_new env config =
    \<lparr>gs_config = config, gs_detector = detector_new config, gs_simulator = simulator_new config,
     gs_fork_simulator = (if fork_sim_enabled env then Some (fork_new config) else None),
     gs_builder =
       (case Option.bind (cf_chains config 42161) ch_contract_address of
          Some contract_address \<Rightarrow> set_contract (builder_new config) contract_address
        | None \<Rightarrow> builder_new config),
     gs_published = []\<rparr>"

section \<open>Decoding and encoding\<close>

definition bytes_to_u128 :: "bytes \<Rightarrow> u128" where
  "bytes_to_u128 b =
    (if b = [] then 0
     else let start = (if 16 < length b then length b - 16 else 0); sl = drop start b
          in from_be (replicate (16 - length sl) 0 @ sl))"

definition decode_tx :: "u64 \<Rightarrow> ClassifiedTransaction \<Rightarrow> Status + PendingTx" where
  "decode_tx now proto_tx =
    (if length (ct_tx_hash proto_tx) \<noteq> 32 then Inl (InvalidArgument ''tx_hash must be 32 bytes'')
     else if length (ct_from proto_tx) \<noteq> 20 then Inl (InvalidArgument ''from must be 20 bytes'')
     else Inr \<lparr>tx_hash = from_be (ct_tx_hash proto_tx), tx_from = from_be (ct_from proto_tx),
               tx_to = (if length (ct_to proto_tx) = 20 then Some (from_be (ct_to proto_tx)) else None),
               tx_value = bytes_to_u128 (ct_value proto_tx), tx_gas_price = ucast (ct_gas_price proto_tx),
               tx_gas_limit = ct_gas_limit proto_tx, tx_input = ct_input proto_tx,
               tx_nonce = ct_nonce proto_tx, tx_timestamp = now\<rparr>)"

fun proto_type :: "OpportunityType \<Rightarrow> i32" where
  "proto_type Arbitrage = 0"
| "proto_type Backrun = 1"
| "proto_type Liquidation = 2"

definition encode_opportunity :: "Opportunity \<Rightarrow> ProtoOpportunity" where
  "encode_opportunity opp =
    \<lparr>pp_type = proto_type (opp_type opp), pp_token_in = opp_token_in opp, pp_token_out = opp_token_out opp,
     pp_amount_in = to_be 16 (opp_amount_in opp), pp_expected_profit = to_be 16 (opp_expected_profit opp),
     pp_gas_estimate = opp_gas_estimate opp, pp_bundle = None\<rparr>"

text \<open>\<^verbatim>\<open>trim_start_matches("0x")\<close> removes every leading \<^verbatim>\<open>0x\<close>.\<close>

fun trim_0x :: "string \<Rightarrow> string" where
  "trim_0x (a # b # s) = (if a = CHR ''0'' \<and> b = CHR ''x'' then trim_0x s else a # b # s)"
| "trim_0x s = s"

definition opt_bytes :: "u128 option \<Rightarrow> bytes" where
  "opt_bytes v = (case v of Some x \<Rightarrow> to_be 16 x | None \<Rightarrow> [])"

definition encode_bundle :: "hexcrate \<Rightarrow> u64 \<Rightarrow> Bundle \<Rightarrow> ProtoBundle" where
  "encode_bundle hx target_block b =
    \<lparr>pb_transactions = map (\<lambda>tx.
        \<lparr>pt_to = (case hex_decode hx (trim_0x (bt_to tx)) of Some bs \<Rightarrow> bs | None \<Rightarrow> []),
         pt_value = to_be 16 (bt_value tx), pt_gas_limit = bt_gas_limit tx,
         pt_max_fee_per_gas = opt_bytes (bt_max_fee_per_gas tx),
         pt_max_priority_fee_per_gas = opt_bytes (bt_max_priority_fee_per_gas tx),
         pt_data = bt_data tx\<rparr>) (bu_transactions b),
     pb_target_block = (case bu_target_block b of Some n \<Rightarrow> n | None \<Rightarrow> target_block)\<rparr>"

section \<open>Detection\<close>

text \<open>The clocks of one request: the time of decoding, the total time, and per opportunity the stage-1
  latency and timer and the stage-2 time and latency.\<close>

record request_env =
  re_now :: u64
  re_elapsed_ns :: u64
  re_latency :: "nat \<Rightarrow> u64"
  re_timed_out :: "nat \<Rightarrow> u64 \<Rightarrow> bool"
  re_fork_now :: "nat \<Rightarrow> u64"
  re_fork_latency :: "nat \<Rightarrow> u64"

text \<open>Stage 2 for one opportunity: the new state of the fork simulator and the verdict.\<close>

definition stage2 ::
  "hexcrate \<Rightarrow> 'db revm \<Rightarrow> Config \<Rightarrow> u64 \<Rightarrow> u64 \<Rightarrow> u64 \<Rightarrow> address \<Rightarrow> u64 \<Rightarrow> EvmForkSimulator \<Rightarrow> Opportunity
   \<Rightarrow> EvmForkSimulator \<times> bool" where
  "stage2 hx rv config target_block now latency from nonce fork opp =
    (let max_fee = (ucast (cfg_max_gas_gwei config) :: u128) * 1000000000;
         base_fee = max max_fee 20000000;
         fork1 = update_block fork \<lparr>bc_number = target_block, bc_timestamp = now, bc_base_fee = base_fee,
                   bc_coinbase = 0\<rparr>;
         fork_db = insert_account rv (forkdb_new rv) from 10000000000000000000 nonce [];
         (fork2, sim) = fork_simulate_opportunity hx rv latency fork1 fork_db opp from
     in (fork2, \<not> (\<not> sr_success sim \<or> sint (sr_profit sim) \<le> 0)))"

text \<open>The body of the loop for the \<open>i\<close>-th opportunity.\<close>

definition handle_opportunity ::
  "hexcrate \<Rightarrow> 'db revm \<Rightarrow> request_env \<Rightarrow> u64 \<Rightarrow> PendingTx \<Rightarrow> nat \<Rightarrow> MevGrpcServer \<Rightarrow> Opportunity
   \<Rightarrow> MevGrpcServer \<times> ProtoOpportunity option" where
  "handle_opportunity hx rv re target_block tx i s opp =
    (let (sim, r) = simulate (re_timed_out re i) (re_latency re i) (gs_simulator s) opp;
         s1 = s\<lparr>gs_simulator := sim\<rparr>
     in if \<not> sr_success r \<or> sint (sr_profit r) \<le> 0 then (s1, None)
        else
          let (s2, pass) =
                (case gs_fork_simulator s1 of
                   None \<Rightarrow> (s1, True)
                 | Some fork \<Rightarrow>
                     let (fork', ok) = stage2 hx rv (gs_config s1) target_block (re_fork_now re i)
                           (re_fork_latency re i) (tx_from tx) (tx_nonce tx) fork opp
                     in (s1\<lparr>gs_fork_simulator := Some fork'\<rparr>, ok))
          in if \<not> pass then (s2, None)
             else
               let (bld, built) = build hx (gs_builder s2) opp;
                   s3 = s2\<lparr>gs_builder := bld\<rparr>;
                   proto = encode_opportunity opp
               in (s3, Some (case built of
                     Inr b \<Rightarrow> proto\<lparr>pp_bundle := Some (encode_bundle hx target_block b)\<rparr>
                   | Inl e \<Rightarrow> proto)))"

fun handle_all ::
  "hexcrate \<Rightarrow> 'db revm \<Rightarrow> request_env \<Rightarrow> u64 \<Rightarrow> PendingTx \<Rightarrow> nat \<Rightarrow> MevGrpcServer \<Rightarrow> Opportunity list
   \<Rightarrow> MevGrpcServer \<times> ProtoOpportunity list" where
  "handle_all hx rv re target_block tx i s [] = (s, [])"
| "handle_all hx rv re target_block tx i s (opp # opps) =
    (let (s1, po) = handle_opportunity hx rv re target_block tx i s opp;
         (s2, pos) = handle_all hx rv re target_block tx (Suc i) s1 opps
     in (s2, option_list po @ pos))"

definition detect_opportunity ::
  "hexcrate \<Rightarrow> 'db revm \<Rightarrow> request_env \<Rightarrow> MevGrpcServer \<Rightarrow> ClassifiedTransaction
   \<Rightarrow> (MevGrpcServer \<times> (Status + DetectionResult)) exec" where
  "detect_opportunity hx rv re s proto_tx =
    (case decode_tx (re_now re) proto_tx of
       Inl st \<Rightarrow> Inr (s, Inl st)
     | Inr tx \<Rightarrow>
         bindE (process_tx hx (gs_detector s) tx) (\<lambda>(det, opportunities).
         let s1 = s\<lparr>gs_detector := det\<rparr> in
         if opportunities = []
         then Inr (s1, Inr \<lparr>dr_found = False, dr_opportunities = [], dr_detection_latency_ns = re_elapsed_ns re\<rparr>)
         else
           let (s2, proto_opps) = handle_all hx rv re (ct_target_block proto_tx) tx 0 s1 opportunities;
               result = \<lparr>dr_found = (proto_opps \<noteq> []), dr_opportunities = proto_opps,
                         dr_detection_latency_ns = re_elapsed_ns re\<rparr>
           in Inr (if dr_found result then s2\<lparr>gs_published := gs_published s2 @ [result]\<rparr> else s2, Inr result)))"

section \<open>Streaming and status\<close>

text \<open>A subscriber with a minimum profit receives the results that contain an opportunity of at least that
  profit; with an empty or zero minimum it receives all.\<close>

definition stream_passes :: "u128 \<Rightarrow> DetectionResult \<Rightarrow> bool" where
  "stream_passes min_profit result =
    (if 0 < min_profit
     then list_ex (\<lambda>opp. min_profit \<le> bytes_to_u128 (pp_expected_profit opp)) (dr_opportunities result)
     else True)"

definition stream_opportunities :: "bytes \<Rightarrow> DetectionResult list \<Rightarrow> DetectionResult list" where
  "stream_opportunities min_profit received =
    (let min_profit_u128 = (if min_profit = [] then 0 else bytes_to_u128 min_profit)
     in filter (stream_passes min_profit_u128) received)"

definition get_status :: "u64 \<Rightarrow> MevGrpcServer \<Rightarrow> StatusResponse" where
  "get_status uptime s =
    (let stage1_count = es_count (gs_simulator s);
         stage2_count = (case gs_fork_simulator s of Some f \<Rightarrow> em_total_simulations (fork_metrics f) | None \<Rightarrow> 0)
     in \<lparr>sp_running = True, sp_opportunities_detected = od_count (gs_detector s),
         sp_simulations_run = stage1_count + stage2_count, sp_bundles_built = bb_count (gs_builder s),
         sp_uptime_seconds = uptime\<rparr>)"

section \<open>Big-endian amounts\<close>

lemma be_val_drop: "be_val (drop k bs) = be_val bs mod 256 ^ (length bs - k)"
proof (cases "k \<le> length bs")
  case True
  have "be_val bs = be_val (take k bs) * 256 ^ (length bs - k) + be_val (drop k bs)"
    using be_val_append [of "take k bs" "drop k bs"] by simp
  moreover have "be_val (drop k bs) < 256 ^ (length bs - k)"
    using be_val_bound [of "drop k bs"] by simp
  ultimately show ?thesis
    by simp
qed simp

lemma be_val_zeros: "be_val (replicate n 0 @ bs) = be_val bs"
  by (simp add: be_val_append)

lemma bytes_to_u128_value: "unat (bytes_to_u128 b) = be_val b mod 2 ^ 128"
proof (cases "16 < length b")
  case True
  let ?sl = "drop (length b - 16) b"
  have "unat (from_be ?sl :: u128) = be_val ?sl"
    using True by (intro unat_from_be) simp
  moreover have "be_val ?sl = be_val b mod 2 ^ 128"
    using True by (simp add: be_val_drop)
  moreover have "b \<noteq> []"
    using True by auto
  ultimately show ?thesis
    using True by (simp add: bytes_to_u128_def Let_def)
next
  case False
  let ?p = "replicate (16 - length b) 0 @ b"
  have "unat (from_be ?p :: u128) = be_val ?p"
    using False by (intro unat_from_be) simp
  then have "unat (from_be ?p :: u128) = be_val b"
    by (simp add: be_val_zeros)
  moreover have "be_val b < 2 ^ 128"
    using be_val_bound [of b] power_increasing [of "length b" 16 "256 :: nat"] False by simp
  ultimately show ?thesis
    using False by (simp add: bytes_to_u128_def Let_def)
qed

lemma bytes_to_u128_to_be [codec_simps]: "bytes_to_u128 (to_be 16 v) = v"
  using unat_bound [of v] by (simp add: unat_eq_iff bytes_to_u128_value be_val_to_be)

text \<open>Decoding a request. A request is accepted exactly when the hash has 32 bytes and the sender 20; the
  decoded transaction has the value of the big-endian number modulo \<open>2^128\<close> (bytes beyond the low
  16 are dropped without an error), a recipient exactly when 20 bytes are given, and the gas, the nonce and the
  calldata unchanged.\<close>

theorem decode_tx_correct:
  "case decode_tx now p of
     Inl e \<Rightarrow> length (ct_tx_hash p) \<noteq> 32 \<or> length (ct_from p) \<noteq> 20
   | Inr tx \<Rightarrow> length (ct_tx_hash p) = 32 \<and> length (ct_from p) = 20
       \<and> to_be 32 (tx_hash tx) = ct_tx_hash p \<and> to_be 20 (tx_from tx) = ct_from p
       \<and> map_option (to_be 20) (tx_to tx) = (if length (ct_to p) = 20 then Some (ct_to p) else None)
       \<and> unat (tx_value tx) = be_val (ct_value p) mod 2 ^ 128
       \<and> unat (tx_gas_price tx) = unat (ct_gas_price p) \<and> tx_gas_limit tx = ct_gas_limit p
       \<and> tx_nonce tx = ct_nonce p \<and> tx_input tx = ct_input p \<and> tx_timestamp tx = now"
  by (simp add: decode_tx_def bytes_to_u128_value to_be_from_be unsigned_ucast_eq
      take_bit_eq_mod unat_bound [of "ct_gas_price p", THEN less_le_trans] del: to_be.simps)

text \<open>The stream filter. A subscriber that asks for a minimum profit receives exactly the results in which
  some opportunity's profit, as it was encoded, reaches the minimum.\<close>

theorem stream_opportunities_filter:
  "stream_opportunities (to_be 16 m) (map (\<lambda>opps. \<lparr>dr_found = True, dr_opportunities = map encode_opportunity opps,
      dr_detection_latency_ns = l\<rparr>) oppss)
    = map (\<lambda>opps. \<lparr>dr_found = True, dr_opportunities = map encode_opportunity opps, dr_detection_latency_ns = l\<rparr>)
        (filter (\<lambda>opps. m = 0 \<or> list_ex (\<lambda>opp. m \<le> opp_expected_profit opp) opps) oppss)"
proof -
  have ne: "to_be 16 m \<noteq> []"
    using length_to_be [of 16 m] by (metis list.size(3) zero_neq_numeral)
  have "stream_passes m \<lparr>dr_found = True, dr_opportunities = map encode_opportunity opps, dr_detection_latency_ns = l\<rparr>
      \<longleftrightarrow> m = 0 \<or> list_ex (\<lambda>opp. m \<le> opp_expected_profit opp) opps" for opps
    by (simp add: stream_passes_def encode_opportunity_def list_ex_iff codec_simps word_gt_0 del: to_be.simps)
  then show ?thesis
    using ne by (simp add: stream_opportunities_def Let_def codec_simps filter_map o_def del: to_be.simps)
qed

section \<open>The service as it is wired\<close>

inductive server_reachable ::
  "hexcrate \<Rightarrow> 'db revm \<Rightarrow> (string \<rightharpoonup> string) \<Rightarrow> Config \<Rightarrow> MevGrpcServer \<Rightarrow> bool"
  for hx :: hexcrate and rv :: "'db revm" and env :: "string \<rightharpoonup> string" and config :: Config where
  init: "server_reachable hx rv env config (server_new env config)"
| step: "server_reachable hx rv env config s \<Longrightarrow> detect_opportunity hx rv re s p = Inr (s', r)
    \<Longrightarrow> server_reachable hx rv env config s'"

definition server_inv :: "hexcrate \<Rightarrow> Config \<Rightarrow> MevGrpcServer \<Rightarrow> bool" where
  "server_inv hx config s \<longleftrightarrow> detector_reachable hx config (gs_detector s)
     \<and> es_pool_cache (gs_simulator s) = Map.empty \<and> bb_count (gs_builder s) = 0 \<and> gs_published s = []"

text \<open>With an empty pool cache the simulation of a backrun fails.\<close>

lemma simulate_backrun_empty:
  assumes "es_pool_cache s = Map.empty" "opp_type opp = Backrun"
  shows "\<not> sr_success (snd (simulate t l s opp))"
proof -
  let ?s = "s\<lparr>es_count := es_count s + 1\<rparr>"
  have "\<exists>e. simulate_backrun ?s opp = Inl e"
    using assms(1) by (simp only: simulate_backrun_error_iff) auto
  then obtain e where "simulate_kind ?s opp = Inl e"
    using assms(2) by (auto simp: simulate_kind_def)
  then show ?thesis
    by (simp add: simulate_def simulate_inner_def Let_def failed_result_def)
qed

lemma handle_backrun:
  assumes "server_inv hx config s" "opp_type opp = Backrun"
  shows "\<exists>sim. handle_opportunity hx rv re tb tx i s opp = (s\<lparr>gs_simulator := sim\<rparr>, None)
    \<and> es_pool_cache sim = Map.empty"
proof -
  obtain sim r where sr: "simulate (re_timed_out re i) (re_latency re i) (gs_simulator s) opp = (sim, r)"
    by fastforce
  have e: "es_pool_cache (gs_simulator s) = Map.empty"
    using assms(1) by (simp add: server_inv_def)
  have "\<not> sr_success r" "es_pool_cache sim = Map.empty"
    using simulate_backrun_empty [OF e assms(2), of "re_timed_out re i" "re_latency re i"]
      simulate_frame(1) [of "re_timed_out re i" "re_latency re i" "gs_simulator s" opp] e
    by (simp_all add: sr)
  then show ?thesis
    by (intro exI [of _ sim]) (simp add: handle_opportunity_def sr)
qed

lemma handle_backruns:
  "server_inv hx config s \<Longrightarrow> \<forall>opp \<in> set opps. opp_type opp = Backrun \<Longrightarrow>
    snd (handle_all hx rv re tb tx i s opps) = [] \<and> server_inv hx config (fst (handle_all hx rv re tb tx i s opps))"
proof (induction opps arbitrary: i s)
  case (Cons opp opps)
  obtain sim where h: "handle_opportunity hx rv re tb tx i s opp = (s\<lparr>gs_simulator := sim\<rparr>, None)"
    and e: "es_pool_cache sim = Map.empty"
    using handle_backrun [OF Cons.prems(1), of opp rv re tb tx i] Cons.prems(2) by auto
  have "server_inv hx config (s\<lparr>gs_simulator := sim\<rparr>)"
    using Cons.prems(1) e by (simp add: server_inv_def)
  from Cons.IH [OF this, of "Suc i"] Cons.prems(2) h show ?case
    by (simp add: option_list_def split_beta)
qed simp

lemma detect_opportunity_inv:
  assumes "server_inv hx config s" "detect_opportunity hx rv re s p = Inr (s', res)"
  shows "server_inv hx config s' \<and> (\<forall>r. res = Inr r \<longrightarrow> \<not> dr_found r \<and> dr_opportunities r = [])"
proof (cases "decode_tx (re_now re) p")
  case (Inl e)
  with assms show ?thesis by (auto simp: detect_opportunity_def)
next
  case (Inr tx)
  with assms(2) obtain det opps where d: "process_tx hx (gs_detector s) tx = Inr (det, opps)"
    by (auto simp: detect_opportunity_def bindE_eq_Inr_iff)
  have r: "detector_reachable hx config (gs_detector s)"
    using assms(1) by (simp add: server_inv_def)
  have b: "\<forall>opp \<in> set opps. opp_type opp = Backrun"
    using only_backruns [OF r d] by blast
  have i: "server_inv hx config (s\<lparr>gs_detector := det\<rparr>)"
    using assms(1) detector_reachable.step [OF r d] by (simp add: server_inv_def)
  obtain s2 pos where h: "handle_all hx rv re (ct_target_block p) tx 0 (s\<lparr>gs_detector := det\<rparr>) opps = (s2, pos)"
    by fastforce
  then have "pos = []" "server_inv hx config s2"
    using handle_backruns [OF i b, of rv re "ct_target_block p" tx 0] by simp_all
  then show ?thesis
    using assms(2) i Inr d h by (auto simp: detect_opportunity_def Let_def split: if_splits)
qed

lemma server_reachable_inv: "server_reachable hx rv env config s \<Longrightarrow> server_inv hx config s"
proof (induction rule: server_reachable.induct)
  case init
  show ?case
    by (auto simp: server_inv_def server_new_def simulator_new_def builder_new_def set_contract_def
        intro: detector_reachable.init split: option.split)
next
  case (step s re p s' r)
  then show ?case
    using detect_opportunity_inv by blast
qed

text \<open>C39: the service as wired never reports an opportunity. In every state that the server can reach, every
  request that is answered with a result is answered with \<open>found = false\<close> and no opportunities;
  no bundle is ever built and nothing is published to subscribers. The arbitrage cache and the
  positions are never filled, and every backrun fails stage 1 because the simulator's pool cache is
  never filled either.\<close>

theorem server_never_finds:
  fixes rv :: "'db revm"
  assumes "server_reachable hx rv env config s" "detect_opportunity hx rv re s p = Inr (s', Inr r)"
  shows "\<not> dr_found r \<and> dr_opportunities r = [] \<and> bb_count (gs_builder s') = 0 \<and> gs_published s' = []"
  using detect_opportunity_inv [OF server_reachable_inv [OF assms(1)] assms(2)] by (simp add: server_inv_def)

text \<open>A request whose backrun is detected, simulated and rejected.\<close>

definition sample_request :: ClassifiedTransaction where
  "sample_request =
    \<lparr>ct_tx_hash = to_be 32 (1 :: bytes32), ct_from = to_be 20 (2 :: address), ct_to = to_be 20 (3 :: address),
     ct_value = to_be 16 (100000000000000000000 :: u128), ct_gas_price = 1, ct_gas_limit = 21000,
     ct_input = [0x7f, 0xf3, 0x6a, 0xb5], ct_nonce = 0, ct_tx_class = 0, ct_swap_info = None,
     ct_target_block = 500, ct_base_fee = []\<rparr>"

definition sample_env :: request_env where
  "sample_env = \<lparr>re_now = 100, re_elapsed_ns = 9, re_latency = (\<lambda>_. 3), re_timed_out = (\<lambda>_ _. False),
     re_fork_now = (\<lambda>_. 100), re_fork_latency = (\<lambda>_. 4)\<rparr>"

lemma decode_sample: "decode_tx 100 sample_request = Inr backrun_sample_tx"
  by (simp add: decode_tx_def sample_request_def backrun_sample_tx_def sample_tx_with_def codec_simps
      del: to_be.simps)

theorem decode_tx_correct_witness:
  "\<exists>tx. decode_tx 100 sample_request = Inr tx
    \<and> unat (tx_value tx) = be_val (ct_value sample_request) mod 2 ^ 128 \<and> tx_input tx = ct_input sample_request"
  using decode_tx_correct [of sample_request 100] by (simp add: decode_sample)

theorem server_never_finds_witness:
  "\<exists>s' r. detect_opportunity hex_std revm_sample sample_env (server_new Map.empty (Config_default 8)) sample_request
      = Inr (s', Inr r) \<and> od_count (gs_detector s') = 1 \<and> \<not> dr_found r"
proof -
  let ?s = "server_new Map.empty (Config_default 8)"
  have r: "server_reachable hex_std revm_sample Map.empty (Config_default 8) ?s"
    by (rule server_reachable.init)
  have d: "gs_detector ?s = detector_new (Config_default 8)"
    by (simp add: server_new_def)
  obtain det opp where p: "process_tx hex_std (detector_new (Config_default 8)) backrun_sample_tx = Inr (det, [opp])"
    using process_sample by blast
  have c: "od_count det = 1"
    using process_tx_frame(5) [OF p] by (simp add: detector_new_def)
  obtain s2 pos where h: "handle_all hex_std revm_sample sample_env 500 backrun_sample_tx 0
      (?s\<lparr>gs_detector := det\<rparr>) [opp] = (s2, pos)"
    by fastforce
  have frame: "gs_detector (fst (handle_opportunity hex_std revm_sample sample_env 500 tx i s o')) = gs_detector s"
    for tx i s o'
    by (auto simp: handle_opportunity_def Let_def split: prod.split option.split)
  have "gs_detector s2 = det"
    using h frame [of backrun_sample_tx 0 "?s\<lparr>gs_detector := det\<rparr>" opp] by (auto simp: split_beta)
  moreover have e: "re_now sample_env = 100" "ct_target_block sample_request = 500"
    by (simp_all add: sample_env_def sample_request_def)
  ultimately obtain s' res where q: "detect_opportunity hex_std revm_sample sample_env ?s sample_request = Inr (s', Inr res)"
    and g: "gs_detector s' = det"
    using h by (auto simp: detect_opportunity_def e decode_sample d p Let_def)
  with c server_never_finds [OF r q] show ?thesis
    by auto
qed

end
