(* ===== verification/Ethers_U256.thy ===== *)
theory Ethers_U256
  imports Prelude
begin

text \<open>
  The 256-bit integers of the \<^verbatim>\<open>ethers\<close> crate, which the Arbitrum modules, the mempool monitor
  and the threaded detector compute with. The crate is not part of the repository: its operations
  are a parameter, the record \<open>u256crate\<close>, and the locale \<open>u256_laws\<close> states the documented
  behaviour the code relies on (the operators panic on overflow and on a zero divisor instead of
  wrapping around, the narrowing conversions panic on a value that does not fit). A value is a
  256-bit word and is compared as a number.
\<close>

type_synonym u256 = "256 word"

record u256crate =
  ux_add :: "u256 \<Rightarrow> u256 \<Rightarrow> u256 exec"
  ux_sub :: "u256 \<Rightarrow> u256 \<Rightarrow> u256 exec"
  ux_mul :: "u256 \<Rightarrow> u256 \<Rightarrow> u256 exec"
  ux_div :: "u256 \<Rightarrow> u256 \<Rightarrow> u256 exec"
  ux_as_usize :: "u256 \<Rightarrow> usize exec"
  ux_as_u64 :: "u256 \<Rightarrow> u64 exec"
  ux_as_u128 :: "u256 \<Rightarrow> u128 exec"
  ux_low_u32 :: "u256 \<Rightarrow> u32"
  ux_from_big_endian :: "bytes \<Rightarrow> u256"
  ux_to_big_endian :: "u256 \<Rightarrow> bytes"

locale u256_laws =
  fixes ux :: u256crate
  assumes add_law: "ux_add ux a b = (if unat a + unat b < 2 ^ 256 then Inr (a + b) else Inl ArithmeticOverflow)"
    and sub_law: "ux_sub ux a b = (if b \<le> a then Inr (a - b) else Inl ArithmeticOverflow)"
    and mul_law: "ux_mul ux a b = (if unat a * unat b < 2 ^ 256 then Inr (a * b) else Inl ArithmeticOverflow)"
    and div_law: "ux_div ux a b = (if b = 0 then Inl DivisionByZero else Inr (a div b))"
    and as_usize_law: "ux_as_usize ux a = (if unat a < 2 ^ 64 then Inr (ucast a) else Inl IntegerCast)"
    and as_u64_law: "ux_as_u64 ux a = (if unat a < 2 ^ 64 then Inr (ucast a) else Inl IntegerCast)"
    and as_u128_law: "ux_as_u128 ux a = (if unat a < 2 ^ 128 then Inr (ucast a) else Inl IntegerCast)"
    and low_u32_law: "ux_low_u32 ux a = ucast a"
    and from_be_law: "length bs = 32 \<Longrightarrow> ux_from_big_endian ux bs = from_be bs"
    and to_be_law: "ux_to_big_endian ux a = to_be 32 a"
begin

text \<open>Results as numbers: an operation returns exactly when the exact result fits.\<close>

lemma add_Inr_iff: "ux_add ux a b = Inr c \<longleftrightarrow> unat c = unat a + unat b"
  using unat_bound [of c] by (auto simp: add_law unat_eq_iff unat_add_exact)

lemma sub_Inr_iff: "ux_sub ux a b = Inr c \<longleftrightarrow> unat a = unat c + unat b"
proof (cases "b \<le> a")
  case True
  then show ?thesis
    by (auto simp: sub_law unat_eq_iff unat_sub_exact word_le_nat_alt)
next
  case False
  then show ?thesis
    by (auto simp: sub_law word_le_nat_alt)
qed

lemma mul_Inr_iff: "ux_mul ux a b = Inr c \<longleftrightarrow> unat c = unat a * unat b"
  using unat_bound [of c] by (auto simp: mul_law unat_eq_iff unat_mult_exact)

lemma div_Inr_iff: "ux_div ux a b = Inr c \<longleftrightarrow> b \<noteq> 0 \<and> unat c = unat a div unat b"
  by (auto simp: div_law unat_eq_iff unat_div)

lemma as_usize_Inr_iff: "ux_as_usize ux a = Inr n \<longleftrightarrow> unat n = unat a"
proof (cases "unat a < 2 ^ 64")
  case True
  then have "unat (ucast a :: usize) = unat a"
    by (simp add: unsigned_ucast_eq take_bit_eq_mod)
  with True show ?thesis
    by (auto simp: as_usize_law unat_eq_iff)
next
  case False
  then show ?thesis
    using unat_bound [of n] by (auto simp: as_usize_law)
qed

lemma as_u128_Inr_iff: "ux_as_u128 ux a = Inr n \<longleftrightarrow> unat n = unat a"
proof (cases "unat a < 2 ^ 128")
  case True
  then have "unat (ucast a :: u128) = unat a"
    by (simp add: unsigned_ucast_eq take_bit_eq_mod)
  with True show ?thesis
    by (auto simp: as_u128_law unat_eq_iff)
next
  case False
  then show ?thesis
    using unat_bound [of n] by (auto simp: as_u128_law)
qed

lemma as_u64_Inr_iff: "ux_as_u64 ux a = Inr n \<longleftrightarrow> unat n = unat a"
proof (cases "unat a < 2 ^ 64")
  case True
  then have "unat (ucast a :: u64) = unat a"
    by (simp add: unsigned_ucast_eq take_bit_eq_mod)
  with True show ?thesis
    by (auto simp: as_u64_law unat_eq_iff)
next
  case False
  then show ?thesis
    using unat_bound [of n] by (auto simp: as_u64_law)
qed

lemma unat_from_big_endian: "length bs = 32 \<Longrightarrow> unat (ux_from_big_endian ux bs) = be_val bs"
  by (simp add: from_be_law unat_from_be)

lemmas Inr_iffs = add_Inr_iff sub_Inr_iff mul_Inr_iff div_Inr_iff as_usize_Inr_iff

lemma mul_ok:
  assumes "unat a * unat b < 2 ^ 256"
  obtains c where "ux_mul ux a b = Inr c" "unat c = unat a * unat b"
  using assms by (intro that [of "a * b"]) (simp_all add: mul_law unat_mult_exact)

lemma add_ok:
  assumes "unat a + unat b < 2 ^ 256"
  obtains c where "ux_add ux a b = Inr c" "unat c = unat a + unat b"
  using assms by (intro that [of "a + b"]) (simp_all add: add_law unat_add_exact)

lemma sub_ok:
  assumes "unat b \<le> unat a"
  obtains c where "ux_sub ux a b = Inr c" "unat c = unat a - unat b"
  using assms by (intro that [of "a - b"]) (simp_all add: sub_law word_le_nat_alt unat_sub)

lemma div_ok:
  assumes "0 < unat b"
  obtains c where "ux_div ux a b = Inr c" "unat c = unat a div unat b"
proof (rule that [of "a div b"])
  show "ux_div ux a b = Inr (a div b)"
    using assms by (auto simp: div_law)
  show "unat (a div b) = unat a div unat b"
    by (rule unat_div)
qed

end

text \<open>A concrete crate, which shows that the laws can hold.\<close>

definition u256_std :: u256crate where
  "u256_std =
    \<lparr>ux_add = \<lambda>a b. if unat a + unat b < 2 ^ 256 then Inr (a + b) else Inl ArithmeticOverflow,
     ux_sub = \<lambda>a b. if b \<le> a then Inr (a - b) else Inl ArithmeticOverflow,
     ux_mul = \<lambda>a b. if unat a * unat b < 2 ^ 256 then Inr (a * b) else Inl ArithmeticOverflow,
     ux_div = \<lambda>a b. if b = 0 then Inl DivisionByZero else Inr (a div b),
     ux_as_usize = \<lambda>a. if unat a < 2 ^ 64 then Inr (ucast a) else Inl IntegerCast,
     ux_as_u64 = \<lambda>a. if unat a < 2 ^ 64 then Inr (ucast a) else Inl IntegerCast,
     ux_as_u128 = \<lambda>a. if unat a < 2 ^ 128 then Inr (ucast a) else Inl IntegerCast,
     ux_low_u32 = ucast, ux_from_big_endian = from_be, ux_to_big_endian = to_be 32\<rparr>"

interpretation std_u256: u256_laws u256_std
  by unfold_locales (simp_all add: u256_std_def)

end
