(* ===== verification/Fast_Path.thy ===== *)
theory Fast_Path
  imports Ethers_U256 Amm_Math
begin

text \<open>
  The foreign-function layer of the engine in the build without the C library
  (\<^verbatim>\<open>core/src/ffi/mod.rs\<close>, \<^verbatim>\<open>core/src/ffi/hot_path.rs\<close> and
  \<^verbatim>\<open>core/src/ffi/simulator.rs\<close>, configuration \<^verbatim>\<open>not(has_c_fast_path)\<close>): RLP encoding,
  hashing and selectors, the four-pool price batch, the opportunity queue, the transaction buffer,
  the V2 amounts on 64-bit reserves and the token fingerprint. Keccak-256 is a parameter.
\<close>

section \<open>RLP\<close>

text \<open>\<^verbatim>\<open>iter().position(|&b| b != 0)\<close> and the bytes from there on.\<close>

fun first_nonzero :: "bytes \<Rightarrow> nat option" where
  "first_nonzero [] = None"
| "first_nonzero (b # bs) = (if b \<noteq> 0 then Some 0 else map_option Suc (first_nonzero bs))"

definition to_be_bytes :: "usize \<Rightarrow> bytes" where
  "to_be_bytes n =
    (let bs = to_be 8 n;
         start = (case first_nonzero bs of Some i \<Rightarrow> i | None \<Rightarrow> length bs - 1)
     in drop start bs)"

definition rlp_encode :: "bytes \<Rightarrow> bytes" where
  "rlp_encode input =
    (if length input = 1 \<and> hd input < 0x80 then input
     else if length input < 56 then (0x80 + word_of_nat (length input)) # input
     else let len_bytes = to_be_bytes (word_of_nat (length input))
          in (0xb7 + word_of_nat (length len_bytes)) # len_bytes @ input)"

definition rlp_encode_address :: "address \<Rightarrow> bytes" where
  "rlp_encode_address addr = (0x80 + 20) # to_be 20 addr"

definition rlp_encode_u256 :: "u256crate \<Rightarrow> u256 \<Rightarrow> bytes" where
  "rlp_encode_u256 ux value =
    (let bs = ux_to_big_endian ux value;
         start = (case first_nonzero bs of Some i \<Rightarrow> i | None \<Rightarrow> 32)
     in if start = 32 then [0x80]
        else let significant = drop start bs
             in if length significant = 1 \<and> hd significant < 0x80 then significant
                else (0x80 + word_of_nat (length significant)) # significant)"

section \<open>Hashes, selectors, prices\<close>

definition init_pools :: bool where
  "init_pools = True"

definition keccak256 :: "(bytes \<Rightarrow> bytes32) \<Rightarrow> bytes \<Rightarrow> bytes32" where
  "keccak256 k256 input = k256 input"

definition function_selector :: "(bytes \<Rightarrow> bytes32) \<Rightarrow> bytes \<Rightarrow> bytes" where
  "function_selector k256 signature = take 4 (to_be 32 (keccak256 k256 signature))"

definition address_eq :: "address \<Rightarrow> address \<Rightarrow> bool" where
  "address_eq a b = (a = b)"

definition price_impact :: "u64 \<Rightarrow> u64 \<Rightarrow> u64 \<Rightarrow> u64" where
  "price_impact reserve0 reserve1 amount_in =
    (let r0 = (ucast reserve0 :: u128); r1 = (ucast reserve1 :: u128)
     in if r0 = 0 then 0
        else let amt = (ucast amount_in :: u128);
                 numerator = amt * r1 * 997;
                 denominator = r0 * 1000 + amt * 997
             in ucast (numerator div denominator))"

definition calc_price_impact_batch :: "u64 list \<Rightarrow> u64 list \<Rightarrow> u64 \<Rightarrow> u64 list" where
  "calc_price_impact_batch reserves0 reserves1 amount_in =
     map (\<lambda>i. price_impact (reserves0 ! i) (reserves1 ! i) amount_in) [0..<4]"

section \<open>V2 amounts\<close>

definition v2_amount_out :: "u64 \<Rightarrow> u64 \<Rightarrow> u32 \<Rightarrow> u64 \<Rightarrow> u64 option" where
  "v2_amount_out reserve_in reserve_out fee_bps amount_in =
    (if reserve_in = 0 \<or> reserve_out = 0 \<or> amount_in = 0 then None
     else let fc = 10000 - (ucast fee_bps :: u128) div 100;
              ain = ucast amount_in * fc;
              num = ain * ucast reserve_out;
              den = ucast reserve_in * 10000 + ain
          in if den = 0 then None
             else let out = num div den
                  in if 0xFFFFFFFFFFFFFFFF < out then None else Some (ucast out))"

definition v2_amount_in :: "u64 \<Rightarrow> u64 \<Rightarrow> u32 \<Rightarrow> u64 \<Rightarrow> u64 option" where
  "v2_amount_in reserve_in reserve_out fee_bps amount_out =
    (if reserve_in = 0 \<or> reserve_out = 0 \<or> reserve_out \<le> amount_out then None
     else let fc = 10000 - (ucast fee_bps :: u128) div 100;
              num = ucast reserve_in * ucast amount_out * 10000;
              den = (ucast reserve_out - ucast amount_out) * fc
          in if den = 0 then None
             else let ain = num div den + 1
                  in if 0xFFFFFFFFFFFFFFFF < ain then None else Some (ucast ain))"

text \<open>The V3 wrapper has no Rust fallback and returns nothing.\<close>

definition v3_amount_out :: "u64 \<Rightarrow> u64 \<Rightarrow> bool \<Rightarrow> u32 \<Rightarrow> u64 \<Rightarrow> u64 option" where
  "v3_amount_out liquidity sqrt_price_x64 zero_for_one fee_bps amount_in = None"

definition fnv1a_64 :: "bytes \<Rightarrow> u64" where
  "fnv1a_64 data = foldl (\<lambda>h b. (h XOR ucast b) * 1099511628211) 14695981039346656037 data"

definition token_fingerprint :: "address \<Rightarrow> u64" where
  "token_fingerprint addr = fnv1a_64 (to_be 20 addr)"

section \<open>The opportunity queue and the transaction buffer\<close>

text \<open>The fallback queue is a deque behind a lock; an item is an opaque pointer. The capacity only
  reserves memory.\<close>

record 'p OpportunityQueue =
  oq_inner :: "'p list"

definition queue_new :: "usize \<Rightarrow> 'p OpportunityQueue option" where
  "queue_new capacity = Some \<lparr>oq_inner = []\<rparr>"

definition queue_push :: "'p OpportunityQueue \<Rightarrow> 'p \<Rightarrow> 'p OpportunityQueue \<times> bool" where
  "queue_push q item = (q\<lparr>oq_inner := oq_inner q @ [item]\<rparr>, True)"

definition queue_pop :: "'p OpportunityQueue \<Rightarrow> 'p OpportunityQueue \<times> 'p option" where
  "queue_pop q =
    (case oq_inner q of
       [] \<Rightarrow> (q, None)
     | x # xs \<Rightarrow> (q\<lparr>oq_inner := xs\<rparr>, Some x))"

definition queue_len :: "'p OpportunityQueue \<Rightarrow> usize" where
  "queue_len q = word_of_nat (length (oq_inner q))"

definition queue_is_empty :: "'p OpportunityQueue \<Rightarrow> bool" where
  "queue_is_empty q = (queue_len q = 0)"

record TxBuffer =
  tb_buf :: bytes
  tb_len :: usize

definition txbuf_new :: "TxBuffer option" where
  "txbuf_new = Some \<lparr>tb_buf = replicate 512 0, tb_len = 0\<rparr>"

definition as_slice :: "TxBuffer \<Rightarrow> bytes exec" where
  "as_slice b = slice (tb_buf b) 0 (tb_len b)"

text \<open>A mutable slice is the buffer with the new length, the bytes it exposes, and a function that puts
  back what the caller stores in them.\<close>

definition as_mut_slice :: "TxBuffer \<Rightarrow> usize \<Rightarrow> (TxBuffer \<times> bytes) exec" where
  "as_mut_slice b len =
    (let b' = b\<lparr>tb_len := min len 512\<rparr>
     in bindE (slice (tb_buf b') 0 (tb_len b')) (\<lambda>s. Inr (b', s)))"

definition store_slice :: "TxBuffer \<Rightarrow> bytes \<Rightarrow> TxBuffer" where
  "store_slice b xs = b\<lparr>tb_buf := xs @ drop (length xs) (tb_buf b)\<rparr>"

section \<open>Leading zeros\<close>

lemma first_nonzero_Some:
  "first_nonzero bs = Some i \<Longrightarrow> i < length bs \<and> hd (drop i bs) \<noteq> 0 \<and> take i bs = replicate i 0"
  by (induction bs arbitrary: i) (auto split: if_splits)

lemma first_nonzero_None: "first_nonzero bs = None \<longleftrightarrow> bs = replicate (length bs) 0"
  by (induction bs) (auto split: if_splits)

lemma be_val_drop_zeros:
  assumes "take i bs = replicate i 0"
  shows "be_val (drop i bs) = be_val bs"
  using be_val_append [of "take i bs" "drop i bs", unfolded append_take_drop_id] by (simp add: assms)

lemma first_nonzero_be_val: "first_nonzero bs = None \<longleftrightarrow> be_val bs = 0"
proof
  assume "first_nonzero bs = None"
  then show "be_val bs = 0"
    by (metis be_val_replicate_0 first_nonzero_None)
next
  assume "be_val bs = 0"
  then have "bs = replicate (length bs) 0"
    by (intro be_val_inj) simp_all
  then show "first_nonzero bs = None"
    by (simp add: first_nonzero_None)
qed

lemma to_be_bytes_props:
  assumes "0 < unat n"
  shows "be_val (to_be_bytes n) = unat n" "0 < length (to_be_bytes n)" "length (to_be_bytes n) \<le> 8"
proof -
  have v: "be_val (to_be 8 n) = unat n"
    using unat_bound [of n] by (simp add: be_val_to_be del: to_be.simps)
  then obtain i where i: "first_nonzero (to_be 8 n) = Some i"
    using assms first_nonzero_be_val [of "to_be 8 n"] by (auto simp del: to_be.simps)
  have d: "to_be_bytes n = drop i (to_be 8 n)"
    by (simp add: to_be_bytes_def i Let_def del: to_be.simps)
  from first_nonzero_Some [OF i] show "be_val (to_be_bytes n) = unat n" "0 < length (to_be_bytes n)"
    "length (to_be_bytes n) \<le> 8"
    by (simp_all add: d be_val_drop_zeros v del: to_be.simps)
qed

section \<open>RLP is uniquely readable\<close>

text \<open>The reference reader of the Ethereum encoding: one byte string from the front of a stream.\<close>

definition rlp_decode :: "bytes \<Rightarrow> (bytes \<times> bytes) option" where
  "rlp_decode s =
    (case s of
       [] \<Rightarrow> None
     | b # r \<Rightarrow>
         if unat b < 128 then Some ([b], r)
         else if unat b < 184
           then let n = unat b - 128 in if length r < n then None else Some (take n r, drop n r)
         else if unat b < 192
           then let k = unat b - 183 in
             if length r < k then None
             else let n = be_val (take k r); t = drop k r
                  in if length t < n then None else Some (take n t, drop n t)
         else None)"

lemma rlp_short:
  assumes "length bs < 56" "p = 0x80 + word_of_nat (length bs)"
  shows "rlp_decode (p # bs @ r) = Some (bs, r)"
proof -
  have "unat p = 128 + length bs"
    unfolding assms(2) using assms(1) by (subst unat_add_exact) (simp_all add: unat_word_of_nat_small)
  then show ?thesis
    using assms(1) by (simp add: rlp_decode_def)
qed

lemma rlp_long:
  assumes "0 < length ls" "length ls \<le> 8" "be_val ls = length bs" "p = 0xb7 + word_of_nat (length ls)"
  shows "rlp_decode (p # ls @ bs @ r) = Some (bs, r)"
proof -
  have "unat p = 183 + length ls"
    unfolding assms(4) using assms(2) by (subst unat_add_exact) (simp_all add: unat_word_of_nat_small)
  then show ?thesis
    using assms(1-3) by (simp add: rlp_decode_def)
qed

lemma rlp_decode_encode:
  assumes "length input < 2 ^ 64"
  shows "rlp_decode (rlp_encode input @ r) = Some (input, r)"
proof -
  consider (byte) b where "input = [b]" "b < 0x80"
    | (short) "\<not> (length input = 1 \<and> hd input < 0x80)" "length input < 56"
    | (long) "56 \<le> length input"
    by (cases input rule: list.exhaust) (force, metis One_nat_def leI length_0_conv length_Suc_conv list.sel(1))
  then show ?thesis
  proof cases
    case byte
    then show ?thesis by (simp add: rlp_encode_def rlp_decode_def word_less_nat_alt)
  next
    case short
    then have "rlp_encode input = (0x80 + word_of_nat (length input)) # input"
      by (simp add: rlp_encode_def)
    with short show ?thesis by (simp add: rlp_short)
  next
    case long
    let ?ls = "to_be_bytes (word_of_nat (length input))"
    have n: "unat (word_of_nat (length input) :: usize) = length input"
      using assms by (simp add: unat_word_of_nat_small)
    have e: "rlp_encode input = (0xb7 + word_of_nat (length ?ls)) # ?ls @ input"
      using long by (auto simp: rlp_encode_def Let_def)
    have "0 < unat (word_of_nat (length input) :: usize)"
      using long by (simp only: n)
    then have "0 < length ?ls" "length ?ls \<le> 8" "be_val ?ls = length input"
      using to_be_bytes_props [of "word_of_nat (length input)"] by (simp_all only: n)
    then show ?thesis
      unfolding e by (simp add: rlp_long)
  qed
qed

text \<open>The RLP encoding can be read back. For every byte string shorter than \<open>2^64\<close> bytes, reading the
  encoding followed by any other bytes gives the string and exactly those bytes; so two strings
  never share an encoding and no encoding is a prefix of another.\<close>

theorem rlp_encode_round_trip:
  assumes "length input < 2 ^ 64"
  shows "rlp_decode (rlp_encode input @ rest) = Some (input, rest)"
  using assms by (rule rlp_decode_encode)

theorem rlp_encode_round_trip_witness:
  "rlp_decode (rlp_encode (replicate 300 7) @ [1, 2]) = Some (replicate 300 7, [1, 2])
   \<and> length (rlp_encode (replicate 300 7)) = 303"
proof -
  have "length (to_be_bytes 300) = 2"
    by code_simp
  then have "length (rlp_encode (replicate 300 7)) = 303"
    by (simp add: rlp_encode_def Let_def)
  then show ?thesis
    using rlp_encode_round_trip [of "replicate 300 7" "[1, 2]"] by simp
qed

context u256_laws
begin

lemma rlp_encode_u256_canonical:
  "\<exists>bs. rlp_encode_u256 ux v = rlp_encode bs \<and> be_val bs = unat v \<and> length bs \<le> 32 \<and> (bs = [] \<or> hd bs \<noteq> 0)"
proof -
  let ?bs = "to_be 32 v"
  have val: "be_val ?bs = unat v"
    using unat_bound [of v] by (simp add: be_val_to_be del: to_be.simps)
  show ?thesis
  proof (cases "first_nonzero ?bs")
    case None
    then have "rlp_encode_u256 ux v = rlp_encode []"
      by (simp add: rlp_encode_u256_def to_be_law rlp_encode_def del: to_be.simps)
    moreover have "unat v = 0"
      using None first_nonzero_be_val val by metis
    ultimately show ?thesis
      by (intro exI [of _ "[]"]) simp
  next
    case (Some i)
    from first_nonzero_Some [OF this]
    have i: "i < 32" "hd (drop i ?bs) \<noteq> 0" "take i ?bs = replicate i 0"
      by (simp_all del: to_be.simps)
    then have "rlp_encode_u256 ux v = rlp_encode (drop i ?bs)"
      by (auto simp: rlp_encode_u256_def to_be_law Some rlp_encode_def Let_def simp del: to_be.simps)
    with i val show ?thesis
      by (intro exI [of _ "drop i ?bs"]) (simp add: be_val_drop_zeros del: to_be.simps)
  qed
qed

end

text \<open>Integers are encoded canonically. The encoding of a 256-bit integer reads back as a byte string of
  at most 32 bytes with no leading zero whose big-endian value is the integer; zero is the empty
  string.\<close>

theorem rlp_encode_u256_reads_back:
  assumes "u256_laws ux"
  shows "\<exists>bs. rlp_decode (rlp_encode_u256 ux v @ rest) = Some (bs, rest) \<and> be_val bs = unat v
    \<and> length bs \<le> 32 \<and> (bs = [] \<or> hd bs \<noteq> 0)"
proof -
  obtain bs where "rlp_encode_u256 ux v = rlp_encode bs" "be_val bs = unat v" "length bs \<le> 32" "bs = [] \<or> hd bs \<noteq> 0"
    using u256_laws.rlp_encode_u256_canonical [OF assms] by blast
  then show ?thesis
    using rlp_decode_encode [of bs rest] by auto
qed

theorem rlp_encode_u256_reads_back_witness:
  "\<exists>bs. rlp_decode (rlp_encode_u256 u256_std 1000 @ [9]) = Some (bs, [9]) \<and> be_val bs = 1000"
  using rlp_encode_u256_reads_back [OF std_u256.u256_laws_axioms, of 1000 "[9]"] by auto

section \<open>V2 amounts\<close>

lemma unat_ucast_64_128: "unat (ucast (a :: u64) :: u128) = unat a"
  using unat_bound [of a] by (simp add: unsigned_ucast_eq take_bit_eq_mod)

lemma unat_ucast_128_64: "unat (a :: u128) < 2 ^ 64 \<Longrightarrow> unat (ucast a :: u64) = unat a"
  by (simp add: unsigned_ucast_eq take_bit_eq_mod)

lemma unat_fee_fraction:
  assumes "unat (fee :: u32) \<le> 1000000"
  shows "unat (10000 - (ucast fee :: u128) div 100) = 10000 - unat fee div 100"
proof -
  have "unat (ucast fee :: u128) = unat fee"
    using unat_bound [of fee] by (simp add: unsigned_ucast_eq take_bit_eq_mod)
  then have "unat ((ucast fee :: u128) div 100) = unat fee div 100"
    by (simp add: unat_div)
  with assms show ?thesis
    by (subst unat_sub_exact) (simp_all add: word_le_nat_alt div_le_mono [of _ 1000000 100, simplified])
qed

lemma v2_operands:
  fixes ri ro a :: u64 and fee :: u32
  assumes "unat fee \<le> 1000000"
  defines "fc \<equiv> 10000 - unat fee div 100"
  defines "ain \<equiv> (ucast a :: u128) * (10000 - ucast fee div 100)"
  shows "unat ain = unat a * fc" "unat ((ucast ri :: u128) * 10000 + ain) = unat ri * 10000 + unat a * fc"
proof -
  have fc: "fc \<le> 10000"
    by (simp add: fc_def)
  have a: "unat a * fc \<le> 2 ^ 64 * 10000"
    using unat_bound [of a] fc by (intro mult_le_mono) simp_all
  then show ain: "unat ain = unat a * fc"
    unfolding ain_def fc_def
    by (subst unat_mult_exact) (simp_all add: unat_fee_fraction [OF assms(1)] unat_ucast_64_128)
  have r: "unat ri * 10000 \<le> 2 ^ 64 * 10000"
    using unat_bound [of ri] by simp
  then have "unat ((ucast ri :: u128) * 10000) = unat ri * 10000"
    by (subst unat_mult_exact) (simp_all add: unat_ucast_64_128)
  with ain r a show "unat ((ucast ri :: u128) * 10000 + ain) = unat ri * 10000 + unat a * fc"
    by (subst unat_add_exact) simp_all
qed

lemma v2_amount_out_value:
  assumes "unat fee \<le> 1000000" "unat a * (10000 - unat fee div 100) * unat ro < 2 ^ 128"
    and "ri \<noteq> 0" "ro \<noteq> 0" "a \<noteq> 0"
  shows "v2_amount_out ri ro fee a = Some (word_of_nat (cp_quote (unat ri) (unat ro) (10000 - unat fee div 100) (unat a)))"
proof -
  define fc where "fc = 10000 - unat fee div 100"
  let ?ain = "(ucast a :: u128) * (10000 - ucast fee div 100)"
  let ?den = "(ucast ri :: u128) * 10000 + ?ain"
  let ?out = "?ain * ucast ro div ?den"
  note op = v2_operands(1) [OF assms(1), of a, folded fc_def] v2_operands(2) [OF assms(1), of ri a, folded fc_def]
  have "unat (?ain * ucast ro) = unat a * fc * unat ro"
    using assms(2) by (subst unat_mult_exact) (simp_all add: op(1) unat_ucast_64_128 flip: fc_def)
  then have out: "unat ?out = cp_quote (unat ri) (unat ro) fc (unat a)"
    by (simp only: unat_div op(2) cp_quote_def)
  have le: "unat ?out < 2 ^ 64"
    unfolding out using cp_quote_le [of "unat ri" "unat ro" fc "unat a"] unat_bound [of ro]
    by simp
  have "unat ?den \<noteq> 0"
    using assms(3) by (simp only: op(2)) (simp add: unat_eq_iff)
  then have "?den \<noteq> 0"
    by auto
  moreover have "\<not> 0xFFFFFFFFFFFFFFFF < ?out"
    using le by (simp add: word_less_nat_alt)
  moreover have "(ucast ?out :: u64) = word_of_nat (cp_quote (unat ri) (unat ro) fc (unat a))"
    using unat_word_of_nat_small [where 'a = 64, of "unat ?out"] le
    by (simp only: unat_eq_iff unat_ucast_128_64 [OF le]) (simp only: out len_num1 len_bit0 len_bit1, simp)
  ultimately show ?thesis
    using assms(3-5) by (simp only: v2_amount_out_def Let_def fc_def if_False simp_thms)
qed

text \<open>The fallback agrees with the simulator. As long as the numerator stays below \<open>2^128\<close>, the V2 amount
  of the FFI layer (fee in hundredths of a basis point) is the simulator's constant-product quote
  for the same reserves and the fee in basis points; it is absent exactly for an empty reserve or
  a zero input.\<close>

theorem v2_amount_out_agrees:
  assumes "unat fee \<le> 1000000" "unat a * (10000 - unat fee div 100) * unat ro < 2 ^ 128"
  shows "map_option unat (v2_amount_out ri ro fee a) =
    (if ri = 0 \<or> ro = 0 \<or> a = 0 then None
     else Some (unat (constant_product_swap (ucast a) (ucast ri) (ucast ro) (ucast fee div 100))))"
proof (cases "ri = 0 \<or> ro = 0 \<or> a = 0")
  case True
  then show ?thesis by (auto simp: v2_amount_out_def)
next
  case False
  define fc where "fc = 10000 - unat fee div 100"
  have f: "unat ((ucast fee :: u128) div 100) = unat fee div 100"
    using unat_bound [of fee] by (simp add: unat_div unsigned_ucast_eq take_bit_eq_mod)
  have le: "cp_quote (unat ri) (unat ro) fc (unat a) < 2 ^ 64"
    using cp_quote_le [of "unat ri" "unat ro" fc "unat a"] unat_bound [of ro] by simp
  have den: "unat ri * 10000 + unat a * fc < 2 ^ 128"
  proof -
    have "unat ri * 10000 \<le> 2 ^ 64 * 10000" "unat a * fc \<le> 2 ^ 64 * 10000"
      using unat_bound [of ri] unat_bound [of a] by (intro mult_le_mono; simp add: fc_def)+
    then show ?thesis by simp
  qed
  have "unat (constant_product_swap (ucast a) (ucast ri) (ucast ro) (ucast fee div 100))
      = cp_quote (unat ri) (unat ro) fc (unat a)"
  proof (cases "10000 \<le> unat fee div 100")
    case True
    then show ?thesis
      by (simp add: constant_product_swap_value Let_def word_le_nat_alt f cp_quote_def fc_def)
  next
    case nb: False
    have "\<not> 2 ^ 128 \<le> unat a * fc * unat ro" "\<not> 2 ^ 128 \<le> unat ri * 10000 + unat a * fc"
      using assms(2) den by (simp_all add: fc_def)
    with nb False show ?thesis
      unfolding constant_product_swap_value Let_def f unat_ucast_64_128 fc_def [symmetric] cp_quote_def
      by (simp add: word_le_nat_alt f unat_eq_iff unat_ucast_64_128)
  qed
  with v2_amount_out_value [OF assms, of ri] False le show ?thesis
    by (simp add: unat_word_of_nat_small fc_def)
qed

theorem v2_amount_out_agrees_witness:
  "map_option unat (v2_amount_out 1000000 2000000 3000 5000)
     = Some (unat (constant_product_swap 5000 1000000 2000000 30))
   \<and> unat (constant_product_swap 5000 1000000 2000000 30) = 9920"
  using v2_amount_out_agrees [of 3000 5000 2000000 1000000]
  by (simp add: constant_product_swap_def checked_mul_def checked_add_def)

lemma multiple_below: "n * 10000 < 2 ^ 128 \<Longrightarrow> n * 10000 < 2 ^ 128 - (1 :: nat)"
  by simp

lemma v2_amount_in_value:
  assumes "v2_amount_in ri ro fee y = Some x" "unat fee \<le> 1000000" "unat ri * unat y * 10000 < 2 ^ 128"
  defines "fc \<equiv> 10000 - unat fee div 100"
  shows "ri \<noteq> 0" "ro \<noteq> 0" "unat y < unat ro" "0 < (unat ro - unat y) * fc"
    "unat x = unat ri * unat y * 10000 div ((unat ro - unat y) * fc) + 1"
proof -
  let ?num = "(ucast ri :: u128) * ucast y * 10000"
  let ?den = "((ucast ro :: u128) - ucast y) * (10000 - ucast fee div 100)"
  have c: "ri \<noteq> 0" "ro \<noteq> 0" "\<not> ro \<le> y"
    using assms(1) by (auto simp: v2_amount_in_def split: if_splits)
  then show "ri \<noteq> 0" "ro \<noteq> 0" and y: "unat y < unat ro"
    by (simp_all add: word_le_nat_alt)
  have r: "?den \<noteq> 0" "\<not> 0xFFFFFFFFFFFFFFFF < ?num div ?den + 1" "x = ucast (?num div ?den + 1)"
    using assms(1) c by (auto simp: v2_amount_in_def Let_def split: if_splits)
  have "unat ((ucast ro :: u128) - ucast y) = unat ro - unat y"
    using y by (subst unat_sub_exact) (simp_all add: word_le_nat_alt unat_ucast_64_128)
  moreover have "(unat ro - unat y) * fc \<le> 2 ^ 64 * 10000"
    using unat_bound [of ro] by (intro mult_le_mono) (simp_all add: fc_def)
  ultimately have den: "unat ?den = (unat ro - unat y) * fc"
    by (subst unat_mult_exact) (simp_all add: unat_fee_fraction [OF assms(2)] fc_def)
  then show "0 < (unat ro - unat y) * fc"
    using r(1) by (simp add: unat_eq_iff del: nat_0_less_mult_iff)
  have "unat ri * unat y < 2 ^ 128"
    using assms(3) by simp
  then have "unat ((ucast ri :: u128) * ucast y) = unat ri * unat y"
    by (subst unat_mult_exact) (simp_all add: unat_ucast_64_128)
  with assms(3) have num: "unat ?num = unat ri * unat y * 10000"
    by (subst unat_mult_exact) simp_all
  let ?q = "unat ri * unat y * 10000 div ((unat ro - unat y) * fc)"
  have q: "unat (?num div ?den) = ?q"
    by (simp only: unat_div num den)
  have "?q \<le> unat ri * unat y * 10000"
    by (rule div_le_dividend)
  also have "\<dots> < 2 ^ 128 - 1"
    using assms(3) by (rule multiple_below)
  finally have "?q < 2 ^ 128 - 1" .
  then have q1: "unat (?num div ?den + 1) = ?q + 1"
    by (subst unat_add_exact) (simp_all only: q, simp_all)
  with r(2) have "unat (?num div ?den + 1) < 2 ^ 64"
    by (simp add: word_less_nat_alt)
  with r(3) q1 show "unat x = ?q + 1"
    by (simp only: unat_ucast_128_64)
qed

text \<open>The numbers behind it: rounding the exact input up buys at least the wanted amount, and one unit
  less buys no more than it.\<close>

lemma v2_inverse_enough:
  fixes ri ro fc y :: nat
  assumes "0 < (ro - y) * fc" "y < ro"
  defines "x \<equiv> ri * y * 10000 div ((ro - y) * fc) + 1"
  shows "y \<le> cp_quote ri ro fc x" "cp_quote ri ro fc (x - 1) \<le> y"
proof -
  define k where "k = ro - y"
  have ro: "ro = y + k" and k: "0 < k * fc"
    using assms by (simp_all add: k_def)
  have x: "ri * y * 10000 < x * (k * fc)" "(x - 1) * (k * fc) \<le> ri * y * 10000"
    using dividend_less_div_times [OF k, of "ri * y * 10000"] div_times_less_eq_dividend [of "ri * y * 10000" "k * fc"]
    by (simp_all only: x_def k_def [symmetric] add_mult_distrib mult_1 add_diff_cancel_right' add_diff_cancel_left' add.commute)
  have "0 < x * fc"
    using k by (simp add: x_def)
  have "y * (ri * 10000 + x * fc) \<le> x * fc * ro"
    using x(1) by (simp add: ro algebra_simps)
  then show "y \<le> cp_quote ri ro fc x"
    unfolding cp_quote_def using \<open>0 < x * fc\<close> by (simp add: less_eq_div_iff_mult_less_eq)
  have "(x - 1) * fc * ro \<le> y * (ri * 10000 + (x - 1) * fc)"
    using x(2) by (simp add: ro algebra_simps)
  then show "cp_quote ri ro fc (x - 1) \<le> y"
    unfolding cp_quote_def
    by (cases "ri * 10000 + (x - 1) * fc = 0") (simp, metis div_le_mono div_mult_self_is_m neq0_conv)
qed

text \<open>The two V2 amounts fit together. If the input needed for an output of \<open>y\<close> is computed as \<open>x\<close> (in
  the range in which nothing wraps), then paying \<open>x\<close> buys at least \<open>y\<close>, and paying one unit less
  buys no more than \<open>y\<close>.\<close>

theorem v2_amount_in_sufficient:
  assumes "v2_amount_in ri ro fee y = Some x" "unat fee \<le> 1000000"
    and "unat ri * unat y * 10000 < 2 ^ 128" "unat x * (10000 - unat fee div 100) * unat ro < 2 ^ 128"
  shows "(\<exists>out. v2_amount_out ri ro fee x = Some out \<and> unat y \<le> unat out)
    \<and> (\<forall>out. v2_amount_out ri ro fee (x - 1) = Some out \<longrightarrow> unat out \<le> unat y)"
proof -
  define fc where "fc = 10000 - unat fee div 100"
  note v = v2_amount_in_value [OF assms(1-3), folded fc_def]
  have x0: "x \<noteq> 0"
    using v(5) by auto
  then have x1: "unat (x - 1) = unat x - 1"
    by (simp add: unat_minus_one)
  note enough = v2_inverse_enough [OF v(4,3), of "unat ri", folded v(5)]
  have small: "cp_quote (unat ri) (unat ro) fc n < 2 ^ 64" for n
    using cp_quote_le [of "unat ri" "unat ro" fc n] unat_bound [of ro] by simp
  have "v2_amount_out ri ro fee x = Some (word_of_nat (cp_quote (unat ri) (unat ro) fc (unat x)))"
    using v2_amount_out_value [OF assms(2,4) v(1,2) x0] by (simp add: fc_def)
  moreover have "unat out \<le> unat y" if "v2_amount_out ri ro fee (x - 1) = Some out" for out
  proof -
    have "x - 1 \<noteq> 0"
      using that by (auto simp: v2_amount_out_def split: if_splits)
    moreover have "unat (x - 1) * (10000 - unat fee div 100) * unat ro < 2 ^ 128"
      using assms(4) by (rule le_less_trans [rotated]) (simp add: x1)
    ultimately have "out = word_of_nat (cp_quote (unat ri) (unat ro) fc (unat (x - 1)))"
      using v2_amount_out_value [OF assms(2) _ v(1,2)] that by (simp add: fc_def)
    with enough(2) small show ?thesis
      by (simp add: x1 unat_word_of_nat_small)
  qed
  ultimately show ?thesis
    using enough(1) small by (simp add: unat_word_of_nat_small)
qed

theorem v2_amount_in_sufficient_witness:
  "v2_amount_in 1000000 2000000 3000 9920 = Some 5000
   \<and> (\<exists>out. v2_amount_out 1000000 2000000 3000 5000 = Some out \<and> 9920 \<le> unat out)"
proof -
  have i: "v2_amount_in 1000000 2000000 3000 9920 = Some 5000"
    by (simp add: v2_amount_in_def)
  then show ?thesis
    using v2_amount_in_sufficient [OF i] by simp
qed

text \<open>Large amounts wrap around. A swap of one ether against reserves of ten ether on both sides has a
  numerator above \<open>2^128\<close>; the product wraps and the quote is less than half a percent of the exact
  amount. (The doc comment promises 128-bit arithmetic for mainnet reserves and an absent result on
  overflow.)\<close>

theorem v2_amount_out_wraps:
  "\<exists>out. v2_amount_out (10 ^ 19) (10 ^ 19) 3000 (10 ^ 18) = Some out
    \<and> 200 * unat out < cp_quote (10 ^ 19) (10 ^ 19) 9970 (10 ^ 18)"
  by (simp add: v2_amount_out_def cp_quote_def)

section \<open>The price batch\<close>

lemma price_impact_value:
  assumes "unat a * unat r1 * 997 < 2 ^ 128"
  shows "unat (price_impact r0 r1 a) =
    (if r0 = 0 then 0 else unat a * unat r1 * 997 div (unat r0 * 1000 + unat a * 997))"
proof (cases "r0 = 0")
  case True
  then show ?thesis by (simp add: price_impact_def)
next
  case False
  let ?num = "(ucast a :: u128) * ucast r1 * 997" and ?den = "(ucast r0 :: u128) * 1000 + ucast a * 997"
  have "unat a * unat r1 < 2 ^ 128"
    using assms by simp
  then have "unat ((ucast a :: u128) * ucast r1) = unat a * unat r1"
    by (subst unat_mult_exact) (simp_all add: unat_ucast_64_128)
  with assms have num: "unat ?num = unat a * unat r1 * 997"
    by (subst unat_mult_exact) simp_all
  have b: "unat r0 * 1000 \<le> 2 ^ 64 * 1000" "unat a * 997 \<le> 2 ^ 64 * 997"
    using unat_bound [of r0] unat_bound [of a] by simp_all
  then have "unat ((ucast r0 :: u128) * 1000) = unat r0 * 1000" "unat ((ucast a :: u128) * 997) = unat a * 997"
    by (subst unat_mult_exact; simp add: unat_ucast_64_128)+
  with b have den: "unat ?den = unat r0 * 1000 + unat a * 997"
    by (subst unat_add_exact) simp_all
  let ?q = "unat a * unat r1 * 997 div (unat r0 * 1000 + unat a * 997)"
  have "unat a * unat r1 * 997 \<le> (unat r0 * 1000 + unat a * 997) * unat r1"
    by (simp add: algebra_simps)
  then have "?q \<le> (unat r0 * 1000 + unat a * 997) * unat r1 div (unat r0 * 1000 + unat a * 997)"
    by (rule div_le_mono)
  then have "?q < 2 ^ 64"
    using False unat_bound [of r1] by (simp add: unat_eq_iff)
  then have "unat (ucast (?num div ?den) :: u64) = ?q"
    by (subst unat_ucast_128_64) (simp_all only: unat_div num den)
  moreover have "(ucast r0 :: u128) \<noteq> 0"
    using False by (simp add: unat_eq_iff unat_ucast_64_128)
  ultimately show ?thesis
    using False by (simp only: price_impact_def Let_def if_False)
qed

text \<open>The price batch. For four pools in which the product of the amount, the output reserve and 997 fits
  in 128 bits, every entry is the exact floor of the 0.3-percent constant-product formula, and 0
  for a pool with no input reserve.\<close>

theorem calc_price_impact_batch_exact:
  assumes "\<forall>i < 4. unat a * unat (rs1 ! i) * 997 < 2 ^ 128"
  shows "map unat (calc_price_impact_batch rs0 rs1 a) = map (\<lambda>i.
    if rs0 ! i = 0 then 0
    else unat a * unat (rs1 ! i) * 997 div (unat (rs0 ! i) * 1000 + unat a * 997)) [0..<4]"
  using assms by (simp add: calc_price_impact_batch_def price_impact_value del: upt_rec_numeral upt_Suc)

theorem calc_price_impact_batch_exact_witness:
  "map unat (calc_price_impact_batch [1000, 0, 5000, 7] [2000, 1, 9000, 8] 100) = [181, 0, 175, 7]"
proof -
  have all: "(\<forall>i < 4. P i) \<longleftrightarrow> P 0 \<and> P 1 \<and> P 2 \<and> P 3" for P :: "nat \<Rightarrow> bool"
    by (simp add: numeral_eq_Suc All_less_Suc conj_ac)
  have l: "[0..<4] = [0, 1, 2, 3 :: nat]"
    by (simp add: upt_rec)
  show ?thesis
    using calc_price_impact_batch_exact [of 100 "[2000, 1, 9000, 8]" "[1000, 0, 5000, 7]"]
    by (simp add: all l)
qed

section \<open>The queue is first in, first out\<close>

text \<open>The contract of a queue between detector threads: a push appends or is refused, a pop takes the
  oldest element or finds the queue empty. The lock (or, in the C build, the atomic operations)
  makes every concurrent use a sequence of such calls.\<close>

datatype 'p queue_op = Push 'p | Pop

fun queue_run :: "('q \<Rightarrow> 'p \<Rightarrow> 'q \<times> bool) \<Rightarrow> ('q \<Rightarrow> 'q \<times> 'p option) \<Rightarrow> 'q \<Rightarrow> 'p queue_op list
    \<Rightarrow> 'q \<times> 'p list \<times> 'p list" where
  "queue_run push pop q [] = (q, [], [])"
| "queue_run push pop q (Push x # ops) =
    (let (q1, ok) = push q x; (q2, ins, outs) = queue_run push pop q1 ops
     in (q2, if ok then x # ins else ins, outs))"
| "queue_run push pop q (Pop # ops) =
    (let (q1, r) = pop q; (q2, ins, outs) = queue_run push pop q1 ops
     in (q2, ins, (case r of Some x \<Rightarrow> x # outs | None \<Rightarrow> outs)))"

locale fifo_queue =
  fixes push :: "'q \<Rightarrow> 'p \<Rightarrow> 'q \<times> bool" and pop :: "'q \<Rightarrow> 'q \<times> 'p option" and contents :: "'q \<Rightarrow> 'p list"
  assumes push_law: "push q x = (q', ok) \<Longrightarrow> contents q' = (if ok then contents q @ [x] else contents q)"
    and pop_law: "pop q = (q', r) \<Longrightarrow>
      (case r of None \<Rightarrow> contents q = [] \<and> contents q' = [] | Some x \<Rightarrow> contents q = x # contents q')"
begin

lemma run_order: "queue_run push pop q ops = (q', ins, outs) \<Longrightarrow> contents q @ ins = outs @ contents q'"
proof (induction ops arbitrary: q ins outs)
  case (Cons op ops)
  show ?case
  proof (cases op)
    case (Push x)
    obtain q1 ok where q1: "push q x = (q1, ok)"
      by (cases "push q x")
    obtain q2 ins2 outs2 where q2: "queue_run push pop q1 ops = (q2, ins2, outs2)"
      by (cases "queue_run push pop q1 ops") auto
    have "q2 = q'" "ins = (if ok then x # ins2 else ins2)" "outs = outs2"
      using Cons.prems by (simp_all add: Push q1 q2)
    with Cons.IH [of q1 ins2 outs2] q2 push_law [OF q1] show ?thesis
      by (cases ok) simp_all
  next
    case Pop
    obtain q1 r where q1: "pop q = (q1, r)"
      by (cases "pop q")
    obtain q2 ins2 outs2 where q2: "queue_run push pop q1 ops = (q2, ins2, outs2)"
      by (cases "queue_run push pop q1 ops") auto
    have "q2 = q'" "ins = ins2" "outs = (case r of Some x \<Rightarrow> x # outs2 | None \<Rightarrow> outs2)"
      using Cons.prems by (simp_all add: Pop q1 q2)
    with Cons.IH [of q1 ins2 outs2] q2 pop_law [OF q1] show ?thesis
      by (cases r) simp_all
  qed
qed simp

end

interpretation opp_queue: fifo_queue queue_push queue_pop oq_inner
  by unfold_locales (auto simp: queue_push_def queue_pop_def split: list.splits)

text \<open>The opportunity queue loses, duplicates and reorders nothing. In any interleaving of pushes and
  pops on a new queue every push is accepted, and the items popped so far followed by the items
  still queued are exactly the items pushed, in order; the reported length is the number of queued
  items (below \<open>2^64\<close>).\<close>

theorem opportunity_queue_fifo:
  assumes "queue_new capacity = Some q" "queue_run queue_push queue_pop q ops = (q', ins, outs)"
    and "length ops < 2 ^ 64"
  shows "ins = [x. Push x \<leftarrow> ops] \<and> outs @ oq_inner q' = ins
    \<and> unat (queue_len q') = length ins - length outs"
proof -
  have "ins = [x. Push x \<leftarrow> ops]" if "queue_run queue_push queue_pop q ops = (q', ins, outs)" for q ins outs
    using that
  proof (induction ops arbitrary: q ins outs)
    case (Cons op ops)
    then show ?case
      by (cases op) (auto simp: queue_push_def Let_def split: prod.splits)
  qed simp
  then have ins: "ins = [x. Push x \<leftarrow> ops]"
    using assms(2) .
  have order: "outs @ oq_inner q' = ins"
    using opp_queue.run_order [OF assms(2)] assms(1) by (auto simp: queue_new_def)
  have "length [x. Push x \<leftarrow> ops] \<le> length ops"
    by (induction ops) (auto split: queue_op.splits)
  then have "length (oq_inner q') < 2 ^ 64"
    using assms(3) order ins by (metis length_append le_add2 le_less_trans order.trans)
  then have "unat (queue_len q') = length (oq_inner q')"
    by (simp add: queue_len_def unat_word_of_nat_small)
  moreover have "length (oq_inner q') = length ins - length outs"
    unfolding order [symmetric] by simp
  ultimately show ?thesis
    using ins order by (simp only: simp_thms)
qed

theorem opportunity_queue_fifo_witness:
  "\<exists>q ins outs. queue_run queue_push queue_pop \<lparr>oq_inner = []\<rparr> [Push True, Pop, Push False, Push True] = (q, ins, outs)
    \<and> ins = [True, False, True] \<and> outs @ oq_inner q = ins"
proof -
  obtain q ins outs where
    r: "queue_run queue_push queue_pop \<lparr>oq_inner = []\<rparr> [Push True, Pop, Push False, Push True] = (q, ins, outs)"
    by (metis prod_cases3)
  then show ?thesis
    using opportunity_queue_fifo [OF _ r, of 8] by (simp add: queue_new_def)
qed

section \<open>The transaction buffer\<close>

text \<open>A buffer keeps its 512 bytes, so exposing a slice of any length never panics, and what is stored in
  the exposed slice is what is read back.\<close>

lemma txbuf_round_trip:
  assumes "length (tb_buf b) = 512"
  obtains b' s where "as_mut_slice b len = Inr (b', s)" "length s = min (unat len) 512" "length (tb_buf b') = 512"
    "\<And>xs. length xs = length s \<Longrightarrow> as_slice (store_slice b' xs) = Inr xs \<and> length (tb_buf (store_slice b' xs)) = 512"
proof -
  have m: "unat (min len 512) = min (unat len) 512"
    by (simp add: min_def word_le_nat_alt)
  show thesis
    by (rule that [of "b\<lparr>tb_len := min len 512\<rparr>" "take (min (unat len) 512) (tb_buf b)"])
      (simp_all add: as_mut_slice_def as_slice_def store_slice_def slice_def m assms)
qed

end
