(* ===== verification/Arbitrum_Pools.thy ===== *)
theory Arbitrum_Pools
  imports Ethers_U256 Pool_Store Amm_Math
begin

text \<open>
  Pools on Arbitrum (\<^verbatim>\<open>core/src/arbitrum/mod.rs\<close>, \<^verbatim>\<open>core/src/arbitrum/pools.rs\<close>): the chain's
  addresses, the pool record with its quote, and the pool manager, which discovers pools through
  the factories and refreshes them. The answers of the node are a parameter, the record
  \<open>chain_rpc\<close>: what each contract call returns during the operation (\<open>None\<close> for a failed call).
  The price as a double, which nothing in the engine reads, is left out.
\<close>

section \<open>Chain constants\<close>

record ArbitrumConfig =
  ac_chain_id :: u64
  ac_rpc_url :: string
  ac_ws_url :: string
  ac_balancer_vault :: address
  ac_weth :: address
  ac_usdc :: address
  ac_usdt :: address
  ac_arb :: address

definition ArbitrumConfig_default :: ArbitrumConfig where
  "ArbitrumConfig_default =
    \<lparr>ac_chain_id = 42161, ac_rpc_url = [], ac_ws_url = [],
     ac_balancer_vault = 0xBA12222222228d8Ba445958a75a0704d566BF2C8,
     ac_weth = 0x82aF49447D8a07e3bd95BD0d56f35241523fBab1,
     ac_usdc = 0xaf88d065e77c8cC2239327C5EDb3A432268e5831,
     ac_usdt = 0xFd086bC7CD5C481DCC9C85ebE478A1C0b69FCbb9,
     ac_arb = 0x912CE59144191C1204E64559FE8253a0e49E6548\<rparr>"

record ArbitrumDexes =
  dx_uniswap_v3_factory :: address
  dx_uniswap_v3_router :: address
  dx_uniswap_v3_quoter :: address
  dx_sushi_factory :: address
  dx_sushi_router :: address
  dx_camelot_factory :: address
  dx_camelot_router :: address
  dx_balancer_vault :: address

definition ArbitrumDexes_default :: ArbitrumDexes where
  "ArbitrumDexes_default =
    \<lparr>dx_uniswap_v3_factory = 0x1F98431c8aD98523631AE4a59f267346ea31F984,
     dx_uniswap_v3_router = 0xE592427A0AEce92De3Edee1F18E0157C05861564,
     dx_uniswap_v3_quoter = 0xb27308f9F90D607463bb33eA1BeBb41C27CE5AB6,
     dx_sushi_factory = 0xc35DADB65012eC5796536bD9864eD8773aBc74C4,
     dx_sushi_router = 0x1b02dA8Cb0d097eB8D57A175b88c7D8b47997506,
     dx_camelot_factory = 0x6EcCab422D763aC031210895C81787E87B43A652,
     dx_camelot_router = 0xc873fEcbd354f5A56E00E710B90EF4201db2448d,
     dx_balancer_vault = 0xBA12222222228d8Ba445958a75a0704d566BF2C8\<rparr>"

datatype UniV3FeeTier = Lowest | Low | Medium | High

fun fee_tier_as_u32 :: "UniV3FeeTier \<Rightarrow> u32" where
  "fee_tier_as_u32 Lowest = 100"
| "fee_tier_as_u32 Low = 500"
| "fee_tier_as_u32 Medium = 3000"
| "fee_tier_as_u32 High = 10000"

definition fee_tier_all :: "UniV3FeeTier list" where
  "fee_tier_all = [Lowest, Low, Medium, High]"

definition get_top_arbitrum_tokens :: "(string \<times> address) list" where
  "get_top_arbitrum_tokens =
    [(''WETH'', 0x82af49447d8a07e3bd95bd0d56f35241523fbab1),
     (''USDC'', 0xaf88d065e77c8cc2239327c5edb3a432268e5831),
     (''USDC.e'', 0xff970a61a04b1ca14834a43f5de4533ebddb5cc8),
     (''USDT'', 0xfd086bc7cd5c481dcc9c85ebe478a1c0b69fcbb9),
     (''ARB'', 0x912ce59144191c1204e64559fe8253a0e49e6548),
     (''WBTC'', 0x2f2a2543b76a4166549f7aab2e75bef0aefc5b0f),
     (''DAI'', 0xda10009cbd5d07dd0cecc66161fc93d7c9000da1),
     (''GMX'', 0xfc5a1a6eb076a2c7ad06ed22c90d7e710e35ad0a),
     (''MAGIC'', 0x539bde0d7dbd336b79148aa742883198bbf60342),
     (''RDNT'', 0x3082cc23568ea640225c2467653db90e9250aaa0),
     (''PENDLE'', 0x0c880f6761f1af8d9aa9c466984b80dab9a8c9e8),
     (''GRAIL'', 0x3d9907f9a368ad0a51be60f7da3b97cf940982d8),
     (''JONES'', 0x10393c20975cf177a3513071bc110f7962cd67da),
     (''DPX'', 0x6c2c06790b3e3e3c38e12ee22f8183b37a13ee55),
     (''LINK'', 0xf97f4df75117a78c1a5a0dbb814af92458539fb4),
     (''UNI'', 0xfa7f8980b0f1e64a2062791cc3b0871572f1f7f0),
     (''AAVE'', 0xba5ddd1f9d7f570dc94a51479a000e3bce967196),
     (''CRV'', 0x11cdb42b0eb46d95f990bedd4695a6e3fa034978),
     (''LDO'', 0x13ad51ed4f1b7e9dc168d8a00cb3f4ddd85efa60),
     (''wstETH'', 0x5979d7b546e38e414f7e9822514be443a4800529),
     (''rETH'', 0xec70dcb4a1efa46b8f2d97c310c9c4790ba5ffa8),
     (''STG'', 0x6694340fc020c5e6b96567843da2df01b2ce1eb6),
     (''VELA'', 0x088cd8f5ef3652623c22d48b1605dcfe860cd704),
     (''Y2K'', 0x65c936f008bc34fe819bce9fa5afd9dc2d49977f),
     (''WINR'', 0xd77b108d4f6cefaa0cae9506a934e825becca46e)]"

section \<open>Pools\<close>

datatype PoolType = PtUniswapV3 u32 | PtSushiSwap | PtCamelot

record Pool =
  pl_address :: address
  pl_token0 :: address
  pl_token1 :: address
  pl_pool_type :: PoolType
  pl_reserve0 :: u256
  pl_reserve1 :: u256
  pl_liquidity :: u256
  pl_fee_bps :: u32

definition get_amount_out :: "u256crate \<Rightarrow> Pool \<Rightarrow> u256 \<Rightarrow> address \<Rightarrow> u256 exec" where
  "get_amount_out ux p amount_in token_in =
    (let (reserve_in, reserve_out) =
           (if token_in = pl_token0 p then (pl_reserve0 p, pl_reserve1 p) else (pl_reserve1 p, pl_reserve0 p))
     in if reserve_in = 0 \<or> reserve_out = 0 then Inr 0
        else let fee_factor = 10000 - pl_fee_bps p in
          bindE (ux_mul ux amount_in (ucast fee_factor)) (\<lambda>amount_in_with_fee.
          bindE (ux_mul ux amount_in_with_fee reserve_out) (\<lambda>numerator.
          bindE (ux_mul ux reserve_in 10000) (\<lambda>r.
          bindE (ux_add ux r amount_in_with_fee) (\<lambda>denominator.
          ux_div ux numerator denominator)))))"

section \<open>The pool manager\<close>

record chain_rpc =
  rpc_get_pool :: "address \<Rightarrow> address \<Rightarrow> address \<Rightarrow> u32 \<Rightarrow> address option"
  rpc_get_pair :: "address \<Rightarrow> address \<Rightarrow> address \<Rightarrow> address option"
  rpc_token0 :: "address \<Rightarrow> address option"
  rpc_token1 :: "address \<Rightarrow> address option"
  rpc_liquidity :: "address \<Rightarrow> u128 option"
  rpc_sqrt_price :: "address \<Rightarrow> u256 option"
  rpc_reserves :: "address \<Rightarrow> (u128 \<times> u128) option"

record PoolManager =
  pm_pools :: "(address \<times> Pool) list"
  pm_uniswap_v3_factory :: address
  pm_sushi_factory :: address
  pm_camelot_factory :: address

definition pool_manager_new :: PoolManager where
  "pool_manager_new =
    \<lparr>pm_pools = [], pm_uniswap_v3_factory = 0x1F98431c8aD98523631AE4a59f267346ea31F984,
     pm_sushi_factory = 0xc35DADB65012eC5796536bD9864eD8773aBc74C4,
     pm_camelot_factory = 0x6EcCab422D763aC031210895C81787E87B43A652\<rparr>"

text \<open>The virtual reserves of a concentrated-liquidity pool; nothing when one is below 1000.\<close>

definition v3_reserves :: "u256crate \<Rightarrow> u128 \<Rightarrow> u256 \<Rightarrow> (u256 \<times> u256) option exec" where
  "v3_reserves ux liquidity sqrt_price_x96 =
    (let q96 = push_bit 96 1; liq = ucast liquidity in
     if sqrt_price_x96 = 0 then Inr None
     else bindE (ux_mul ux liq q96) (\<lambda>n0.
          bindE (ux_div ux n0 sqrt_price_x96) (\<lambda>reserve0.
          bindE (ux_mul ux liq sqrt_price_x96) (\<lambda>n1.
          bindE (ux_div ux n1 q96) (\<lambda>reserve1.
          Inr (if reserve0 < 1000 \<or> reserve1 < 1000 then None else Some (reserve0, reserve1)))))))"

definition fetch_v3_pool :: "u256crate \<Rightarrow> chain_rpc \<Rightarrow> address \<Rightarrow> u32 \<Rightarrow> Pool option exec" where
  "fetch_v3_pool ux rpc pool_addr fee =
    (case (rpc_token0 rpc pool_addr, rpc_token1 rpc pool_addr, rpc_liquidity rpc pool_addr, rpc_sqrt_price rpc pool_addr) of
       (Some token0, Some token1, Some liquidity, Some sqrt_price) \<Rightarrow>
         if liquidity = 0 then Inr None
         else bindE (v3_reserves ux liquidity sqrt_price) (\<lambda>r. Inr (case r of
                None \<Rightarrow> None
              | Some (reserve0, reserve1) \<Rightarrow>
                  Some \<lparr>pl_address = pool_addr, pl_token0 = token0, pl_token1 = token1,
                        pl_pool_type = PtUniswapV3 fee, pl_reserve0 = reserve0, pl_reserve1 = reserve1,
                        pl_liquidity = ucast liquidity, pl_fee_bps = fee div 100\<rparr>))
     | _ \<Rightarrow> Inr None)"

definition fetch_v2_pool ::
  "u256crate \<Rightarrow> chain_rpc \<Rightarrow> address \<Rightarrow> address \<Rightarrow> address \<Rightarrow> PoolType \<Rightarrow> Pool option exec" where
  "fetch_v2_pool ux rpc factory token0 token1 pool_type =
    (case rpc_get_pair rpc factory token0 token1 of
       None \<Rightarrow> Inr None
     | Some pair_addr \<Rightarrow>
         if pair_addr = 0 then Inr None
         else case rpc_reserves rpc pair_addr of
           None \<Rightarrow> Inr None
         | Some (r0, r1) \<Rightarrow>
             bindE (ux_add ux (ucast r0) (ucast r1)) (\<lambda>liq.
             Inr (Some \<lparr>pl_address = pair_addr, pl_token0 = token0, pl_token1 = token1,
                        pl_pool_type = pool_type, pl_reserve0 = ucast r0, pl_reserve1 = ucast r1,
                        pl_liquidity = liq, pl_fee_bps = 30\<rparr>)))"

definition opt_cons :: "'a option \<Rightarrow> 'a list \<Rightarrow> 'a list" where
  "opt_cons r xs = (case r of Some x \<Rightarrow> x # xs | None \<Rightarrow> xs)"

fun discover_v3 :: "u256crate \<Rightarrow> chain_rpc \<Rightarrow> address \<Rightarrow> address \<Rightarrow> address \<Rightarrow> u32 list \<Rightarrow> Pool list exec" where
  "discover_v3 ux rpc factory token0 token1 [] = Inr []"
| "discover_v3 ux rpc factory token0 token1 (fee # fees) =
    bindE (case rpc_get_pool rpc factory token0 token1 fee of
             Some pool_addr \<Rightarrow> if pool_addr \<noteq> 0 then fetch_v3_pool ux rpc pool_addr fee else Inr None
           | None \<Rightarrow> Inr None) (\<lambda>r.
    bindE (discover_v3 ux rpc factory token0 token1 fees) (\<lambda>ps. Inr (opt_cons r ps)))"

definition store_pool :: "PoolManager \<Rightarrow> Pool \<Rightarrow> PoolManager" where
  "store_pool s p = s\<lparr>pm_pools := AList.update (pl_address p) p (pm_pools s)\<rparr>"

definition discover_pools ::
  "u256crate \<Rightarrow> chain_rpc \<Rightarrow> PoolManager \<Rightarrow> address \<Rightarrow> address \<Rightarrow> (PoolManager \<times> Pool list) exec" where
  "discover_pools ux rpc s token_a token_b =
    (let (token0, token1) = (if token_a < token_b then (token_a, token_b) else (token_b, token_a)) in
     bindE (discover_v3 ux rpc (pm_uniswap_v3_factory s) token0 token1 [100, 500, 3000, 10000]) (\<lambda>v3.
     bindE (fetch_v2_pool ux rpc (pm_sushi_factory s) token0 token1 PtSushiSwap) (\<lambda>sushi.
     bindE (fetch_v2_pool ux rpc (pm_camelot_factory s) token0 token1 PtCamelot) (\<lambda>camelot.
     let pools = v3 @ opt_cons sushi (opt_cons camelot [])
     in Inr (foldl store_pool s pools, pools)))))"

text \<open>The two branches of \<^verbatim>\<open>refresh_all\<close>; a failed call or a pool without liquidity keeps the old
  record.\<close>

definition refresh_v2 :: "u256crate \<Rightarrow> chain_rpc \<Rightarrow> address \<Rightarrow> Pool \<Rightarrow> Pool option exec" where
  "refresh_v2 ux rpc pool_addr p =
    (case rpc_reserves rpc pool_addr of
       None \<Rightarrow> Inr None
     | Some (r0, r1) \<Rightarrow>
         bindE (ux_add ux (ucast r0) (ucast r1)) (\<lambda>liq.
         Inr (Some (p\<lparr>pl_reserve0 := ucast r0, pl_reserve1 := ucast r1, pl_liquidity := liq\<rparr>))))"

definition refresh_one :: "u256crate \<Rightarrow> chain_rpc \<Rightarrow> address \<Rightarrow> Pool \<Rightarrow> Pool option exec" where
  "refresh_one ux rpc pool_addr p =
    (case pl_pool_type p of
       PtUniswapV3 fee \<Rightarrow>
         (case rpc_liquidity rpc pool_addr of
            None \<Rightarrow> Inr None
          | Some liquidity \<Rightarrow>
              if liquidity = 0 then Inr None
              else case rpc_sqrt_price rpc pool_addr of
                None \<Rightarrow> Inr None
              | Some sqrt_price \<Rightarrow>
                  bindE (v3_reserves ux liquidity sqrt_price) (\<lambda>r. Inr (case r of
                    None \<Rightarrow> None
                  | Some (reserve0, reserve1) \<Rightarrow>
                      Some (p\<lparr>pl_reserve0 := reserve0, pl_reserve1 := reserve1, pl_liquidity := ucast liquidity\<rparr>))))
     | _ \<Rightarrow> refresh_v2 ux rpc pool_addr p)"

fun refresh_results :: "u256crate \<Rightarrow> chain_rpc \<Rightarrow> (address \<times> Pool) list \<Rightarrow> (address \<times> Pool option) list exec" where
  "refresh_results ux rpc [] = Inr []"
| "refresh_results ux rpc ((addr, p) # ps) =
    bindE (refresh_one ux rpc addr p) (\<lambda>r.
    bindE (refresh_results ux rpc ps) (\<lambda>rs. Inr ((addr, r) # rs)))"

definition put_result :: "(address \<times> Pool) list \<Rightarrow> address \<times> Pool option \<Rightarrow> (address \<times> Pool) list" where
  "put_result pools r = (case r of (addr, Some p) \<Rightarrow> AList.update addr p pools | (addr, None) \<Rightarrow> pools)"

definition refresh_all :: "u256crate \<Rightarrow> chain_rpc \<Rightarrow> PoolManager \<Rightarrow> PoolManager exec" where
  "refresh_all ux rpc s =
    bindE (refresh_results ux rpc (pm_pools s)) (\<lambda>results.
    Inr (s\<lparr>pm_pools := foldl put_result (pm_pools s) results\<rparr>))"

definition refresh_pool :: "u256crate \<Rightarrow> chain_rpc \<Rightarrow> PoolManager \<Rightarrow> address \<Rightarrow> PoolManager exec" where
  "refresh_pool ux rpc s pool_addr =
    (case map_of (pm_pools s) pool_addr of
       None \<Rightarrow> Inr s
     | Some p \<Rightarrow>
         bindE (case pl_pool_type p of
                  PtUniswapV3 fee \<Rightarrow> fetch_v3_pool ux rpc pool_addr fee
                | _ \<Rightarrow> refresh_v2 ux rpc pool_addr p) (\<lambda>updated.
         Inr (s\<lparr>pm_pools := put_result (pm_pools s) (pool_addr, updated)\<rparr>)))"

definition get_pools :: "PoolManager \<Rightarrow> address \<Rightarrow> address \<Rightarrow> Pool list" where
  "get_pools s token0 token1 =
     filter (\<lambda>p. (pl_token0 p = token0 \<and> pl_token1 p = token1) \<or> (pl_token0 p = token1 \<and> pl_token1 p = token0))
       (map snd (pm_pools s))"

interpretation arbitrum_store: keyed_store store_pool "\<lambda>s. map_of (pm_pools s)" pl_address "\<lambda>p. p"
  by unfold_locales (simp add: store_pool_def map_of_alist_update)

section \<open>The quote\<close>

definition reserve_in :: "Pool \<Rightarrow> address \<Rightarrow> u256" where
  "reserve_in p t = (if t = pl_token0 p then pl_reserve0 p else pl_reserve1 p)"

definition reserve_out :: "Pool \<Rightarrow> address \<Rightarrow> u256" where
  "reserve_out p t = (if t = pl_token0 p then pl_reserve1 p else pl_reserve0 p)"

definition fee_share :: "Pool \<Rightarrow> nat" where
  "fee_share p = 10000 - unat (pl_fee_bps p)"

definition pool_quote_spec :: "Pool \<Rightarrow> address \<Rightarrow> nat \<Rightarrow> nat" where
  "pool_quote_spec p t a =
    (if reserve_in p t = 0 \<or> reserve_out p t = 0 then 0
     else cp_quote (unat (reserve_in p t)) (unat (reserve_out p t)) (fee_share p) a)"

definition pool_in_range :: "Pool \<Rightarrow> bool" where
  "pool_in_range p \<longleftrightarrow>
    unat (pl_fee_bps p) \<le> 10000 \<and> unat (pl_reserve0 p) < 2 ^ 112 \<and> unat (pl_reserve1 p) < 2 ^ 112"

lemma unat_fee_share:
  assumes "unat (pl_fee_bps p) \<le> 10000"
  shows "unat (ucast (10000 - pl_fee_bps p) :: u256) = fee_share p"
proof -
  have "unat (10000 - pl_fee_bps p) = fee_share p"
    using assms by (subst unat_sub_exact) (simp_all add: word_le_nat_alt fee_share_def)
  then show ?thesis
    using unat_bound [of "10000 - pl_fee_bps p"] by (simp add: unsigned_ucast_eq take_bit_eq_mod)
qed

context u256_laws
begin

lemma get_amount_out_unfold:
  "get_amount_out ux p a t =
    (if reserve_in p t = 0 \<or> reserve_out p t = 0 then Inr 0
     else bindE (ux_mul ux a (ucast (10000 - pl_fee_bps p))) (\<lambda>w.
          bindE (ux_mul ux w (reserve_out p t)) (\<lambda>n.
          bindE (ux_mul ux (reserve_in p t) 10000) (\<lambda>r.
          bindE (ux_add ux r w) (\<lambda>d. ux_div ux n d)))))"
  by (simp add: get_amount_out_def reserve_in_def reserve_out_def)

text \<open>What a quote that returns has computed.\<close>

lemma get_amount_out_value:
  assumes "get_amount_out ux p a t = Inr q" "unat (pl_fee_bps p) \<le> 10000"
  shows "unat q = pool_quote_spec p t (unat a)"
proof (cases "reserve_in p t = 0 \<or> reserve_out p t = 0")
  case True
  with assms show ?thesis
    by (auto simp: get_amount_out_unfold pool_quote_spec_def)
next
  case False
  with assms(1) show ?thesis
    by (auto simp: get_amount_out_unfold bindE_eq_Inr_iff Inr_iffs unat_fee_share [OF assms(2)]
        pool_quote_spec_def cp_quote_def)
qed

lemma get_amount_out_returns:
  assumes "unat (pl_fee_bps p) \<le> 10000" "unat a * fee_share p * unat (reserve_out p t) < 2 ^ 256"
    and "unat (reserve_in p t) * 10000 + unat a * fee_share p < 2 ^ 256"
  obtains q where "get_amount_out ux p a t = Inr q" "unat q = pool_quote_spec p t (unat a)"
proof (cases "reserve_in p t = 0 \<or> reserve_out p t = 0")
  case True
  then show thesis
    by (intro that [of 0]) (auto simp: get_amount_out_unfold pool_quote_spec_def)
next
  case False
  obtain w where w: "ux_mul ux a (ucast (10000 - pl_fee_bps p)) = Inr w" "unat w = unat a * fee_share p"
    using mul_ok [of a "ucast (10000 - pl_fee_bps p)"] assms(3) by (auto simp: unat_fee_share [OF assms(1)])
  obtain n where n: "ux_mul ux w (reserve_out p t) = Inr n" "unat n = unat a * fee_share p * unat (reserve_out p t)"
    using mul_ok [of w "reserve_out p t"] assms(2) by (auto simp: w)
  obtain r where r: "ux_mul ux (reserve_in p t) 10000 = Inr r" "unat r = unat (reserve_in p t) * 10000"
    using mul_ok [of "reserve_in p t" 10000] assms(3) by auto
  obtain d where d: "ux_add ux r w = Inr d" "unat d = unat (reserve_in p t) * 10000 + unat a * fee_share p"
    using add_ok [of r w] assms(3) by (auto simp: r w)
  obtain q where q: "ux_div ux n d = Inr q"
    using div_ok [of d n] False by (auto simp: d unat_eq_iff)
  have "get_amount_out ux p a t = Inr q"
    using False by (simp add: get_amount_out_unfold w n r d q)
  then show thesis
    using get_amount_out_value [OF _ assms(1)] that by blast
qed

lemma quote_curve:
  assumes "unat (pl_fee_bps p) \<le> 10000"
  shows "swap_curve (\<lambda>a. case get_amount_out ux p a t of Inr q \<Rightarrow> q | Inl e \<Rightarrow> 0)
    (unat (reserve_in p t)) (unat (reserve_out p t))"
proof unfold_locales
  fix a :: u256
  show "unat (case get_amount_out ux p a t of Inr q \<Rightarrow> q | Inl e \<Rightarrow> 0) * (unat (reserve_in p t) + unat a)
      \<le> unat a * unat (reserve_out p t)"
  proof (cases "get_amount_out ux p a t")
    case (Inr q)
    with get_amount_out_value [OF Inr assms] show ?thesis
      by (auto simp: pool_quote_spec_def fee_share_def unat_eq_iff intro!: cp_quote_fair)
  qed simp
qed

lemma get_amount_out_range:
  assumes "pool_in_range p" "unat a < 2 ^ 128"
  obtains q where "get_amount_out ux p a t = Inr q" "unat q < 2 ^ 112" "unat q = pool_quote_spec p t (unat a)"
    "unat q \<le> unat (reserve_out p t)"
proof -
  have r: "unat (reserve_in p t) < 2 ^ 112" "unat (reserve_out p t) < 2 ^ 112" and fee: "unat (pl_fee_bps p) \<le> 10000"
    using assms(1) by (simp_all add: pool_in_range_def reserve_in_def reserve_out_def)
  have w: "unat a * fee_share p \<le> 2 ^ 128 * 10000"
    using assms(2) by (intro mult_le_mono) (simp_all add: fee_share_def)
  have "unat a * fee_share p * unat (reserve_out p t) \<le> 2 ^ 128 * 10000 * 2 ^ 112"
    by (rule mult_le_mono [OF w]) (use r(2) in simp)
  then obtain q where q: "get_amount_out ux p a t = Inr q" "unat q = pool_quote_spec p t (unat a)"
    using get_amount_out_returns [OF fee, of a t] r(1) w by auto
  moreover have "unat q \<le> unat (reserve_out p t)"
    unfolding q(2) by (simp add: pool_quote_spec_def cp_quote_le)
  ultimately show thesis
    using r(2) that by auto
qed

end

text \<open>C16: the pool quote. For a fee of at most 10000 basis points, an amount below \<open>2^128\<close> and reserves below
  \<open>2^112\<close> (the range of a V2 pair), the quote returns without a panic the exact constant-product
  amount; it never exceeds the output reserve and, for a pool with reserves, stays below it.\<close>

theorem get_amount_out_exact:
  assumes "u256_laws ux" "pool_in_range p" "unat a < 2 ^ 128"
  shows "\<exists>q. get_amount_out ux p a t = Inr q \<and> unat q = pool_quote_spec p t (unat a)
    \<and> unat q \<le> unat (reserve_out p t)
    \<and> (0 < unat (pl_reserve0 p) \<and> 0 < unat (pl_reserve1 p) \<longrightarrow> unat q < unat (reserve_out p t))"
proof -
  obtain q where q: "get_amount_out ux p a t = Inr q" "unat q = pool_quote_spec p t (unat a)"
    "unat q \<le> unat (reserve_out p t)"
    by (rule u256_laws.get_amount_out_range [OF assms])
  have "unat (pl_fee_bps p) \<le> 10000"
    using assms(2) by (simp add: pool_in_range_def)
  then have "unat q < unat (reserve_out p t)" if "0 < unat (pl_reserve0 p) \<and> 0 < unat (pl_reserve1 p)"
    using swap_curve.out_less_reserve [OF u256_laws.quote_curve [OF assms(1)], of p t a] that q(1)
    by (auto simp: reserve_in_def reserve_out_def)
  with q show ?thesis
    by blast
qed

definition sample_pool :: "address \<Rightarrow> u256 \<Rightarrow> u256 \<Rightarrow> Pool" where
  "sample_pool a r0 r1 = \<lparr>pl_address = a, pl_token0 = 3, pl_token1 = 4, pl_pool_type = PtSushiSwap,
     pl_reserve0 = r0, pl_reserve1 = r1, pl_liquidity = r0 + r1, pl_fee_bps = 30\<rparr>"

theorem get_amount_out_exact_witness:
  "\<exists>q. get_amount_out u256_std (sample_pool 7 1000000 2000000) 5000 3 = Inr q \<and> unat q = 9920"
  using get_amount_out_exact [OF std_u256.u256_laws_axioms, of "sample_pool 7 1000000 2000000" 5000 3]
  by (auto simp: sample_pool_def pool_in_range_def pool_quote_spec_def reserve_in_def reserve_out_def fee_share_def cp_quote_def)

section \<open>The invariant of the pool manager\<close>

text \<open>A well-formed pool has a real address, a fee that matches its type, and, if it is a V3 pool, usable
  virtual reserves. A well-formed store lists every pool once, under its address.\<close>

definition pool_wf :: "Pool \<Rightarrow> bool" where
  "pool_wf p \<longleftrightarrow> pl_address p \<noteq> 0 \<and>
    (case pl_pool_type p of
       PtUniswapV3 fee \<Rightarrow> fee \<in> fee_tier_as_u32 ` set fee_tier_all \<and> pl_fee_bps p = fee div 100
         \<and> 1000 \<le> pl_reserve0 p \<and> 1000 \<le> pl_reserve1 p
     | _ \<Rightarrow> pl_fee_bps p = 30)"

definition store_wf :: "(address \<times> Pool) list \<Rightarrow> bool" where
  "store_wf ps \<longleftrightarrow> distinct (map fst ps) \<and> (\<forall>(a, p) \<in> set ps. pl_address p = a \<and> pool_wf p)"

lemma store_wf_update:
  assumes "store_wf ps" "pool_wf p" "pl_address p = a"
  shows "store_wf (AList.update a p ps)"
  using assms distinct_update [of ps a p]
  by (auto simp: store_wf_def dest!: set_alist_update)

lemma v3_reserves_bound: "v3_reserves ux l sq = Inr (Some (r0, r1)) \<Longrightarrow> 1000 \<le> r0 \<and> 1000 \<le> r1"
  by (auto simp: v3_reserves_def Let_def bindE_eq_Inr_iff split: if_splits)

lemma fetch_v3_pool_wf:
  assumes "fetch_v3_pool ux rpc a fee = Inr (Some p)" "a \<noteq> 0" "fee \<in> fee_tier_as_u32 ` set fee_tier_all"
  shows "pool_wf p \<and> pl_address p = a"
proof -
  obtain l sq r0 r1 where "v3_reserves ux l sq = Inr (Some (r0, r1))"
    "pl_address p = a" "pl_pool_type p = PtUniswapV3 fee" "pl_fee_bps p = fee div 100"
    "pl_reserve0 p = r0" "pl_reserve1 p = r1"
    using assms(1)
    by (auto simp: fetch_v3_pool_def bindE_eq_Inr_iff split: option.splits if_splits)
  then show ?thesis
    using assms(2,3) v3_reserves_bound by (auto simp: pool_wf_def)
qed

lemma fetch_v2_pool_wf:
  assumes "fetch_v2_pool ux rpc f t0 t1 ty = Inr (Some p)" "\<forall>fee. ty \<noteq> PtUniswapV3 fee"
  shows "pool_wf p"
  using assms
  by (cases ty) (auto simp: fetch_v2_pool_def bindE_eq_Inr_iff pool_wf_def split: option.splits if_splits)

lemma set_opt_cons: "x \<in> set (opt_cons r xs) \<longleftrightarrow> r = Some x \<or> x \<in> set xs"
  by (auto simp: opt_cons_def split: option.splits)

lemma discover_v3_wf:
  "discover_v3 ux rpc f t0 t1 fees = Inr ps \<Longrightarrow> set fees \<subseteq> fee_tier_as_u32 ` set fee_tier_all \<Longrightarrow>
    \<forall>p \<in> set ps. pool_wf p"
proof (induction fees arbitrary: ps)
  case (Cons fee fees)
  then show ?case
    by (auto simp: bindE_eq_Inr_iff set_opt_cons split: option.splits if_splits
        dest!: fetch_v3_pool_wf [THEN conjunct1, OF _ _ imageI])
qed simp

lemma discover_pools_wf:
  assumes "discover_pools ux rpc s ta tb = Inr (s', pools)"
  shows "\<forall>p \<in> set pools. pool_wf p" "s' = foldl store_pool s pools"
proof -
  let ?t0 = "if ta < tb then ta else tb" and ?t1 = "if ta < tb then tb else ta"
  obtain v3 sushi camelot where d: "discover_v3 ux rpc (pm_uniswap_v3_factory s) ?t0 ?t1 [100, 500, 3000, 10000] = Inr v3"
    "fetch_v2_pool ux rpc (pm_sushi_factory s) ?t0 ?t1 PtSushiSwap = Inr sushi"
    "fetch_v2_pool ux rpc (pm_camelot_factory s) ?t0 ?t1 PtCamelot = Inr camelot"
    "pools = v3 @ opt_cons sushi (opt_cons camelot [])" "s' = foldl store_pool s pools"
    using assms by (auto simp: discover_pools_def Let_def bindE_eq_Inr_iff split: if_splits)
  then show "s' = foldl store_pool s pools" by blast
  have "\<forall>p \<in> set v3. pool_wf p"
    by (rule discover_v3_wf [OF d(1)]) (simp add: fee_tier_all_def)
  moreover have "pool_wf p" if "sushi = Some p \<or> camelot = Some p" for p
    using that d(2,3) fetch_v2_pool_wf by (metis PoolType.distinct(1,3))
  ultimately show "\<forall>p \<in> set pools. pool_wf p"
    by (auto simp: d(4) set_opt_cons)
qed

lemma store_wf_bulk:
  "store_wf (pm_pools s) \<Longrightarrow> \<forall>p \<in> set pools. pool_wf p \<Longrightarrow> store_wf (pm_pools (foldl store_pool s pools))"
  by (induction pools arbitrary: s) (simp_all add: store_pool_def store_wf_update)

lemma refresh_one_wf:
  assumes "refresh_one ux rpc a p = Inr (Some p')" "pool_wf p"
  shows "pool_wf p' \<and> pl_address p' = pl_address p"
  using assms v3_reserves_bound
  by (cases "pl_pool_type p")
    (fastforce simp: refresh_one_def refresh_v2_def bindE_eq_Inr_iff pool_wf_def split: option.splits if_splits)+

lemma refresh_results_wf:
  "refresh_results ux rpc ps = Inr rs \<Longrightarrow> \<forall>(a, p) \<in> set ps. pl_address p = a \<and> pool_wf p \<Longrightarrow>
    (a, Some p') \<in> set rs \<Longrightarrow> pool_wf p' \<and> pl_address p' = a"
proof (induction ps arbitrary: rs)
  case (Cons x ps)
  obtain b p where "x = (b, p)"
    by (cases x)
  with Cons show ?case
    by (auto simp: bindE_eq_Inr_iff dest: refresh_one_wf)
qed simp

lemma put_results_wf:
  "store_wf ps \<Longrightarrow> \<forall>a p. (a, Some p) \<in> set rs \<longrightarrow> pool_wf p \<and> pl_address p = a \<Longrightarrow> store_wf (foldl put_result ps rs)"
proof (induction rs arbitrary: ps)
  case (Cons r rs)
  then show ?case
    by (cases r; cases "snd r") (auto simp: put_result_def intro!: Cons.IH store_wf_update)
qed simp

text \<open>The states of a manager: any sequence of discoveries and refreshes, against any answers of the node.\<close>

inductive manager_reachable :: "u256crate \<Rightarrow> PoolManager \<Rightarrow> bool" for ux where
  new: "manager_reachable ux pool_manager_new"
| discover: "manager_reachable ux s \<Longrightarrow> discover_pools ux rpc s ta tb = Inr (s', ps) \<Longrightarrow> manager_reachable ux s'"
| all: "manager_reachable ux s \<Longrightarrow> refresh_all ux rpc s = Inr s' \<Longrightarrow> manager_reachable ux s'"
| one: "manager_reachable ux s \<Longrightarrow> refresh_pool ux rpc s a = Inr s' \<Longrightarrow> manager_reachable ux s'"

lemma refresh_pool_wf:
  assumes "refresh_pool ux rpc s a = Inr s'" "store_wf (pm_pools s)"
  shows "store_wf (pm_pools s')"
proof (cases "map_of (pm_pools s) a")
  case None
  with assms show ?thesis by (simp add: refresh_pool_def)
next
  case (Some p)
  then have p: "pl_address p = a" "pool_wf p"
    using assms(2) by (auto simp: store_wf_def dest: map_of_SomeD)
  obtain r where r: "(case pl_pool_type p of PtUniswapV3 fee \<Rightarrow> fetch_v3_pool ux rpc a fee
      | _ \<Rightarrow> refresh_v2 ux rpc a p) = Inr r" and s': "pm_pools s' = put_result (pm_pools s) (a, r)"
    using assms(1) by (auto simp: refresh_pool_def Some bindE_eq_Inr_iff)
  have "pool_wf p' \<and> pl_address p' = a" if "r = Some p'" for p'
  proof (cases "pl_pool_type p")
    case (PtUniswapV3 fee)
    then have "fetch_v3_pool ux rpc a fee = Inr (Some p')"
      using r that by simp
    then show ?thesis
      using p PtUniswapV3 by (intro fetch_v3_pool_wf) (auto simp: pool_wf_def)
  qed (use r that p in \<open>auto simp: refresh_v2_def bindE_eq_Inr_iff pool_wf_def split: option.splits\<close>)
  then show ?thesis
    using assms(2) by (cases r) (auto simp: s' put_result_def intro!: store_wf_update)
qed

lemma manager_store_wf: "manager_reachable ux s \<Longrightarrow> store_wf (pm_pools s)"
proof (induction rule: manager_reachable.induct)
  case (discover s rpc ta tb s' ps)
  show ?case
    unfolding discover_pools_wf(2) [OF discover.hyps(2)]
    by (rule store_wf_bulk [OF discover.IH discover_pools_wf(1) [OF discover.hyps(2)]])
next
  case (all s rpc s')
  obtain rs where rs: "refresh_results ux rpc (pm_pools s) = Inr rs" and s': "pm_pools s' = foldl put_result (pm_pools s) rs"
    using all.hyps(2) by (auto simp: refresh_all_def bindE_eq_Inr_iff)
  have "\<forall>(a, p) \<in> set (pm_pools s). pl_address p = a \<and> pool_wf p"
    using all.IH by (simp add: store_wf_def)
  from refresh_results_wf [OF rs this] show ?case
    unfolding s' by (intro put_results_wf all.IH) simp
next
  case (one s rpc a s')
  show ?case
    by (rule refresh_pool_wf [OF one.hyps(2) one.IH])
qed (simp add: pool_manager_new_def store_wf_def)


definition rpc_sample :: chain_rpc where
  "rpc_sample =
    \<lparr>rpc_get_pool = \<lambda>f t0 t1 fee. if fee = 500 then Some 77 else Some 0,
     rpc_get_pair = \<lambda>f t0 t1. if f = pm_sushi_factory pool_manager_new then Some 78 else None,
     rpc_token0 = \<lambda>a. Some 3, rpc_token1 = \<lambda>a. Some 4, rpc_liquidity = \<lambda>a. Some 5000000,
     rpc_sqrt_price = \<lambda>a. Some (2 ^ 97), rpc_reserves = \<lambda>a. Some (1000, 2000)\<rparr>"

definition manager_sample :: PoolManager where
  "manager_sample = pool_manager_new\<lparr>pm_pools :=
    [(77, \<lparr>pl_address = 77, pl_token0 = 3, pl_token1 = 4, pl_pool_type = PtUniswapV3 500,
           pl_reserve0 = 2500000, pl_reserve1 = 10000000, pl_liquidity = 5000000, pl_fee_bps = 5\<rparr>),
     (78, \<lparr>pl_address = 78, pl_token0 = 3, pl_token1 = 4, pl_pool_type = PtSushiSwap,
           pl_reserve0 = 1000, pl_reserve1 = 2000, pl_liquidity = 3000, pl_fee_bps = 30\<rparr>)]\<rparr>"

lemma rpc_get_pool_sample: "rpc_get_pool rpc_sample f t0 t1 fee = (if fee = 500 then Some 77 else Some 0)"
  by (simp add: rpc_sample_def)

lemma v3_reserves_sample: "v3_reserves u256_std 5000000 (2 ^ 97) = Inr (Some (2500000, 10000000))"
  by (simp add: v3_reserves_def std_u256.mul_law std_u256.div_law)

lemma discover_sample: "discover_pools u256_std rpc_sample pool_manager_new 4 3 = Inr (manager_sample, map snd (pm_pools manager_sample))"
proof -
  have "fetch_v3_pool u256_std rpc_sample 77 500 = Inr (Some (snd (pm_pools manager_sample ! 0)))"
    by (simp add: fetch_v3_pool_def rpc_sample_def v3_reserves_sample [simplified] manager_sample_def)
  moreover have "fetch_v2_pool u256_std rpc_sample (pm_sushi_factory pool_manager_new) 3 4 PtSushiSwap
      = Inr (Some (snd (pm_pools manager_sample ! 1)))"
    by (simp add: fetch_v2_pool_def rpc_sample_def std_u256.add_law manager_sample_def)
  moreover have "fetch_v2_pool u256_std rpc_sample (pm_camelot_factory pool_manager_new) 3 4 PtCamelot = Inr None"
    by (simp add: fetch_v2_pool_def rpc_sample_def pool_manager_new_def)
  moreover have "pm_pools pool_manager_new = []"
    by (simp add: pool_manager_new_def)
  ultimately show ?thesis
    by (simp add: discover_pools_def rpc_get_pool_sample opt_cons_def manager_sample_def store_pool_def)
qed

lemma manager_sample_reachable: "manager_reachable u256_std manager_sample"
  using manager_reachable.discover [OF manager_reachable.new discover_sample] .


section \<open>Discovery and refresh\<close>

text \<open>Discovery stores what it returns. When the discovered pools have distinct addresses, each of them
  can be looked up under its address afterwards, \<open>get_pools\<close> for its own tokens contains it, and
  pools at other addresses are untouched.\<close>

theorem discover_pools_stored:
  assumes "discover_pools ux rpc s ta tb = Inr (s', pools)" "distinct (map pl_address pools)"
  shows "(\<forall>p \<in> set pools. map_of (pm_pools s') (pl_address p) = Some p
      \<and> p \<in> set (get_pools s' (pl_token0 p) (pl_token1 p)))
    \<and> (\<forall>a. a \<notin> pl_address ` set pools \<longrightarrow> map_of (pm_pools s') a = map_of (pm_pools s) a)"
proof -
  note s' = discover_pools_wf(2) [OF assms(1)]
  have l: "map_of (pm_pools s') (pl_address p) = Some p" if "p \<in> set pools" for p
    unfolding s' using arbitrum_store.lookup_bulk_distinct [OF assms(2) that] .
  have "p \<in> set (get_pools s' (pl_token0 p) (pl_token1 p))" if "p \<in> set pools" for p
  proof -
    have "p \<in> snd ` set (pm_pools s')"
      using map_of_SomeD [OF l [OF that]] by (rule rev_image_eqI) simp
    then show ?thesis
      by (simp add: get_pools_def)
  qed
  moreover have "map_of (pm_pools s') a = map_of (pm_pools s) a" if "a \<notin> pl_address ` set pools" for a
    unfolding s' using that by (rule arbitrum_store.lookup_bulk_notin)
  ultimately show ?thesis
    using l by blast
qed

theorem discover_pools_stored_witness:
  "\<forall>p \<in> set (map snd (pm_pools manager_sample)). p \<in> set (get_pools manager_sample (pl_token0 p) (pl_token1 p))"
  using discover_pools_stored [OF discover_sample] by (simp add: manager_sample_def)

lemma put_result_other: "fst r \<noteq> a \<Longrightarrow> map_of (put_result ps r) a = map_of ps a"
  by (cases r) (auto simp: put_result_def map_of_alist_update split: option.splits)

lemma put_results_other: "\<forall>r \<in> set rs. fst r = a \<longrightarrow> snd r = None \<Longrightarrow> map_of (foldl put_result ps rs) a = map_of ps a"
proof (induction rs arbitrary: ps)
  case (Cons r rs)
  have "map_of (put_result ps r) a = map_of ps a"
    using Cons.prems put_result_other [of r a ps]
    by (cases r; cases "fst r = a") (auto simp: put_result_def)
  with Cons show ?case by simp
qed simp

text \<open>A drained pool keeps its old quote. When the node reports that a stored V3 pool has no liquidity left
  (or an unusable price), a refresh does not remove or zero the record: the reserves of the last
  successful refresh stay in the store and are quoted as before.\<close>

theorem refresh_keeps_drained_pool:
  assumes "map_of (pm_pools s) a = Some p" "distinct (map fst (pm_pools s))" "pl_pool_type p = PtUniswapV3 fee"
    and "rpc_liquidity rpc a = Some 0" "refresh_all ux rpc s = Inr s'"
  shows "map_of (pm_pools s') a = Some p \<and> refresh_pool ux rpc s a = Inr s"
proof -
  have one: "refresh_one ux rpc a p = Inr None"
    by (simp add: refresh_one_def assms(3,4))
  have "\<forall>r \<in> set rs. fst r = a \<longrightarrow> snd r = None"
    if "refresh_results ux rpc ps = Inr rs" "\<forall>q. (a, q) \<in> set ps \<longrightarrow> q = p" for ps rs
    using that
  proof (induction ps arbitrary: rs)
    case (Cons x ps)
    obtain b q where x: "x = (b, q)"
      by (cases x)
    obtain r rs' where r: "refresh_one ux rpc b q = Inr r" "refresh_results ux rpc ps = Inr rs'" "rs = (b, r) # rs'"
      using Cons.prems(1) by (auto simp: x bindE_eq_Inr_iff)
    moreover have "\<forall>r \<in> set rs'. fst r = a \<longrightarrow> snd r = None"
      using Cons.prems(2) by (intro Cons.IH [OF r(2)]) simp
    moreover have "r = None" if "b = a"
      using r(1) one Cons.prems(2) that by (simp add: x)
    ultimately show ?case
      by simp
  qed simp
  moreover have "\<forall>q. (a, q) \<in> set (pm_pools s) \<longrightarrow> q = p"
    using assms(1,2) by (metis map_of_is_SomeI option.inject)
  ultimately have "map_of (pm_pools s') a = Some p"
    using assms(1,5) by (auto simp: refresh_all_def bindE_eq_Inr_iff put_results_other)
  moreover have "fetch_v3_pool ux rpc a fee = Inr None"
    by (simp add: fetch_v3_pool_def assms(4) split: option.split)
  then have "refresh_pool ux rpc s a = Inr s"
    by (simp add: refresh_pool_def assms(1,3) put_result_def)
  ultimately show ?thesis ..
qed

theorem refresh_keeps_drained_pool_witness:
  "\<exists>s'. refresh_all u256_std (rpc_sample\<lparr>rpc_liquidity := \<lambda>a. Some 0\<rparr>) manager_sample = Inr s'
    \<and> map_option pl_reserve0 (map_of (pm_pools s') 77) = Some 2500000"
proof -
  let ?rpc = "rpc_sample\<lparr>rpc_liquidity := \<lambda>a. Some 0\<rparr>"
  obtain p where p: "map_of (pm_pools manager_sample) 77 = Some p" "pl_pool_type p = PtUniswapV3 500" "pl_reserve0 p = 2500000"
    by (simp add: manager_sample_def)
  obtain s' where s': "refresh_all u256_std ?rpc manager_sample = Inr s'"
    by (simp add: refresh_all_def manager_sample_def refresh_one_def refresh_v2_def rpc_sample_def std_u256.add_law)
  have "map_of (pm_pools s') 77 = Some p"
    using refresh_keeps_drained_pool [OF p(1) _ p(2) _ s'] by (simp add: manager_sample_def)
  with s' p(3) show ?thesis by auto
qed

end
