(* ===== verification/Arbitrum_Search.thy ===== *)
theory Arbitrum_Search
  imports Arbitrum_Pools
begin

text \<open>
  The arbitrage search on Arbitrum (\<^verbatim>\<open>core/src/arbitrum/detector.rs\<close>): two-hop and triangular
  searches over the stored pools, the scan over all tokens, and the search for an input amount.
  One search sees one state of the pool store. The near-miss ratio, a double that is only
  printed, is left out; the conversions on the way to it, which can panic, are modelled.
\<close>

section \<open>The detector\<close>

record ArbitrageStep =
  as_pool :: address
  as_pool_type :: PoolType
  as_token_in :: address
  as_token_out :: address
  as_amount_in :: u256
  as_amount_out :: u256

record ArbitrageOpportunity =
  ao_path :: "ArbitrageStep list"
  ao_input_token :: address
  ao_input_amount :: u256
  ao_output_amount :: u256
  ao_profit :: u256
  ao_profit_bps :: u32
  ao_gas_estimate :: u256
  ao_net_profit :: u256

record ArbitrumDetector =
  ad_pool_manager :: PoolManager
  ad_min_profit_bps :: u32
  ad_gas_price_wei :: u256

definition arbitrum_detector_new :: "PoolManager \<Rightarrow> u32 \<Rightarrow> ArbitrumDetector" where
  "arbitrum_detector_new pm bps = \<lparr>ad_pool_manager = pm, ad_min_profit_bps = bps, ad_gas_price_wei = 100000000\<rparr>"

definition set_gas_price :: "ArbitrumDetector \<Rightarrow> u256 \<Rightarrow> ArbitrumDetector" where
  "set_gas_price d gas_price = d\<lparr>ad_gas_price_wei := gas_price\<rparr>"

fun pool_gas :: "PoolType \<Rightarrow> nat" where
  "pool_gas (PtUniswapV3 fee) = 150000"
| "pool_gas PtSushiSwap = 100000"
| "pool_gas PtCamelot = 100000"

definition arbitrum_estimate_gas :: "PoolType \<Rightarrow> PoolType \<Rightarrow> u256" where
  "arbitrum_estimate_gas pool_a pool_b = of_nat (50000 + pool_gas pool_a + pool_gas pool_b)"

text \<open>The tail both searches share: profit, the bound in basis points, gas, and the record.\<close>

definition opportunity_from ::
  "u256crate \<Rightarrow> ArbitrumDetector \<Rightarrow> address \<Rightarrow> u256 \<Rightarrow> u256 \<Rightarrow> u256 \<Rightarrow> ArbitrageStep list \<Rightarrow> ArbitrageOpportunity option exec"
where
  "opportunity_from ux d token amount amount_out gas_estimate path =
    bindE (ux_sub ux amount_out amount) (\<lambda>profit.
    bindE (ux_mul ux profit 10000) (\<lambda>n.
    bindE (ux_div ux n amount) (\<lambda>profit_bps_u256.
    let profit_bps = ux_low_u32 ux profit_bps_u256 in
    if profit_bps < ad_min_profit_bps d then Inr None
    else bindE (ux_mul ux gas_estimate (ad_gas_price_wei d)) (\<lambda>gas_cost.
      if gas_cost < profit then
        bindE (ux_sub ux profit gas_cost) (\<lambda>net_profit.
        Inr (Some \<lparr>ao_path = path, ao_input_token = token, ao_input_amount = amount,
                   ao_output_amount = amount_out, ao_profit = profit, ao_profit_bps = profit_bps,
                   ao_gas_estimate = gas_estimate, ao_net_profit = net_profit\<rparr>))
      else Inr None))))"

definition step_on :: "Pool \<Rightarrow> address \<Rightarrow> address \<Rightarrow> u256 \<Rightarrow> u256 \<Rightarrow> ArbitrageStep" where
  "step_on p token_in token_out amount_in amount_out =
    \<lparr>as_pool = pl_address p, as_pool_type = pl_pool_type p, as_token_in = token_in, as_token_out = token_out,
     as_amount_in = amount_in, as_amount_out = amount_out\<rparr>"

definition two_hop_candidate ::
  "u256crate \<Rightarrow> ArbitrumDetector \<Rightarrow> address \<Rightarrow> address \<Rightarrow> u256 \<Rightarrow> Pool \<times> Pool \<Rightarrow> ArbitrageOpportunity option exec"
where
  "two_hop_candidate ux d token intermediate amount = (\<lambda>(pool_a, pool_b).
    if pl_address pool_a = pl_address pool_b then Inr None
    else bindE (get_amount_out ux pool_a amount token) (\<lambda>amount_mid.
      if amount_mid = 0 then Inr None
      else bindE (get_amount_out ux pool_b amount_mid intermediate) (\<lambda>amount_out.
        if amount_out = 0 then Inr None
        else if amount_out \<le> amount then Inr None
        else opportunity_from ux d token amount amount_out
               (arbitrum_estimate_gas (pl_pool_type pool_a) (pl_pool_type pool_b))
               [step_on pool_a token intermediate amount amount_mid,
                step_on pool_b intermediate token amount_mid amount_out])))"

definition triangular_candidate ::
  "u256crate \<Rightarrow> ArbitrumDetector \<Rightarrow> address \<Rightarrow> address \<Rightarrow> address \<Rightarrow> u256 \<Rightarrow> Pool \<times> Pool \<times> Pool \<Rightarrow> ArbitrageOpportunity option exec"
where
  "triangular_candidate ux d token_a token_b token_c amount = (\<lambda>(pool_ab, pool_bc, pool_ca).
    bindE (get_amount_out ux pool_ab amount token_a) (\<lambda>amount_b.
    if amount_b = 0 then Inr None
    else bindE (get_amount_out ux pool_bc amount_b token_b) (\<lambda>amount_c.
    if amount_c = 0 then Inr None
    else bindE (get_amount_out ux pool_ca amount_c token_c) (\<lambda>amount_out.
    if amount_out = 0 \<or> amount_out \<le> amount then Inr None
    else opportunity_from ux d token_a amount amount_out 400000
           [step_on pool_ab token_a token_b amount amount_b,
            step_on pool_bc token_b token_c amount_b amount_c,
            step_on pool_ca token_c token_a amount_c amount_out]))))"

definition keep_best :: "ArbitrageOpportunity option \<Rightarrow> ArbitrageOpportunity option \<Rightarrow> ArbitrageOpportunity option" where
  "keep_best best r =
    (case r of
       None \<Rightarrow> best
     | Some opp \<Rightarrow>
         (case best of
            Some b \<Rightarrow> if ao_net_profit b < ao_net_profit opp then Some opp else Some b
          | None \<Rightarrow> Some opp))"

fun best_of :: "('c \<Rightarrow> ArbitrageOpportunity option exec) \<Rightarrow> 'c list \<Rightarrow> ArbitrageOpportunity option \<Rightarrow> ArbitrageOpportunity option exec" where
  "best_of candidate [] best = Inr best"
| "best_of candidate (c # cs) best = bindE (candidate c) (\<lambda>r. best_of candidate cs (keep_best best r))"

definition find_two_hop_arb ::
  "u256crate \<Rightarrow> ArbitrumDetector \<Rightarrow> address \<Rightarrow> address \<Rightarrow> u256 \<Rightarrow> ArbitrageOpportunity option exec" where
  "find_two_hop_arb ux d token intermediate amount =
    (let pools_first = get_pools (ad_pool_manager d) token intermediate;
         pools_second = get_pools (ad_pool_manager d) intermediate token in
     if pools_first = [] \<or> pools_second = [] then Inr None
     else best_of (two_hop_candidate ux d token intermediate amount) (List.product pools_first pools_second) None)"

definition find_triangular_arb ::
  "u256crate \<Rightarrow> ArbitrumDetector \<Rightarrow> address \<Rightarrow> address \<Rightarrow> address \<Rightarrow> u256 \<Rightarrow> ArbitrageOpportunity option exec" where
  "find_triangular_arb ux d token_a token_b token_c amount =
    (let pools_ab = get_pools (ad_pool_manager d) token_a token_b;
         pools_bc = get_pools (ad_pool_manager d) token_b token_c;
         pools_ca = get_pools (ad_pool_manager d) token_c token_a in
     if pools_ab = [] \<or> pools_bc = [] \<or> pools_ca = [] then Inr None
     else best_of (triangular_candidate ux d token_a token_b token_c amount)
            (List.product (take 3 pools_ab) (List.product (take 3 pools_bc) (take 3 pools_ca))) None)"

section \<open>The scan\<close>

fun collect_found :: "('c \<Rightarrow> 'a option exec) \<Rightarrow> 'c list \<Rightarrow> 'a list exec" where
  "collect_found search [] = Inr []"
| "collect_found search (c # cs) =
    bindE (search c) (\<lambda>r. bindE (collect_found search cs) (\<lambda>os. Inr (opt_cons r os)))"

text \<open>The near-miss loop: both amounts pass through \<^verbatim>\<open>as_u128\<close>.\<close>

definition near_miss :: "u256crate \<Rightarrow> address \<Rightarrow> u256 \<Rightarrow> address \<Rightarrow> Pool \<times> Pool \<Rightarrow> unit exec" where
  "near_miss ux weth amount token = (\<lambda>(pool_a, pool_b).
    if pl_address pool_a = pl_address pool_b then Inr ()
    else bindE (get_amount_out ux pool_a amount weth) (\<lambda>amount_mid.
      if amount_mid = 0 then Inr ()
      else bindE (get_amount_out ux pool_b amount_mid token) (\<lambda>amount_out.
        if amount_out = 0 then Inr ()
        else bindE (ux_as_u128 ux amount_out) (\<lambda>_. bindE (ux_as_u128 ux amount) (\<lambda>_. Inr ())))))"

fun run_all :: "('c \<Rightarrow> unit exec) \<Rightarrow> 'c list \<Rightarrow> unit exec" where
  "run_all act [] = Inr ()"
| "run_all act (c # cs) = bindE (act c) (\<lambda>_. run_all act cs)"

definition near_miss_token :: "u256crate \<Rightarrow> ArbitrumDetector \<Rightarrow> address \<Rightarrow> u256 \<Rightarrow> address \<Rightarrow> unit exec" where
  "near_miss_token ux d weth amount token =
    run_all (near_miss ux weth amount token)
      (List.product (get_pools (ad_pool_manager d) weth token) (get_pools (ad_pool_manager d) token weth))"

fun ordered_pairs :: "'a list \<Rightarrow> ('a \<times> 'a) list" where
  "ordered_pairs [] = []"
| "ordered_pairs (x # xs) = map (Pair x) xs @ ordered_pairs xs"

definition scan_all :: "u256crate \<Rightarrow> ArbitrumDetector \<Rightarrow> u256 \<Rightarrow> ArbitrageOpportunity list exec" where
  "scan_all ux d amount =
    (let tokens = map snd get_top_arbitrum_tokens; weth = tokens ! 0; others = drop 1 tokens in
     bindE (collect_found (\<lambda>token. find_two_hop_arb ux d weth token amount) others) (\<lambda>two_hop.
     bindE (if two_hop = [] then run_all (near_miss_token ux d weth amount) others else Inr ()) (\<lambda>_.
     bindE (collect_found (\<lambda>(x, y). find_triangular_arb ux d weth x y amount) (ordered_pairs others)) (\<lambda>triangular.
     Inr (sort_key (\<lambda>opp. - int (unat (ao_net_profit opp))) (two_hop @ triangular))))))"

section \<open>The amount search\<close>

definition probe_profit :: "u256crate \<Rightarrow> Pool \<Rightarrow> Pool \<Rightarrow> address \<Rightarrow> address \<Rightarrow> u256 \<Rightarrow> u256 exec" where
  "probe_profit ux pool_a pool_b token intermediate mid =
    bindE (get_amount_out ux pool_a mid token) (\<lambda>amount_mid.
    bindE (get_amount_out ux pool_b amount_mid intermediate) (\<lambda>amount_out.
    if mid < amount_out then ux_sub ux amount_out mid else Inr 0))"

fun optimal_loop :: "u256crate \<Rightarrow> (u256 \<Rightarrow> u256 exec) \<Rightarrow> nat \<Rightarrow> u256 \<Rightarrow> u256 \<Rightarrow> u256 \<Rightarrow> u256 \<Rightarrow> u256 exec" where
  "optimal_loop ux probe 0 low high best_amount best_profit = Inr best_amount"
| "optimal_loop ux probe (Suc n) low high best_amount best_profit =
    (if high \<le> low then Inr best_amount
     else bindE (ux_add ux low high) (\<lambda>s.
          bindE (ux_div ux s 2) (\<lambda>mid.
          bindE (probe mid) (\<lambda>profit.
          if best_profit < profit then
            bindE (ux_add ux mid 1) (\<lambda>low'. optimal_loop ux probe n low' high mid profit)
          else
            bindE (ux_sub ux mid 1) (\<lambda>high'. optimal_loop ux probe n low high' best_amount best_profit)))))"

definition find_optimal_amount :: "u256crate \<Rightarrow> Pool \<Rightarrow> Pool \<Rightarrow> address \<Rightarrow> address \<Rightarrow> u256 exec" where
  "find_optimal_amount ux pool_a pool_b token intermediate =
    bindE (ux_div ux (min (pl_reserve0 pool_a) (pl_reserve1 pool_a)) 10) (\<lambda>high.
    optimal_loop ux (probe_profit ux pool_a pool_b token intermediate) 64 1000000000000000 high 1000000000000000 0)"

section \<open>What a search computes\<close>

definition net_spec :: "ArbitrumDetector \<Rightarrow> nat \<Rightarrow> nat \<Rightarrow> nat \<Rightarrow> nat option" where
  "net_spec d amount out gas =
    (if amount < out \<and> unat (ad_min_profit_bps d) \<le> (out - amount) * 10000 div amount mod 2 ^ 32
        \<and> gas * unat (ad_gas_price_wei d) < out - amount
     then Some (out - amount - gas * unat (ad_gas_price_wei d)) else None)"

definition two_hop_out :: "address \<Rightarrow> address \<Rightarrow> nat \<Rightarrow> Pool \<Rightarrow> Pool \<Rightarrow> nat" where
  "two_hop_out token intermediate amount a b = pool_quote_spec b intermediate (pool_quote_spec a token amount)"

definition two_hop_net :: "ArbitrumDetector \<Rightarrow> address \<Rightarrow> address \<Rightarrow> nat \<Rightarrow> Pool \<times> Pool \<Rightarrow> nat option" where
  "two_hop_net d token intermediate amount = (\<lambda>(a, b).
    if pl_address a = pl_address b then None
    else net_spec d amount (two_hop_out token intermediate amount a b)
           (50000 + pool_gas (pl_pool_type a) + pool_gas (pl_pool_type b)))"

definition triangular_out :: "address \<Rightarrow> address \<Rightarrow> address \<Rightarrow> nat \<Rightarrow> Pool \<times> Pool \<times> Pool \<Rightarrow> nat" where
  "triangular_out ta tb tc amount = (\<lambda>(ab, bc, ca).
    pool_quote_spec ca tc (pool_quote_spec bc tb (pool_quote_spec ab ta amount)))"

fun chained :: "ArbitrageStep list \<Rightarrow> bool" where
  "chained (s # t # ss) \<longleftrightarrow> as_token_out s = as_token_in t \<and> as_amount_out s = as_amount_in t \<and> chained (t # ss)"
| "chained ss \<longleftrightarrow> True"

text \<open>A sound opportunity is a round trip whose books balance and that clears both thresholds.\<close>

definition sound_opportunity :: "ArbitrumDetector \<Rightarrow> ArbitrageOpportunity \<Rightarrow> bool" where
  "sound_opportunity d opp \<longleftrightarrow>
    ao_path opp \<noteq> [] \<and> chained (ao_path opp)
    \<and> as_token_in (hd (ao_path opp)) = ao_input_token opp \<and> as_token_out (last (ao_path opp)) = ao_input_token opp
    \<and> as_amount_in (hd (ao_path opp)) = ao_input_amount opp \<and> as_amount_out (last (ao_path opp)) = ao_output_amount opp
    \<and> unat (ao_output_amount opp) = unat (ao_input_amount opp) + unat (ao_profit opp)
    \<and> unat (ao_profit opp) = unat (ao_net_profit opp) + unat (ao_gas_estimate opp) * unat (ad_gas_price_wei d)
    \<and> 0 < unat (ao_net_profit opp) \<and> ad_min_profit_bps d \<le> ao_profit_bps opp"

lemma pool_gas_le: "pool_gas t \<le> 150000"
  by (cases t) simp_all

lemma unat_arbitrum_estimate_gas:
  "unat (arbitrum_estimate_gas s t) = 50000 + pool_gas s + pool_gas t"
  unfolding arbitrum_estimate_gas_def
  using pool_gas_le [of s] pool_gas_le [of t] by (intro unat_word_of_nat_small) simp

lemma keep_best_None [simp]: "keep_best b None = b" "keep_best None r = r"
  by (simp_all add: keep_best_def split: option.split)

lemma keep_best_cases:
  "(keep_best b r = None \<longleftrightarrow> b = None \<and> r = None)
   \<and> (keep_best b r = Some w \<longrightarrow> (b = Some w \<or> r = Some w)
      \<and> (\<forall>v. b = Some v \<or> r = Some v \<longrightarrow> ao_net_profit v \<le> ao_net_profit w))"
  by (auto simp: keep_best_def split: option.splits if_splits)

lemma best_of_returns: "\<forall>c \<in> set cs. no_panic (f c) \<Longrightarrow> no_panic (best_of f cs b)"
proof (induction cs arbitrary: b)
  case (Cons c cs)
  then show ?case by (cases "f c") auto
qed simp

lemma best_of_Inr: "best_of f cs b = Inr r \<Longrightarrow> c \<in> set cs \<Longrightarrow> \<exists>x. f c = Inr x"
  by (induction cs arbitrary: b) (auto simp: bindE_eq_Inr_iff)

text \<open>The loop keeps a maximum: nothing found means that no candidate was, and what is found is a
  candidate with the greatest net profit.\<close>

lemma best_of_None: "best_of f cs b = Inr None \<Longrightarrow> b = None \<and> (\<forall>c \<in> set cs. f c = Inr None)"
proof (induction cs arbitrary: b)
  case (Cons c cs)
  then obtain x where "f c = Inr x" "best_of f cs (keep_best b x) = Inr None"
    by (auto simp: bindE_eq_Inr_iff)
  with Cons.IH keep_best_cases [of b x] show ?case by force
qed simp

lemma best_of_Some:
  "best_of f cs b = Inr (Some w) \<Longrightarrow>
    (b = Some w \<or> (\<exists>c \<in> set cs. f c = Inr (Some w)))
    \<and> (\<forall>v. b = Some v \<or> (\<exists>c \<in> set cs. f c = Inr (Some v)) \<longrightarrow> ao_net_profit v \<le> ao_net_profit w)"
proof (induction cs arbitrary: b)
  case (Cons c cs)
  then obtain x where x: "f c = Inr x" "best_of f cs (keep_best b x) = Inr (Some w)"
    by (auto simp: bindE_eq_Inr_iff)
  note ih = Cons.IH [OF x(2)]
  have "ao_net_profit v \<le> ao_net_profit w" if v: "b = Some v \<or> x = Some v" for v
  proof -
    obtain u where u: "keep_best b x = Some u"
      using v keep_best_cases [of b x] by (cases "keep_best b x") auto
    then have "ao_net_profit v \<le> ao_net_profit u" "ao_net_profit u \<le> ao_net_profit w"
      using keep_best_cases [of b x u] v ih by auto
    then show ?thesis by simp
  qed
  moreover have "b = Some w \<or> x = Some w \<or> (\<exists>c \<in> set cs. f c = Inr (Some w))"
    using ih keep_best_cases [of b x w] by auto
  ultimately show ?case
    using ih x(1) by auto
qed simp

context u256_laws
begin

lemma unat_low_u32: "unat (ux_low_u32 ux a) = unat a mod 2 ^ 32"
  by (simp add: low_u32_law unsigned_ucast_eq take_bit_eq_mod)

lemma opportunity_from_value:
  assumes "opportunity_from ux d token amount out gas path = Inr r"
  shows "map_option (\<lambda>x. unat (ao_net_profit x)) r = net_spec d (unat amount) (unat out) (unat gas)"
  using assms unfolding opportunity_from_def
  by (auto simp: bindE_eq_Inr_iff Inr_iffs Let_def net_spec_def word_less_nat_alt unat_low_u32 not_less
      split: if_splits)

lemma opportunity_from_fields:
  assumes "opportunity_from ux d token amount out gas path = Inr (Some w)"
  shows "ao_path w = path \<and> ao_input_token w = token \<and> ao_input_amount w = amount \<and> ao_output_amount w = out
    \<and> ao_gas_estimate w = gas \<and> unat out = unat amount + unat (ao_profit w)
    \<and> unat (ao_profit w) = unat (ao_net_profit w) + unat gas * unat (ad_gas_price_wei d)
    \<and> 0 < unat (ao_net_profit w) \<and> ad_min_profit_bps d \<le> ao_profit_bps w"
  using assms unfolding opportunity_from_def
  by (auto simp: bindE_eq_Inr_iff Inr_iffs Let_def word_less_nat_alt word_le_nat_alt split: if_splits)

lemma opportunity_from_returns:
  assumes "amount < out" "0 < amount" "unat out * 10000 < 2 ^ 256" "unat gas * unat (ad_gas_price_wei d) < 2 ^ 256"
  shows "no_panic (opportunity_from ux d token amount out gas path)"
proof -
  obtain p where p: "ux_sub ux out amount = Inr p" "unat p = unat out - unat amount"
    using sub_ok [of amount out] assms(1) by (auto simp: word_less_nat_alt)
  have "unat p * unat (10000 :: u256) < 2 ^ 256"
    using assms(3) by (simp add: p(2))
  then obtain n where n: "ux_mul ux p 10000 = Inr n"
    using mul_ok by blast
  obtain q where q: "ux_div ux n amount = Inr q"
    using div_ok [of amount n] assms(2) by (auto simp: word_less_nat_alt)
  obtain c where c: "ux_mul ux gas (ad_gas_price_wei d) = Inr c"
    using mul_ok assms(4) by metis
  have "no_panic (ux_sub ux p c)" if "c < p"
    using that sub_law [of p c] by simp
  then show ?thesis
    by (auto simp: opportunity_from_def p n q c Let_def no_panic_def bindE_def split: sum.split)
qed

lemma two_hop_candidate_value:
  assumes "two_hop_candidate ux d token intermediate amount (a, b) = Inr r"
    and "unat (pl_fee_bps a) \<le> 10000" "unat (pl_fee_bps b) \<le> 10000"
  shows "map_option (\<lambda>x. unat (ao_net_profit x)) r = two_hop_net d token intermediate (unat amount) (a, b)"
proof (cases "pl_address a = pl_address b")
  case True
  with assms(1) show ?thesis by (simp add: two_hop_candidate_def two_hop_net_def)
next
  case False
  let ?m = "pool_quote_spec a token (unat amount)" and ?out = "two_hop_out token intermediate (unat amount) a b"
  obtain m where m: "get_amount_out ux a amount token = Inr m" "unat m = ?m"
    using assms(1) False get_amount_out_value [OF _ assms(2)]
    by (auto simp: two_hop_candidate_def bindE_eq_Inr_iff)
  show ?thesis
  proof (cases "m = 0")
    case True
    then have "?m = 0"
      using m(2) by simp
    then have "?out = 0"
      by (simp add: two_hop_out_def pool_quote_spec_def cp_quote_def)
    with assms(1) False m True show ?thesis
      by (simp add: two_hop_candidate_def two_hop_net_def net_spec_def)
  next
    case nz: False
    obtain w where w: "get_amount_out ux b m intermediate = Inr w" "unat w = ?out"
      using assms(1) False nz m get_amount_out_value [OF _ assms(3)]
      by (auto simp: two_hop_candidate_def two_hop_out_def bindE_eq_Inr_iff)
    show ?thesis
    proof (cases "amount < w")
      case True
      then have "w \<noteq> 0" by auto
      with True assms(1) False nz m(1) w(1)
      have "opportunity_from ux d token amount w (arbitrum_estimate_gas (pl_pool_type a) (pl_pool_type b))
          [step_on a token intermediate amount m, step_on b intermediate token m w] = Inr r"
        by (auto simp: two_hop_candidate_def split: if_splits)
      from opportunity_from_value [OF this] show ?thesis
        using False by (simp add: two_hop_net_def w(2) unat_arbitrum_estimate_gas)
    next
      case le: False
      then have "r = None"
        using assms(1) False nz m(1) w(1) by (auto simp: two_hop_candidate_def not_less split: if_splits)
      with le False show ?thesis
        by (simp add: two_hop_net_def net_spec_def word_less_nat_alt flip: w(2))
    qed
  qed
qed

lemma two_hop_candidate_sound:
  assumes "two_hop_candidate ux d token intermediate amount (a, b) = Inr (Some w)"
  shows "sound_opportunity d w \<and> ao_input_token w = token \<and> ao_input_amount w = amount
    \<and> map as_pool (ao_path w) = [pl_address a, pl_address b] \<and> pl_address a \<noteq> pl_address b"
proof -
  obtain m out where "opportunity_from ux d token amount out (arbitrum_estimate_gas (pl_pool_type a) (pl_pool_type b))
      [step_on a token intermediate amount m, step_on b intermediate token m out] = Inr (Some w)"
    and "pl_address a \<noteq> pl_address b"
    using assms by (auto simp: two_hop_candidate_def bindE_eq_Inr_iff split: if_splits)
  with opportunity_from_fields [OF this(1)] show ?thesis
    by (simp add: sound_opportunity_def step_on_def)
qed

lemma triangular_candidate_sound:
  assumes "triangular_candidate ux d ta tb tc amount (ab, bc, ca) = Inr (Some w)"
  shows "sound_opportunity d w \<and> ao_input_token w = ta \<and> ao_input_amount w = amount
    \<and> map as_pool (ao_path w) = [pl_address ab, pl_address bc, pl_address ca]"
proof -
  obtain m n out where "opportunity_from ux d ta amount out 400000
      [step_on ab ta tb amount m, step_on bc tb tc m n, step_on ca tc ta n out] = Inr (Some w)"
    using assms by (auto simp: triangular_candidate_def bindE_eq_Inr_iff split: if_splits)
  with opportunity_from_fields [OF this(1)] show ?thesis
    by (simp add: sound_opportunity_def step_on_def)
qed

lemma quote_0: "pool_in_range p \<Longrightarrow> get_amount_out ux p 0 t = Inr m \<Longrightarrow> m = 0"
  using get_amount_out_value [of p 0 t m]
  by (simp add: pool_in_range_def pool_quote_spec_def cp_quote_def unat_eq_iff)

lemma two_hop_candidate_returns:
  assumes "pool_in_range a" "pool_in_range b" "unat amount < 2 ^ 128" "unat (ad_gas_price_wei d) < 2 ^ 200"
  shows "no_panic (two_hop_candidate ux d token intermediate amount (a, b))"
proof -
  obtain m where m: "get_amount_out ux a amount token = Inr m" "unat m < 2 ^ 112"
    by (rule get_amount_out_range [OF assms(1,3)])
  have "unat m < 2 ^ 128"
    using m(2) by simp
  then obtain out where out: "get_amount_out ux b m intermediate = Inr out" "unat out < 2 ^ 112"
    by (rule get_amount_out_range [OF assms(2)])
  let ?gas = "arbitrum_estimate_gas (pl_pool_type a) (pl_pool_type b)"
  have "unat ?gas * unat (ad_gas_price_wei d) \<le> 350000 * 2 ^ 200"
    using pool_gas_le [of "pl_pool_type a"] pool_gas_le [of "pl_pool_type b"] assms(4)
    by (intro mult_le_mono) (simp_all add: unat_arbitrum_estimate_gas)
  then have gas: "unat ?gas * unat (ad_gas_price_wei d) < 2 ^ 256"
    by simp
  have "0 < amount" if "m \<noteq> 0"
    using quote_0 [OF assms(1), of token m] m(1) that by (cases "amount = 0") (auto simp: word_gt_0)
  then have "no_panic (opportunity_from ux d token amount out ?gas
      [step_on a token intermediate amount m, step_on b intermediate token m out])" if "m \<noteq> 0" "amount < out"
    by (rule opportunity_from_returns [OF that(2) _ _ gas]) (use that out(2) in simp_all)
  then show ?thesis
    by (simp add: two_hop_candidate_def m(1) out(1))
qed

lemma triangular_candidate_returns:
  assumes "pool_in_range ab" "pool_in_range bc" "pool_in_range ca"
    and "unat amount < 2 ^ 128" "unat (ad_gas_price_wei d) < 2 ^ 200"
  shows "no_panic (triangular_candidate ux d ta tb tc amount (ab, bc, ca))"
proof -
  obtain m where m: "get_amount_out ux ab amount ta = Inr m" "unat m < 2 ^ 112"
    by (rule get_amount_out_range [OF assms(1,4)])
  then have "unat m < 2 ^ 128" by simp
  then obtain n where n: "get_amount_out ux bc m tb = Inr n" "unat n < 2 ^ 112"
    by (rule get_amount_out_range [OF assms(2)])
  then have "unat n < 2 ^ 128" by simp
  then obtain out where out: "get_amount_out ux ca n tc = Inr out" "unat out < 2 ^ 112"
    by (rule get_amount_out_range [OF assms(3)])
  have "0 < amount" if "m \<noteq> 0"
    using quote_0 [OF assms(1), of ta m] m(1) that by (cases "amount = 0") (auto simp: word_gt_0)
  then have "no_panic (opportunity_from ux d ta amount out 400000
      [step_on ab ta tb amount m, step_on bc tb tc m n, step_on ca tc ta n out])" if "m \<noteq> 0" "amount < out"
    by (rule opportunity_from_returns [OF that(2)]) (use that out(2) assms(5) in simp_all)
  then show ?thesis
    by (auto simp: triangular_candidate_def m(1) n(1) out(1))
qed

lemma near_miss_returns:
  assumes "pool_in_range a" "pool_in_range b" "unat amount < 2 ^ 128"
  shows "no_panic (near_miss ux weth amount token (a, b))"
proof -
  obtain m where m: "get_amount_out ux a amount weth = Inr m" "unat m < 2 ^ 112"
    by (rule get_amount_out_range [OF assms(1,3)])
  then have "unat m < 2 ^ 128" by simp
  then obtain out where out: "get_amount_out ux b m token = Inr out" "unat out < 2 ^ 112"
    by (rule get_amount_out_range [OF assms(2)])
  then have "unat out < 2 ^ 128" by simp
  then show ?thesis
    using assms(3) by (simp add: near_miss_def m(1) out(1) as_u128_law)
qed

end

text \<open>C11: the two-hop search is exhaustive and exact. For amounts below \<open>2^128\<close>, pools in range and a gas price
  below \<open>2^200\<close> it returns without a panic. If it returns nothing, no pair of distinct stored pools
  clears the thresholds; otherwise the opportunity is a balanced round trip over a pair of stored
  pools, its net profit is the exact value of that pair, and no pair has a greater one.\<close>

theorem find_two_hop_arb_best:
  assumes "u256_laws ux" "\<forall>(a, p) \<in> set (pm_pools (ad_pool_manager d)). pool_in_range p"
    and "unat amount < 2 ^ 128" "unat (ad_gas_price_wei d) < 2 ^ 200"
  shows "\<exists>r. find_two_hop_arb ux d token intermediate amount = Inr r
    \<and> (let pairs = set (get_pools (ad_pool_manager d) token intermediate)
          \<times> set (get_pools (ad_pool_manager d) intermediate token);
          net = two_hop_net d token intermediate (unat amount)
       in case r of
         None \<Rightarrow> \<forall>c \<in> pairs. net c = None
       | Some w \<Rightarrow> sound_opportunity d w \<and> ao_input_token w = token \<and> ao_input_amount w = amount
           \<and> (\<exists>(a, b) \<in> pairs. map as_pool (ao_path w) = [pl_address a, pl_address b] \<and> pl_address a \<noteq> pl_address b
                 \<and> net (a, b) = Some (unat (ao_net_profit w)))
           \<and> (\<forall>c \<in> pairs. \<forall>n. net c = Some n \<longrightarrow> n \<le> unat (ao_net_profit w)))"
proof -
  let ?f = "get_pools (ad_pool_manager d) token intermediate" and ?s = "get_pools (ad_pool_manager d) intermediate token"
  let ?cand = "two_hop_candidate ux d token intermediate amount" and ?net = "two_hop_net d token intermediate (unat amount)"
  have range: "pool_in_range p" if "p \<in> set ?f \<union> set ?s" for p
    using that assms(2) by (auto simp: get_pools_def)
  have ok: "no_panic (?cand (a, b))" if "a \<in> set ?f" "b \<in> set ?s" for a b
    using that by (intro u256_laws.two_hop_candidate_returns [OF assms(1)] assms(3,4) range) simp_all
  have val: "map_option (\<lambda>x. unat (ao_net_profit x)) x = ?net (a, b)"
    if "?cand (a, b) = Inr x" "a \<in> set ?f" "b \<in> set ?s" for a b x
    using that range [of a] range [of b]
    by (intro u256_laws.two_hop_candidate_value [OF assms(1)]) (simp_all add: pool_in_range_def)
  have "no_panic (find_two_hop_arb ux d token intermediate amount)"
    using ok by (auto simp: find_two_hop_arb_def Let_def intro!: best_of_returns)
  then obtain r where r: "find_two_hop_arb ux d token intermediate amount = Inr r"
    by (auto simp: no_panic_def split: sum.splits)
  show ?thesis
  proof (cases r)
    case None
    have "?cand (a, b) = Inr None" if "a \<in> set ?f" "b \<in> set ?s" for a b
      using r that None best_of_None [of ?cand "List.product ?f ?s" None]
      by (auto simp: find_two_hop_arb_def Let_def split: if_splits)
    then show ?thesis
      using r None val by force
  next
    case (Some w)
    then have w: "best_of ?cand (List.product ?f ?s) None = Inr (Some w)"
      using r by (auto simp: find_two_hop_arb_def Let_def split: if_splits)
    then obtain a b where ab: "a \<in> set ?f" "b \<in> set ?s" "?cand (a, b) = Inr (Some w)"
      using best_of_Some [OF w] by auto
    have max: "n \<le> unat (ao_net_profit w)" if n: "c \<in> set ?f \<times> set ?s" "?net c = Some n" for c n
    proof -
      obtain x y where c: "c = (x, y)" "x \<in> set ?f" "y \<in> set ?s"
        using n(1) by auto
      obtain v where v: "?cand (x, y) = Inr v"
        using ok [OF c(2,3)] by (auto simp: no_panic_def split: sum.splits)
      from val [OF v c(2,3)] n(2) c(1) obtain u where "v = Some u" "unat (ao_net_profit u) = n"
        by (auto simp: map_option_case split: option.splits)
      with best_of_Some [OF w] v c(2,3) show ?thesis
        by (auto simp: word_le_nat_alt)
    qed
    have net: "?net (a, b) = Some (unat (ao_net_profit w))"
      using val [OF ab(3,1,2)] by simp
    show ?thesis
      unfolding r Some Let_def
      using u256_laws.two_hop_candidate_sound [OF assms(1) ab(3)] net ab(1,2) max by auto
  qed
qed

definition two_pool_detector :: ArbitrumDetector where
  "two_pool_detector = set_gas_price (arbitrum_detector_new
     (pool_manager_new\<lparr>pm_pools := [(7, sample_pool 7 1000000 2000000), (8, sample_pool 8 1000000 1000000)]\<rparr>) 30) 0"

lemma two_pool_detector_simps:
  "pm_pools (ad_pool_manager two_pool_detector) = [(7, sample_pool 7 1000000 2000000), (8, sample_pool 8 1000000 1000000)]"
  "ad_min_profit_bps two_pool_detector = 30" "ad_gas_price_wei two_pool_detector = 0"
  by (simp_all add: two_pool_detector_def set_gas_price_def arbitrum_detector_new_def)

theorem find_two_hop_arb_best_witness:
  "\<exists>w. find_two_hop_arb u256_std two_pool_detector 3 4 5000 = Inr (Some w) \<and> unat (ao_net_profit w) = 4793"
proof -
  obtain r where r: "find_two_hop_arb u256_std two_pool_detector 3 4 5000 = Inr r"
    and best: "let pairs = set (get_pools (ad_pool_manager two_pool_detector) 3 4)
          \<times> set (get_pools (ad_pool_manager two_pool_detector) 4 3);
          net = two_hop_net two_pool_detector 3 4 (unat (5000 :: u256))
       in case r of
         None \<Rightarrow> \<forall>c \<in> pairs. net c = None
       | Some w \<Rightarrow> sound_opportunity two_pool_detector w \<and> ao_input_token w = 3 \<and> ao_input_amount w = 5000
           \<and> (\<exists>(a, b) \<in> pairs. map as_pool (ao_path w) = [pl_address a, pl_address b] \<and> pl_address a \<noteq> pl_address b
                 \<and> net (a, b) = Some (unat (ao_net_profit w)))
           \<and> (\<forall>c \<in> pairs. \<forall>n. net c = Some n \<longrightarrow> n \<le> unat (ao_net_profit w))"
    using find_two_hop_arb_best [OF std_u256.u256_laws_axioms, of two_pool_detector 5000 3 4]
    by (auto simp: two_pool_detector_simps pool_in_range_def sample_pool_def)
  have "set (get_pools (ad_pool_manager two_pool_detector) 3 4) = {sample_pool 7 1000000 2000000, sample_pool 8 1000000 1000000}"
    "set (get_pools (ad_pool_manager two_pool_detector) 4 3) = {sample_pool 7 1000000 2000000, sample_pool 8 1000000 1000000}"
    by (simp_all add: get_pools_def two_pool_detector_simps sample_pool_def)
  with best r show ?thesis
    by (auto simp: Let_def two_hop_net_def two_hop_out_def net_spec_def two_pool_detector_simps sample_pool_def
        pool_quote_spec_def reserve_in_def reserve_out_def fee_share_def cp_quote_def split: option.splits)
qed

section \<open>The scan over all tokens\<close>

lemma set_collect_found:
  "collect_found f cs = Inr xs \<Longrightarrow> w \<in> set xs \<longleftrightarrow> (\<exists>c \<in> set cs. f c = Inr (Some w))"
proof (induction cs arbitrary: xs)
  case (Cons c cs)
  then obtain x ys where "f c = Inr x" "collect_found f cs = Inr ys" "xs = opt_cons x ys"
    by (auto simp: bindE_eq_Inr_iff)
  with Cons.IH show ?case
    by (auto simp: set_opt_cons)
qed simp

lemma collect_found_returns: "\<forall>c \<in> set cs. no_panic (f c) \<Longrightarrow> no_panic (collect_found f cs)"
  by (induction cs) (auto simp: no_panic_def bindE_def split: sum.splits)

lemma run_all_returns: "\<forall>c \<in> set cs. no_panic (f c) \<Longrightarrow> no_panic (run_all f cs)"
  by (induction cs) (auto simp: no_panic_def bindE_def split: sum.splits)

lemma set_ordered_pairs:
  "(x, y) \<in> set (ordered_pairs xs) \<longleftrightarrow> (\<exists>i j. i < j \<and> j < length xs \<and> xs ! i = x \<and> xs ! j = y)"
proof (induction xs)
  case (Cons z xs)
  have "(\<exists>i j. i < j \<and> j < length (z # xs) \<and> (z # xs) ! i = x \<and> (z # xs) ! j = y)
    \<longleftrightarrow> (z = x \<and> y \<in> set xs) \<or> (\<exists>i j. i < j \<and> j < length xs \<and> xs ! i = x \<and> xs ! j = y)"
    (is "?l \<longleftrightarrow> ?r")
  proof
    assume ?l
    then obtain i j where ij: "i < j" "j < length (z # xs)" "(z # xs) ! i = x" "(z # xs) ! j = y"
      by blast
    then show ?r
      by (cases i; cases j) (auto simp: in_set_conv_nth)
  next
    assume ?r
    then show ?l
    proof
      assume "z = x \<and> y \<in> set xs"
      then obtain j where "j < length xs" "xs ! j = y" "z = x"
        by (auto simp: in_set_conv_nth)
      then show ?l
        by (intro exI [of _ 0] exI [of _ "Suc j"]) simp
    next
      assume "\<exists>i j. i < j \<and> j < length xs \<and> xs ! i = x \<and> xs ! j = y"
      then obtain i j where "i < j" "j < length xs" "xs ! i = x" "xs ! j = y"
        by blast
      then show ?l
        by (intro exI [of _ "Suc i"] exI [of _ "Suc j"]) simp
    qed
  qed
  with Cons.IH show ?case
    by auto
qed simp

lemma find_two_hop_arb_Some:
  assumes "u256_laws ux" "find_two_hop_arb ux d t i amount = Inr (Some w)"
  shows "sound_opportunity d w \<and> ao_input_token w = t \<and> ao_input_amount w = amount"
proof -
  obtain cs where "best_of (two_hop_candidate ux d t i amount) cs None = Inr (Some w)"
    using assms(2) by (auto simp: find_two_hop_arb_def Let_def split: if_splits)
  then obtain c where "two_hop_candidate ux d t i amount c = Inr (Some w)"
    using best_of_Some by blast
  then show ?thesis
    using u256_laws.two_hop_candidate_sound [OF assms(1)] by (cases c) blast
qed

lemma find_triangular_arb_Some:
  assumes "u256_laws ux" "find_triangular_arb ux d ta tb tc amount = Inr (Some w)"
  shows "sound_opportunity d w \<and> ao_input_token w = ta \<and> ao_input_amount w = amount"
proof -
  obtain cs where "best_of (triangular_candidate ux d ta tb tc amount) cs None = Inr (Some w)"
    using assms(2) by (auto simp: find_triangular_arb_def Let_def split: if_splits)
  then obtain c where "triangular_candidate ux d ta tb tc amount c = Inr (Some w)"
    using best_of_Some by blast
  then show ?thesis
    using u256_laws.triangular_candidate_sound [OF assms(1)] by (cases c) blast
qed

definition detector_in_range :: "ArbitrumDetector \<Rightarrow> bool" where
  "detector_in_range d \<longleftrightarrow>
    (\<forall>(a, p) \<in> set (pm_pools (ad_pool_manager d)). pool_in_range p) \<and> unat (ad_gas_price_wei d) < 2 ^ 200"

lemma get_pools_in_range: "detector_in_range d \<Longrightarrow> p \<in> set (get_pools (ad_pool_manager d) s t) \<Longrightarrow> pool_in_range p"
  by (auto simp: detector_in_range_def get_pools_def)

lemma searches_return:
  assumes "u256_laws ux" "detector_in_range d" "unat amount < 2 ^ 128"
  shows "no_panic (find_two_hop_arb ux d t i amount)" "no_panic (find_triangular_arb ux d ta tb tc amount)"
    "no_panic (near_miss_token ux d t amount i)"
proof -
  note in_range = get_pools_in_range [OF assms(2)]
  have gas: "unat (ad_gas_price_wei d) < 2 ^ 200"
    using assms(2) by (simp add: detector_in_range_def)
  show "no_panic (find_two_hop_arb ux d t i amount)"
    unfolding find_two_hop_arb_def Let_def
    by (auto intro!: best_of_returns u256_laws.two_hop_candidate_returns [OF assms(1) _ _ assms(3) gas] dest!: in_range)
  show "no_panic (find_triangular_arb ux d ta tb tc amount)"
    unfolding find_triangular_arb_def Let_def
    by (auto intro!: best_of_returns u256_laws.triangular_candidate_returns [OF assms(1) _ _ _ assms(3) gas]
        dest!: in_set_takeD in_range)
  show "no_panic (near_miss_token ux d t amount i)"
    unfolding near_miss_token_def
    by (auto intro!: run_all_returns u256_laws.near_miss_returns [OF assms(1) _ _ assms(3)] dest!: in_range)
qed

lemma no_panic_bindE: "no_panic m \<Longrightarrow> (\<And>x. no_panic (f x)) \<Longrightarrow> no_panic (bindE m f)"
  by (cases m) simp_all

lemma scan_all_returns:
  assumes "u256_laws ux" "detector_in_range d" "unat amount < 2 ^ 128"
  shows "no_panic (scan_all ux d amount)"
  unfolding scan_all_def Let_def
  by (intro no_panic_bindE collect_found_returns)
    (auto simp: searches_return [OF assms] intro: run_all_returns)


definition weth_usdc_detector :: ArbitrumDetector where
  "weth_usdc_detector = two_pool_detector\<lparr>ad_pool_manager := pool_manager_new\<lparr>pm_pools :=
     [(7, (sample_pool 7 1000000 2000000)\<lparr>pl_token0 := ac_weth ArbitrumConfig_default, pl_token1 := ac_usdc ArbitrumConfig_default\<rparr>),
      (8, (sample_pool 8 1000000 1000000)\<lparr>pl_token0 := ac_weth ArbitrumConfig_default, pl_token1 := ac_usdc ArbitrumConfig_default\<rparr>)]\<rparr>\<rparr>"


section \<open>The amount search\<close>

fun optimal_nat :: "(nat \<Rightarrow> nat) \<Rightarrow> nat \<Rightarrow> nat \<Rightarrow> nat \<Rightarrow> nat \<Rightarrow> nat \<Rightarrow> nat" where
  "optimal_nat f 0 low high ba bp = ba"
| "optimal_nat f (Suc n) low high ba bp =
    (if high \<le> low then ba
     else let mid = (low + high) div 2 in
       if bp < f mid then optimal_nat f n (mid + 1) high mid (f mid) else optimal_nat f n low (mid - 1) ba bp)"

lemma optimal_nat_result:
  "optimal_nat f n low high ba bp = ba
   \<or> low \<le> optimal_nat f n low high ba bp \<and> optimal_nat f n low high ba bp < high \<and> bp < f (optimal_nat f n low high ba bp)"
proof (induction n arbitrary: low high ba bp)
  case (Suc n)
  define mid where "mid = (low + high) div 2"
  have mid: "\<not> high \<le> low \<Longrightarrow> low \<le> mid \<and> mid < high"
    by (auto simp: mid_def)
  show ?case
    using Suc.IH [of "mid + 1" high mid "f mid"] Suc.IH [of low "mid - 1" ba bp] mid
    by (auto simp: Let_def simp flip: mid_def)
qed simp

context u256_laws
begin

lemma midpoint:
  assumes "low < high" "unat high < 2 ^ 255"
  obtains s mid where "ux_add ux low high = Inr s" "ux_div ux s 2 = Inr mid"
    "unat mid = (unat low + unat high) div 2" "low \<le> mid" "mid < high"
proof -
  have "unat low + unat high < 2 ^ 256"
    using assms by (simp add: word_less_nat_alt)
  then obtain s where s: "ux_add ux low high = Inr s" "unat s = unat low + unat high"
    by (rule add_ok)
  obtain m where m: "ux_div ux s 2 = Inr m" "unat m = unat s div 2"
    using div_ok [of 2 s] by auto
  with s assms(1) that show thesis
    by (auto simp: word_less_nat_alt word_le_nat_alt)
qed

lemma mid_neighbours:
  assumes "low \<le> mid" "mid < high" "0 < low"
  obtains l h where "ux_add ux mid 1 = Inr l" "unat l = unat mid + 1" "ux_sub ux mid 1 = Inr h" "unat h = unat mid - 1"
proof -
  have "unat mid + unat (1 :: u256) < 2 ^ 256" "unat (1 :: u256) \<le> unat mid"
    using assms unat_bound [of high] by (auto simp: word_less_nat_alt word_le_nat_alt)
  then obtain l h where "ux_add ux mid 1 = Inr l" "unat l = unat mid + 1" "ux_sub ux mid 1 = Inr h" "unat h = unat mid - 1"
    using add_ok [of mid 1] sub_ok [of 1 mid] by (metis unat_1)
  then show thesis
    by (rule that)
qed

lemma optimal_loop_nat:
  "\<forall>m. unat m < unat high \<longrightarrow> (\<exists>p. probe m = Inr p \<and> unat p = f (unat m)) \<Longrightarrow> 0 < low \<Longrightarrow> unat high < 2 ^ 255 \<Longrightarrow>
    \<exists>r. optimal_loop ux probe n low high ba bp = Inr r
      \<and> unat r = optimal_nat f n (unat low) (unat high) (unat ba) (unat bp)"
proof (induction n arbitrary: low high ba bp)
  case (Suc n)
  show ?case
  proof (cases "high \<le> low")
    case True
    then show ?thesis by (simp add: word_le_nat_alt)
  next
    case False
    then have "low < high" by simp
    from midpoint [OF this Suc.prems(3)] obtain s mid where mid: "ux_add ux low high = Inr s" "ux_div ux s 2 = Inr mid"
      "low \<le> mid" "mid < high" "unat mid = (unat low + unat high) div 2"
      by metis
    obtain l h where lh: "ux_add ux mid 1 = Inr l" "unat l = unat mid + 1" "ux_sub ux mid 1 = Inr h" "unat h = unat mid - 1"
      by (rule mid_neighbours [OF mid(3,4) Suc.prems(2)])
    obtain p where p: "probe mid = Inr p" "unat p = f (unat mid)"
      using Suc.prems(1) mid(4) by (auto simp: word_less_nat_alt)
    have "0 < l"
      using lh(2) by (simp add: word_less_nat_alt)
    from Suc.IH [OF Suc.prems(1) this Suc.prems(3), of mid p]
    obtain r where r: "optimal_loop ux probe n l high mid p = Inr r"
      "unat r = optimal_nat f n (unat mid + 1) (unat high) (unat mid) (f (unat mid))"
      by (auto simp: lh(2) p(2))
    have "unat h < unat high"
      using lh(4) mid(4) by (simp add: word_less_nat_alt)
    then obtain t where t: "optimal_loop ux probe n low h ba bp = Inr t"
      "unat t = optimal_nat f n (unat low) (unat mid - 1) (unat ba) (unat bp)"
      using Suc.IH [of h low ba bp] Suc.prems lh(4) by auto
    show ?thesis
      using False r t p(2) by (simp add: mid(1,2) p(1) lh(1,3) word_less_nat_alt word_le_nat_alt Let_def flip: mid(5))
  qed
qed simp

text \<open>An interval shorter than \<open>2^n\<close> is used up within \<open>n\<close> rounds.\<close>

lemma optimal_loop_enough_rounds:
  "0 < low \<Longrightarrow> unat high < 2 ^ 255 \<Longrightarrow> unat high - unat low < 2 ^ n \<Longrightarrow>
    optimal_loop ux probe (n + k) low high ba bp = optimal_loop ux probe n low high ba bp"
proof (induction n arbitrary: low high ba bp)
  case 0
  then have "high \<le> low"
    by (simp add: word_le_nat_alt)
  then show ?case
    by (cases k) simp_all
next
  case (Suc n)
  show ?case
  proof (cases "high \<le> low")
    case False
    then have "low < high" by simp
    from midpoint [OF this Suc.prems(2)] obtain s mid where mid: "ux_add ux low high = Inr s" "ux_div ux s 2 = Inr mid"
      "low \<le> mid" "mid < high" "unat mid = (unat low + unat high) div 2"
      by metis
    obtain l h where lh: "ux_add ux mid 1 = Inr l" "unat l = unat mid + 1" "ux_sub ux mid 1 = Inr h" "unat h = unat mid - 1"
      by (rule mid_neighbours [OF mid(3,4) Suc.prems(1)])
    have lt: "unat low \<le> unat mid" "unat mid < unat high"
      using mid(3,4) by (simp_all add: word_less_nat_alt word_le_nat_alt)
    have half: "unat high - unat l < 2 ^ n" "unat h - unat low < 2 ^ n"
      using Suc.prems(3) lt by (simp_all add: lh(2,4) mid(5))
    have "0 < l"
      using lh(2) by (simp add: word_less_nat_alt)
    then have "optimal_loop ux probe (n + k) l high a q = optimal_loop ux probe n l high a q"
      "optimal_loop ux probe (n + k) low h ba bp = optimal_loop ux probe n low h ba bp" for a q
      using Suc.prems(1,2) lt lh(4) half by (auto intro!: Suc.IH)
    with False show ?thesis
      by (cases "probe mid") (simp_all add: mid(1,2) lh(1,3))
  qed simp
qed

lemma upper_end:
  obtains high where "ux_div ux (min (pl_reserve0 a) (pl_reserve1 a)) 10 = Inr high"
    "unat high = min (unat (pl_reserve0 a)) (unat (pl_reserve1 a)) div 10"
proof -
  have "0 < unat (10 :: u256)" by simp
  then obtain h where "ux_div ux (min (pl_reserve0 a) (pl_reserve1 a)) 10 = Inr h"
    "unat h = unat (min (pl_reserve0 a) (pl_reserve1 a)) div unat (10 :: u256)"
    by (rule div_ok)
  moreover have "unat (min (pl_reserve0 a) (pl_reserve1 a)) = min (unat (pl_reserve0 a)) (unat (pl_reserve1 a))"
    by (simp add: min_def word_le_nat_alt)
  ultimately show thesis
    by (intro that) simp_all
qed

lemma probe_profit_nat:
  assumes "pool_in_range a" "pool_in_range b" "unat m < 2 ^ 128"
  shows "\<exists>p. probe_profit ux a b token intermediate m = Inr p
    \<and> unat p = two_hop_out token intermediate (unat m) a b - unat m"
proof -
  obtain w where w: "get_amount_out ux a m token = Inr w" "unat w < 2 ^ 112" "unat w = pool_quote_spec a token (unat m)"
    by (rule get_amount_out_range [OF assms(1,3)])
  then have "unat w < 2 ^ 128" by simp
  then obtain out where out: "get_amount_out ux b w intermediate = Inr out"
    "unat out = pool_quote_spec b intermediate (unat w)"
    by (rule get_amount_out_range [OF assms(2)])
  show ?thesis
  proof (cases "m < out")
    case True
    then obtain p where "ux_sub ux out m = Inr p" "unat p = unat out - unat m"
      using sub_ok [of m out] by (auto simp: word_less_nat_alt)
    with True show ?thesis
      by (simp add: probe_profit_def w(1) out(1) two_hop_out_def w(3) out(2))
  next
    case False
    then have "unat out \<le> unat m" by (simp add: word_less_nat_alt)
    with False show ?thesis
      by (simp add: probe_profit_def w(1) out(1) two_hop_out_def w(3) out(2))
  qed
qed

text \<open>The search over the crate's integers computes the search over the natural numbers.\<close>

lemma find_optimal_amount_nat:
  assumes "pool_in_range a" "pool_in_range b"
  obtains r where "find_optimal_amount ux a b token intermediate = Inr r"
    "unat r = optimal_nat (\<lambda>m. two_hop_out token intermediate m a b - m) 64 (10 ^ 15)
       (min (unat (pl_reserve0 a)) (unat (pl_reserve1 a)) div 10) (10 ^ 15) 0"
proof -
  let ?f = "\<lambda>m. two_hop_out token intermediate m a b - m"
  obtain high where high: "ux_div ux (min (pl_reserve0 a) (pl_reserve1 a)) 10 = Inr high"
    "unat high = min (unat (pl_reserve0 a)) (unat (pl_reserve1 a)) div 10"
    by (rule upper_end)
  have "min (unat (pl_reserve0 a)) (unat (pl_reserve1 a)) < 2 ^ 112"
    using assms(1) by (simp add: pool_in_range_def min_def)
  then have small: "unat high < 2 ^ 128" "unat high < 2 ^ 255"
    unfolding high(2) by simp_all
  have ok: "\<forall>m. unat m < unat high \<longrightarrow>
      (\<exists>p. probe_profit ux a b token intermediate m = Inr p \<and> unat p = ?f (unat m))"
    using small(1) probe_profit_nat [OF assms] by simp
  have "0 < (1000000000000000 :: u256)" "unat (1000000000000000 :: u256) = 10 ^ 15" by simp_all
  then show thesis
    using optimal_loop_nat [OF ok _ small(2), of 1000000000000000 64 1000000000000000 0] that
    by (auto simp: find_optimal_amount_def high simp del: optimal_nat.simps)
qed

end

text \<open>The amount search stays in its window and reports a real profit. For pools in range it returns without a
  panic an amount of at least 0.001 ETH and below a tenth of the smaller reserve of the first
  pool, or 0.001 ETH itself; in the first case the round trip at that amount makes a profit.\<close>

theorem find_optimal_amount_in_window:
  assumes "u256_laws ux" "pool_in_range a" "pool_in_range b"
  shows "\<exists>r. find_optimal_amount ux a b token intermediate = Inr r
    \<and> (unat r = 10 ^ 15
       \<or> 10 ^ 15 \<le> unat r \<and> unat r < min (unat (pl_reserve0 a)) (unat (pl_reserve1 a)) div 10
         \<and> unat r < two_hop_out token intermediate (unat r) a b)"
proof -
  obtain r where r: "find_optimal_amount ux a b token intermediate = Inr r"
    "unat r = optimal_nat (\<lambda>m. two_hop_out token intermediate m a b - m) 64 (10 ^ 15)
       (min (unat (pl_reserve0 a)) (unat (pl_reserve1 a)) div 10) (10 ^ 15) 0"
    by (rule u256_laws.find_optimal_amount_nat [OF assms])
  then show ?thesis
    using optimal_nat_result [of "\<lambda>m. two_hop_out token intermediate m a b - m" 64 "10 ^ 15"
        "min (unat (pl_reserve0 a)) (unat (pl_reserve1 a)) div 10" "10 ^ 15" 0]
    by auto
qed

definition deep_pool :: "address \<Rightarrow> u256 \<Rightarrow> u256 \<Rightarrow> Pool" where
  "deep_pool a r0 r1 = sample_pool a (r0 * 10 ^ 15) (r1 * 10 ^ 15)"

lemma deep_pool_in_range: "pool_in_range (deep_pool 7 1000 1120)" "pool_in_range (deep_pool 8 1000 1000)"
  by (simp_all add: pool_in_range_def deep_pool_def sample_pool_def)

theorem find_optimal_amount_in_window_witness:
  "\<exists>r. find_optimal_amount u256_std (deep_pool 7 1000 1120) (deep_pool 8 1000 1000) 3 4 = Inr r
    \<and> 10 ^ 15 \<le> unat r \<and> unat r \<le> 10 ^ 17"
  using find_optimal_amount_in_window [OF std_u256.u256_laws_axioms deep_pool_in_range, of 3 4]
  by (auto simp: deep_pool_def sample_pool_def)

text \<open>C36: 64 rounds are enough for pools of up to about 184 ETH. While a tenth of the smaller reserve is below
  \<open>2^64 + 10^15\<close> wei the interval is used up before the bound of 64 rounds, so a search with any
  greater bound returns the same amount.\<close>

theorem find_optimal_amount_rounds:
  assumes "u256_laws ux" "min (unat (pl_reserve0 a)) (unat (pl_reserve1 a)) div 10 < 2 ^ 64 + 10 ^ 15"
  shows "find_optimal_amount ux a b token intermediate =
    bindE (ux_div ux (min (pl_reserve0 a) (pl_reserve1 a)) 10) (\<lambda>high.
      optimal_loop ux (probe_profit ux a b token intermediate) (64 + k) 1000000000000000 high 1000000000000000 0)"
proof -
  obtain high where high: "ux_div ux (min (pl_reserve0 a) (pl_reserve1 a)) 10 = Inr high"
    "unat high = min (unat (pl_reserve0 a)) (unat (pl_reserve1 a)) div 10"
    by (rule u256_laws.upper_end [OF assms(1)])
  have "unat high < 2 ^ 255" "unat high - unat (1000000000000000 :: u256) < 2 ^ 64"
    using assms(2) by (simp_all add: high(2))
  then show ?thesis
    using u256_laws.optimal_loop_enough_rounds [OF assms(1), of 1000000000000000 high 64]
    by (simp add: find_optimal_amount_def high(1))
qed

theorem find_optimal_amount_rounds_witness:
  "find_optimal_amount u256_std (deep_pool 7 1000 1120) (deep_pool 8 1000 1000) 3 4 =
    optimal_loop u256_std (probe_profit u256_std (deep_pool 7 1000 1120) (deep_pool 8 1000 1000) 3 4) 1000
      1000000000000000 (10 ^ 17) 1000000000000000 0"
  using find_optimal_amount_rounds [OF std_u256.u256_laws_axioms, of "deep_pool 7 1000 1120" "deep_pool 8 1000 1000" 3 4 936]
  by (simp add: deep_pool_def sample_pool_def std_u256.div_law)

lemma deep_pool_quote:
  "pool_quote_spec (deep_pool 7 1000 1120) 3 m = cp_quote 1000000000000000000 1120000000000000000 9970 m"
  "pool_quote_spec (deep_pool 8 1000 1000) 4 m = cp_quote 1000000000000000000 1000000000000000000 9970 m"
  by (simp_all add: pool_quote_spec_def deep_pool_def sample_pool_def reserve_in_def reserve_out_def fee_share_def)

text \<open>Two constant-product swaps in a row, without the rounding.\<close>

lemma two_quotes_bound:
  fixes w out x :: nat
  assumes "w * (D + x) \<le> x * R1" "out * (D + g * w) \<le> g * w * R" "out \<le> R"
  shows "out * (D * (D + x) + g * R1 * x) \<le> g * R * R1 * x"
proof -
  obtain k where k: "R = out + k"
    using assms(3) le_Suc_ex by blast
  have "out * D \<le> g * w * k"
    using assms(2) by (simp add: k algebra_simps)
  then have "out * D * (D + x) \<le> g * w * k * (D + x)"
    by (rule mult_le_mono1)
  also have "\<dots> = g * k * (w * (D + x))"
    by (simp add: algebra_simps)
  also have "\<dots> \<le> g * k * (x * R1)"
    using assms(1) by (rule mult_le_mono2)
  finally show ?thesis
    by (simp add: k algebra_simps)
qed

lemma deep_pool_profit_bound:
  assumes "50500000000000000 \<le> m"
  shows "two_hop_out 3 4 m (deep_pool 7 1000 1120) (deep_pool 8 1000 1000) \<le> m + 359994483981572"
proof (rule ccontr)
  let ?D = "10000000000000000000000 :: nat" and ?out = "two_hop_out 3 4 m (deep_pool 7 1000 1120) (deep_pool 8 1000 1000)"
  define w where "w = cp_quote 1000000000000000000 1120000000000000000 9970 m"
  have out: "?out = cp_quote 1000000000000000000 1000000000000000000 9970 w"
    by (simp add: two_hop_out_def deep_pool_quote w_def)
  assume "\<not> ?out \<le> m + 359994483981572"
  then have "m + 359994483981572 \<le> ?out"
    by simp
  moreover have "?out * (?D * (?D + m * 9970) + 9970 * 1120000000000000000 * (m * 9970))
      \<le> 9970 * 1000000000000000000 * 1120000000000000000 * (m * 9970)"
  proof (rule two_quotes_bound)
    show "w * (?D + m * 9970) \<le> m * 9970 * 1120000000000000000"
      by (simp add: w_def cp_quote_def)
    show "?out * (?D + 9970 * w) \<le> 9970 * w * 1000000000000000000"
      by (simp add: out cp_quote_def mult.commute [of 9970])
    show "?out \<le> 1000000000000000000"
      unfolding out by (rule cp_quote_le)
  qed
  ultimately have "(m + 359994483981572) * (?D * (?D + m * 9970) + 9970 * 1120000000000000000 * (m * 9970))
      \<le> 9970 * 1000000000000000000 * 1120000000000000000 * (m * 9970)"
    using mult_le_mono1 le_trans by blast
  moreover obtain t where "m = 50500000000000000 + t"
    using assms le_Suc_ex by blast
  ultimately show False
    by (simp add: algebra_simps)
qed

text \<open>The amount search is not a search for the optimum. It never looks below its first profitable probe.
  Between pools of 1000:1120 and 1000:1000 (in units of 0.001 ETH) it returns an amount of at least
  0.0505 ETH, where the round trip earns less than a quarter of what it earns at 0.026 ETH.\<close>

theorem find_optimal_amount_misses:
  "\<exists>r. find_optimal_amount u256_std (deep_pool 7 1000 1120) (deep_pool 8 1000 1000) 3 4 = Inr r
    \<and> 50500000000000000 \<le> unat r
    \<and> 4 * (two_hop_out 3 4 (unat r) (deep_pool 7 1000 1120) (deep_pool 8 1000 1000) - unat r)
      < two_hop_out 3 4 26000000000000000 (deep_pool 7 1000 1120) (deep_pool 8 1000 1000) - 26000000000000000"
proof -
  define f where "f = (\<lambda>m. two_hop_out 3 4 m (deep_pool 7 1000 1120) (deep_pool 8 1000 1000) - m)"
  have first: "f 50500000000000000 = 306697155280219" and better: "f 26000000000000000 = 1439977935926291"
    by (simp_all add: f_def two_hop_out_def deep_pool_quote cp_quote_def)
  obtain r where r: "find_optimal_amount u256_std (deep_pool 7 1000 1120) (deep_pool 8 1000 1000) 3 4 = Inr r"
    "unat r = optimal_nat f 64 (10 ^ 15)
       (min (unat (pl_reserve0 (deep_pool 7 1000 1120))) (unat (pl_reserve1 (deep_pool 7 1000 1120))) div 10) (10 ^ 15) 0"
    unfolding f_def by (rule std_u256.find_optimal_amount_nat [OF deep_pool_in_range])
  have "min (unat (pl_reserve0 (deep_pool 7 1000 1120))) (unat (pl_reserve1 (deep_pool 7 1000 1120))) div 10 = 10 ^ 17"
    by (simp add: deep_pool_def sample_pool_def)
  moreover have "optimal_nat f 64 (10 ^ 15) (10 ^ 17) (10 ^ 15) 0
      = optimal_nat f 63 50500000000000001 (10 ^ 17) 50500000000000000 306697155280219"
    using optimal_nat.simps(2) [of f 63 "10 ^ 15" "10 ^ 17" "10 ^ 15" 0] by (simp add: first)
  ultimately have ge: "50500000000000000 \<le> unat r"
    using optimal_nat_result [of f 63 50500000000000001 "10 ^ 17" 50500000000000000 306697155280219]
    by (auto simp: r(2))
  have "4 * f (unat r) < f 26000000000000000"
    using deep_pool_profit_bound [OF ge] by (simp only: better) (simp add: f_def)
  with r(1) ge show ?thesis
    by (auto simp: f_def)
qed

end
