(* ===== verification/Arbitrum_Executor.thy ===== *)
theory Arbitrum_Executor
  imports Arbitrum_Search
begin

text \<open>
  The executor of Arbitrum opportunities (\<^verbatim>\<open>core/src/arbitrum/executor.rs\<close>): encoding of the swap path,
  the dry run and the submission. Parameters are the ABI encoder with the generated call of the
  contract (\<open>abi_crate\<close>), the answers of the node and the signer (\<open>evm_node\<close>), and the type
  \<open>'w\<close> of wallets. A transaction that is handed to the signer is listed in the result.
\<close>

section \<open>Parameters\<close>

datatype abi_token =
  TkUint u256 | TkAddress address | TkBool bool | TkBytes bytes | TkArray "abi_token list" | TkTuple "abi_token list"

record abi_crate =
  abi_encode :: "abi_token list \<Rightarrow> bytes"
  abi_execute_arbitrage :: "address list \<Rightarrow> u256 list \<Rightarrow> bytes \<Rightarrow> bytes"

record tx_request =
  tq_to :: address
  tq_data :: bytes

record 'w evm_node =
  nd_gas_price :: "string + u256"
  nd_estimate_gas :: "tx_request \<Rightarrow> string + u256"
  nd_send :: "'w \<Rightarrow> u64 \<Rightarrow> tx_request \<Rightarrow> string + u256"

section \<open>The executor\<close>

record 'w ExecutorConfig =
  xc_contract_address :: address
  xc_private_key :: 'w
  xc_max_gas_price :: u256
  xc_priority_fee :: u256
  xc_slippage_bps :: u32

record 'w ArbitrageExecutor =
  xe_config :: "'w ExecutorConfig"
  xe_balancer_vault :: address

datatype ExecutorError =
  XeProvider string | XeSimulation string | XeEncoding string | XeGasTooHigh u256 | XeSend string | XeNotProfitable

record SimulationResult_arb =
  sx_success :: bool
  sx_gas_estimate :: u256
  sx_gas_cost :: u256
  sx_net_profit :: u256
  sx_error :: "string option"

definition executor_new :: "'w ExecutorConfig \<Rightarrow> 'w ArbitrageExecutor" where
  "executor_new config = \<lparr>xe_config = config, xe_balancer_vault = 0xBA12222222228d8Ba445958a75a0704d566BF2C8\<rparr>"

definition executor_error_fmt :: "(u256 \<Rightarrow> string) \<Rightarrow> ExecutorError \<Rightarrow> string" where
  "executor_error_fmt debug e =
    (case e of
       XeProvider s \<Rightarrow> ''Provider error: '' @ s
     | XeSimulation s \<Rightarrow> ''Simulation failed: '' @ s
     | XeEncoding s \<Rightarrow> ''Encoding error: '' @ s
     | XeGasTooHigh price \<Rightarrow> ''Gas too high: '' @ debug price
     | XeSend s \<Rightarrow> ''Failed to send: '' @ s
     | XeNotProfitable \<Rightarrow> ''Not profitable after gas'')"

definition encode_step :: "u256crate \<Rightarrow> abi_crate \<Rightarrow> ArbitrageStep \<Rightarrow> bytes exec" where
  "encode_step ux abi step =
    bindE (ux_mul ux (as_amount_out step) 95) (\<lambda>n. bindE (ux_div ux n 100) (\<lambda>min_out.
    let (p, i, t) = (TkAddress (as_pool step), TkAddress (as_token_in step), TkAddress (as_token_out step)) in
    Inr (case as_pool_type step of
           PtUniswapV3 fee \<Rightarrow> abi_encode abi [TkUint 1, p, i, t, TkUint (ucast fee), TkUint min_out]
         | PtSushiSwap \<Rightarrow> abi_encode abi [TkUint 2, p, i, t, TkUint min_out]
         | PtCamelot \<Rightarrow> abi_encode abi [TkUint 3, p, i, t, TkUint min_out])))"

fun encode_steps :: "u256crate \<Rightarrow> abi_crate \<Rightarrow> ArbitrageStep list \<Rightarrow> bytes list exec" where
  "encode_steps ux abi [] = Inr []"
| "encode_steps ux abi (s # ss) =
    bindE (encode_step ux abi s) (\<lambda>b. bindE (encode_steps ux abi ss) (\<lambda>bs. Inr (b # bs)))"

definition encode_arb_path :: "u256crate \<Rightarrow> abi_crate \<Rightarrow> ArbitrageStep list \<Rightarrow> bytes exec" where
  "encode_arb_path ux abi path =
    bindE (encode_steps ux abi path) (\<lambda>encoded_steps. Inr (abi_encode abi [TkArray (map TkBytes encoded_steps)]))"

definition arbitrage_call :: "abi_crate \<Rightarrow> 'w ArbitrageExecutor \<Rightarrow> ArbitrageOpportunity \<Rightarrow> bytes \<Rightarrow> tx_request" where
  "arbitrage_call abi x opp user_data =
    \<lparr>tq_to = xc_contract_address (xe_config x),
     tq_data = abi_execute_arbitrage abi [ao_input_token opp] [ao_input_amount opp] user_data\<rparr>"

text \<open>The gas-price guard and the submission, the second half of \<^verbatim>\<open>execute\<close>.\<close>

definition submit_tx ::
  "'w evm_node \<Rightarrow> 'w ArbitrageExecutor \<Rightarrow> tx_request \<Rightarrow> (ExecutorError + u256) \<times> ('w \<times> u64 \<times> tx_request) list" where
  "submit_tx node x tx =
    (case nd_gas_price node of
       Inl e \<Rightarrow> (Inl (XeProvider e), [])
     | Inr gas_price \<Rightarrow>
         if xc_max_gas_price (xe_config x) < gas_price then (Inl (XeGasTooHigh gas_price), [])
         else
           let wallet = xc_private_key (xe_config x) in
           (case nd_send node wallet 42161 tx of Inl e \<Rightarrow> Inl (XeSend e) | Inr h \<Rightarrow> Inr h, [(wallet, 42161, tx)]))"

definition execute_arb ::
  "u256crate \<Rightarrow> abi_crate \<Rightarrow> 'w evm_node \<Rightarrow> 'w ArbitrageExecutor \<Rightarrow> ArbitrageOpportunity \<Rightarrow>
    ((ExecutorError + u256) \<times> ('w \<times> u64 \<times> tx_request) list) exec" where
  "execute_arb ux abi node x opp =
    bindE (encode_arb_path ux abi (ao_path opp)) (\<lambda>user_data.
    bindE (ux_mul ux (ao_output_amount opp) (ucast (10000 - xc_slippage_bps (xe_config x)))) (\<lambda>n.
    bindE (ux_div ux n 10000) (\<lambda>min_output.
    Inr (submit_tx node x (arbitrage_call abi x opp user_data)))))"

definition simulate_arb ::
  "u256crate \<Rightarrow> abi_crate \<Rightarrow> 'w evm_node \<Rightarrow> 'w ArbitrageExecutor \<Rightarrow> ArbitrageOpportunity \<Rightarrow>
    (ExecutorError + SimulationResult_arb) exec" where
  "simulate_arb ux abi node x opp =
    bindE (encode_arb_path ux abi (ao_path opp)) (\<lambda>user_data.
    case nd_estimate_gas node (arbitrage_call abi x opp user_data) of
      Inl e \<Rightarrow> Inr (Inl (XeSimulation e))
    | Inr gas_estimate \<Rightarrow>
        (case nd_gas_price node of
           Inl e \<Rightarrow> Inr (Inl (XeProvider e))
         | Inr gas_price \<Rightarrow>
             bindE (ux_mul ux gas_estimate gas_price) (\<lambda>gas_cost.
             bindE (if gas_cost < ao_profit opp then ux_sub ux (ao_profit opp) gas_cost else Inr 0) (\<lambda>net_profit.
             Inr (Inr \<lparr>sx_success = True, sx_gas_estimate = gas_estimate, sx_gas_cost = gas_cost,
                       sx_net_profit = net_profit, sx_error = None\<rparr>)))))"

section \<open>The encoder's contract\<close>

text \<open>Static tokens are 32-byte words one after the other; an array of byte strings can be read back.\<close>

fun static_word :: "abi_token \<Rightarrow> bytes" where
  "static_word (TkUint w) = abi_word w"
| "static_word (TkAddress a) = abi_word a"
| "static_word (TkBool b) = abi_word (if b then 1 else 0 :: u8)"
| "static_word _ = []"

fun is_static :: "abi_token \<Rightarrow> bool" where
  "is_static (TkUint w) = True"
| "is_static (TkAddress a) = True"
| "is_static (TkBool b) = True"
| "is_static _ = False"

locale abi_laws =
  fixes abi :: abi_crate
  assumes encode_static: "list_all is_static ts \<Longrightarrow> abi_encode abi ts = concat (map static_word ts)"
    and encode_array_inj: "abi_encode abi [TkArray (map TkBytes bs)] = abi_encode abi [TkArray (map TkBytes cs)] \<Longrightarrow> bs = cs"

text \<open>How the contract reads a step: DEX type, pool, tokens, fee (for type 1) and least output.\<close>

definition word_at :: "nat \<Rightarrow> bytes \<Rightarrow> 'a::len word" where
  "word_at i bs = from_be (sub_bytes (32 * i) (32 * i + 32) bs)"

definition decode_step :: "bytes \<Rightarrow> PoolType \<times> address \<times> address \<times> address \<times> u256" where
  "decode_step bs =
    (if (word_at 0 bs :: u256) = 1 then
       (PtUniswapV3 (word_at 4 bs), word_at 1 bs, word_at 2 bs, word_at 3 bs, word_at 5 bs)
     else (if (word_at 0 bs :: u256) = 2 then PtSushiSwap else PtCamelot,
           word_at 1 bs, word_at 2 bs, word_at 3 bs, word_at 4 bs))"

definition step_view :: "ArbitrageStep \<Rightarrow> PoolType \<times> address \<times> address \<times> address \<times> u256" where
  "step_view s =
    (as_pool_type s, as_pool s, as_token_in s, as_token_out s, word_of_nat (unat (as_amount_out s) * 95 div 100))"

lemma from_be_abi_word:
  assumes "LENGTH('a) \<le> 256"
  shows "(from_be (abi_word (w :: 'a::len word)) :: 'a word) = w"
proof -
  have "(2 :: nat) ^ LENGTH('a) \<le> 2 ^ 256"
    using assms by (rule power_increasing) simp
  then have "unat w < 2 ^ 256"
    using unat_bound [of w] by (rule less_le_trans [rotated])
  then have "unat (ucast w :: bytes32) = unat w"
    by (simp add: unsigned_ucast_eq take_bit_eq_mod)
  moreover have "be_val (abi_word w) = unat (ucast w :: bytes32)"
    using unat_bound [of "ucast w :: bytes32"] by (simp add: abi_word_def be_val_to_be)
  ultimately show ?thesis
    by (simp add: from_be_eq)
qed

lemma word_at_concat:
  assumes "i < length ts" "list_all is_static ts"
  shows "(word_at i (concat (map static_word ts)) :: 'a::len word) = from_be (static_word (ts ! i))"
  using assms
proof (induction ts arbitrary: i)
  case (Cons t ts)
  have len: "length (static_word t) = 32"
    using Cons.prems(2) by (cases t) simp_all
  show ?case
  proof (cases i)
    case 0
    with len show ?thesis by (simp add: word_at_def sub_bytes_def)
  next
    case (Suc j)
    then have "(word_at i (concat (map static_word (t # ts))) :: 'a word) = word_at j (concat (map static_word ts))"
      using len by (simp add: word_at_def sub_bytes_def)
    with Cons Suc show ?thesis by simp
  qed
qed simp

lemma encode_steps_Inr_iff:
  "encode_steps ux abi path = Inr bs \<longleftrightarrow> list_all2 (\<lambda>s b. encode_step ux abi s = Inr b) path bs"
  by (induction path arbitrary: bs) (auto simp: bindE_eq_Inr_iff list_all2_Cons1)

lemma word_at_encode:
  "abi_laws abi \<Longrightarrow> i < length ts \<Longrightarrow> list_all is_static ts \<Longrightarrow>
    word_at i (abi_encode abi ts) = from_be (static_word (ts ! i))"
  by (simp add: abi_laws.encode_static word_at_concat)

lemma encode_steps_ok:
  assumes "u256_laws ux" "\<forall>s \<in> set path. unat (as_amount_out s) * 95 < 2 ^ 256"
  obtains bs where "encode_steps ux abi path = Inr bs"
  using assms(2)
proof (induction path arbitrary: thesis)
  case (Cons s path)
  have "unat (as_amount_out s) * unat (95 :: u256) < 2 ^ 256"
    using Cons.prems(2) by simp
  then obtain n where n: "ux_mul ux (as_amount_out s) 95 = Inr n"
    by (rule u256_laws.mul_ok [OF assms(1)])
  have "0 < unat (100 :: u256)" by simp
  then obtain m where m: "ux_div ux n 100 = Inr m"
    by (rule u256_laws.div_ok [OF assms(1)])
  obtain bs where "encode_steps ux abi path = Inr bs"
    using Cons by auto
  then show ?case
    using Cons.prems(1) by (simp add: encode_step_def n m)
qed simp

lemma decode_encode_step:
  assumes "u256_laws ux" "abi_laws abi" "encode_step ux abi s = Inr b"
  shows "decode_step b = step_view s"
proof -
  obtain m where m: "unat m = unat (as_amount_out s) * 95 div 100"
    and b: "b = (case as_pool_type s of
        PtUniswapV3 fee \<Rightarrow> abi_encode abi [TkUint 1, TkAddress (as_pool s), TkAddress (as_token_in s),
          TkAddress (as_token_out s), TkUint (ucast fee), TkUint m]
      | PtSushiSwap \<Rightarrow> abi_encode abi [TkUint 2, TkAddress (as_pool s), TkAddress (as_token_in s), TkAddress (as_token_out s), TkUint m]
      | PtCamelot \<Rightarrow> abi_encode abi [TkUint 3, TkAddress (as_pool s), TkAddress (as_token_in s), TkAddress (as_token_out s), TkUint m])"
    using assms(3)
    by (auto simp: encode_step_def bindE_eq_Inr_iff u256_laws.mul_Inr_iff [OF assms(1)] u256_laws.div_Inr_iff [OF assms(1)])
  have mv: "step_view s = (as_pool_type s, as_pool s, as_token_in s, as_token_out s, m)"
    by (simp add: step_view_def flip: m)
  have fee: "(from_be (abi_word (ucast fee :: u256)) :: u32) = fee" for fee :: u32
  proof -
    have "abi_word (ucast fee :: u256) = abi_word fee"
      by (simp add: abi_word_def ucast_up_down)
    then show ?thesis by (simp add: from_be_abi_word)
  qed
  note read = word_at_encode [OF assms(2)]
  show ?thesis
    by (cases "as_pool_type s") (simp_all add: decode_step_def b mv read from_be_abi_word fee)
qed

text \<open>C18: the encoded path says what the steps say. For a path whose amounts do not overflow, the user data is the
  encoded array of one byte string per step, in order, and reading a byte string back gives the
  step's DEX type, pool, tokens, fee and 95 percent of its output. So two paths with the same
  user data describe the same swaps.\<close>

theorem encode_arb_path_round_trip:
  assumes "u256_laws ux" "abi_laws abi" "\<forall>s \<in> set path. unat (as_amount_out s) * 95 < 2 ^ 256"
  shows "\<exists>steps. encode_arb_path ux abi path = Inr (abi_encode abi [TkArray (map TkBytes steps)])
    \<and> map decode_step steps = map step_view path
    \<and> (\<forall>path'. encode_arb_path ux abi path' = encode_arb_path ux abi path \<longrightarrow> map step_view path' = map step_view path)"
proof -
  have enc: "map decode_step bs = map step_view p" if "encode_steps ux abi p = Inr bs" for p bs
    using that decode_encode_step [OF assms(1,2)] unfolding encode_steps_Inr_iff
    by (induction rule: list_all2_induct) simp_all
  obtain bs where bs: "encode_steps ux abi path = Inr bs"
    using assms(3) by (rule encode_steps_ok [OF assms(1)])
  have same: "map step_view p = map step_view path"
    if "encode_arb_path ux abi p = encode_arb_path ux abi path" for p
  proof -
    have "encode_arb_path ux abi p = Inr (abi_encode abi [TkArray (map TkBytes bs)])"
      using that by (simp add: encode_arb_path_def bs)
    then obtain cs where cs: "encode_steps ux abi p = Inr cs"
      and eq: "abi_encode abi [TkArray (map TkBytes cs)] = abi_encode abi [TkArray (map TkBytes bs)]"
      by (auto simp: encode_arb_path_def bindE_eq_Inr_iff)
    from abi_laws.encode_array_inj [OF assms(2) eq] have "cs = bs" .
    with enc [OF cs] have "map step_view p = map decode_step bs" by (simp only:)
    also note enc [OF bs]
    finally show ?thesis .
  qed
  show ?thesis
  proof (intro exI conjI allI impI)
    show "encode_arb_path ux abi path = Inr (abi_encode abi [TkArray (map TkBytes bs)])"
      by (simp add: encode_arb_path_def bs)
  qed (rule enc [OF bs], erule same)
qed

text \<open>A concrete encoder that satisfies the laws: words for static tokens, and byte strings with a marker
  before every byte and at the end.\<close>

definition mark_bytes :: "bytes \<Rightarrow> bytes" where
  "mark_bytes bs = concat (map (\<lambda>b. [1, b]) bs) @ [0]"

fun mark_token :: "abi_token \<Rightarrow> bytes" where
  "mark_token (TkBytes bs) = 1 # mark_bytes bs"
| "mark_token (TkArray ts) = concat (map mark_token ts) @ [0]"
| "mark_token (TkTuple ts) = concat (map mark_token ts)"
| "mark_token t = static_word t"

definition abi_std :: abi_crate where
  "abi_std = \<lparr>abi_encode = \<lambda>ts. concat (map mark_token ts),
    abi_execute_arbitrage = \<lambda>ts as d. concat (map abi_word ts) @ concat (map abi_word as) @ d\<rparr>"

lemma mark_bytes_inj: "mark_bytes bs @ us = mark_bytes cs @ vs \<Longrightarrow> bs = cs \<and> us = vs"
proof (induction bs arbitrary: cs)
  case Nil
  then show ?case by (cases cs) (auto simp: mark_bytes_def)
next
  case (Cons b bs)
  then show ?case by (cases cs) (auto simp: mark_bytes_def)
qed

lemma mark_array_inj:
  "concat (map (\<lambda>b. 1 # mark_bytes b) bs) @ [0] = concat (map (\<lambda>b. 1 # mark_bytes b) cs) @ [0] \<Longrightarrow> bs = cs"
proof (induction bs arbitrary: cs)
  case Nil
  then show ?case by (cases cs) auto
next
  case (Cons b bs)
  then obtain c cs' where "cs = c # cs'"
    by (cases cs) auto
  with Cons show ?case
    by (auto dest: mark_bytes_inj)
qed

interpretation std_abi: abi_laws abi_std
proof
  fix ts assume "list_all is_static ts"
  then show "abi_encode abi_std ts = concat (map static_word ts)"
    by (induction ts) (auto simp: abi_std_def elim!: is_static.elims)
next
  fix bs cs
  assume "abi_encode abi_std [TkArray (map TkBytes bs)] = abi_encode abi_std [TkArray (map TkBytes cs)]"
  then show "bs = cs"
    by (intro mark_array_inj) (simp add: abi_std_def comp_def)
qed

definition sample_step :: ArbitrageStep where
  "sample_step = \<lparr>as_pool = 77, as_pool_type = PtUniswapV3 500, as_token_in = 3, as_token_out = 4,
     as_amount_in = 1000, as_amount_out = 2000\<rparr>"

theorem encode_arb_path_round_trip_witness:
  "\<exists>steps. encode_arb_path u256_std abi_std [sample_step] = Inr (abi_encode abi_std [TkArray (map TkBytes steps)])
    \<and> map decode_step steps = [(PtUniswapV3 500, 77, 3, 4, 1900)]"
  using encode_arb_path_round_trip [OF std_u256.u256_laws_axioms std_abi.abi_laws_axioms, of "[sample_step]"]
  by (auto simp: sample_step_def step_view_def)

section \<open>Submission and dry run\<close>

text \<open>C19: what is submitted. At most one transaction is handed to the signer, and one is exactly when the node
  reports a gas price within the configured maximum; it goes to the configured contract on chain
  42161 and carries the input token, the input amount and the encoded path. The result is the hash
  the signer returned, and \<^verbatim>\<open>GasTooHigh\<close> is reported exactly for a price above the maximum.\<close>

theorem execute_arb_guarded:
  assumes "execute_arb ux abi node x opp = Inr (res, sent)"
  shows "length sent \<le> 1
    \<and> (sent \<noteq> [] \<longleftrightarrow> (\<exists>g. nd_gas_price node = Inr g \<and> g \<le> xc_max_gas_price (xe_config x)))
    \<and> (\<forall>w c tx. (w, c, tx) \<in> set sent \<longrightarrow>
        w = xc_private_key (xe_config x) \<and> c = 42161 \<and> tq_to tx = xc_contract_address (xe_config x)
        \<and> (\<exists>data. encode_arb_path ux abi (ao_path opp) = Inr data
             \<and> tq_data tx = abi_execute_arbitrage abi [ao_input_token opp] [ao_input_amount opp] data)
        \<and> (\<forall>h. res = Inr h \<longleftrightarrow> nd_send node w c tx = Inr h))
    \<and> (sent = [] \<longrightarrow> (\<exists>e. res = Inl e))
    \<and> (\<forall>g. res = Inl (XeGasTooHigh g) \<longleftrightarrow> nd_gas_price node = Inr g \<and> xc_max_gas_price (xe_config x) < g)"
proof -
  obtain data where data: "encode_arb_path ux abi (ao_path opp) = Inr data"
    and run: "submit_tx node x (arbitrage_call abi x opp data) = (res, sent)"
    using assms by (auto simp: execute_arb_def bindE_eq_Inr_iff)
  show ?thesis
  proof (cases "nd_gas_price node")
    case (Inl e)
    with run show ?thesis by (auto simp: submit_tx_def)
  next
    case (Inr g)
    show ?thesis
    proof (cases "xc_max_gas_price (xe_config x) < g")
      case True
      with run Inr show ?thesis by (auto simp: submit_tx_def)
    next
      case False
      with run Inr data show ?thesis
        by (auto simp: submit_tx_def arbitrage_call_def Let_def split: sum.splits)
    qed
  qed
qed

definition sample_opp :: ArbitrageOpportunity where
  "sample_opp = \<lparr>ao_path = [sample_step], ao_input_token = 3, ao_input_amount = 1000, ao_output_amount = 2000,
     ao_profit = 1000, ao_profit_bps = 10000, ao_gas_estimate = 200000, ao_net_profit = 1000\<rparr>"

definition sample_executor :: "nat ArbitrageExecutor" where
  "sample_executor = executor_new \<lparr>xc_contract_address = 99, xc_private_key = 5, xc_max_gas_price = 100,
     xc_priority_fee = 1, xc_slippage_bps = 50\<rparr>"

definition sample_node :: "u256 \<Rightarrow> nat evm_node" where
  "sample_node g = \<lparr>nd_gas_price = Inr g, nd_estimate_gas = \<lambda>tx. Inr 3, nd_send = \<lambda>w c tx. Inr 12345\<rparr>"

lemma execute_arb_Inr:
  assumes "u256_laws ux" "\<forall>s \<in> set (ao_path opp). unat (as_amount_out s) * 95 < 2 ^ 256"
    and "unat (ao_output_amount opp) * 10000 < 2 ^ 256" "unat (xc_slippage_bps (xe_config x)) \<le> 10000"
  shows "\<exists>data. encode_arb_path ux abi (ao_path opp) = Inr data
    \<and> execute_arb ux abi node x opp = Inr (submit_tx node x (arbitrage_call abi x opp data))"
proof -
  obtain bs where bs: "encode_steps ux abi (ao_path opp) = Inr bs"
    using assms(2) by (rule encode_steps_ok [OF assms(1)])
  let ?k = "10000 - xc_slippage_bps (xe_config x)"
  have "unat ?k \<le> 10000"
    using assms(4) by (subst unat_sub_exact) (simp_all add: word_le_nat_alt)
  then have "unat (ucast ?k :: u256) \<le> 10000"
    by (simp add: unsigned_ucast_eq take_bit_eq_mod)
  then have "unat (ao_output_amount opp) * unat (ucast ?k :: u256) \<le> unat (ao_output_amount opp) * 10000"
    by (rule mult_le_mono2)
  then have "unat (ao_output_amount opp) * unat (ucast ?k :: u256) < 2 ^ 256"
    using assms(3) by (rule le_less_trans)
  then obtain n where n: "ux_mul ux (ao_output_amount opp) (ucast ?k) = Inr n"
    by (rule u256_laws.mul_ok [OF assms(1)])
  have "0 < unat (10000 :: u256)" by simp
  then obtain m where m: "ux_div ux n 10000 = Inr m"
    by (rule u256_laws.div_ok [OF assms(1)])
  show ?thesis
    by (simp add: execute_arb_def encode_arb_path_def bs n m)
qed

theorem execute_arb_guarded_witness:
  "\<exists>res sent. execute_arb u256_std abi_std (sample_node 90) sample_executor sample_opp = Inr (res, sent)
    \<and> length sent = 1"
proof -
  have "unat (xc_slippage_bps (xe_config sample_executor)) \<le> 10000"
    by (simp add: sample_executor_def executor_new_def)
  then obtain res sent where r: "execute_arb u256_std abi_std (sample_node 90) sample_executor sample_opp = Inr (res, sent)"
    using execute_arb_Inr [OF std_u256.u256_laws_axioms, of sample_opp sample_executor abi_std "sample_node 90"]
    by (auto simp: sample_opp_def sample_step_def) (metis surj_pair)
  have "sent \<noteq> [] \<and> length sent \<le> 1"
    using execute_arb_guarded [OF r] by (auto simp: sample_node_def sample_executor_def executor_new_def)
  with r show ?thesis
    by (cases sent) auto
qed

text \<open>The slippage setting has no effect. The executor computes a least output from it and never uses it: for
  any two settings of at most 10000 basis points it submits the same transaction and returns the
  same result.\<close>

theorem execute_arb_ignores_slippage:
  assumes "u256_laws ux" "\<forall>s \<in> set (ao_path opp). unat (as_amount_out s) * 95 < 2 ^ 256"
    and "unat (ao_output_amount opp) * 10000 < 2 ^ 256"
    and "unat (xc_slippage_bps config) \<le> 10000" "unat bps \<le> 10000"
  shows "execute_arb ux abi node (executor_new (config\<lparr>xc_slippage_bps := bps\<rparr>)) opp
    = execute_arb ux abi node (executor_new config) opp"
proof -
  let ?x = "executor_new config" and ?y = "executor_new (config\<lparr>xc_slippage_bps := bps\<rparr>)"
  have slip: "unat (xc_slippage_bps (xe_config ?x)) \<le> 10000" "unat (xc_slippage_bps (xe_config ?y)) \<le> 10000"
    using assms(4,5) by (simp_all add: executor_new_def)
  have "submit_tx node ?y (arbitrage_call abi ?y opp data) = submit_tx node ?x (arbitrage_call abi ?x opp data)" for data
    by (simp add: submit_tx_def arbitrage_call_def executor_new_def split: sum.split)
  then show ?thesis
    using execute_arb_Inr [OF assms(1-3) slip(1), of abi node] execute_arb_Inr [OF assms(1-3) slip(2), of abi node]
    by auto
qed

theorem execute_arb_ignores_slippage_witness:
  "execute_arb u256_std abi_std (sample_node 90)
     (executor_new \<lparr>xc_contract_address = 99, xc_private_key = 5, xc_max_gas_price = 100, xc_priority_fee = 1,
        xc_slippage_bps = 0\<rparr>) sample_opp
   = execute_arb u256_std abi_std (sample_node 90) sample_executor sample_opp"
  using execute_arb_ignores_slippage [OF std_u256.u256_laws_axioms, of sample_opp
      "xe_config sample_executor" 0 abi_std "sample_node 90"]
  by (simp add: sample_opp_def sample_step_def sample_executor_def executor_new_def)

text \<open>The dry run. When the estimate and the price are known and their product fits, the result lists the
  exact gas cost and the profit left after it, or 0 if the cost is not covered; a failed estimate
  is a simulation error even if the price is also unknown.\<close>

theorem simulate_arb_exact:
  assumes "u256_laws ux" "encode_arb_path ux abi (ao_path opp) = Inr data"
    and "\<forall>gas price. nd_estimate_gas node (arbitrage_call abi x opp data) = Inr gas \<and> nd_gas_price node = Inr price
      \<longrightarrow> unat gas * unat price < 2 ^ 256"
  shows "\<exists>res. simulate_arb ux abi node x opp = Inr res
    \<and> (case nd_estimate_gas node (arbitrage_call abi x opp data) of
         Inl e \<Rightarrow> res = Inl (XeSimulation e)
       | Inr gas \<Rightarrow> (case nd_gas_price node of
           Inl e \<Rightarrow> res = Inl (XeProvider e)
         | Inr price \<Rightarrow> (\<exists>r. res = Inr r \<and> sx_success r \<and> unat (sx_gas_cost r) = unat gas * unat price
             \<and> unat (sx_net_profit r) = unat (ao_profit opp) - unat gas * unat price)))"
proof (cases "nd_estimate_gas node (arbitrage_call abi x opp data)")
  case (Inl e)
  then show ?thesis by (simp add: simulate_arb_def assms(2))
next
  case gas: (Inr gas)
  show ?thesis
  proof (cases "nd_gas_price node")
    case (Inl e)
    with gas show ?thesis by (simp add: simulate_arb_def assms(2))
  next
    case (Inr price)
    then obtain c where c: "ux_mul ux gas price = Inr c" "unat c = unat gas * unat price"
      using assms(3) gas u256_laws.mul_ok [OF assms(1), of gas price] by blast
    have "\<exists>n. (if c < ao_profit opp then ux_sub ux (ao_profit opp) c else Inr 0) = Inr n
        \<and> unat n = unat (ao_profit opp) - unat c"
    proof (cases "c < ao_profit opp")
      case True
      then show ?thesis
        using u256_laws.sub_ok [OF assms(1), of c "ao_profit opp"] by (auto simp: word_less_nat_alt)
    qed (simp add: word_less_nat_alt)
    with gas Inr c show ?thesis
      by (auto simp: simulate_arb_def assms(2))
  qed
qed

theorem simulate_arb_exact_witness:
  "\<exists>r. simulate_arb u256_std abi_std (sample_node 90) sample_executor sample_opp = Inr (Inr r)
    \<and> unat (sx_net_profit r) = 730"
proof -
  obtain bs where "encode_steps u256_std abi_std (ao_path sample_opp) = Inr bs"
    by (rule encode_steps_ok [OF std_u256.u256_laws_axioms, of "ao_path sample_opp"])
      (auto simp: sample_opp_def sample_step_def)
  then have "encode_arb_path u256_std abi_std (ao_path sample_opp) = Inr (abi_encode abi_std [TkArray (map TkBytes bs)])"
    by (simp add: encode_arb_path_def)
  from simulate_arb_exact [OF std_u256.u256_laws_axioms this, of "sample_node 90" sample_executor] show ?thesis
    by (auto simp: sample_node_def sample_opp_def)
qed

end
