(* ===== verification/Mempool_Monitor.thy ===== *)
theory Mempool_Monitor
  imports Ethers_U256 Arbitrage_Detector
begin

text \<open>
  The websocket mempool monitor (\<^verbatim>\<open>core/src/mempool/ultra_ws.rs\<close>): extraction of transaction hashes from
  the subscription's messages, batching, and the enhanced monitor, which classifies and decodes
  full transactions. A message is its UTF-8 bytes (a \<open>string\<close>, whose characters are bytes). The
  select loop is a state machine on events; the JSON parser and the clock are parameters (the
  parsed transaction, the time stamps of an event). Connecting, pinning and logging are left out.
\<close>

section \<open>Data\<close>

datatype MonDexType = MdUniswapV2 | MdUniswapV3 | MdSushiSwap | MdCamelot

record MonSwapInfo =
  ms_token_in :: address
  ms_token_out :: address
  ms_amount_in :: u256
  ms_min_amount_out :: u256
  ms_dex_type :: MonDexType
  ms_pool_address :: address

text \<open>The fields of the client library's transaction that the monitor reads.\<close>

record EthTransaction =
  et_hash :: bytes32
  et_input :: bytes
  et_value :: u256
  et_gas_price :: "u256 option"

definition EthTransaction_default :: EthTransaction where
  "EthTransaction_default = \<lparr>et_hash = 0, et_input = [], et_value = 0, et_gas_price = None\<rparr>"

record MempoolTx =
  mt_hash :: bytes32
  mt_tx :: EthTransaction
  mt_first_seen_tsc :: u64
  mt_first_seen_ns :: u64
  mt_gas_price :: u256
  mt_is_swap :: bool
  mt_swap_info :: "MonSwapInfo option"

record MempoolConfig =
  mc_ws_url :: string
  mc_backup_ws_urls :: "string list"
  mc_max_pending_txs :: usize
  mc_cpu_core :: "usize option"
  mc_batch_size :: usize

definition MempoolConfig_default :: MempoolConfig where
  "MempoolConfig_default =
    \<lparr>mc_ws_url = [], mc_backup_ws_urls = [], mc_max_pending_txs = 10000, mc_cpu_core = Some 0, mc_batch_size = 32\<rparr>"

record MempoolStats =
  st_txs_received :: u64
  st_txs_parsed :: u64
  st_swaps_detected :: u64
  st_avg_latency_ns :: u64
  st_min_latency_ns :: u64
  st_max_latency_ns :: u64

definition MempoolStats_default :: MempoolStats where
  "MempoolStats_default =
    \<lparr>st_txs_received = 0, st_txs_parsed = 0, st_swaps_detected = 0, st_avg_latency_ns = 0,
     st_min_latency_ns = 0, st_max_latency_ns = 0\<rparr>"

section \<open>Hash extraction\<close>

fun find_sub :: "string \<Rightarrow> string \<Rightarrow> nat option" where
  "find_sub pat [] = (if pat = [] then Some 0 else None)"
| "find_sub pat (c # cs) =
    (if take (length pat) (c # cs) = pat then Some 0 else map_option Suc (find_sub pat cs))"

text \<open>Slicing a \<^verbatim>\<open>str\<close> panics when an end of the range is inside a multi-byte character.\<close>

definition is_char_boundary :: "string \<Rightarrow> nat \<Rightarrow> bool" where
  "is_char_boundary s i \<longleftrightarrow> i = 0 \<or> i = length s
    \<or> i < length s \<and> \<not> (128 \<le> (of_char (s ! i) :: nat) \<and> (of_char (s ! i) :: nat) < 192)"

definition str_slice :: "string \<Rightarrow> nat \<Rightarrow> nat \<Rightarrow> string exec" where
  "str_slice s a b =
    (if a \<le> b \<and> is_char_boundary s a \<and> is_char_boundary s b then Inr (sub_bytes a b s) else Inl CharBoundary)"

definition RESULT_PATTERN :: string where
  "RESULT_PATTERN = [CHR 0x22] @ ''result'' @ [CHR 0x22] @ '':'' @ [CHR 0x22] @ ''0x''"

definition extract_tx_hash_fast :: "hexcrate \<Rightarrow> string \<Rightarrow> bytes32 option exec" where
  "extract_tx_hash_fast hx text =
    (case find_sub RESULT_PATTERN text of
       None \<Rightarrow> Inr None
     | Some start \<Rightarrow>
         let hash_start = start + length RESULT_PATTERN in
         if hash_start + 64 \<le> length text then
           bindE (str_slice text hash_start (hash_start + 64)) (\<lambda>hash_str.
           Inr (case hex_decode hx hash_str of
                  Some bs \<Rightarrow> if length bs = 32 then Some (from_be bs) else None
                | None \<Rightarrow> None))
         else Inr None)"

section \<open>The batching loop\<close>

datatype ws_message = WsText string | WsBinary bytes | WsPing bytes | WsOther | WsError

text \<open>One turn of the loop: a message with its time stamps, or the 100 microsecond timer. The channel's
  receiver can be dropped and \<^verbatim>\<open>stop\<close> can be called at any point between turns.\<close>

datatype monitor_event = Received ws_message u64 u64 | Tick u64 u64 | ReceiverDropped | StopCalled

record monitor_state =
  mo_running :: bool
  mo_pending :: "bytes32 list"
  mo_stats :: MempoolStats
  mo_open :: bool
  mo_sent :: "MempoolTx list"
  mo_pongs :: "bytes list"

definition monitor_start :: monitor_state where
  "monitor_start = \<lparr>mo_running = True, mo_pending = [], mo_stats = MempoolStats_default, mo_open = True,
     mo_sent = [], mo_pongs = []\<rparr>"

definition hash_tx :: "u64 \<Rightarrow> u64 \<Rightarrow> bytes32 \<Rightarrow> MempoolTx" where
  "hash_tx tsc ns hash =
    \<lparr>mt_hash = hash, mt_tx = EthTransaction_default, mt_first_seen_tsc = tsc, mt_first_seen_ns = ns,
     mt_gas_price = 0, mt_is_swap = False, mt_swap_info = None\<rparr>"

definition process_batch :: "bytes32 list \<Rightarrow> u64 \<Rightarrow> u64 \<Rightarrow> monitor_state \<Rightarrow> monitor_state" where
  "process_batch hashes tsc ns s =
    s\<lparr>mo_sent := mo_sent s @ (if mo_open s then map (hash_tx tsc ns) hashes else []),
      mo_stats := (mo_stats s)\<lparr>st_txs_parsed := st_txs_parsed (mo_stats s) + of_nat (length hashes)\<rparr>\<rparr>"

definition flush_pending :: "u64 \<Rightarrow> u64 \<Rightarrow> monitor_state \<Rightarrow> monitor_state" where
  "flush_pending tsc ns s = (process_batch (mo_pending s) tsc ns s)\<lparr>mo_pending := []\<rparr>"

definition on_text :: "hexcrate \<Rightarrow> MempoolConfig \<Rightarrow> string \<Rightarrow> u64 \<Rightarrow> u64 \<Rightarrow> monitor_state \<Rightarrow> monitor_state exec" where
  "on_text hx config text tsc ns s =
    (let s1 = s\<lparr>mo_stats := (mo_stats s)\<lparr>st_txs_received := st_txs_received (mo_stats s) + 1\<rparr>\<rparr> in
     bindE (extract_tx_hash_fast hx text) (\<lambda>r.
     Inr (case r of
            None \<Rightarrow> s1
          | Some hash \<Rightarrow>
              let s2 = s1\<lparr>mo_pending := mo_pending s1 @ [hash]\<rparr> in
              if unat (mc_batch_size config) \<le> length (mo_pending s2) then flush_pending tsc ns s2 else s2)))"

definition monitor_turn :: "hexcrate \<Rightarrow> MempoolConfig \<Rightarrow> monitor_event \<Rightarrow> monitor_state \<Rightarrow> monitor_state exec" where
  "monitor_turn hx config ev s =
    (if \<not> mo_running s then Inr s
     else case ev of
       Received (WsText text) tsc ns \<Rightarrow> on_text hx config text tsc ns s
     | Received (WsBinary data) tsc ns \<Rightarrow> Inr s
     | Received (WsPing data) tsc ns \<Rightarrow> Inr (s\<lparr>mo_pongs := mo_pongs s @ [data]\<rparr>)
     | Received WsError tsc ns \<Rightarrow> Inr (s\<lparr>mo_running := False\<rparr>)
     | Received WsOther tsc ns \<Rightarrow> Inr s
     | Tick tsc ns \<Rightarrow> Inr (if mo_pending s = [] then s else flush_pending tsc ns s)
     | ReceiverDropped \<Rightarrow> Inr (s\<lparr>mo_open := False\<rparr>)
     | StopCalled \<Rightarrow> Inr (s\<lparr>mo_running := False\<rparr>))"

fun monitor_run :: "hexcrate \<Rightarrow> MempoolConfig \<Rightarrow> monitor_event list \<Rightarrow> monitor_state \<Rightarrow> monitor_state exec" where
  "monitor_run hx config [] s = Inr s"
| "monitor_run hx config (ev # evs) s = bindE (monitor_turn hx config ev s) (monitor_run hx config evs)"

section \<open>The enhanced monitor\<close>

definition is_likely_swap :: "EthTransaction \<Rightarrow> bool" where
  "is_likely_swap tx \<longleftrightarrow> 4 \<le> length (et_input tx) \<and> take 4 (et_input tx) \<in> set
    [[0x38, 0xed, 0x17, 0x39], [0x7f, 0xf3, 0x6a, 0xb5], [0x18, 0xcb, 0xaf, 0xe5],
     [0xc0, 0x4b, 0x8d, 0x59], [0xb8, 0x58, 0x18, 0x3f], [0x41, 0x4b, 0xf3, 0x89],
     [0x36, 0x93, 0xd8, 0xa4], [0x24, 0x85, 0x6b, 0xc3]]"

text \<open>The token path of a V2 call whose offset word starts at \<open>pos\<close>; the same lines occur in each V2 branch.\<close>

definition path_tokens :: "u256crate \<Rightarrow> bytes \<Rightarrow> nat \<Rightarrow> (address \<times> address) option exec" where
  "path_tokens ux data pos =
    bindE (ux_as_usize ux (ux_from_big_endian ux (sub_bytes pos (pos + 32) data))) (\<lambda>off.
    let path_offset = off + 4 in
    if length data < unat (path_offset + 32) then Inr None
    else bindE (slice data path_offset (path_offset + 32)) (\<lambda>len_word.
      bindE (ux_as_usize ux (ux_from_big_endian ux len_word)) (\<lambda>path_len.
      if path_len < 2 \<or> length data < unat (path_offset + 32 + path_len * 32) then Inr None
      else bindE (slice data (path_offset + 32 + 12) (path_offset + 32 + 32)) (\<lambda>tin.
        bindE (slice data (path_offset + 64 + 12) (path_offset + 64 + 32)) (\<lambda>tout.
        Inr (Some (from_be tin, from_be tout)))))))"

definition v2_info :: "u256 \<Rightarrow> u256 \<Rightarrow> address \<times> address \<Rightarrow> MonSwapInfo" where
  "v2_info amount_in min_out tokens =
    \<lparr>ms_token_in = fst tokens, ms_token_out = snd tokens, ms_amount_in = amount_in, ms_min_amount_out = min_out,
     ms_dex_type = MdUniswapV2, ms_pool_address = 0\<rparr>"

definition parse_swap_fast :: "u256crate \<Rightarrow> EthTransaction \<Rightarrow> MonSwapInfo option exec" where
  "parse_swap_fast ux tx =
    (let data = et_input tx; be = (\<lambda>a b. ux_from_big_endian ux (sub_bytes a b data)); selector = take 4 data in
     if length data < 68 then Inr None
     else if selector = [0x38, 0xed, 0x17, 0x39] \<or> selector = [0x18, 0xcb, 0xaf, 0xe5] then
       if length data < 164 then Inr None
       else bindE (path_tokens ux data 68) (\<lambda>r. Inr (map_option (v2_info (be 4 36) (be 36 68)) r))
     else if selector = [0x7f, 0xf3, 0x6a, 0xb5] then
       if length data < 132 then Inr None
       else bindE (path_tokens ux data 36) (\<lambda>r. Inr (map_option (v2_info (et_value tx) (be 4 36)) r))
     else if selector = [0x41, 0x4b, 0xf3, 0x89] then
       if length data < 260 then Inr None
       else Inr (Some \<lparr>ms_token_in = from_be (sub_bytes 16 36 data), ms_token_out = from_be (sub_bytes 48 68 data),
                       ms_amount_in = be 164 196, ms_min_amount_out = be 196 228,
                       ms_dex_type = MdUniswapV3, ms_pool_address = 0\<rparr>)
     else Inr None)"

definition enhanced_tx :: "u256crate \<Rightarrow> u64 \<Rightarrow> u64 \<Rightarrow> EthTransaction \<Rightarrow> MempoolTx exec" where
  "enhanced_tx ux tsc ns tx =
    bindE (if is_likely_swap tx then parse_swap_fast ux tx else Inr None) (\<lambda>swap_info.
    Inr \<lparr>mt_hash = et_hash tx, mt_tx = tx, mt_first_seen_tsc = tsc, mt_first_seen_ns = ns,
         mt_gas_price = (case et_gas_price tx of Some p \<Rightarrow> p | None \<Rightarrow> 0),
         mt_is_swap = is_likely_swap tx, mt_swap_info = swap_info\<rparr>)"

text \<open>One turn of the enhanced loop; \<open>json_tx\<close> is the parse of \<^verbatim>\<open>params.result\<close>. Anything but a text message,
  the end of the stream included, leaves the loop as it is.\<close>

definition enhanced_turn ::
  "u256crate \<Rightarrow> (string \<Rightarrow> EthTransaction option) \<Rightarrow> monitor_event \<Rightarrow> monitor_state \<Rightarrow> monitor_state exec" where
  "enhanced_turn ux json_tx ev s =
    (if \<not> mo_running s then Inr s
     else case ev of
       Received (WsText text) tsc ns \<Rightarrow>
         (case json_tx text of
            None \<Rightarrow> Inr s
          | Some tx \<Rightarrow> bindE (enhanced_tx ux tsc ns tx) (\<lambda>m.
              Inr (if mo_open s then s\<lparr>mo_sent := mo_sent s @ [m]\<rparr> else s)))
     | ReceiverDropped \<Rightarrow> Inr (s\<lparr>mo_open := False\<rparr>)
     | StopCalled \<Rightarrow> Inr (s\<lparr>mo_running := False\<rparr>)
     | _ \<Rightarrow> Inr s)"

section \<open>Extraction\<close>

lemma find_sub_at:
  "\<forall>i < n. take (length pat) (drop i s) \<noteq> pat \<Longrightarrow> take (length pat) (drop n s) = pat \<Longrightarrow> n \<le> length s \<Longrightarrow>
    find_sub pat s = Some n"
proof (induction s arbitrary: n)
  case (Cons c s)
  show ?case
  proof (cases n)
    case 0
    with Cons.prems show ?thesis by simp
  next
    case (Suc m)
    then have "take (length pat) (c # s) \<noteq> pat"
      using Cons.prems(1) by (metis drop0 zero_less_Suc)
    moreover have "\<forall>i < m. take (length pat) (drop i s) \<noteq> pat"
      using Cons.prems(1) Suc by auto
    ultimately show ?thesis
      using Cons.IH [of m] Cons.prems Suc by simp
  qed
qed simp

lemma length_RESULT_PATTERN [simp]: "length RESULT_PATTERN = 12"
  by (simp add: RESULT_PATTERN_def)

text \<open>A message with the pattern first at \<open>length pre\<close>, followed by 64 bytes and the rest.\<close>

lemma extract_at:
  assumes "\<forall>i < length pre. take 12 (drop i (pre @ RESULT_PATTERN @ h @ post)) \<noteq> RESULT_PATTERN" "length h = 64"
  shows "extract_tx_hash_fast hx (pre @ RESULT_PATTERN @ h @ post) =
    (if is_char_boundary (pre @ RESULT_PATTERN @ h @ post) (length pre + 12)
        \<and> is_char_boundary (pre @ RESULT_PATTERN @ h @ post) (length pre + 76)
     then Inr (case hex_decode hx h of Some bs \<Rightarrow> if length bs = 32 then Some (from_be bs) else None | None \<Rightarrow> None)
     else Inl CharBoundary)"
proof -
  have "find_sub RESULT_PATTERN (pre @ RESULT_PATTERN @ h @ post) = Some (length pre)"
    using assms(1) by (intro find_sub_at) simp_all
  moreover have "sub_bytes (length pre + 12) (length pre + 76) (pre @ RESULT_PATTERN @ h @ post) = h"
    using assms(2) by (simp add: sub_bytes_def)
  ultimately show ?thesis
    using assms(2) by (simp add: extract_tx_hash_fast_def str_slice_def Let_def add.assoc)
qed

text \<open>What extraction relies on of the \<^verbatim>\<open>hex\<close> crate: two ASCII digits for every byte.\<close>

locale hex_text = hex_codec +
  assumes encode_length: "length (hex_encode hx bs) = 2 * length bs"
    and encode_ascii: "c \<in> set (hex_encode hx bs) \<Longrightarrow> (of_char c :: nat) < 128"

lemma length_hex_encode_std: "length (hex_encode_std bs) = 2 * length bs"
  by (induction bs) simp_all

lemma hex_digit_ascii: "n < 16 \<Longrightarrow> (of_char (hex_digit n) :: nat) < 128"
  by (simp add: hex_digit_def of_char_of)

lemma hex_encode_std_ascii: "c \<in> set (hex_encode_std bs) \<Longrightarrow> (of_char c :: nat) < 128"
proof (induction bs)
  case (Cons b bs)
  have "unat b div 16 < 16" "unat b mod 16 < 16"
    using unat_bound [of b] by simp_all
  then have "(of_char (hex_digit (unat b div 16)) :: nat) < 128" "(of_char (hex_digit (unat b mod 16)) :: nat) < 128"
    by (simp_all only: hex_digit_ascii)
  with Cons show ?case by auto
qed simp

interpretation std_hex_text: hex_text hex_std
  by unfold_locales (simp_all add: hex_std_def length_hex_encode_std hex_encode_std_ascii)

text \<open>Extraction reads the hash. In a message whose first \<^verbatim>\<open>"result":"0x\<close> is followed by the hex form of a hash
  and then by an ASCII byte or the end, extraction returns that hash, whatever surrounds it.\<close>

theorem extract_tx_hash_round_trip:
  assumes "hex_text hx" "text = pre @ RESULT_PATTERN @ hex_encode hx (to_be 32 (h :: bytes32)) @ post"
    and "\<forall>i < length pre. take 12 (drop i text) \<noteq> RESULT_PATTERN"
    and "post = [] \<or> (of_char (hd post) :: nat) < 128"
  shows "extract_tx_hash_fast hx text = Inr (Some h)"
proof -
  let ?e = "hex_encode hx (to_be 32 h)"
  have len: "length ?e = 64"
    using hex_text.encode_length [OF assms(1)] by simp
  then have "?e \<noteq> []" by auto
  then have "(of_char (?e ! 0) :: nat) < 128"
    using hex_text.encode_ascii [OF assms(1)] by (metis len nth_mem zero_less_numeral)
  then have "is_char_boundary text (length pre + 12)"
    using len by (simp add: is_char_boundary_def assms(2) nth_append)
  moreover have "is_char_boundary text (length pre + 76)"
    using len assms(4) by (cases post) (simp_all add: is_char_boundary_def assms(2) nth_append)
  moreover have "hex_decode hx ?e = Some (to_be 32 h)"
    using assms(1) by (simp add: hex_text_def hex_codec.decode_encode)
  moreover have "(from_be (to_be 32 h) :: bytes32) = h"
    by (simp add: codec_simps)
  ultimately show ?thesis
    using extract_at [of pre ?e post hx] assms(3) len by (simp add: assms(2))
qed

definition message_head :: string where
  "message_head = [CHR 0x22] @ ''subscription'' @ [CHR 0x22] @ '':'' @ [CHR 0x22] @ ''0x1'' @ [CHR 0x22] @ '',''"

theorem extract_tx_hash_round_trip_witness:
  "extract_tx_hash_fast hex_std (message_head @ RESULT_PATTERN @ hex_encode hex_std (to_be 32 (258 :: bytes32)) @ [CHR 0x22])
    = Inr (Some 258)"
proof (rule extract_tx_hash_round_trip [OF std_hex_text.hex_text_axioms refl])
  let ?t = "message_head @ RESULT_PATTERN @ hex_encode hex_std (to_be 32 (258 :: bytes32)) @ [CHR 0x22]"
  have "\<forall>i \<in> set [0..<21]. take 12 (drop i ?t) \<noteq> RESULT_PATTERN"
    by (simp add: upt_rec message_head_def RESULT_PATTERN_def)
  moreover have "length message_head = 21"
    by (simp add: message_head_def)
  ultimately show "\<forall>i < length message_head. take 12 (drop i ?t) \<noteq> RESULT_PATTERN"
    by (simp add: atLeast0LessThan)
qed simp

text \<open>A malformed message stops the monitor. If the 64 bytes after the first pattern end inside a multi-byte
  character, that is if the next byte is a continuation byte, taking the slice panics; with the
  release profile's \<^verbatim>\<open>panic = "abort"\<close> the process ends.\<close>

theorem extract_tx_hash_panics:
  assumes "text = pre @ RESULT_PATTERN @ h @ c # post" "length h = 64"
    and "\<forall>i < length pre. take 12 (drop i text) \<noteq> RESULT_PATTERN"
    and "128 \<le> (of_char c :: nat)" "(of_char c :: nat) < 192"
  shows "extract_tx_hash_fast hx text = Inl CharBoundary"
proof -
  have "\<not> is_char_boundary text (length pre + 76)"
    using assms(2,4,5) by (simp add: is_char_boundary_def assms(1) nth_append)
  then show ?thesis
    using extract_at [of pre h "c # post" hx] assms(2,3) by (simp add: assms(1))
qed

theorem extract_tx_hash_panics_witness:
  "extract_tx_hash_fast hex_std (RESULT_PATTERN @ (replicate 63 CHR ''a'' @ [CHR 0xC3]) @ [CHR 0xA9]) = Inl CharBoundary"
  by (rule extract_tx_hash_panics [where pre = "[]" and post = "[]" and c = "CHR 0xA9" and
        h = "replicate 63 CHR ''a'' @ [CHR 0xC3]"]) simp_all

section \<open>Batching\<close>

definition stops :: "monitor_event \<Rightarrow> bool" where
  "stops ev \<longleftrightarrow> ev = StopCalled \<or> (\<exists>tsc ns. ev = Received WsError tsc ns)"

fun texts_of :: "monitor_event \<Rightarrow> string list" where
  "texts_of (Received (WsText t) tsc ns) = [t]"
| "texts_of _ = []"

definition hash_of :: "hexcrate \<Rightarrow> string \<Rightarrow> bytes32 list" where
  "hash_of hx t = (case extract_tx_hash_fast hx t of Inr (Some h) \<Rightarrow> [h] | _ \<Rightarrow> [])"

text \<open>What a run has read: the texts before the first stop, and their hashes.\<close>

definition read_texts :: "monitor_event list \<Rightarrow> string list" where
  "read_texts evs = concat (map texts_of (takeWhile (\<lambda>ev. \<not> stops ev) evs))"

definition read_hashes :: "hexcrate \<Rightarrow> monitor_event list \<Rightarrow> bytes32 list" where
  "read_hashes hx evs = concat (map (hash_of hx) (read_texts evs))"

definition batch_inv :: "hexcrate \<Rightarrow> MempoolConfig \<Rightarrow> string list \<Rightarrow> monitor_state \<Rightarrow> bool" where
  "batch_inv hx config texts s \<longleftrightarrow>
    mo_open s \<and> map mt_hash (mo_sent s) @ mo_pending s = concat (map (hash_of hx) texts)
    \<and> (mo_pending s = [] \<or> length (mo_pending s) < unat (mc_batch_size config))
    \<and> st_txs_received (mo_stats s) = of_nat (length texts)
    \<and> st_txs_parsed (mo_stats s) = of_nat (length (mo_sent s))"

lemma mt_hash_tx [simp]: "mt_hash (hash_tx tsc ns h) = h"
  by (simp add: hash_tx_def)

lemma map_hash_tx: "map (mt_hash \<circ> hash_tx tsc ns) hs = hs"
  by (simp add: comp_def)

lemmas flush_defs = flush_pending_def process_batch_def

lemma on_text_inv:
  assumes "batch_inv hx config texts s" "on_text hx config t tsc ns s = Inr s'"
  shows "batch_inv hx config (texts @ [t]) s'" "mo_running s' = mo_running s"
proof -
  obtain r where r: "extract_tx_hash_fast hx t = Inr r"
    using assms(2) by (auto simp: on_text_def Let_def bindE_eq_Inr_iff)
  show "mo_running s' = mo_running s"
    using assms(2) by (auto simp: on_text_def r flush_defs Let_def split: option.splits if_splits)
  show "batch_inv hx config (texts @ [t]) s'"
  proof (cases r)
    case None
    with assms r show ?thesis
      by (auto simp: on_text_def batch_inv_def hash_of_def)
  next
    case (Some h)
    have eq: "map mt_hash (mo_sent s) @ mo_pending s @ [h] = concat (map (hash_of hx) (texts @ [t]))"
      using assms(1) r Some by (simp add: batch_inv_def hash_of_def flip: append_assoc)
    show ?thesis
    proof (cases "unat (mc_batch_size config) \<le> Suc (length (mo_pending s))")
      case True
      then show ?thesis
        using assms r Some eq by (auto simp: on_text_def batch_inv_def flush_defs map_hash_tx Let_def)
    next
      case False
      then show ?thesis
        using assms r Some eq by (auto simp: on_text_def batch_inv_def Let_def)
    qed
  qed
qed

lemma monitor_turn_inv:
  assumes "batch_inv hx config texts s" "monitor_turn hx config ev s = Inr s'" "mo_running s" "ev \<noteq> ReceiverDropped"
  shows "batch_inv hx config (texts @ (if stops ev then [] else texts_of ev)) s' \<and> mo_running s' = (\<not> stops ev)"
proof (cases ev)
  case (Received msg tsc ns)
  show ?thesis
  proof (cases "\<exists>t. msg = WsText t")
    case True
    then obtain t where "msg = WsText t" ..
    with Received assms on_text_inv [OF assms(1), of t tsc ns s'] show ?thesis
      by (simp add: monitor_turn_def stops_def)
  next
    case False
    with Received assms show ?thesis
      by (cases msg) (auto simp: monitor_turn_def batch_inv_def stops_def)
  qed
next
  case (Tick tsc ns)
  then show ?thesis
    using assms by (auto simp: monitor_turn_def batch_inv_def stops_def flush_defs map_hash_tx split: if_splits)
qed (use assms in \<open>auto simp: monitor_turn_def batch_inv_def stops_def\<close>)

lemma monitor_run_stopped: "\<not> mo_running s \<Longrightarrow> monitor_run hx config evs s = Inr s"
  by (induction evs) (simp_all add: monitor_turn_def)

lemma monitor_run_inv:
  "batch_inv hx config texts s \<Longrightarrow> mo_running s \<Longrightarrow> ReceiverDropped \<notin> set evs \<Longrightarrow>
    monitor_run hx config evs s = Inr s' \<Longrightarrow> batch_inv hx config (texts @ read_texts evs) s'"
proof (induction evs arbitrary: texts s)
  case (Cons ev evs)
  then obtain u where u: "monitor_turn hx config ev s = Inr u" "monitor_run hx config evs u = Inr s'"
    by (auto simp: bindE_eq_Inr_iff)
  note inv = monitor_turn_inv [OF Cons.prems(1) u(1) Cons.prems(2)]
  show ?case
  proof (cases "stops ev")
    case True
    then show ?thesis
      using inv Cons.prems(3) u(2) monitor_run_stopped [of u] by (auto simp: read_texts_def)
  next
    case False
    then show ?thesis
      using inv Cons.prems(3) u(2) Cons.IH [of "texts @ texts_of ev" u] by (auto simp: read_texts_def)
  qed
qed (simp add: read_texts_def)

text \<open>C13: batching loses nothing while the loop runs. For every sequence of events with a live receiver, the hashes
  sent, followed by the pending ones, are the hashes of the texts read, in order; fewer than a
  batch are pending and none are after the timer has fired; the counters count the texts and the
  transactions sent. Once the loop has ended (an error or \<^verbatim>\<open>stop\<close>) nothing more is sent, so what is
  pending then is never delivered.\<close>

theorem monitor_batching:
  assumes "monitor_run hx config evs monitor_start = Inr s" "ReceiverDropped \<notin> set evs"
  shows "map mt_hash (mo_sent s) @ mo_pending s = read_hashes hx evs
    \<and> (mo_pending s = [] \<or> length (mo_pending s) < unat (mc_batch_size config))
    \<and> st_txs_received (mo_stats s) = of_nat (length (read_texts evs))
    \<and> st_txs_parsed (mo_stats s) = of_nat (length (mo_sent s))
    \<and> (mo_running s \<longrightarrow> (\<forall>tsc ns. \<exists>s'. monitor_turn hx config (Tick tsc ns) s = Inr s'
          \<and> mo_pending s' = [] \<and> map mt_hash (mo_sent s') = read_hashes hx evs))
    \<and> (\<not> mo_running s \<longrightarrow> (\<forall>evs'. monitor_run hx config evs' s = Inr s))"
proof -
  have "batch_inv hx config [] monitor_start"
    by (simp add: batch_inv_def monitor_start_def MempoolStats_default_def)
  then have inv: "batch_inv hx config (read_texts evs) s"
    using monitor_run_inv [of hx config "[]" monitor_start evs s] assms by (simp add: monitor_start_def)
  then have "\<exists>s'. monitor_turn hx config (Tick tsc ns) s = Inr s' \<and> mo_pending s' = []
      \<and> map mt_hash (mo_sent s') = read_hashes hx evs" if "mo_running s" for tsc ns
    using that by (auto simp: monitor_turn_def flush_defs batch_inv_def map_hash_tx read_hashes_def)
  with inv show ?thesis
    by (auto simp: batch_inv_def read_hashes_def monitor_run_stopped)
qed

theorem monitor_batching_witness:
  "\<exists>s. monitor_run hex_std MempoolConfig_default [Received (WsText ''x'') 1 2, Received WsOther 3 4, StopCalled] monitor_start = Inr s
    \<and> map mt_hash (mo_sent s) @ mo_pending s = [] \<and> st_txs_received (mo_stats s) = 1"
proof -
  let ?evs = "[Received (WsText ''x'') 1 2, Received WsOther 3 4, StopCalled]"
  have x: "extract_tx_hash_fast hex_std ''x'' = Inr None"
    by (simp add: extract_tx_hash_fast_def RESULT_PATTERN_def)
  obtain s where s: "monitor_run hex_std MempoolConfig_default ?evs monitor_start = Inr s"
    by (simp add: monitor_turn_def on_text_def x monitor_start_def)
  have "read_texts ?evs = [''x'']"
    by (simp add: read_texts_def stops_def)
  then show ?thesis
    using monitor_batching [OF s] s by (auto simp: read_hashes_def hash_of_def x)
qed

section \<open>The enhanced monitor's parser\<close>

context u256_laws
begin

text \<open>What the path reader returns at an offset and a length that are in range.\<close>

lemma path_tokens_at:
  assumes len: "pos + 32 \<le> length data" "length data < 2 ^ 63"
    and off: "be_val (sub_bytes pos (pos + 32) data) = off" "off + 36 \<le> length data"
    and n: "be_val (take 32 (drop (off + 4) data)) = n" "2 \<le> n" "off + 36 + 32 * n \<le> length data"
  shows "path_tokens ux data pos =
    Inr (Some (from_be (take 20 (drop (off + 48) data)), from_be (take 20 (drop (off + 80) data))))"
proof -
  have u: "unat (of_nat k :: usize) = k" if "k \<le> length data" for k
    using that len by (intro unat_word_of_nat_small) simp
  have read: "ux_as_usize ux (ux_from_big_endian ux bs) = Inr (of_nat k)"
    if "length bs = 32" "be_val bs = k" "k \<le> length data" for bs k
  proof -
    have "unat (from_be bs :: u256) = k"
      using that len(2) by (subst unat_from_be) simp_all
    then show ?thesis
      using that u [of k] by (simp add: as_usize_Inr_iff from_be_law)
  qed
  have sl: "slice data (of_nat k) (of_nat (k + m)) = Inr (take m (drop k data))" if "k + m \<le> length data" for k m
    using that len slice_of_nat [of data k "k + m"] by simp
  have s: "slice data (of_nat (off + 4)) (of_nat (off + 36)) = Inr (take 32 (drop (off + 4) data))"
    "slice data (of_nat (off + 48)) (of_nat (off + 68)) = Inr (take 20 (drop (off + 48) data))"
    "slice data (of_nat (off + 80)) (of_nat (off + 100)) = Inr (take 20 (drop (off + 80) data))"
    using off(2) n(2,3) sl [of "off + 4" 32] sl [of "off + 48" 20] sl [of "off + 80" 20]
    by (simp_all only: add.assoc) (simp_all del: of_nat_add)
  have e: "(of_nat off :: usize) + 4 = of_nat (off + 4)" "(of_nat (off + 4) :: usize) + 32 = of_nat (off + 36)"
    "(of_nat (off + 4) :: usize) + 64 = of_nat (off + 68)" "(of_nat (off + 36) :: usize) + 12 = of_nat (off + 48)"
    "(of_nat (off + 36) :: usize) + 32 = of_nat (off + 68)" "(of_nat (off + 68) :: usize) + 12 = of_nat (off + 80)"
    "(of_nat (off + 68) :: usize) + 32 = of_nat (off + 100)"
    "(of_nat (off + 36) :: usize) + of_nat n * 32 = of_nat (off + 36 + 32 * n)"
    by simp_all
  have g: "\<not> length data < unat (of_nat (off + 36) :: usize)"
    "\<not> length data < unat (of_nat (off + 36 + 32 * n) :: usize)" "\<not> (of_nat n :: usize) < 2"
    using off n u [of "off + 36"] u [of "off + 36 + 32 * n"] u [of n] by (simp_all only: word_less_nat_alt) simp_all
  have r: "ux_as_usize ux (ux_from_big_endian ux (sub_bytes pos (pos + 32) data)) = Inr (of_nat off)"
    "ux_as_usize ux (ux_from_big_endian ux (take 32 (drop (off + 4) data))) = Inr (of_nat n)"
    using len off n by (intro read; simp)+
  show ?thesis
    by (simp only: path_tokens_def Let_def r e s g bindE_simps if_False simp_thms)
qed

text \<open>An offset that does not fit \<^verbatim>\<open>usize\<close>.\<close>

lemma path_tokens_overflow:
  assumes "pos + 32 \<le> length data" "2 ^ 64 \<le> be_val (sub_bytes pos (pos + 32) data)"
  shows "path_tokens ux data pos = Inl IntegerCast"
proof -
  have "unat (from_be (sub_bytes pos (pos + 32) data) :: u256) = be_val (sub_bytes pos (pos + 32) data)"
    using assms(1) by (subst unat_from_be) simp_all
  then show ?thesis
    using assms by (simp add: path_tokens_def from_be_law as_usize_law)
qed

end

text \<open>One transaction can stop the enhanced monitor. For every V2 call of at least 164 bytes whose path offset is
  \<open>2^64\<close> or more, which any sender can put into the mempool, the transaction is classified as a
  likely swap and its decoding panics in \<^verbatim>\<open>as_usize\<close>.\<close>

theorem parse_swap_fast_crash:
  assumes "u256_laws ux" "164 \<le> length (et_input tx)"
    and "take 4 (et_input tx) = [0x38, 0xed, 0x17, 0x39] \<or> take 4 (et_input tx) = [0x18, 0xcb, 0xaf, 0xe5]"
    and "2 ^ 64 \<le> be_val (sub_bytes 68 100 (et_input tx))"
  shows "is_likely_swap tx \<and> parse_swap_fast ux tx = Inl IntegerCast \<and> enhanced_tx ux tsc ns tx = Inl IntegerCast"
proof -
  have "path_tokens ux (et_input tx) 68 = Inl IntegerCast"
    using u256_laws.path_tokens_overflow [OF assms(1), of 68 "et_input tx"] assms(2,4) by simp
  then have "parse_swap_fast ux tx = Inl IntegerCast"
    using assms(2,3) by (auto simp: parse_swap_fast_def Let_def)
  moreover have "is_likely_swap tx"
    using assms(2,3) by (auto simp: is_likely_swap_def)
  ultimately show ?thesis
    by (simp add: enhanced_tx_def)
qed

definition crash_tx :: EthTransaction where
  "crash_tx = EthTransaction_default\<lparr>et_input := [0x38, 0xed, 0x17, 0x39] @ replicate 64 0 @ (255 # replicate 31 0) @ replicate 64 0\<rparr>"

theorem parse_swap_fast_crash_witness: "enhanced_tx u256_std 1 2 crash_tx = Inl IntegerCast"
proof -
  have "sub_bytes 68 100 (et_input crash_tx) = 255 # replicate 31 0"
    by (simp add: crash_tx_def sub_bytes_def)
  then have "2 ^ 64 \<le> be_val (sub_bytes 68 100 (et_input crash_tx))"
    by simp
  then show ?thesis
    using parse_swap_fast_crash [OF std_u256.u256_laws_axioms, of crash_tx 1 2] by (simp add: crash_tx_def)
qed

lemma be_val_abi_word: "LENGTH('a) \<le> 256 \<Longrightarrow> be_val (abi_word (w :: 'a::len word)) = unat w"
proof -
  assume "LENGTH('a) \<le> 256"
  then have "(2 :: nat) ^ LENGTH('a) \<le> 2 ^ 256"
    by (rule power_increasing) simp
  then have "unat w < 2 ^ 256"
    using unat_bound [of w] by (rule less_le_trans [rotated])
  then have "unat (ucast w :: bytes32) = unat w"
    by (simp add: unsigned_ucast_eq take_bit_eq_mod)
  then show ?thesis
    using unat_bound [of "ucast w :: bytes32"] by (simp add: abi_word_def be_val_to_be)
qed

lemma parse_swap_fast_tokens:
  assumes "take 4 (et_input tx) \<in> {[0x38, 0xed, 0x17, 0x39], [0x18, 0xcb, 0xaf, 0xe5]}" "164 \<le> length (et_input tx)"
  shows "parse_swap_fast ux tx = bindE (path_tokens ux (et_input tx) 68) (\<lambda>r.
    Inr (map_option (v2_info (ux_from_big_endian ux (sub_bytes 4 36 (et_input tx)))
      (ux_from_big_endian ux (sub_bytes 36 68 (et_input tx)))) r))"
  using assms by (auto simp: parse_swap_fast_def Let_def)

lemma parse_swap_tokens:
  assumes "take 4 (tx_input tx) \<in> {[0x38, 0xed, 0x17, 0x39], [0x18, 0xcb, 0xaf, 0xe5]}" "164 \<le> length (tx_input tx)"
  shows "parse_swap hx tx = parse_v2_swap hx (tx_input tx) False"
  using assms by (auto simp: parse_swap_def Let_def)

lemma from_be_to_be_address: "from_be (to_be 20 (a :: address)) = a"
  by (simp add: codec_simps)

lemma path_tokens_abi:
  assumes "u256_laws ux" "length sel = 4" "2 \<le> length path" "length path < 2 ^ 32"
  shows "path_tokens ux (abi_v2_swap sel a b path to deadline) 68 = Inr (Some (path ! 0, path ! 1))"
proof -
  let ?d = "abi_v2_swap sel a b path to deadline" and ?n = "length path"
  have len: "length ?d = 196 + 32 * ?n"
    using assms by (simp add: abi_v2_swap_def)
  have words: "sub_bytes 68 (68 + 32) ?d = abi_word (160 :: u64)" "take 32 (drop (160 + 4) ?d) = abi_word (of_nat ?n :: u64)"
    using assms(2) by (simp_all add: abi_v2_swap_def sub_bytes_def)
  have "drop (196 + k) ?d = drop k (concat (map abi_word path))" for k
    using assms(2) by (simp add: abi_v2_swap_def)
  note drop_d = this [of 12] this [of "32 + 12"]
  have ne: "0 < length path" "1 < length path"
    using assms(3) by linarith+
  from drop_d have tokens: "take 20 (drop (160 + 48) ?d) = to_be 20 (path ! 0)" "take 20 (drop (160 + 80) ?d) = to_be 20 (path ! 1)"
    using concat_words_addr [OF ne(1)] concat_words_addr [OF ne(2)] by simp_all
  have n: "unat (of_nat ?n :: u64) = ?n"
    using assms(4) by (intro unat_word_of_nat_small) simp
  have vals: "be_val (sub_bytes 68 (68 + 32) ?d) = 160" "be_val (take 32 (drop (160 + 4) ?d)) = ?n"
    unfolding words by (simp_all add: be_val_abi_word n)
  have "path_tokens ux ?d 68 = Inr (Some (from_be (to_be 20 (path ! 0)), from_be (to_be 20 (path ! 1))))"
    unfolding tokens [symmetric]
    by (rule u256_laws.path_tokens_at [OF assms(1) _ _ vals(1) _ vals(2) assms(3)]) (use len assms(3,4) in simp_all)
  then show ?thesis
    by (simp only: from_be_to_be_address)
qed

text \<open>Monitor and detector read the same call. For a router call that swaps an exact amount along a path of at
  least two tokens, both parsers return a swap with the same input token and amounts. The output
  tokens agree exactly when the second token of the path is its last: for longer paths the monitor
  reports the first intermediate token.\<close>

theorem monitor_detector_agree:
  assumes "u256_laws ux" "hex_codec hx" "2 \<le> length path" "length path < 2 ^ 32"
    and "sel = [0x38, 0xed, 0x17, 0x39] \<or> sel = [0x18, 0xcb, 0xaf, 0xe5]"
    and "et_input et = abi_v2_swap sel a b path to deadline" "tx_input tx = et_input et"
  shows "\<exists>m s. parse_swap_fast ux et = Inr (Some m) \<and> parse_swap hx tx = Inr (Some s)
    \<and> ms_token_in m = hd path \<and> ms_token_out m = path ! 1
    \<and> si_token_in s = hex_0x hx (to_be 20 (ms_token_in m))
    \<and> unat (ms_amount_in m) = unat (si_amount_in s) \<and> unat (ms_min_amount_out m) = unat (si_amount_out_min s)
    \<and> (si_token_out s = hex_0x hx (to_be 20 (ms_token_out m)) \<longleftrightarrow> path ! 1 = last path)"
proof -
  have sel: "length sel = 4"
    using assms(5) by auto
  let ?d = "abi_v2_swap sel a b path to deadline"
  have d: "take 4 ?d = sel" "length ?d = 196 + 32 * length path"
    "sub_bytes 4 36 ?d = abi_word a" "sub_bytes 36 68 ?d = abi_word b"
    using sel by (simp_all add: abi_v2_swap_def sub_bytes_def)
  have be: "ux_from_big_endian ux (abi_word w) = ucast w" for w :: u128
    using u256_laws.from_be_law [OF assms(1), of "abi_word w"] by (simp add: abi_word_def codec_simps)
  have t: "take 4 (et_input et) \<in> {[0x38, 0xed, 0x17, 0x39], [0x18, 0xcb, 0xaf, 0xe5]}" "164 \<le> length (et_input et)"
    using assms(5) unfolding assms(6) d(1,2) by auto
  from parse_swap_fast_tokens [OF t, of ux]
  have mon: "parse_swap_fast ux et = Inr (Some (v2_info (ucast a) (ucast b) (path ! 0, path ! 1)))"
    by (simp only: assms(6) path_tokens_abi [OF assms(1) sel assms(3,4)] d(3,4) be bindE_simps option.map)
  from t have det: "parse_swap hx tx = parse_v2_swap hx ?d False"
    using parse_swap_tokens [of tx hx] by (simp only: assms(6,7))
  have "to_be 20 (path ! 1) = to_be 20 (last path) \<longleftrightarrow> path ! 1 = last path"
    by (metis from_be_to_be_address)
  then have out: "hex_0x hx (to_be 20 (last path)) = hex_0x hx (to_be 20 (path ! 1)) \<longleftrightarrow> path ! 1 = last path"
    using hex_codec.encode_inj [OF assms(2)] by (auto simp: hex_0x_def)
  have "path ! 0 = hd path"
    using assms(3) by (cases path) simp_all
  moreover have "unat (ucast w :: u256) = unat w" for w :: u128
    using unat_bound [of w] by (simp add: unsigned_ucast_eq take_bit_eq_mod)
  ultimately show ?thesis
    using out by (simp add: mon det parse_v2_abi [OF sel assms(3,4)] v2_info_def)
qed

definition monitor_sample :: EthTransaction where
  "monitor_sample = EthTransaction_default\<lparr>et_input := abi_v2_swap [0x38, 0xed, 0x17, 0x39] 500 700 [3, 4, 5] 9 10\<rparr>"

theorem monitor_detector_agree_witness:
  "\<exists>m s. parse_swap_fast u256_std monitor_sample = Inr (Some m)
    \<and> parse_swap hex_std (sample_tx_with (et_input monitor_sample)) = Inr (Some s)
    \<and> si_token_out s \<noteq> hex_0x hex_std (to_be 20 (ms_token_out m))"
proof -
  have "et_input monitor_sample = abi_v2_swap [0x38, 0xed, 0x17, 0x39] 500 700 [3, 4, 5] 9 10"
    by (simp add: monitor_sample_def)
  from monitor_detector_agree [OF std_u256.u256_laws_axioms std_hex.hex_codec_axioms _ _ disjI1 [OF refl] this,
      of "sample_tx_with (et_input monitor_sample)"]
  show ?thesis
    by (auto simp: sample_tx_with_def)
qed

end
