(* ===== verification/Threaded_Detector.thy ===== *)
theory Threaded_Detector
  imports Mempool_Monitor F64 Amm_Math "HOL-Library.Multiset"
begin

text \<open>
  The multi-threaded detector (\<^verbatim>\<open>core/src/detector/multi_threaded.rs\<close>): the pool tables with their token
  index, the path search a worker runs for every swap, and the dispatcher and worker threads as a
  step relation. A worker's search for one transaction reads one state of the tables; the clocks
  it reads are parameters. Thread pinning and logging are left out.
\<close>

section \<open>Data\<close>

datatype MtDexType = MtUniswapV2 | MtUniswapV3 | MtSushiSwap | MtCamelot | MtCurve | MtBalancer

record PathStep =
  ps_pool :: address
  ps_token_in :: address
  ps_token_out :: address
  ps_amount_in :: u256
  ps_expected_out :: u256
  ps_dex_type :: MtDexType

record MtOpportunity =
  mo_id :: u64
  mo_detected_tsc :: u64
  mo_detected_ns :: u64
  mo_trigger_tx :: bytes32
  mo_path :: "PathStep list"
  mo_profit_wei :: u256
  mo_gas_estimate :: u256
  mo_net_profit_wei :: u256
  mo_confidence :: f64
  mo_expires_block :: u64

record MtPool =
  mp_address :: address
  mp_token0 :: address
  mp_token1 :: address
  mp_reserve0 :: u256
  mp_reserve1 :: u256
  mp_fee :: u32
  mp_dex_type :: MtDexType
  mp_last_update :: u64

record MtConfig =
  dc_num_workers :: usize
  dc_min_profit_wei :: u256
  dc_max_hops :: usize
  dc_gas_price :: u256
  dc_batch_size :: usize

text \<open>The number of workers of the default configuration depends on the number of processors.\<close>

definition MtConfig_default :: "usize \<Rightarrow> MtConfig" where
  "MtConfig_default cpus =
    \<lparr>dc_num_workers = max (saturating_sub cpus 2) 2, dc_min_profit_wei = 1000000000000000, dc_max_hops = 3,
     dc_gas_price = 100000000, dc_batch_size = 64\<rparr>"

record MtStats =
  ds_txs_processed :: u64
  ds_opportunities_found :: u64
  ds_avg_detection_ns :: u64
  ds_profitable_count :: u64

definition MtStats_default :: MtStats where
  "MtStats_default =
    \<lparr>ds_txs_processed = 0, ds_opportunities_found = 0, ds_avg_detection_ns = 0, ds_profitable_count = 0\<rparr>"

record MtTables =
  tb_pools :: "address \<rightharpoonup> MtPool"
  tb_token_to_pools :: "address \<rightharpoonup> address list"

definition tables_new :: MtTables where
  "tables_new = \<lparr>tb_pools = Map.empty, tb_token_to_pools = Map.empty\<rparr>"

section \<open>The tables\<close>

definition index_token :: "address \<Rightarrow> address \<Rightarrow> (address \<rightharpoonup> address list) \<Rightarrow> (address \<rightharpoonup> address list)" where
  "index_token token pool_addr ix =
    ix(token \<mapsto> (case ix token of Some as \<Rightarrow> as | None \<Rightarrow> []) @ [pool_addr])"

definition mt_load_pool :: "MtTables \<Rightarrow> MtPool \<Rightarrow> MtTables" where
  "mt_load_pool t p =
    \<lparr>tb_pools = (tb_pools t)(mp_address p \<mapsto> p),
     tb_token_to_pools = index_token (mp_token1 p) (mp_address p)
       (index_token (mp_token0 p) (mp_address p) (tb_token_to_pools t))\<rparr>"

definition mt_load_pools :: "MtTables \<Rightarrow> MtPool list \<Rightarrow> MtTables" where
  "mt_load_pools t pools = foldl mt_load_pool t pools"

definition update_mt_pool :: "u64 \<Rightarrow> MtTables \<Rightarrow> address \<Rightarrow> u256 \<Rightarrow> u256 \<Rightarrow> MtTables" where
  "update_mt_pool tsc t addr reserve0 reserve1 =
    (case tb_pools t addr of
       None \<Rightarrow> t
     | Some p \<Rightarrow> t\<lparr>tb_pools := (tb_pools t)(addr \<mapsto>
         p\<lparr>mp_reserve0 := reserve0, mp_reserve1 := reserve1, mp_last_update := tsc\<rparr>)\<rparr>)"

section \<open>The search\<close>

definition simulate_swap_out :: "u256crate \<Rightarrow> u256 \<Rightarrow> address \<Rightarrow> address \<Rightarrow> MtPool \<Rightarrow> u256 option exec" where
  "simulate_swap_out ux amount_in token_in token_out p =
    (let (reserve_in, reserve_out) =
           (if mp_token0 p = token_in then (mp_reserve0 p, mp_reserve1 p) else (mp_reserve1 p, mp_reserve0 p))
     in if reserve_in = 0 \<or> reserve_out = 0 then Inr None
        else let fee_factor = 10000 - mp_fee p in
          bindE (ux_mul ux amount_in (ucast fee_factor)) (\<lambda>amount_in_with_fee.
          bindE (ux_mul ux amount_in_with_fee reserve_out) (\<lambda>numerator.
          bindE (ux_mul ux reserve_in 10000) (\<lambda>r.
          bindE (ux_add ux r amount_in_with_fee) (\<lambda>denominator.
          bindE (ux_div ux numerator denominator) (\<lambda>q. Inr (Some q)))))))"

text \<open>\<^verbatim>\<open>?\<close> on an optional result.\<close>

definition try_some :: "'a option exec \<Rightarrow> ('a \<Rightarrow> 'b option exec) \<Rightarrow> 'b option exec" where
  "try_some m f = bindE m (\<lambda>r. case r of None \<Rightarrow> Inr None | Some x \<Rightarrow> f x)"

text \<open>The double nearest to 0.8.\<close>

definition f64_0_8 :: f64 where
  "f64_0_8 = (7205759403792794, -53)"

definition calculate_2hop_profit ::
  "u256crate \<Rightarrow> u64 \<Rightarrow> MtConfig \<Rightarrow> MonSwapInfo \<Rightarrow> MtPool \<Rightarrow> MtPool \<Rightarrow> MtOpportunity option exec" where
  "calculate_2hop_profit ux now_ns config swap pool1 pool2 =
    try_some (simulate_swap_out ux (ms_amount_in swap) (ms_token_in swap) (ms_token_out swap) pool1) (\<lambda>target_out.
    let intermediate = (if mp_token0 pool1 = ms_token_out swap then mp_token1 pool1 else mp_token0 pool1) in
    bindE (ux_div ux target_out 10) (\<lambda>input_amount.
    try_some (simulate_swap_out ux input_amount (ms_token_out swap) intermediate pool1) (\<lambda>step1_out.
    try_some (simulate_swap_out ux step1_out intermediate (ms_token_in swap) pool2) (\<lambda>step2_out.
    if step2_out \<le> input_amount then Inr None
    else bindE (ux_sub ux step2_out input_amount) (\<lambda>gross_profit.
      bindE (ux_mul ux (dc_gas_price config) 200000) (\<lambda>gas_cost.
      if gross_profit \<le> gas_cost then Inr None
      else bindE (ux_sub ux gross_profit gas_cost) (\<lambda>net_profit.
        Inr (Some
          \<lparr>mo_id = 0, mo_detected_tsc = 0, mo_detected_ns = now_ns, mo_trigger_tx = 0,
           mo_path =
             [\<lparr>ps_pool = mp_address pool1, ps_token_in = ms_token_out swap, ps_token_out = intermediate,
               ps_amount_in = input_amount, ps_expected_out = step1_out, ps_dex_type = mp_dex_type pool1\<rparr>,
              \<lparr>ps_pool = mp_address pool2, ps_token_in = intermediate, ps_token_out = ms_token_in swap,
               ps_amount_in = step1_out, ps_expected_out = step2_out, ps_dex_type = mp_dex_type pool2\<rparr>],
           mo_profit_wei = gross_profit, mo_gas_estimate = 200000, mo_net_profit_wei = net_profit,
           mo_confidence = f64_0_8, mo_expires_block = 0\<rparr>))))))))"

text \<open>A loop that pushes what its body finds.\<close>

fun collect_each :: "('a \<Rightarrow> 'b list exec) \<Rightarrow> 'a list \<Rightarrow> 'b list exec" where
  "collect_each f [] = Inr []"
| "collect_each f (x # xs) = bindE (f x) (\<lambda>ys. bindE (collect_each f xs) (\<lambda>zs. Inr (ys @ zs)))"

definition other_token :: "MtPool \<Rightarrow> address \<Rightarrow> address option" where
  "other_token p token =
    (if mp_token0 p = token then Some (mp_token1 p) else if mp_token1 p = token then Some (mp_token0 p) else None)"

definition return_hop ::
  "u256crate \<Rightarrow> u64 \<Rightarrow> MtConfig \<Rightarrow> MtTables \<Rightarrow> MonSwapInfo \<Rightarrow> MtPool \<Rightarrow> address \<Rightarrow> MtOpportunity list exec" where
  "return_hop ux now_ns config t swap pool1 pool2_addr =
    (case tb_pools t pool2_addr of
       None \<Rightarrow> Inr []
     | Some pool2 \<Rightarrow>
         if mp_token0 pool2 = ms_token_in swap \<or> mp_token1 pool2 = ms_token_in swap then
           bindE (calculate_2hop_profit ux now_ns config swap pool1 pool2) (\<lambda>r.
           Inr (case r of Some opp \<Rightarrow> [opp] | None \<Rightarrow> []))
         else Inr [])"

definition first_hop ::
  "u256crate \<Rightarrow> u64 \<Rightarrow> MtConfig \<Rightarrow> MtTables \<Rightarrow> MonSwapInfo \<Rightarrow> address \<Rightarrow> MtOpportunity list exec" where
  "first_hop ux now_ns config t swap pool1_addr =
    (case tb_pools t pool1_addr of
       None \<Rightarrow> Inr []
     | Some pool1 \<Rightarrow>
         (case other_token pool1 (ms_token_out swap) of
            None \<Rightarrow> Inr []
          | Some intermediate \<Rightarrow>
              (case tb_token_to_pools t intermediate of
                 None \<Rightarrow> Inr []
               | Some return_pools \<Rightarrow> collect_each (return_hop ux now_ns config t swap pool1) return_pools)))"

definition find_arbitrage_paths ::
  "u256crate \<Rightarrow> u64 \<Rightarrow> MtConfig \<Rightarrow> MtTables \<Rightarrow> MonSwapInfo \<Rightarrow> MtOpportunity list option exec" where
  "find_arbitrage_paths ux now_ns config t swap =
    (case tb_token_to_pools t (ms_token_out swap) of
       None \<Rightarrow> Inr None
     | Some output_pools \<Rightarrow>
         bindE (collect_each (first_hop ux now_ns config t swap) output_pools) (\<lambda>opportunities.
         Inr (if opportunities = [] then None else Some opportunities)))"

section \<open>A worker's turn\<close>

fun number_opps :: "u64 \<Rightarrow> bytes32 \<Rightarrow> u64 \<Rightarrow> MtOpportunity list \<Rightarrow> MtOpportunity list" where
  "number_opps tsc hash opp_id [] = []"
| "number_opps tsc hash opp_id (opp # opps) =
    opp\<lparr>mo_id := opp_id, mo_trigger_tx := hash, mo_detected_tsc := tsc\<rparr> # number_opps tsc hash (opp_id + 1) opps"

definition found_opps :: "u256crate \<Rightarrow> u64 \<Rightarrow> MtConfig \<Rightarrow> MtTables \<Rightarrow> MempoolTx \<Rightarrow> MtOpportunity list exec" where
  "found_opps ux now_ns config t tx =
    (if \<not> mt_is_swap tx then Inr []
     else case mt_swap_info tx of
       None \<Rightarrow> Inr []
     | Some swap \<Rightarrow>
         bindE (find_arbitrage_paths ux now_ns config t swap) (\<lambda>r.
         Inr (case r of Some opps \<Rightarrow> opps | None \<Rightarrow> [])))"

text \<open>One transaction of a batch: the opportunities sent and the next identifier.\<close>

definition work_on ::
  "u256crate \<Rightarrow> u64 \<Rightarrow> u64 \<Rightarrow> MtConfig \<Rightarrow> MtTables \<Rightarrow> MempoolTx \<Rightarrow> u64 \<Rightarrow> (MtOpportunity list \<times> u64) exec" where
  "work_on ux tsc now_ns config t tx opp_id =
    bindE (found_opps ux now_ns config t tx) (\<lambda>opps.
    let numbered = number_opps tsc (mt_hash tx) opp_id opps in
    Inr (filter (\<lambda>opp. dc_min_profit_wei config \<le> mo_net_profit_wei opp) numbered, opp_id + of_nat (length opps)))"

section \<open>The threads\<close>

datatype worker_phase = Idle | Collecting "MempoolTx list" | Working "MempoolTx list"

record worker =
  wk_phase :: worker_phase
  wk_opp_id :: u64
  wk_numbered :: nat

text \<open>The state of all threads. \<open>mt_arrived\<close>, \<open>mt_done\<close>, \<open>wk_numbered\<close> and the worker in \<open>mt_sent\<close> only record
  what has happened. The dispatcher's \<^verbatim>\<open>send\<close> waits while the bounded work channel is full: it then holds the
  transaction it has taken (\<open>mt_holding\<close>).\<close>

record mt_state =
  mt_running :: bool
  mt_tables :: MtTables
  mt_incoming :: "MempoolTx list"
  mt_holding :: "MempoolTx option"
  mt_work :: "MempoolTx list"
  mt_workers :: "worker list"
  mt_sent :: "(nat \<times> MtOpportunity) list"
  mt_stats :: MtStats
  mt_arrived :: "MempoolTx list"
  mt_done :: "MempoolTx list"

definition mt_start :: "MtConfig \<Rightarrow> MtTables \<Rightarrow> mt_state" where
  "mt_start config t =
    \<lparr>mt_running = True, mt_tables = t, mt_incoming = [], mt_holding = None, mt_work = [],
     mt_workers = map (\<lambda>i. \<lparr>wk_phase = Idle, wk_opp_id = of_nat i * 1000000, wk_numbered = 0\<rparr>) [0..<unat (dc_num_workers config)],
     mt_sent = [], mt_stats = MtStats_default, mt_arrived = [], mt_done = []\<rparr>"

definition set_phase :: "nat \<Rightarrow> worker_phase \<Rightarrow> mt_state \<Rightarrow> mt_state" where
  "set_phase i ph s = s\<lparr>mt_workers := (mt_workers s)[i := (mt_workers s ! i)\<lparr>wk_phase := ph\<rparr>]\<rparr>"

definition finish_tx :: "nat \<Rightarrow> MempoolTx \<Rightarrow> MempoolTx list \<Rightarrow> MtOpportunity list \<Rightarrow> u64 \<Rightarrow> nat \<Rightarrow> mt_state \<Rightarrow> mt_state" where
  "finish_tx i tx rest sent next_id n s =
    s\<lparr>mt_workers := (mt_workers s)[i := \<lparr>wk_phase = Working rest, wk_opp_id = next_id, wk_numbered = n\<rparr>],
      mt_sent := mt_sent s @ map (Pair i) sent,
      mt_stats := (mt_stats s)\<lparr>
        ds_opportunities_found := ds_opportunities_found (mt_stats s) + (if mt_is_swap tx then 1 else 0),
        ds_profitable_count := ds_profitable_count (mt_stats s) + of_nat (length sent)\<rparr>,
      mt_done := mt_done s @ [tx]\<rparr>"

inductive mt_step :: "u256crate \<Rightarrow> MtConfig \<Rightarrow> mt_state \<Rightarrow> mt_state \<Rightarrow> bool" for ux config where
  arrive: "mt_step ux config s (s\<lparr>mt_incoming := mt_incoming s @ [tx], mt_arrived := mt_arrived s @ [tx]\<rparr>)"
| stop: "mt_step ux config s (s\<lparr>mt_running := False\<rparr>)"
| update: "mt_step ux config s (s\<lparr>mt_tables := update_mt_pool tsc (mt_tables s) a r0 r1\<rparr>)"
| take_tx: "mt_running s \<Longrightarrow> mt_holding s = None \<Longrightarrow> mt_incoming s = tx # txs \<Longrightarrow>
    mt_step ux config s (s\<lparr>mt_incoming := txs, mt_holding := Some tx,
      mt_stats := (mt_stats s)\<lparr>ds_txs_processed := ds_txs_processed (mt_stats s) + 1\<rparr>\<rparr>)"
| put_tx: "mt_holding s = Some tx \<Longrightarrow> length (mt_work s) < 10000 \<Longrightarrow>
    mt_step ux config s (s\<lparr>mt_holding := None, mt_work := mt_work s @ [tx]\<rparr>)"
| begin_batch: "mt_running s \<Longrightarrow> i < length (mt_workers s) \<Longrightarrow> wk_phase (mt_workers s ! i) = Idle \<Longrightarrow>
    mt_step ux config s (set_phase i (Collecting []) s)"
| receive: "i < length (mt_workers s) \<Longrightarrow> wk_phase (mt_workers s ! i) = Collecting b \<Longrightarrow>
    length b < unat (dc_batch_size config) \<Longrightarrow> mt_work s = tx # txs \<Longrightarrow>
    mt_step ux config s (set_phase i (Collecting (b @ [tx])) (s\<lparr>mt_work := txs\<rparr>))"
| end_batch: "i < length (mt_workers s) \<Longrightarrow> wk_phase (mt_workers s ! i) = Collecting b \<Longrightarrow>
    unat (dc_batch_size config) \<le> length b \<or> mt_work s = [] \<Longrightarrow>
    mt_step ux config s (set_phase i (Working b) s)"
| process: "i < length (mt_workers s) \<Longrightarrow> wk_phase (mt_workers s ! i) = Working (tx # txs) \<Longrightarrow>
    found_opps ux now_ns config (mt_tables s) tx = Inr opps \<Longrightarrow>
    work_on ux tsc now_ns config (mt_tables s) tx (wk_opp_id (mt_workers s ! i)) = Inr (sent, next_id) \<Longrightarrow>
    mt_step ux config s (finish_tx i tx txs sent next_id (wk_numbered (mt_workers s ! i) + length opps) s)"
| finish: "i < length (mt_workers s) \<Longrightarrow> wk_phase (mt_workers s ! i) = Working [] \<Longrightarrow>
    mt_step ux config s (set_phase i Idle s)"

inductive mt_reachable :: "u256crate \<Rightarrow> MtConfig \<Rightarrow> mt_state \<Rightarrow> bool" for ux config where
  start: "mt_reachable ux config (mt_start config t)"
| step: "mt_reachable ux config s \<Longrightarrow> mt_step ux config s s' \<Longrightarrow> mt_reachable ux config s'"

section \<open>The token index\<close>

definition indexed :: "MtTables \<Rightarrow> address \<Rightarrow> address set" where
  "indexed t token = (case tb_token_to_pools t token of Some as \<Rightarrow> set as | None \<Rightarrow> {})"

definition tables_wf :: "MtTables \<Rightarrow> bool" where
  "tables_wf t \<longleftrightarrow>
    (\<forall>a p. tb_pools t a = Some p \<longrightarrow> mp_address p = a \<and> a \<in> indexed t (mp_token0 p) \<and> a \<in> indexed t (mp_token1 p))
    \<and> (\<forall>token. indexed t token \<subseteq> dom (tb_pools t))"

datatype table_op = LoadPools "MtPool list" | UpdatePool u64 address u256 u256

fun table_turn :: "MtTables \<Rightarrow> table_op \<Rightarrow> MtTables" where
  "table_turn t (LoadPools pools) = mt_load_pools t pools"
| "table_turn t (UpdatePool tsc a r0 r1) = update_mt_pool tsc t a r0 r1"

lemma indexed_load_pool:
  "indexed (mt_load_pool t p) token =
    indexed t token \<union> (if token = mp_token0 p \<or> token = mp_token1 p then {mp_address p} else {})"
  by (auto simp: indexed_def mt_load_pool_def index_token_def split: option.splits)

lemma load_pool_wf: "tables_wf t \<Longrightarrow> tables_wf (mt_load_pool t p)"
  unfolding tables_wf_def indexed_load_pool
  by (auto simp: mt_load_pool_def dom_def split: if_splits)

lemma load_pools_wf: "tables_wf t \<Longrightarrow> tables_wf (mt_load_pools t pools)"
  unfolding mt_load_pools_def by (induction pools arbitrary: t) (simp_all add: load_pool_wf)

lemma indexed_update [simp]: "indexed (update_mt_pool tsc t a r0 r1) token = indexed t token"
  by (simp add: indexed_def update_mt_pool_def split: option.split)

lemma update_mt_pool_wf: "tables_wf t \<Longrightarrow> tables_wf (update_mt_pool tsc t a r0 r1)"
proof (cases "tb_pools t a")
  case None
  then show "tables_wf t \<Longrightarrow> ?thesis" by (simp add: update_mt_pool_def)
next
  case (Some p)
  assume "tables_wf t"
  then show ?thesis
    unfolding tables_wf_def indexed_update
    using Some by (auto simp: update_mt_pool_def split: if_splits)
qed

lemma tables_wf_new: "tables_wf tables_new"
  by (simp add: tables_wf_def tables_new_def indexed_def)

text \<open>The token index is complete and has no dangling entries. After any sequence of loads and reserve updates,
  every stored pool is stored under its own address and found under both of its tokens, and every
  indexed address belongs to a stored pool.\<close>

theorem token_index_complete:
  fixes ops :: "table_op list"
  defines "t \<equiv> foldl table_turn tables_new ops"
  shows "(\<forall>a p. tb_pools t a = Some p \<longrightarrow> mp_address p = a \<and> a \<in> indexed t (mp_token0 p) \<and> a \<in> indexed t (mp_token1 p))
    \<and> (\<forall>token. indexed t token \<subseteq> dom (tb_pools t))"
proof -
  have "tables_wf (table_turn t op)" if "tables_wf t" for t op
    using that by (cases op) (simp_all add: load_pools_wf update_mt_pool_wf)
  then have "tables_wf (foldl table_turn t ops)" if "tables_wf t" for t
    using that by (induction ops arbitrary: t) simp_all
  then show ?thesis
    using tables_wf_new unfolding t_def tables_wf_def [symmetric] by blast
qed

definition sample_mt_pool :: "address \<Rightarrow> address \<Rightarrow> address \<Rightarrow> u256 \<Rightarrow> u256 \<Rightarrow> MtPool" where
  "sample_mt_pool a t0 t1 r0 r1 = \<lparr>mp_address = a, mp_token0 = t0, mp_token1 = t1, mp_reserve0 = r0, mp_reserve1 = r1,
     mp_fee = 30, mp_dex_type = MtUniswapV2, mp_last_update = 0\<rparr>"

definition sample_ops :: "table_op list" where
  "sample_ops = [LoadPools [sample_mt_pool 7 3 4 1000000 1000000, sample_mt_pool 8 4 5 1000000 2000000],
     UpdatePool 9 8 1000000 3000000]"

theorem token_index_complete_witness:
  "7 \<in> indexed (foldl table_turn tables_new sample_ops) 4 \<and> 8 \<in> indexed (foldl table_turn tables_new sample_ops) 4"
proof -
  let ?t = "foldl table_turn tables_new sample_ops"
  have "tb_pools ?t 7 = Some (sample_mt_pool 7 3 4 1000000 1000000)"
    "\<exists>p. tb_pools ?t 8 = Some p \<and> mp_token0 p = 4"
    by (simp_all add: sample_ops_def mt_load_pools_def mt_load_pool_def update_mt_pool_def sample_mt_pool_def tables_new_def)
  moreover have "mp_token1 (sample_mt_pool 7 3 4 1000000 1000000) = 4"
    by (simp add: sample_mt_pool_def)
  ultimately show ?thesis
    using token_index_complete [of sample_ops] by metis
qed

section \<open>What the search finds\<close>

definition mt_reserves :: "MtPool \<Rightarrow> address \<Rightarrow> u256 \<times> u256" where
  "mt_reserves p t = (if mp_token0 p = t then (mp_reserve0 p, mp_reserve1 p) else (mp_reserve1 p, mp_reserve0 p))"

definition mt_quote :: "MtPool \<Rightarrow> address \<Rightarrow> nat \<Rightarrow> nat" where
  "mt_quote p t a =
    cp_quote (unat (fst (mt_reserves p t))) (unat (snd (mt_reserves p t))) (10000 - unat (mp_fee p)) a"

lemma try_some_eq_Some: "try_some m f = Inr (Some y) \<longleftrightarrow> (\<exists>x. m = Inr (Some x) \<and> f x = Inr (Some y))"
  by (auto simp: try_some_def bindE_eq_Inr_iff split: option.splits)

lemma set_collect_each:
  "collect_each f xs = Inr ys \<Longrightarrow> y \<in> set ys \<longleftrightarrow> (\<exists>x \<in> set xs. \<exists>zs. f x = Inr zs \<and> y \<in> set zs)"
  by (induction xs arbitrary: ys) (auto simp: bindE_eq_Inr_iff)

lemma unat_fee_factor_mt:
  assumes "unat fee \<le> 10000"
  shows "unat (ucast (10000 - fee :: u32) :: u256) = 10000 - unat fee"
proof -
  have "unat (10000 - fee) = 10000 - unat fee"
    using assms by (subst unat_sub_exact) (simp_all add: word_le_nat_alt)
  then show ?thesis
    using unat_bound [of "10000 - fee"] by (simp add: unsigned_ucast_eq take_bit_eq_mod)
qed

context u256_laws
begin

lemma simulate_swap_out_value:
  assumes "simulate_swap_out ux a tin tout p = Inr (Some q)" "unat (mp_fee p) \<le> 10000"
  shows "unat q = mt_quote p tin (unat a)"
proof -
  obtain rin rout where r: "mt_reserves p tin = (rin, rout)"
    by (cases "mt_reserves p tin")
  then have "(if mp_token0 p = tin then (mp_reserve0 p, mp_reserve1 p) else (mp_reserve1 p, mp_reserve0 p)) = (rin, rout)"
    by (simp add: mt_reserves_def)
  with assms(1) have "bindE (ux_mul ux a (ucast (10000 - mp_fee p))) (\<lambda>w.
      bindE (ux_mul ux w rout) (\<lambda>n. bindE (ux_mul ux rin 10000) (\<lambda>r. bindE (ux_add ux r w) (\<lambda>d.
      bindE (ux_div ux n d) (\<lambda>q. Inr (Some q)))))) = Inr (Some q)"
    by (simp only: simulate_swap_out_def Let_def prod.case split: if_splits) simp_all
  then show ?thesis
    by (auto simp: bindE_eq_Inr_iff Inr_iffs unat_fee_factor_mt [OF assms(2)] mt_quote_def r cp_quote_def)
qed

text \<open>An opportunity and the pools it was computed from.\<close>

lemma calculate_2hop_profit_value:
  assumes "calculate_2hop_profit ux ns config swap p1 p2 = Inr (Some w)"
    and "unat (mp_fee p1) \<le> 10000" "unat (mp_fee p2) \<le> 10000"
  defines "mid \<equiv> if mp_token0 p1 = ms_token_out swap then mp_token1 p1 else mp_token0 p1"
    and "amount \<equiv> mt_quote p1 (ms_token_in swap) (unat (ms_amount_in swap)) div 10"
  shows "map (\<lambda>st. (ps_pool st, ps_token_in st, ps_token_out st, unat (ps_amount_in st), unat (ps_expected_out st))) (mo_path w) =
      [(mp_address p1, ms_token_out swap, mid, amount, mt_quote p1 (ms_token_out swap) amount),
       (mp_address p2, mid, ms_token_in swap, mt_quote p1 (ms_token_out swap) amount,
        mt_quote p2 mid (mt_quote p1 (ms_token_out swap) amount))]"
    and "unat (mo_net_profit_wei w) + unat (dc_gas_price config) * 200000 + amount
      = mt_quote p2 mid (mt_quote p1 (ms_token_out swap) amount)"
    and "0 < unat (mo_net_profit_wei w)"
proof -
  obtain tgt inp o1 o2 gross gas net where
    q: "simulate_swap_out ux (ms_amount_in swap) (ms_token_in swap) (ms_token_out swap) p1 = Inr (Some tgt)"
      "ux_div ux tgt 10 = Inr inp"
      "simulate_swap_out ux inp (ms_token_out swap) mid p1 = Inr (Some o1)"
      "simulate_swap_out ux o1 mid (ms_token_in swap) p2 = Inr (Some o2)"
      "ux_sub ux o2 inp = Inr gross" "ux_mul ux (dc_gas_price config) 200000 = Inr gas"
      "\<not> gross \<le> gas" "ux_sub ux gross gas = Inr net"
    and w: "mo_net_profit_wei w = net" "mo_path w =
      [\<lparr>ps_pool = mp_address p1, ps_token_in = ms_token_out swap, ps_token_out = mid,
        ps_amount_in = inp, ps_expected_out = o1, ps_dex_type = mp_dex_type p1\<rparr>,
       \<lparr>ps_pool = mp_address p2, ps_token_in = mid, ps_token_out = ms_token_in swap,
        ps_amount_in = o1, ps_expected_out = o2, ps_dex_type = mp_dex_type p2\<rparr>]"
    using assms(1) unfolding calculate_2hop_profit_def mid_def [symmetric] Let_def
    by (auto simp: try_some_eq_Some bindE_eq_Inr_iff split: if_splits)
  have "unat tgt = mt_quote p1 (ms_token_in swap) (unat (ms_amount_in swap))" "unat inp = unat tgt div 10"
    using simulate_swap_out_value [OF q(1) assms(2)] q(2) by (simp_all add: Inr_iffs)
  then have inp: "unat inp = amount"
    by (simp add: amount_def)
  moreover have o1: "unat o1 = mt_quote p1 (ms_token_out swap) amount"
    using simulate_swap_out_value [OF q(3) assms(2)] by (simp add: inp)
  moreover have o2: "unat o2 = mt_quote p2 mid (mt_quote p1 (ms_token_out swap) amount)"
    using simulate_swap_out_value [OF q(4) assms(3)] by (simp add: o1)
  ultimately show "map (\<lambda>st. (ps_pool st, ps_token_in st, ps_token_out st, unat (ps_amount_in st), unat (ps_expected_out st))) (mo_path w) =
      [(mp_address p1, ms_token_out swap, mid, amount, mt_quote p1 (ms_token_out swap) amount),
       (mp_address p2, mid, ms_token_in swap, mt_quote p1 (ms_token_out swap) amount,
        mt_quote p2 mid (mt_quote p1 (ms_token_out swap) amount))]"
    by (simp add: w(2))
  show "unat (mo_net_profit_wei w) + unat (dc_gas_price config) * 200000 + amount
      = mt_quote p2 mid (mt_quote p1 (ms_token_out swap) amount)"
    using q(5,6,8) by (simp add: w(1) Inr_iffs inp o2)
  show "0 < unat (mo_net_profit_wei w)"
    using q(7,8) by (simp add: w(1) Inr_iffs word_le_nat_alt)
qed

end

lemma mem_return_hop:
  "return_hop ux ns config t swap p1 a = Inr zs \<Longrightarrow> w \<in> set zs \<longleftrightarrow>
    (\<exists>p2. tb_pools t a = Some p2 \<and> (mp_token0 p2 = ms_token_in swap \<or> mp_token1 p2 = ms_token_in swap)
      \<and> calculate_2hop_profit ux ns config swap p1 p2 = Inr (Some w))"
  by (auto simp: return_hop_def bindE_eq_Inr_iff split: option.splits if_splits)

lemma collect_each_Inr: "collect_each f xs = Inr ys \<Longrightarrow> x \<in> set xs \<Longrightarrow> \<exists>zs. f x = Inr zs"
  by (induction xs arbitrary: ys) (auto simp: bindE_eq_Inr_iff)

lemma mem_first_hop:
  assumes "first_hop ux ns config t swap a = Inr zs"
  shows "w \<in> set zs \<longleftrightarrow> (\<exists>p1 mid a2 p2. tb_pools t a = Some p1 \<and> other_token p1 (ms_token_out swap) = Some mid
    \<and> a2 \<in> indexed t mid \<and> tb_pools t a2 = Some p2 \<and> (mp_token0 p2 = ms_token_in swap \<or> mp_token1 p2 = ms_token_in swap)
    \<and> calculate_2hop_profit ux ns config swap p1 p2 = Inr (Some w))"
proof (cases "tb_pools t a")
  case (Some p1)
  show ?thesis
  proof (cases "other_token p1 (ms_token_out swap)")
    case other: (Some mid)
    show ?thesis
    proof (cases "tb_token_to_pools t mid")
      case ret: (Some as)
      have c: "collect_each (return_hop ux ns config t swap p1) as = Inr zs"
        using assms by (simp add: first_hop_def Some other ret)
      have "(\<exists>zs. return_hop ux ns config t swap p1 x = Inr zs \<and> w \<in> set zs) \<longleftrightarrow>
          (\<exists>p2. tb_pools t x = Some p2 \<and> (mp_token0 p2 = ms_token_in swap \<or> mp_token1 p2 = ms_token_in swap)
            \<and> calculate_2hop_profit ux ns config swap p1 p2 = Inr (Some w))" if "x \<in> set as" for x
        using collect_each_Inr [OF c that] mem_return_hop [of ux ns config t swap p1 x] by metis
      then show ?thesis
        unfolding set_collect_each [OF c] by (auto simp: Some other indexed_def ret)
    qed (use assms in \<open>simp add: first_hop_def Some other indexed_def\<close>)
  qed (use assms in \<open>simp add: first_hop_def Some\<close>)
qed (use assms in \<open>simp add: first_hop_def\<close>)

text \<open>Membership in the result of a search, as one condition on a pair of stored pools.\<close>

definition search_pair :: "MtTables \<Rightarrow> MonSwapInfo \<Rightarrow> MtPool \<Rightarrow> MtPool \<Rightarrow> address \<Rightarrow> bool" where
  "search_pair t swap p1 p2 mid \<longleftrightarrow>
    (\<exists>a1 \<in> indexed t (ms_token_out swap). \<exists>a2 \<in> indexed t mid. tb_pools t a1 = Some p1 \<and> tb_pools t a2 = Some p2)
    \<and> other_token p1 (ms_token_out swap) = Some mid
    \<and> (mp_token0 p2 = ms_token_in swap \<or> mp_token1 p2 = ms_token_in swap)"

lemma find_arbitrage_paths_mem:
  assumes "find_arbitrage_paths ux ns config t swap = Inr r"
  shows "(\<exists>opps. r = Some opps \<and> w \<in> set opps) \<longleftrightarrow>
    (\<exists>p1 p2 mid. search_pair t swap p1 p2 mid \<and> calculate_2hop_profit ux ns config swap p1 p2 = Inr (Some w))"
proof (cases "tb_token_to_pools t (ms_token_out swap)")
  case None
  with assms show ?thesis
    by (auto simp: find_arbitrage_paths_def search_pair_def indexed_def)
next
  case (Some as)
  then obtain opps where c: "collect_each (first_hop ux ns config t swap) as = Inr opps"
    and r: "r = (if opps = [] then None else Some opps)"
    using assms by (auto simp: find_arbitrage_paths_def bindE_eq_Inr_iff)
  have "(\<exists>zs. first_hop ux ns config t swap x = Inr zs \<and> w \<in> set zs) \<longleftrightarrow>
      (\<exists>p1 mid a2 p2. tb_pools t x = Some p1 \<and> other_token p1 (ms_token_out swap) = Some mid
        \<and> a2 \<in> indexed t mid \<and> tb_pools t a2 = Some p2 \<and> (mp_token0 p2 = ms_token_in swap \<or> mp_token1 p2 = ms_token_in swap)
        \<and> calculate_2hop_profit ux ns config swap p1 p2 = Inr (Some w))" if "x \<in> set as" for x
    using collect_each_Inr [OF c that] mem_first_hop [of ux ns config t swap x] by metis
  then have "w \<in> set opps \<longleftrightarrow>
      (\<exists>p1 p2 mid. search_pair t swap p1 p2 mid \<and> calculate_2hop_profit ux ns config swap p1 p2 = Inr (Some w))"
    unfolding set_collect_each [OF c] search_pair_def by (simp add: indexed_def Some) blast
  moreover have "(\<exists>opps'. r = Some opps' \<and> w \<in> set opps') \<longleftrightarrow> w \<in> set opps"
    by (auto simp: r)
  ultimately show ?thesis by simp
qed


definition thin_tables :: MtTables where
  "thin_tables = mt_load_pools tables_new
    [sample_mt_pool 7 3 4 1000000000 1000000000, sample_mt_pool 8 4 5 1000000000 1000000000000]"

definition thin_swap :: MonSwapInfo where
  "thin_swap = \<lparr>ms_token_in = 5, ms_token_out = 3, ms_amount_in = 10000000, ms_min_amount_out = 0,
     ms_dex_type = MdUniswapV2, ms_pool_address = 0\<rparr>"

definition free_gas :: MtConfig where
  "free_gas = (MtConfig_default 8)\<lparr>dc_gas_price := 0\<rparr>"

lemma thin_tables_simps:
  "tb_pools thin_tables = [7 \<mapsto> sample_mt_pool 7 3 4 1000000000 1000000000, 8 \<mapsto> sample_mt_pool 8 4 5 1000000000 1000000000000]"
  "tb_token_to_pools thin_tables = [3 \<mapsto> [7], 4 \<mapsto> [7, 8], 5 \<mapsto> [8]]"
  by (auto simp: thin_tables_def mt_load_pools_def mt_load_pool_def index_token_def tables_new_def sample_mt_pool_def)

lemma thin_search:
  "dc_gas_price config = 0 \<Longrightarrow>
    \<exists>w. find_arbitrage_paths u256_std 0 config thin_tables thin_swap = Inr (Some [w]) \<and> mo_net_profit_wei w = 978331153"
  by (simp add: find_arbitrage_paths_def thin_tables_simps thin_swap_def first_hop_def
      return_hop_def other_token_def sample_mt_pool_def calculate_2hop_profit_def try_some_def simulate_swap_out_def
      std_u256.mul_law std_u256.add_law std_u256.div_law std_u256.sub_law)


text \<open>The reported profit is not a profit. Every opportunity starts in the pending swap's output token and ends in
  its input token. When these differ, the trade is not a round trip and \<^verbatim>\<open>profit_wei\<close> subtracts an
  amount of one token from an amount of another.\<close>

theorem find_arbitrage_paths_open_ended:
  assumes "u256_laws ux" "\<forall>a p. tb_pools t a = Some p \<longrightarrow> unat (mp_fee p) \<le> 10000"
    and "find_arbitrage_paths ux ns config t swap = Inr (Some opps)" "w \<in> set opps"
  shows "ps_token_in (hd (mo_path w)) = ms_token_out swap \<and> ps_token_out (last (mo_path w)) = ms_token_in swap"
proof -
  obtain p1 p2 mid where p: "search_pair t swap p1 p2 mid" "calculate_2hop_profit ux ns config swap p1 p2 = Inr (Some w)"
    using find_arbitrage_paths_mem [OF assms(3), of w] assms(4) by blast
  then have "unat (mp_fee p1) \<le> 10000" "unat (mp_fee p2) \<le> 10000"
    using assms(2) by (auto simp: search_pair_def)
  from u256_laws.calculate_2hop_profit_value(1) [OF assms(1) p(2) this] show ?thesis
    by (auto simp: map_eq_Cons_conv)
qed

theorem find_arbitrage_paths_open_ended_witness:
  "\<exists>w. find_arbitrage_paths u256_std 0 free_gas thin_tables thin_swap = Inr (Some [w])
    \<and> ps_token_in (hd (mo_path w)) = 3 \<and> ps_token_out (last (mo_path w)) = 5"
proof -
  obtain w where w: "find_arbitrage_paths u256_std 0 free_gas thin_tables thin_swap = Inr (Some [w])"
    using thin_search [of free_gas] by (auto simp: free_gas_def)
  have "\<forall>a p. tb_pools thin_tables a = Some p \<longrightarrow> unat (mp_fee p) \<le> 10000"
    by (auto simp: thin_tables_simps sample_mt_pool_def split: if_splits)
  from find_arbitrage_paths_open_ended [OF std_u256.u256_laws_axioms this w, of w] show ?thesis
    using w by (simp add: thin_swap_def)
qed

section \<open>The threads\<close>

fun batch_of :: "worker_phase \<Rightarrow> MempoolTx list" where
  "batch_of Idle = []"
| "batch_of (Collecting b) = b"
| "batch_of (Working b) = b"

definition in_batches :: "mt_state \<Rightarrow> MempoolTx list" where
  "in_batches s = concat (map (\<lambda>w. batch_of (wk_phase w)) (mt_workers s))"

definition held :: "mt_state \<Rightarrow> MempoolTx list" where
  "held s = (case mt_holding s of Some tx \<Rightarrow> [tx] | None \<Rightarrow> [])"

definition in_flight :: "mt_state \<Rightarrow> MempoolTx multiset" where
  "in_flight s = mset (mt_incoming s) + mset (held s) + mset (mt_work s) + mset (in_batches s)"

lemma mset_concat_update:
  "i < length xs \<Longrightarrow> mset (concat (map f (xs[i := x]))) + mset (f (xs ! i)) = mset (concat (map f xs)) + mset (f x)"
proof (induction xs arbitrary: i)
  case (Cons y ys)
  then show ?case
    by (cases i) (auto simp: ac_simps)
qed simp

lemma in_batches_set_phase:
  "i < length (mt_workers s) \<Longrightarrow>
    mset (in_batches (set_phase i ph s)) + mset (batch_of (wk_phase (mt_workers s ! i))) = mset (in_batches s) + mset (batch_of ph)"
  using mset_concat_update [of i "mt_workers s" "\<lambda>w. batch_of (wk_phase w)" "(mt_workers s ! i)\<lparr>wk_phase := ph\<rparr>"]
  by (simp add: in_batches_def set_phase_def)

lemma in_batches_finish_tx:
  "i < length (mt_workers s) \<Longrightarrow> wk_phase (mt_workers s ! i) = Working (tx # txs) \<Longrightarrow>
    mset (in_batches (finish_tx i tx txs sent n k s)) + {#tx#} = mset (in_batches s)"
  using mset_concat_update [of i "mt_workers s" "\<lambda>w. batch_of (wk_phase w)"
      "\<lparr>wk_phase = Working txs, wk_opp_id = n, wk_numbered = k\<rparr>"]
  by (simp add: in_batches_def finish_tx_def)

text \<open>Bookkeeping: every transaction that arrived is somewhere, and the counters count.\<close>

definition accounts :: "mt_state \<Rightarrow> bool" where
  "accounts s \<longleftrightarrow>
    mset (mt_arrived s) = in_flight s + mset (mt_done s)
    \<and> ds_txs_processed (mt_stats s) + of_nat (length (mt_incoming s)) = of_nat (length (mt_arrived s))
    \<and> ds_opportunities_found (mt_stats s) = of_nat (length (filter mt_is_swap (mt_done s)))
    \<and> ds_profitable_count (mt_stats s) = of_nat (length (mt_sent s))"

lemma set_phase_fields [simp]:
  "mt_incoming (set_phase i ph s) = mt_incoming s" "held (set_phase i ph s) = held s" "mt_work (set_phase i ph s) = mt_work s"
  "mt_arrived (set_phase i ph s) = mt_arrived s" "mt_done (set_phase i ph s) = mt_done s"
  "mt_stats (set_phase i ph s) = mt_stats s" "mt_sent (set_phase i ph s) = mt_sent s"
  by (simp_all add: set_phase_def held_def)

lemma held_work [simp]: "held (s\<lparr>mt_work := w\<rparr>) = held s"
  by (simp add: held_def)

lemma accounts_set_phase:
  assumes "accounts s" "i < length (mt_workers s)" "batch_of ph = batch_of (wk_phase (mt_workers s ! i))"
  shows "accounts (set_phase i ph s)"
  using assms in_batches_set_phase [OF assms(2), of ph] by (simp add: accounts_def in_flight_def)

lemma accounts_step: "mt_step ux config s s' \<Longrightarrow> accounts s \<Longrightarrow> accounts s'"
proof (induction rule: mt_step.induct)
  case (receive i s b tx txs)
  let ?u = "s\<lparr>mt_work := txs\<rparr>"
  have "in_batches ?u = in_batches s"
    by (simp add: in_batches_def)
  then have "mset (in_batches (set_phase i (Collecting (b @ [tx])) ?u)) = mset (in_batches s) + {#tx#}"
    using in_batches_set_phase [of i ?u "Collecting (b @ [tx])"] receive by simp
  with receive show ?case
    by (simp add: accounts_def in_flight_def)
next
  case (process i s tx txs now_ns opps tsc sent next_id)
  let ?n = "wk_numbered (mt_workers s ! i) + length opps"
  have "mset (in_batches (finish_tx i tx txs sent next_id ?n s)) + {#tx#} = mset (in_batches s)"
    using process by (intro in_batches_finish_tx)
  then have "in_flight (finish_tx i tx txs sent next_id ?n s) + {#tx#} = in_flight s"
    by (simp add: in_flight_def finish_tx_def held_def ac_simps)
  with process.prems show ?case
    by (auto simp: accounts_def finish_tx_def)
next
  case (take_tx s tx txs)
  then show ?case
    by (simp add: accounts_def in_flight_def held_def in_batches_def ac_simps)
next
  case (put_tx s tx)
  then show ?case
    by (simp add: accounts_def in_flight_def held_def in_batches_def ac_simps)
next
  case (arrive s tx)
  then show ?case
    by (simp add: accounts_def in_flight_def held_def in_batches_def ac_simps)
qed (simp_all add: accounts_set_phase, simp_all add: accounts_def in_flight_def held_def in_batches_def)

text \<open>What a worker has sent: numbered opportunities that clear the threshold, triggered by a processed swap.
  The list \<open>ls\<close> gives for each of them its worker and its place in the worker's numbering.\<close>

definition opp_key :: "nat \<times> nat \<Rightarrow> nat \<times> u64" where
  "opp_key l = (fst l, of_nat (fst l * 1000000 + snd l))"

definition sent_wf :: "MtConfig \<Rightarrow> mt_state \<Rightarrow> (nat \<times> nat) list \<Rightarrow> bool" where
  "sent_wf config s ls \<longleftrightarrow>
    map (\<lambda>(i, opp). (i, mo_id opp)) (mt_sent s) = map opp_key ls \<and> distinct ls
    \<and> (\<forall>(i, k) \<in> set ls. i < length (mt_workers s) \<and> k < wk_numbered (mt_workers s ! i))
    \<and> (\<forall>i < length (mt_workers s). wk_opp_id (mt_workers s ! i) = of_nat (i * 1000000 + wk_numbered (mt_workers s ! i)))
    \<and> (\<forall>(i, opp) \<in> set (mt_sent s). dc_min_profit_wei config \<le> mo_net_profit_wei opp
        \<and> (\<exists>tx \<in> set (mt_done s). mt_is_swap tx \<and> mo_trigger_tx opp = mt_hash tx))"

lemma number_opps_ids:
  "map mo_id (filter (\<lambda>opp. m \<le> mo_net_profit_wei opp) (number_opps tsc h (of_nat (b + n)) opps)) =
    map (\<lambda>k. of_nat (b + k)) (map fst (filter (\<lambda>(k, opp). m \<le> mo_net_profit_wei opp) (zip [n..<n + length opps] opps)))"
proof (induction opps arbitrary: n)
  case (Cons opp opps)
  have "[n..<n + length (opp # opps)] = n # [Suc n..<Suc n + length opps]"
    by (simp add: upt_rec)
  moreover have "(of_nat (b + n) :: u64) + 1 = of_nat (b + Suc n)"
    by simp
  ultimately show ?case
    using Cons.IH [of "Suc n"] by (simp del: upt_Suc of_nat_add of_nat_Suc add_Suc_right)
qed simp

lemma number_opps_trigger:
  "opp \<in> set (number_opps tsc h n opps) \<Longrightarrow> mo_trigger_tx opp = h"
  by (induction opps arbitrary: n) auto

lemma work_on_sent:
  assumes "work_on ux tsc ns config t tx (of_nat (b + n)) = Inr (sent, next_id)" "found_opps ux ns config t tx = Inr opps"
  obtains ks where "map mo_id sent = map (\<lambda>k. of_nat (b + k)) ks" "distinct ks" "set ks \<subseteq> {n..<n + length opps}"
    "next_id = of_nat (b + (n + length opps))"
    "\<forall>opp \<in> set sent. dc_min_profit_wei config \<le> mo_net_profit_wei opp \<and> mo_trigger_tx opp = mt_hash tx"
    "sent \<noteq> [] \<longrightarrow> mt_is_swap tx"
proof -
  let ?P = "\<lambda>opp. dc_min_profit_wei config \<le> mo_net_profit_wei opp"
  let ?z = "filter (\<lambda>(k, opp). ?P opp) (zip [n..<n + length opps] opps)"
  have sent: "sent = filter ?P (number_opps tsc (mt_hash tx) (of_nat (b + n)) opps)"
    and next_id: "next_id = of_nat (b + n) + of_nat (length opps)"
    using assms by (auto simp: work_on_def Let_def)
  show thesis
  proof (rule that [of "map fst ?z"])
    show "map mo_id sent = map (\<lambda>k. of_nat (b + k)) (map fst ?z)"
      unfolding sent by (rule number_opps_ids)
    have "distinct (map fst (zip [n..<n + length opps] opps))"
      by simp
    then show "distinct (map fst ?z)"
      by (rule distinct_map_filter)
    show "set (map fst ?z) \<subseteq> {n..<n + length opps}"
      by (auto dest: set_zip_leftD)
    show "next_id = of_nat (b + (n + length opps))"
      by (simp add: next_id)
    show "\<forall>opp \<in> set sent. ?P opp \<and> mo_trigger_tx opp = mt_hash tx"
      by (auto simp: sent dest: number_opps_trigger)
    show "sent \<noteq> [] \<longrightarrow> mt_is_swap tx"
      using assms(2) by (cases "mt_is_swap tx") (auto simp: sent found_opps_def)
  qed
qed

lemma sent_wf_cong:
  assumes "sent_wf config s ls" "mt_sent s' = mt_sent s" "mt_done s' = mt_done s"
    and "map (\<lambda>w. (wk_opp_id w, wk_numbered w)) (mt_workers s') = map (\<lambda>w. (wk_opp_id w, wk_numbered w)) (mt_workers s)"
  shows "sent_wf config s' ls"
proof -
  have len: "length (mt_workers s') = length (mt_workers s)"
    using assms(4) by (rule map_eq_imp_length_eq)
  have "wk_opp_id (mt_workers s' ! i) = wk_opp_id (mt_workers s ! i)"
    "wk_numbered (mt_workers s' ! i) = wk_numbered (mt_workers s ! i)" if "i < length (mt_workers s)" for i
    using arg_cong [OF assms(4), of "\<lambda>xs. xs ! i"] that by (simp_all add: len)
  with assms(1) show ?thesis
    unfolding sent_wf_def assms(2,3) len by auto
qed

lemma sent_wf_set_phase:
  assumes "sent_wf config s ls"
  shows "sent_wf config (set_phase i ph s) ls"
proof (rule sent_wf_cong [OF assms])
  show "map (\<lambda>w. (wk_opp_id w, wk_numbered w)) (mt_workers (set_phase i ph s)) =
      map (\<lambda>w. (wk_opp_id w, wk_numbered w)) (mt_workers s)"
    by (cases "i < length (mt_workers s)") (simp_all add: set_phase_def map_update list_update_same_conv list_update_beyond)
qed simp_all

lemma sent_wf_process:
  assumes wf: "sent_wf config s ls" and i: "i < length (mt_workers s)"
    and opps: "found_opps ux ns config (mt_tables s) tx = Inr opps"
    and work: "work_on ux tsc ns config (mt_tables s) tx (wk_opp_id (mt_workers s ! i)) = Inr (sent, next_id)"
  shows "\<exists>ls'. sent_wf config (finish_tx i tx txs sent next_id (wk_numbered (mt_workers s ! i) + length opps) s) ls'"
proof -
  let ?n = "wk_numbered (mt_workers s ! i)" and ?b = "i * 1000000"
  let ?s = "finish_tx i tx txs sent next_id (?n + length opps) s"
  have "wk_opp_id (mt_workers s ! i) = of_nat (?b + ?n)"
    using wf i unfolding sent_wf_def by blast
  from work_on_sent [OF work [unfolded this] opps]
  obtain ks where ks: "map mo_id sent = map (\<lambda>k. of_nat (?b + k)) ks" "distinct ks" "set ks \<subseteq> {?n..<?n + length opps}"
    "next_id = of_nat (?b + (?n + length opps))"
    and ok: "\<forall>opp \<in> set sent. dc_min_profit_wei config \<le> mo_net_profit_wei opp \<and> mo_trigger_tx opp = mt_hash tx"
      "sent \<noteq> [] \<longrightarrow> mt_is_swap tx"
    by metis
  have workers: "mt_workers ?s = (mt_workers s)[i := \<lparr>wk_phase = Working txs, wk_opp_id = next_id, wk_numbered = ?n + length opps\<rparr>]"
    "mt_sent ?s = mt_sent s @ map (Pair i) sent" "mt_done ?s = mt_done s @ [tx]"
    by (simp_all add: finish_tx_def)
  have old: "\<forall>(j, k) \<in> set ls. j < length (mt_workers s) \<and> k < wk_numbered (mt_workers s ! j)"
    and dist: "distinct ls" and ids: "map (\<lambda>(j, opp). (j, mo_id opp)) (mt_sent s) = map opp_key ls"
    and nxt: "\<forall>j < length (mt_workers s). wk_opp_id (mt_workers s ! j) = of_nat (j * 1000000 + wk_numbered (mt_workers s ! j))"
    and good: "\<forall>(j, opp) \<in> set (mt_sent s). dc_min_profit_wei config \<le> mo_net_profit_wei opp
        \<and> (\<exists>tx \<in> set (mt_done s). mt_is_swap tx \<and> mo_trigger_tx opp = mt_hash tx)"
    using wf unfolding sent_wf_def by blast+
  have "map (Pair i) (map mo_id sent) = map opp_key (map (Pair i) ks)"
    unfolding ks(1) by (simp add: opp_key_def)
  then have "map (\<lambda>(j, opp). (j, mo_id opp)) (mt_sent ?s) = map opp_key (ls @ map (Pair i) ks)"
    by (simp add: workers ids comp_def)
  moreover have "distinct (ls @ map (Pair i) ks)"
    using dist ks(2,3) old by (fastforce simp: distinct_map inj_on_def)
  moreover have "\<forall>(j, k) \<in> set (ls @ map (Pair i) ks). j < length (mt_workers ?s) \<and> k < wk_numbered (mt_workers ?s ! j)"
  proof (clarify)
    fix j k assume "(j, k) \<in> set (ls @ map (Pair i) ks)"
    then show "j < length (mt_workers ?s) \<and> k < wk_numbered (mt_workers ?s ! j)"
      using old ks(3) i by (auto simp: workers nth_list_update)
  qed
  moreover have "\<forall>j < length (mt_workers ?s). wk_opp_id (mt_workers ?s ! j) = of_nat (j * 1000000 + wk_numbered (mt_workers ?s ! j))"
    unfolding workers(1) using nxt i by (simp add: nth_list_update ks(4))
  moreover have "\<forall>(j, opp) \<in> set (mt_sent ?s). dc_min_profit_wei config \<le> mo_net_profit_wei opp
        \<and> (\<exists>tx \<in> set (mt_done ?s). mt_is_swap tx \<and> mo_trigger_tx opp = mt_hash tx)"
    using good ok by (auto simp: workers)
  ultimately show ?thesis
    unfolding sent_wf_def by blast
qed

lemma sent_wf_step: "mt_step ux config s s' \<Longrightarrow> sent_wf config s ls \<Longrightarrow> \<exists>ls'. sent_wf config s' ls'"
proof (induction rule: mt_step.induct)
  case (receive i s b tx txs)
  have "sent_wf config (s\<lparr>mt_work := txs\<rparr>) ls"
    by (rule sent_wf_cong [OF receive.prems]) simp_all
  then show ?case
    by (intro exI sent_wf_set_phase)
next
  case (process i s tx txs now_ns opps tsc sent next_id)
  then show ?case
    by (intro sent_wf_process)
next
  case (arrive s tx)
  show ?case by (rule exI, rule sent_wf_cong [OF arrive.prems]) simp_all
next
  case (stop s)
  show ?case by (rule exI, rule sent_wf_cong [OF stop.prems]) simp_all
next
  case (update s tsc a r0 r1)
  show ?case by (rule exI, rule sent_wf_cong [OF update.prems]) simp_all
next
  case (take_tx s tx txs)
  show ?case by (rule exI, rule sent_wf_cong [OF take_tx.prems]) simp_all
next
  case (put_tx s tx)
  show ?case by (rule exI, rule sent_wf_cong [OF put_tx.prems]) simp_all
qed (rule exI, erule sent_wf_set_phase)+

lemma reachable_accounts: "mt_reachable ux config s \<Longrightarrow> accounts s"
proof (induction rule: mt_reachable.induct)
  case (start t)
  have "in_batches (mt_start config t) = []"
    by (simp add: in_batches_def mt_start_def comp_def)
  then show ?case
    by (simp add: accounts_def in_flight_def held_def mt_start_def MtStats_default_def)
qed (rule accounts_step)

lemma reachable_sent: "mt_reachable ux config s \<Longrightarrow> \<exists>ls. sent_wf config s ls"
proof (induction rule: mt_reachable.induct)
  case (start t)
  have "sent_wf config (mt_start config t) []"
    by (simp add: sent_wf_def mt_start_def)
  then show ?case ..
next
  case (step s s')
  then show ?case
    using sent_wf_step by blast
qed

lemma length_workers_step: "mt_step ux config s s' \<Longrightarrow> length (mt_workers s') = length (mt_workers s)"
  by (induction rule: mt_step.induct) (simp_all add: set_phase_def finish_tx_def)

lemma length_workers: "mt_reachable ux config s \<Longrightarrow> length (mt_workers s) = unat (dc_num_workers config)"
  by (induction rule: mt_reachable.induct) (simp_all add: mt_start_def length_workers_step)


text \<open>What the workers send. In every reachable state, every opportunity sent clears the profit threshold and is
  triggered by a swap that has been processed. As long as no worker has numbered more than a
  million opportunities (and there are at most \<open>2^40\<close> workers) all identifiers differ.\<close>

theorem detector_threads_sent:
  assumes "mt_reachable ux config s"
  shows "(\<forall>(i, opp) \<in> set (mt_sent s). dc_min_profit_wei config \<le> mo_net_profit_wei opp
      \<and> (\<exists>tx \<in> set (mt_done s). mt_is_swap tx \<and> mo_trigger_tx opp = mt_hash tx))
    \<and> ((\<forall>w \<in> set (mt_workers s). wk_numbered w \<le> 1000000) \<and> unat (dc_num_workers config) \<le> 2 ^ 40
        \<longrightarrow> distinct (map (\<lambda>(i, opp). mo_id opp) (mt_sent s)))"
proof (intro conjI impI)
  obtain ls where ls: "sent_wf config s ls"
    using reachable_sent [OF assms] ..
  then show "\<forall>(i, opp) \<in> set (mt_sent s). dc_min_profit_wei config \<le> mo_net_profit_wei opp
      \<and> (\<exists>tx \<in> set (mt_done s). mt_is_swap tx \<and> mo_trigger_tx opp = mt_hash tx)"
    unfolding sent_wf_def by blast
  assume few: "(\<forall>w \<in> set (mt_workers s). wk_numbered w \<le> 1000000) \<and> unat (dc_num_workers config) \<le> 2 ^ 40"
  have bound: "i < 2 ^ 40 \<and> k < 1000000" if "(i, k) \<in> set ls" for i k
  proof -
    have "i < length (mt_workers s)" "k < wk_numbered (mt_workers s ! i)"
      using that ls unfolding sent_wf_def by auto
    then show ?thesis
      using few length_workers [OF assms] nth_mem [of i "mt_workers s"] by fastforce
  qed
  have inj: "inj_on (\<lambda>l. snd (opp_key l)) (set ls)"
  proof (rule inj_onI)
    fix l m assume lm: "l \<in> set ls" "m \<in> set ls" "snd (opp_key l) = snd (opp_key m)"
    obtain i k j h where eq: "l = (i, k)" "m = (j, h)"
      by (cases l; cases m)
    have b: "i < 2 ^ 40" "k < 1000000" "j < 2 ^ 40" "h < 1000000"
      using bound lm(1,2) eq by auto
    have u: "unat (of_nat (i * 1000000 + k) :: u64) = i * 1000000 + k" "unat (of_nat (j * 1000000 + h) :: u64) = j * 1000000 + h"
      by (rule unat_word_of_nat_small, use b in simp)+
    have "(of_nat (i * 1000000 + k) :: u64) = of_nat (j * 1000000 + h)"
      using lm(3) unfolding opp_key_def eq by (simp only: fst_conv snd_conv)
    then have n: "i * 1000000 + k = j * 1000000 + h"
      using u by metis
    have "i = (i * 1000000 + k) div 1000000" "j = (j * 1000000 + h) div 1000000"
      using b by simp_all
    then have "i = j"
      by (simp only: n)
    then show "l = m"
      using n by (simp add: eq)
  qed
  have "map (\<lambda>(i, opp). mo_id opp) (mt_sent s) = map snd (map (\<lambda>(i, opp). (i, mo_id opp)) (mt_sent s))"
    by (simp add: case_prod_beta comp_def)
  also have "\<dots> = map (\<lambda>l. snd (opp_key l)) ls"
    using ls by (simp add: sent_wf_def comp_def)
  finally show "distinct (map (\<lambda>(i, opp). mo_id opp) (mt_sent s))"
    using inj ls by (simp add: distinct_map sent_wf_def)
qed

definition demo_config :: MtConfig where
  "demo_config = free_gas\<lparr>dc_num_workers := 2, dc_min_profit_wei := 1\<rparr>"

definition demo_tx :: MempoolTx where
  "demo_tx = (hash_tx 1 2 77)\<lparr>mt_is_swap := True, mt_swap_info := Some thin_swap\<rparr>"

definition demo_state :: "MempoolTx list \<Rightarrow> MempoolTx option \<Rightarrow> MempoolTx list \<Rightarrow> worker_phase \<Rightarrow> u64 \<Rightarrow> mt_state" where
  "demo_state incoming holding work phase n =
    \<lparr>mt_running = True, mt_tables = thin_tables, mt_incoming = incoming, mt_holding = holding, mt_work = work,
     mt_workers = [\<lparr>wk_phase = phase, wk_opp_id = 0, wk_numbered = 0\<rparr>, \<lparr>wk_phase = Idle, wk_opp_id = 1000000, wk_numbered = 0\<rparr>],
     mt_sent = [], mt_stats = MtStats_default\<lparr>ds_txs_processed := n\<rparr>, mt_arrived = [demo_tx], mt_done = []\<rparr>"

text \<open>A run: the swap arrives, is dispatched, received by worker 0 and processed.\<close>

lemma demo_queue: "mt_reachable u256_std demo_config (demo_state [] None [demo_tx] Idle 1)"
proof -
  have "mt_start demo_config thin_tables = (demo_state [] None [] Idle 0)\<lparr>mt_arrived := []\<rparr>"
    by (simp add: mt_start_def demo_state_def demo_config_def MtStats_default_def upt_rec)
  then have "mt_reachable u256_std demo_config ((demo_state [] None [] Idle 0)\<lparr>mt_arrived := []\<rparr>)"
    using mt_reachable.start [of u256_std demo_config thin_tables] by simp
  then have "mt_reachable u256_std demo_config (demo_state [demo_tx] None [] Idle 0)"
    by (rule mt_reachable.step) (use mt_step.arrive [of u256_std demo_config "(demo_state [] None [] Idle 0)\<lparr>mt_arrived := []\<rparr>" demo_tx] in
      \<open>simp add: demo_state_def\<close>)
  then have "mt_reachable u256_std demo_config (demo_state [] (Some demo_tx) [] Idle 1)"
    by (rule mt_reachable.step)
      (use mt_step.take_tx [of "demo_state [demo_tx] None [] Idle 0" demo_tx "[]" u256_std demo_config] in
        \<open>simp add: demo_state_def MtStats_default_def\<close>)
  then show ?thesis
    by (rule mt_reachable.step)
      (use mt_step.put_tx [of "demo_state [] (Some demo_tx) [] Idle 1" demo_tx u256_std demo_config] in
        \<open>simp add: demo_state_def\<close>)
qed

lemma demo_working: "mt_reachable u256_std demo_config (demo_state [] None [] (Working [demo_tx]) 1)"
proof -
  have batch: "unat (dc_batch_size demo_config) = 64"
    by (simp add: demo_config_def free_gas_def MtConfig_default_def)
  have "mt_reachable u256_std demo_config (demo_state [] None [demo_tx] (Collecting []) 1)"
    by (rule mt_reachable.step [OF demo_queue])
      (use mt_step.begin_batch [of "demo_state [] None [demo_tx] Idle 1" 0 u256_std demo_config] in
        \<open>simp add: demo_state_def set_phase_def\<close>)
  then have "mt_reachable u256_std demo_config (demo_state [] None [] (Collecting [demo_tx]) 1)"
    by (rule mt_reachable.step)
      (use mt_step.receive [of 0 "demo_state [] None [demo_tx] (Collecting []) 1" "[]" demo_config demo_tx "[]" u256_std] batch in
        \<open>simp add: demo_state_def set_phase_def\<close>)
  then show ?thesis
    by (rule mt_reachable.step)
      (use mt_step.end_batch [of 0 "demo_state [] None [] (Collecting [demo_tx]) 1" "[demo_tx]" demo_config u256_std] in
        \<open>simp add: demo_state_def set_phase_def\<close>)
qed

lemma demo_sent:
  "\<exists>s. mt_reachable u256_std demo_config s \<and> length (mt_sent s) = 1 \<and> mt_done s = [demo_tx] \<and> mt_arrived s = [demo_tx]
    \<and> (\<forall>w \<in> set (mt_workers s). wk_numbered w \<le> 1)"
proof -
  let ?s = "demo_state [] None [] (Working [demo_tx]) 1"
  obtain w where w: "find_arbitrage_paths u256_std 0 demo_config thin_tables thin_swap = Inr (Some [w])"
    "mo_net_profit_wei w = 978331153"
    using thin_search [of demo_config] by (auto simp: demo_config_def free_gas_def)
  have opps: "found_opps u256_std 0 demo_config (mt_tables ?s) demo_tx = Inr [w]"
    by (simp add: found_opps_def demo_tx_def demo_state_def w(1))
  have work: "work_on u256_std 5 0 demo_config (mt_tables ?s) demo_tx (wk_opp_id (mt_workers ?s ! 0)) =
      Inr ([w\<lparr>mo_id := 0, mo_trigger_tx := 77, mo_detected_tsc := 5\<rparr>], 1)"
    using opps by (simp add: work_on_def w(2) demo_config_def demo_state_def) (simp add: demo_tx_def)
  have "mt_reachable u256_std demo_config (finish_tx 0 demo_tx [] [w\<lparr>mo_id := 0, mo_trigger_tx := 77, mo_detected_tsc := 5\<rparr>] 1
      (wk_numbered (mt_workers ?s ! 0) + length [w]) ?s)"
    by (rule mt_reachable.step [OF demo_working], rule mt_step.process [OF _ _ opps work]) (simp_all add: demo_state_def)
  then show ?thesis
    by (intro exI conjI, assumption) (simp_all add: finish_tx_def demo_state_def)
qed


theorem detector_threads_sent_witness:
  "\<exists>s. mt_reachable u256_std demo_config s \<and> length (mt_sent s) = 1 \<and> distinct (map (\<lambda>(i, opp). mo_id opp) (mt_sent s))"
proof -
  obtain s where s: "mt_reachable u256_std demo_config s" "length (mt_sent s) = 1" "\<forall>w \<in> set (mt_workers s). wk_numbered w \<le> 1"
    using demo_sent by blast
  have "\<forall>w \<in> set (mt_workers s). wk_numbered w \<le> 1000000"
    using s(3) by auto
  moreover have "unat (dc_num_workers demo_config) \<le> 2 ^ 40"
    by (simp add: demo_config_def)
  ultimately show ?thesis
    using detector_threads_sent [OF s(1)] s by blast
qed

end
