(* ===== verification/Ultrafast.thy ===== *)
theory Ultrafast
  imports Arbitrum_Executor F64
begin

text \<open>
  The stand-alone scanner \<^verbatim>\<open>core/src/bin/ultrafast.rs\<close>: pool discovery and refresh through one
  Multicall3 request, the two-pool search over fixed test amounts, and the block loop. Quotes are
  computed in \<^verbatim>\<open>u128\<close>, whose operators wrap around in the release profile. Parameters are the ABI
  codec (\<open>multicall_abi\<close>), the 256-bit integers (\<open>u256crate\<close>) and what the network answers during
  an operation (\<open>uf_net\<close>); \<open>'p\<close> is the type of provider handles. The pools, a hash map in the
  code, are listed in the order in which the map is iterated. Printing, and the best ratio that is
  computed for printing only, are left out.
\<close>

section \<open>Constants\<close>

definition RPC_URLS :: "string list" where
  "RPC_URLS =
    [''https://arb-mainnet.g.alchemy.com/v2/ojTHnyjbleuh-3EVw2Z25'', ''https://arb1.arbitrum.io/rpc'',
     ''https://arbitrum.blockpi.network/v1/rpc/public'', ''https://1rpc.io/arb'', ''https://arbitrum.drpc.org'']"

definition UF_MIN_PROFIT_BPS :: u32 where
  "UF_MIN_PROFIT_BPS = 10"

definition MULTICALL3 :: address where
  "MULTICALL3 = 0xcA11bde05977b3631167028862bE2a173976CA11"

definition get_tokens :: "(string \<times> address) list" where
  "get_tokens =
    [(''WETH'', 0x82aF49447D8a07e3bd95BD0d56f35241523fBab1),
     (''USDC'', 0xaf88d065e77c8cC2239327C5EDb3A432268e5831),
     (''USDT'', 0xFd086bC7CD5C481DCC9C85ebE478A1C0b69FCbb9),
     (''ARB'', 0x912CE59144191C1204E64559FE8253a0e49E6548),
     (''WBTC'', 0x2f2a2543B76A4166549F7aaB2e75Bef0aefC5B0f),
     (''GMX'', 0xfc5A1A6EB076a2C7aD06eD22C90d7E710E35ad0a),
     (''LINK'', 0xf97f4df75117a78c1A5a0DBb814Af92458539FB4),
     (''UNI'', 0xFa7F8980b0f1E64A2062791cc3b0871572f1F7f0),
     (''PENDLE'', 0x0c880f6761F1af8d9Aa9C466984b80DAb9a8c9e8),
     (''MAGIC'', 0x539bdE0d7Dbd336b79148AA742883198BBF60342),
     (''GRAIL'', 0x3d9907F9a368ad0a51Be60f7Da3b97cf940982D8),
     (''RDNT'', 0x3082CC23568eA640225c2467653dB90e9250AaA0)]"

definition factories :: "address \<times> address \<times> address" where
  "factories =
    (0x1F98431c8aD98523631AE4a59f267346ea31F984, 0xc35DADB65012eC5796536bD9864eD8773aBc74C4,
     0x6EcCab422D763aC031210895C81787E87B43A652)"

section \<open>Pools\<close>

record PoolData =
  pd_address :: address
  pd_token0 :: address
  pd_token1 :: address
  pd_is_v3 :: bool
  pd_fee_bps :: u32
  pd_reserve0 :: u128
  pd_reserve1 :: u128

definition pd_get_amount_out :: "PoolData \<Rightarrow> u128 \<Rightarrow> bool \<Rightarrow> u128 exec" where
  "pd_get_amount_out p amount_in zero_for_one =
    (let (r_in, r_out) = (if zero_for_one then (pd_reserve0 p, pd_reserve1 p) else (pd_reserve1 p, pd_reserve0 p))
     in if r_in = 0 \<or> r_out = 0 then Inr 0
        else
          let fee_factor = 10000 - ucast (pd_fee_bps p);
              amount_in_with_fee = amount_in * fee_factor;
              numerator = amount_in_with_fee * r_out;
              denominator = r_in * 10000 + amount_in_with_fee
          in if denominator = 0 then Inl DivisionByZero else Inr (numerator div denominator))"

record UfOpportunity =
  uo_token_name :: string
  uo_buy_pool :: address
  uo_sell_pool :: address
  uo_amount_in :: u128
  uo_profit_bps :: i32
  uo_profit_eth :: f64

section \<open>The multicall\<close>

text \<open>The decoder of the crate for the type \<^verbatim>\<open>(bool,bytes)[]\<close>.\<close>

record multicall_abi = abi_crate +
  abi_decode_results :: "bytes \<Rightarrow> string + abi_token list"

definition encode_multicall :: "multicall_abi \<Rightarrow> (address \<times> bytes) list \<Rightarrow> bytes" where
  "encode_multicall abi calls =
    [0xbc, 0xe3, 0x8b, 0xd7] @
    abi_encode abi [TkBool False, TkArray (map (\<lambda>(target, calldata). TkTuple [TkAddress target, TkBytes calldata]) calls)]"

definition result_of_token :: "abi_token \<Rightarrow> bytes option" where
  "result_of_token token =
    (case token of
       TkTuple [t0, t1] \<Rightarrow>
         let success = (case t0 of TkBool b \<Rightarrow> b | _ \<Rightarrow> False); data = (case t1 of TkBytes b \<Rightarrow> b | _ \<Rightarrow> [])
         in if success \<and> data \<noteq> [] then Some data else None
     | _ \<Rightarrow> None)"

definition parse_multicall_response :: "multicall_abi \<Rightarrow> bytes \<Rightarrow> bytes option list" where
  "parse_multicall_response abi data =
    (if length data < 64 then []
     else case abi_decode_results abi data of
       Inr (TkArray results # _) \<Rightarrow> map result_of_token results
     | _ \<Rightarrow> [])"

section \<open>The pool manager\<close>

type_synonym pool_entry = "address \<times> address \<times> address \<times> u32"

record ArbPath =
  ap_token_name :: string
  ap_token :: address
  ap_pool_a_idx :: usize
  ap_pool_b_idx :: usize

record 'p UltraFastPoolManager =
  um_http_providers :: "'p list"
  um_ws_provider :: "'p option"
  um_multicall_addr :: address
  um_v2_pools :: "pool_entry list"
  um_v3_pools :: "pool_entry list"
  um_pools :: "(address \<times> PoolData) list"
  um_arb_paths :: "ArbPath list"

definition uf_manager_new :: "'p list \<Rightarrow> 'p UltraFastPoolManager" where
  "uf_manager_new http_providers =
    \<lparr>um_http_providers = http_providers, um_ws_provider = None, um_multicall_addr = MULTICALL3,
     um_v2_pools = [], um_v3_pools = [], um_pools = [], um_arb_paths = []\<rparr>"

definition set_ws_provider :: "'p UltraFastPoolManager \<Rightarrow> 'p \<Rightarrow> 'p UltraFastPoolManager" where
  "set_ws_provider m ws = m\<lparr>um_ws_provider := Some ws\<rparr>"

definition fast_provider :: "'p UltraFastPoolManager \<Rightarrow> 'p exec" where
  "fast_provider m = (case um_http_providers m of [] \<Rightarrow> Inl IndexOutOfBounds | p # _ \<Rightarrow> Inr p)"

text \<open>What the network does during one operation: the answer of a provider to a call, whether it comes
  within the 500 ms of a race, and the order in which racing providers finish.\<close>

record 'p uf_net =
  net_call :: "'p \<Rightarrow> tx_request \<Rightarrow> string + bytes"
  net_in_time :: "'p \<Rightarrow> bool"
  net_order :: "'p list \<Rightarrow> 'p list"

text \<open>The five discovery calls of a token pair with what the answer will mean.\<close>

definition pair_calls ::
  "multicall_abi \<Rightarrow> address \<times> address \<Rightarrow> ((address \<times> bytes) \<times> (address \<times> address \<times> bool \<times> u32)) list" where
  "pair_calls abi = (\<lambda>(t0, t1).
    let (v3_factory, sushi_factory, camelot_factory) = factories;
        (token0, token1) = (if t0 < t1 then (t0, t1) else (t1, t0));
        get_pair = [0xe6, 0xa4, 0x39, 0x05] @ abi_encode abi [TkAddress token0, TkAddress token1]
    in map (\<lambda>fee. ((v3_factory, [0x16, 0x98, 0xee, 0x82]
                     @ abi_encode abi [TkAddress token0, TkAddress token1, TkUint (ucast fee)]),
                    (token0, token1, True, fee))) [500, 3000, 10000 :: u32]
       @ [((sushi_factory, get_pair), (token0, token1, False, 30)),
          ((camelot_factory, get_pair), (token0, token1, False, 30))])"

definition discovery_calls :: "multicall_abi \<Rightarrow> ((address \<times> bytes) \<times> (address \<times> address \<times> bool \<times> u32)) list" where
  "discovery_calls abi = concat (map (pair_calls abi) (ordered_pairs (map snd get_tokens)))"

text \<open>One answer of the discovery: the pool is recorded under the metadata at the same index.\<close>

definition record_pool ::
  "(address \<times> address \<times> bool \<times> u32) list \<Rightarrow> 'p UltraFastPoolManager \<Rightarrow> nat \<times> bytes option \<Rightarrow> 'p UltraFastPoolManager" where
  "record_pool call_metadata m = (\<lambda>(i, maybe_data).
    case maybe_data of
      None \<Rightarrow> m
    | Some data \<Rightarrow>
        if 32 \<le> length data then
          let pool_addr = from_be (sub_bytes 12 32 data)
          in if pool_addr \<noteq> 0 \<and> i < length call_metadata then
               let (token0, token1, is_v3, fee) = call_metadata ! i
               in if is_v3 then m\<lparr>um_v3_pools := um_v3_pools m @ [(pool_addr, token0, token1, fee div 100)]\<rparr>
                  else m\<lparr>um_v2_pools := um_v2_pools m @ [(pool_addr, token0, token1, fee)]\<rparr>
             else m
        else m)"

definition uf_discover_pools :: "multicall_abi \<Rightarrow> 'p uf_net \<Rightarrow> 'p UltraFastPoolManager \<Rightarrow> 'p UltraFastPoolManager exec" where
  "uf_discover_pools abi net m =
    (let calls = discovery_calls abi;
         tx = \<lparr>tq_to = um_multicall_addr m, tq_data = encode_multicall abi (map fst calls)\<rparr>
     in bindE (fast_provider m) (\<lambda>p.
        Inr (case net_call net p tx of
               Inr result \<Rightarrow>
                 let parsed = parse_multicall_response abi result
                 in foldl (record_pool (map snd calls)) m (enumerate 0 parsed)
             | Inl e \<Rightarrow> m)))"

section \<open>Refresh\<close>

definition refresh_calls :: "'p UltraFastPoolManager \<Rightarrow> (address \<times> bytes) list" where
  "refresh_calls m =
    map (\<lambda>(pool, _). (pool, [0x09, 0x02, 0xf1, 0xac])) (um_v2_pools m) @
    concat (map (\<lambda>(pool, _). [(pool, [0x38, 0x50, 0xc7, 0xbd]), (pool, [0x1a, 0x68, 0x65, 0x02])]) (um_v3_pools m))"

text \<open>The race: the first success among the providers, in the order in which they finish.\<close>

fun race :: "(string + 'a) list \<Rightarrow> string + 'a" where
  "race [] = Inl ''all failed''"
| "race (r # rest) = (case r of Inr x \<Rightarrow> Inr x | Inl e \<Rightarrow> race rest)"

definition timed_call :: "'p uf_net \<Rightarrow> tx_request \<Rightarrow> 'p \<Rightarrow> string + bytes" where
  "timed_call net tx p = (if net_in_time net p then net_call net p tx else Inl ''timeout'')"

definition refresh_request :: "'p uf_net \<Rightarrow> 'p UltraFastPoolManager \<Rightarrow> tx_request \<Rightarrow> (string + bytes) exec" where
  "refresh_request net m tx =
    (case um_ws_provider m of
       Some ws \<Rightarrow> Inr (net_call net ws tx)
     | None \<Rightarrow>
         if 1 < length (um_http_providers m)
         then Inr (race (map (timed_call net tx) (net_order net (um_http_providers m))))
         else bindE (fast_provider m) (\<lambda>p. Inr (net_call net p tx)))"

definition put_pool :: "(address \<times> PoolData) list \<Rightarrow> pool_entry \<Rightarrow> bool \<Rightarrow> u128 \<Rightarrow> u128 \<Rightarrow> (address \<times> PoolData) list" where
  "put_pool pools = (\<lambda>(pool_addr, t0, t1, fee) is_v3 reserve0 reserve1.
    if 1000 < reserve0 \<and> 1000 < reserve1
    then AList.update pool_addr \<lparr>pd_address = pool_addr, pd_token0 = t0, pd_token1 = t1, pd_is_v3 = is_v3,
           pd_fee_bps = fee, pd_reserve0 = reserve0, pd_reserve1 = reserve1\<rparr> pools
    else pools)"

text \<open>\<^verbatim>\<open>parsed.get(i).and_then(|d| d.clone())\<close>\<close>

definition result_at :: "bytes option list \<Rightarrow> nat \<Rightarrow> bytes option" where
  "result_at parsed i = (if i < length parsed then parsed ! i else None)"

definition v2_entry ::
  "u256crate \<Rightarrow> bytes option list \<Rightarrow> (address \<times> PoolData) list \<Rightarrow> nat \<times> pool_entry \<Rightarrow> (address \<times> PoolData) list exec" where
  "v2_entry ux parsed pools = (\<lambda>(i, entry).
    case result_at parsed i of
      None \<Rightarrow> Inr pools
    | Some data \<Rightarrow>
        if 64 \<le> length data then
          bindE (ux_as_u128 ux (ux_from_big_endian ux (sub_bytes 0 32 data))) (\<lambda>reserve0.
          bindE (ux_as_u128 ux (ux_from_big_endian ux (sub_bytes 32 64 data))) (\<lambda>reserve1.
          Inr (put_pool pools entry False reserve0 reserve1)))
        else Inr pools)"

text \<open>The virtual reserves of a V3 pool, narrowed to 128 bits.\<close>

definition virtual_reserves :: "u256crate \<Rightarrow> u128 \<Rightarrow> u256 \<Rightarrow> (u128 \<times> u128) exec" where
  "virtual_reserves ux liquidity sqrt_price =
    (let q96 = push_bit 96 1; liq_u256 = ucast liquidity in
     bindE (ux_mul ux liq_u256 q96) (\<lambda>n0. bindE (ux_div ux n0 sqrt_price) (\<lambda>d0. bindE (ux_as_u128 ux d0) (\<lambda>reserve0.
     bindE (ux_mul ux liq_u256 sqrt_price) (\<lambda>n1. bindE (ux_div ux n1 q96) (\<lambda>d1. bindE (ux_as_u128 ux d1) (\<lambda>reserve1.
     Inr (reserve0, reserve1))))))))"

definition v3_entry ::
  "u256crate \<Rightarrow> bytes option list \<Rightarrow> nat \<Rightarrow> (address \<times> PoolData) list \<Rightarrow> nat \<times> pool_entry \<Rightarrow> (address \<times> PoolData) list exec" where
  "v3_entry ux parsed v3_start pools = (\<lambda>(i, entry).
    case (result_at parsed (v3_start + i * 2), result_at parsed (v3_start + i * 2 + 1)) of
      (Some s0, Some liq) \<Rightarrow>
        if 32 \<le> length s0 \<and> 32 \<le> length liq then
          let sqrt_price = ux_from_big_endian ux (sub_bytes 0 32 s0) in
          bindE (ux_as_u128 ux (ux_from_big_endian ux (sub_bytes 0 32 liq))) (\<lambda>liquidity.
          if 0 < liquidity \<and> sqrt_price \<noteq> 0 then
            bindE (virtual_reserves ux liquidity sqrt_price) (\<lambda>(reserve0, reserve1).
            Inr (put_pool pools entry True reserve0 reserve1))
          else Inr pools)
        else Inr pools
    | _ \<Rightarrow> Inr pools)"

definition apply_results :: "u256crate \<Rightarrow> bytes option list \<Rightarrow> 'p UltraFastPoolManager \<Rightarrow> 'p UltraFastPoolManager exec" where
  "apply_results ux parsed m =
    bindE (foldE (v2_entry ux parsed) (um_pools m) (enumerate 0 (um_v2_pools m))) (\<lambda>pools.
    bindE (foldE (v3_entry ux parsed (length (um_v2_pools m))) pools (enumerate 0 (um_v3_pools m))) (\<lambda>pools'.
    Inr (m\<lparr>um_pools := pools'\<rparr>)))"

definition uf_refresh_all ::
  "u256crate \<Rightarrow> multicall_abi \<Rightarrow> 'p uf_net \<Rightarrow> 'p UltraFastPoolManager \<Rightarrow> 'p UltraFastPoolManager exec" where
  "uf_refresh_all ux abi net m =
    (let tx = \<lparr>tq_to = um_multicall_addr m, tq_data = encode_multicall abi (refresh_calls m)\<rparr>
     in bindE (refresh_request net m tx) (\<lambda>r.
        case r of
          Inr result \<Rightarrow> apply_results ux (parse_multicall_response abi result) m
        | Inl e \<Rightarrow> Inr m))"

section \<open>The search\<close>

definition test_amounts :: "u128 list" where
  "test_amounts = [100000000000000000, 500000000000000000, 1000000000000000000, 5000000000000000000]"

definition weth_pools :: "'p UltraFastPoolManager \<Rightarrow> address \<Rightarrow> address \<Rightarrow> PoolData list" where
  "weth_pools m weth token =
    filter (\<lambda>p. (pd_token0 p = weth \<and> pd_token1 p = token) \<or> (pd_token0 p = token \<and> pd_token1 p = weth))
      (map snd (um_pools m))"

definition profit_bps_of :: "u128 \<Rightarrow> u128 \<Rightarrow> i32" where
  "profit_bps_of weth_out amount_in =
    (let ratio = f64_div (f64_of_u128 weth_out) (f64_of_u128 amount_in)
     in f64_to_i32 (f64_mult (f64_diff ratio (1, 0)) (10000, 0)))"

text \<open>The innermost loop body of \<^verbatim>\<open>find_opportunities\<close>.\<close>

definition try_amount ::
  "address \<Rightarrow> string \<Rightarrow> PoolData \<Rightarrow> PoolData \<Rightarrow> u128 \<Rightarrow> UfOpportunity option exec" where
  "try_amount weth token_name buy_pool sell_pool amount_in =
    bindE (pd_get_amount_out buy_pool amount_in (pd_token0 buy_pool = weth)) (\<lambda>tokens_bought.
    if tokens_bought = 0 then Inr None
    else bindE (pd_get_amount_out sell_pool tokens_bought (pd_token0 sell_pool \<noteq> weth)) (\<lambda>weth_out.
      Inr (if weth_out \<noteq> 0 \<and> amount_in < weth_out then
             let profit_bps = profit_bps_of weth_out amount_in
             in if sint UF_MIN_PROFIT_BPS \<le> sint profit_bps then
                  Some \<lparr>uo_token_name = token_name, uo_buy_pool = pd_address buy_pool,
                        uo_sell_pool = pd_address sell_pool, uo_amount_in = amount_in,
                        uo_profit_bps = profit_bps,
                        uo_profit_eth = f64_div (f64_of_u128 (weth_out - amount_in)) (f64_of_u128 1000000000000000000)\<rparr>
                else None
           else None)))"

definition token_candidates :: "PoolData list \<Rightarrow> (PoolData \<times> PoolData \<times> u128) list" where
  "token_candidates pools =
    (if length pools < 2 then []
     else concat (map (\<lambda>buy_pool. concat (map (\<lambda>sell_pool.
            if pd_address buy_pool = pd_address sell_pool then []
            else map (\<lambda>amount_in. (buy_pool, sell_pool, amount_in)) test_amounts) pools)) pools))"

definition search_candidates :: "'p UltraFastPoolManager \<Rightarrow> address \<Rightarrow> (string \<times> PoolData \<times> PoolData \<times> u128) list" where
  "search_candidates m weth =
    concat (map (\<lambda>(token_name, token).
      if token = weth then [] else map (Pair token_name) (token_candidates (weth_pools m weth token))) get_tokens)"

definition find_opportunities :: "'p UltraFastPoolManager \<Rightarrow> address \<Rightarrow> UfOpportunity list exec" where
  "find_opportunities m weth =
    bindE (collect_found (\<lambda>(token_name, buy_pool, sell_pool, amount_in). try_amount weth token_name buy_pool sell_pool amount_in)
             (search_candidates m weth)) (\<lambda>opportunities.
    Inr (sort_key (\<lambda>opp. - sint (uo_profit_bps opp)) opportunities))"

section \<open>The block loop\<close>

definition UF_WETH :: address where
  "UF_WETH = 0x82aF49447D8a07e3bd95BD0d56f35241523fBab1"

text \<open>Durations are in nanoseconds.\<close>

record uf_times =
  ut_total_refreshes :: u64
  ut_total_time :: nat
  ut_min_time :: nat
  ut_max_time :: nat

definition uf_times_new :: uf_times where
  "uf_times_new = \<lparr>ut_total_refreshes = 0, ut_total_time = 0, ut_min_time = 999000000000, ut_max_time = 0\<rparr>"

definition uf_count :: "nat \<Rightarrow> uf_times \<Rightarrow> uf_times" where
  "uf_count refresh_time t =
    \<lparr>ut_total_refreshes = ut_total_refreshes t + 1, ut_total_time = ut_total_time t + refresh_time,
     ut_min_time = min refresh_time (ut_min_time t), ut_max_time = max refresh_time (ut_max_time t)\<rparr>"

text \<open>A new block: refresh, count, search; every tenth time the average is computed, with the count
  truncated to 32 bits.\<close>

definition uf_block ::
  "u256crate \<Rightarrow> multicall_abi \<Rightarrow> 'p uf_net \<times> nat \<Rightarrow> 'p UltraFastPoolManager \<times> uf_times \<Rightarrow>
    (('p UltraFastPoolManager \<times> uf_times) \<times> UfOpportunity list) exec" where
  "uf_block ux abi = (\<lambda>(net, refresh_time) (m, t).
    bindE (uf_refresh_all ux abi net m) (\<lambda>m'.
    let t' = uf_count refresh_time t in
    bindE (find_opportunities m' UF_WETH) (\<lambda>opps.
    if ut_total_refreshes t' mod 10 = 0 \<and> (ucast (ut_total_refreshes t') :: u32) = 0 then Inl DivisionByZero
    else Inr ((m', t'), opps))))"

fun uf_loop ::
  "u256crate \<Rightarrow> multicall_abi \<Rightarrow> ('p uf_net \<times> nat) list \<Rightarrow> 'p UltraFastPoolManager \<times> uf_times \<Rightarrow>
    (('p UltraFastPoolManager \<times> uf_times) \<times> UfOpportunity list list) exec" where
  "uf_loop ux abi [] s = Inr (s, [])"
| "uf_loop ux abi (blk # blks) s =
    bindE (uf_block ux abi blk s) (\<lambda>(s', opps). bindE (uf_loop ux abi blks s') (\<lambda>(s'', found). Inr (s'', opps # found)))"

text \<open>\<^verbatim>\<open>main\<close> up to the loop: \<open>None\<close> when it returns early, without a provider or without the
  web socket. Only providers whose URL parses are used.\<close>

definition uf_setup ::
  "u256crate \<Rightarrow> multicall_abi \<Rightarrow> (string \<Rightarrow> 'p option) \<Rightarrow> 'p option \<Rightarrow> 'p uf_net \<Rightarrow> 'p uf_net \<Rightarrow> 'p uf_net \<Rightarrow>
    'p UltraFastPoolManager option exec" where
  "uf_setup ux abi try_from ws net0 net1 net2 =
    (let providers = List.map_filter try_from RPC_URLS
     in if providers = [] then Inr None
        else
          bindE (uf_discover_pools abi net0 (uf_manager_new providers)) (\<lambda>m0.
          bindE (uf_refresh_all ux abi net1 m0) (\<lambda>m1.
          case ws of
            None \<Rightarrow> Inr None
          | Some w \<Rightarrow> bindE (uf_refresh_all ux abi net2 (set_ws_provider m1 w)) (\<lambda>m2. Inr (Some m2)))))"

section \<open>Quotes\<close>

definition pd_in :: "PoolData \<Rightarrow> bool \<Rightarrow> u128" where
  "pd_in p z = (if z then pd_reserve0 p else pd_reserve1 p)"

definition pd_out :: "PoolData \<Rightarrow> bool \<Rightarrow> u128" where
  "pd_out p z = (if z then pd_reserve1 p else pd_reserve0 p)"

definition pd_share :: "PoolData \<Rightarrow> nat" where
  "pd_share p = 10000 - unat (pd_fee_bps p)"

lemma pd_get_amount_out_unfold:
  "pd_get_amount_out p a z =
    (if pd_in p z = 0 \<or> pd_out p z = 0 then Inr 0
     else let w = a * (10000 - ucast (pd_fee_bps p)); d = pd_in p z * 10000 + w
          in if d = 0 then Inl DivisionByZero else Inr (w * pd_out p z div d))"
  by (simp add: pd_get_amount_out_def pd_in_def pd_out_def Let_def)

lemma unat_pd_share:
  assumes "unat (pd_fee_bps p) \<le> 10000"
  shows "unat (10000 - ucast (pd_fee_bps p) :: u128) = pd_share p"
proof -
  have "unat (ucast (pd_fee_bps p) :: u128) = unat (pd_fee_bps p)"
    using unat_bound [of "pd_fee_bps p"] by (simp add: unsigned_ucast_eq take_bit_eq_mod)
  with assms show ?thesis
    by (subst unat_sub_exact) (simp_all add: word_le_nat_alt pd_share_def)
qed

text \<open>The operands of a quote that does not overflow.\<close>

lemma pd_denominator:
  assumes "unat (pd_fee_bps p) \<le> 10000" "unat (pd_in p z) * 10000 + unat a * pd_share p < 2 ^ 128"
  shows "unat (a * (10000 - ucast (pd_fee_bps p))) = unat a * pd_share p"
    and "unat (pd_in p z * 10000 + a * (10000 - ucast (pd_fee_bps p))) = unat (pd_in p z) * 10000 + unat a * pd_share p"
proof -
  show w: "unat (a * (10000 - ucast (pd_fee_bps p))) = unat a * pd_share p"
    using assms by (subst unat_mult_exact) (simp_all add: unat_pd_share)
  have r: "unat (pd_in p z * 10000) = unat (pd_in p z) * 10000"
    using assms by (subst unat_mult_exact) simp_all
  show "unat (pd_in p z * 10000 + a * (10000 - ucast (pd_fee_bps p))) = unat (pd_in p z) * 10000 + unat a * pd_share p"
    using assms by (subst unat_add_exact) (simp_all add: r w)
qed

text \<open>A denominator that does not overflow bounds the quote, whatever the numerator wraps to.\<close>

lemma pd_quote_capped:
  assumes "pd_get_amount_out p a z = Inr q" "unat (pd_fee_bps p) \<le> 10000"
    and fits: "unat (pd_in p z) * 10000 + unat a * pd_share p < 2 ^ 128"
  shows "unat q * (unat (pd_in p z) * 10000 + unat a * pd_share p) < 2 ^ 128"
proof (cases "pd_in p z = 0 \<or> pd_out p z = 0")
  case True
  with assms(1) show ?thesis
    by (auto simp: pd_get_amount_out_unfold)
next
  case False
  define w where "w = a * (10000 - ucast (pd_fee_bps p) :: u128)"
  have "q = w * pd_out p z div (pd_in p z * 10000 + w)"
    using assms(1) False by (auto simp: pd_get_amount_out_unfold Let_def w_def split: if_splits)
  then have "unat q * unat (pd_in p z * 10000 + w) \<le> unat (w * pd_out p z)"
    by (simp add: unat_div)
  also have "\<dots> < 2 ^ 128"
    using unat_bound [of "w * pd_out p z"] by simp
  finally show ?thesis
    by (simp only: w_def pd_denominator [OF assms(2) fits])
qed

lemma pd_quote_exact:
  assumes "unat (pd_fee_bps p) \<le> 10000" "pd_in p z \<noteq> 0" "pd_out p z \<noteq> 0"
    and "unat a * pd_share p * unat (pd_out p z) < 2 ^ 128"
    and fits: "unat (pd_in p z) * 10000 + unat a * pd_share p < 2 ^ 128"
  obtains q where "pd_get_amount_out p a z = Inr q"
    "unat q = cp_quote (unat (pd_in p z)) (unat (pd_out p z)) (pd_share p) (unat a)"
proof -
  define w where "w = a * (10000 - ucast (pd_fee_bps p) :: u128)"
  note wd = pd_denominator [OF assms(1) fits, folded w_def]
  have "pd_in p z * 10000 + w \<noteq> 0"
    using wd(2) assms(2) by (auto simp: unat_eq_iff)
  then have "pd_get_amount_out p a z = Inr (w * pd_out p z div (pd_in p z * 10000 + w))"
    using assms(2,3) by (simp add: pd_get_amount_out_unfold Let_def w_def)
  moreover have "unat (w * pd_out p z div (pd_in p z * 10000 + w))
      = cp_quote (unat (pd_in p z)) (unat (pd_out p z)) (pd_share p) (unat a)"
    using assms(4) by (simp add: unat_div wd cp_quote_def unat_mult_exact)
  ultimately show ?thesis
    by (rule that)
qed

text \<open>Without overflow the \<^verbatim>\<open>u128\<close> quote of the scanner is the quote of the engine. For a fee below
  10000 basis points and a positive amount whose products fit into 128 bits, it returns what
  \<^verbatim>\<open>constant_product_swap\<close> returns, which is the exact constant-product amount. A pool without
  reserves gives 0 in both.\<close>

theorem ultrafast_quote_agrees:
  assumes "unat (pd_fee_bps p) < 10000" "0 < a"
    and "unat a * pd_share p * unat (pd_out p z) < 2 ^ 128"
    and "unat (pd_in p z) * 10000 + unat a * pd_share p < 2 ^ 128"
  shows "pd_get_amount_out p a z = Inr (constant_product_swap a (pd_in p z) (pd_out p z) (ucast (pd_fee_bps p)))
    \<and> unat (constant_product_swap a (pd_in p z) (pd_out p z) (ucast (pd_fee_bps p)))
      = (if pd_in p z = 0 \<or> pd_out p z = 0 then 0
         else cp_quote (unat (pd_in p z)) (unat (pd_out p z)) (pd_share p) (unat a))"
proof (cases "pd_in p z = 0 \<or> pd_out p z = 0")
  case True
  then have "constant_product_swap a (pd_in p z) (pd_out p z) (ucast (pd_fee_bps p)) = 0"
    by (auto simp: constant_product_swap_def)
  with True show ?thesis
    by (auto simp: pd_get_amount_out_unfold)
next
  case False
  then obtain q where q: "pd_get_amount_out p a z = Inr q"
    "unat q = cp_quote (unat (pd_in p z)) (unat (pd_out p z)) (pd_share p) (unat a)"
    using pd_quote_exact [of p z a] assms by auto
  have fee: "unat (ucast (pd_fee_bps p) :: u128) = unat (pd_fee_bps p)"
    using unat_bound [of "pd_fee_bps p"] by (simp add: unsigned_ucast_eq take_bit_eq_mod)
  have "unat (constant_product_swap a (pd_in p z) (pd_out p z) (ucast (pd_fee_bps p))) = unat q"
    using False assms by (auto simp: constant_product_swap_value Let_def fee q(2) cp_quote_def pd_share_def word_le_nat_alt)
  with q False show ?thesis
    by (simp add: unat_eq_iff)
qed

definition sample_pd :: "address \<Rightarrow> u128 \<Rightarrow> u128 \<Rightarrow> PoolData" where
  "sample_pd a r0 r1 = \<lparr>pd_address = a, pd_token0 = UF_WETH, pd_token1 = 0xaf88d065e77c8cC2239327C5EDb3A432268e5831,
     pd_is_v3 = False, pd_fee_bps = 30, pd_reserve0 = r0, pd_reserve1 = r1\<rparr>"

theorem ultrafast_quote_agrees_witness:
  "pd_get_amount_out (sample_pd 7 1000000 2000000) 5000 True = Inr (constant_product_swap 5000 1000000 2000000 30)"
  using ultrafast_quote_agrees [of "sample_pd 7 1000000 2000000" 5000 True]
  by (simp add: sample_pd_def pd_in_def pd_out_def pd_share_def)

section \<open>The opportunities found\<close>

definition opportunity_for :: "string \<Rightarrow> PoolData \<Rightarrow> PoolData \<Rightarrow> u128 \<Rightarrow> u128 \<Rightarrow> UfOpportunity" where
  "opportunity_for token_name buy sell a out =
    \<lparr>uo_token_name = token_name, uo_buy_pool = pd_address buy, uo_sell_pool = pd_address sell, uo_amount_in = a,
     uo_profit_bps = profit_bps_of out a,
     uo_profit_eth = f64_div (f64_of_u128 (out - a)) (f64_of_u128 1000000000000000000)\<rparr>"

lemma two_quotes_Some_iff:
  "bindE x (\<lambda>b. if b = 0 then Inr None else bindE (f b) (\<lambda>out. Inr (if P out then Some (g out) else None))) = Inr (Some w)
    \<longleftrightarrow> (\<exists>b out. x = Inr b \<and> b \<noteq> 0 \<and> f b = Inr out \<and> P out \<and> w = g out)"
  by (auto simp: bindE_eq_Inr_iff split: if_splits)

lemma try_amount_Some_iff:
  "try_amount weth token_name buy sell a = Inr (Some w) \<longleftrightarrow>
    (\<exists>bought out. pd_get_amount_out buy a (pd_token0 buy = weth) = Inr bought \<and> bought \<noteq> 0
       \<and> pd_get_amount_out sell bought (pd_token0 sell \<noteq> weth) = Inr out \<and> a < out
       \<and> 10 \<le> sint (profit_bps_of out a) \<and> w = opportunity_for token_name buy sell a out)"
proof -
  have ten: "sint UF_MIN_PROFIT_BPS = 10"
    by (simp add: UF_MIN_PROFIT_BPS_def)
  have pos: "out \<noteq> 0 \<and> a < out \<longleftrightarrow> a < out" for out :: u128
    by (auto simp: word_less_nat_alt)
  have nested: "(if b then if c then x else None else None) = (if b \<and> c then x else None)" for b c and x :: "UfOpportunity option"
    by simp
  have "try_amount weth token_name buy sell a = bindE (pd_get_amount_out buy a (pd_token0 buy = weth)) (\<lambda>bought.
      if bought = 0 then Inr None
      else bindE (pd_get_amount_out sell bought (pd_token0 sell \<noteq> weth)) (\<lambda>out.
        Inr (if a < out \<and> 10 \<le> sint (profit_bps_of out a) then Some (opportunity_for token_name buy sell a out) else None)))"
    unfolding try_amount_def opportunity_for_def Let_def ten pos nested ..
  then show ?thesis
    by (simp only: two_quotes_Some_iff conj_assoc)
qed

lemma set_token_candidates:
  "(b, s, a) \<in> set (token_candidates pools) \<longleftrightarrow>
    b \<in> set pools \<and> s \<in> set pools \<and> pd_address b \<noteq> pd_address s \<and> a \<in> set test_amounts"
proof (cases "length pools < 2")
  case True
  then have "b = s" if "b \<in> set pools" "s \<in> set pools"
    using that by (cases pools) auto
  with True show ?thesis
    by (auto simp: token_candidates_def)
next
  case False
  then show ?thesis
    by (auto simp: token_candidates_def)
qed

lemma set_search_candidates:
  "(n, b, s, a) \<in> set (search_candidates m weth) \<longleftrightarrow>
    (\<exists>token. (n, token) \<in> set get_tokens \<and> token \<noteq> weth \<and> b \<in> set (weth_pools m weth token)
       \<and> s \<in> set (weth_pools m weth token) \<and> pd_address b \<noteq> pd_address s \<and> a \<in> set test_amounts)"
proof -
  have "(n, b, s, a) \<in> set (if token = weth then [] else map (Pair n') (token_candidates ps)) \<longleftrightarrow>
      n' = n \<and> token \<noteq> weth \<and> (b, s, a) \<in> set (token_candidates ps)" for n' token ps
    by auto
  then show ?thesis
    unfolding search_candidates_def set_concat set_map set_token_candidates by fastforce
qed

text \<open>C21: the search reports exactly the round trips it means to. When it returns, the opportunities are
  ordered by falling profit, and a record is among them exactly if, for a listed token other than
  WETH and two of its WETH pools with different addresses, buying the token with one of the test
  amounts in the first pool and selling it in the second gives back more than was paid, with a
  computed profit of at least 10 basis points, according to the quotes of the pools.\<close>

theorem find_opportunities_exact:
  assumes "find_opportunities m weth = Inr opps"
  shows "sorted_wrt (\<lambda>v w. sint (uo_profit_bps w) \<le> sint (uo_profit_bps v)) opps
    \<and> (w \<in> set opps \<longleftrightarrow>
        (\<exists>token_name token buy sell a bought out. (token_name, token) \<in> set get_tokens \<and> token \<noteq> weth
          \<and> buy \<in> set (weth_pools m weth token) \<and> sell \<in> set (weth_pools m weth token)
          \<and> pd_address buy \<noteq> pd_address sell \<and> a \<in> set test_amounts
          \<and> pd_get_amount_out buy a (pd_token0 buy = weth) = Inr bought \<and> bought \<noteq> 0
          \<and> pd_get_amount_out sell bought (pd_token0 sell \<noteq> weth) = Inr out \<and> a < out
          \<and> 10 \<le> sint (profit_bps_of out a) \<and> w = opportunity_for token_name buy sell a out))"
proof -
  obtain found where found: "collect_found (\<lambda>(n, b, s, a). try_amount weth n b s a) (search_candidates m weth) = Inr found"
    and opps: "opps = sort_key (\<lambda>opp. - sint (uo_profit_bps opp)) found"
    using assms by (auto simp: find_opportunities_def bindE_eq_Inr_iff)
  have "sorted (map (\<lambda>opp. - sint (uo_profit_bps opp)) opps)"
    unfolding opps by (rule sorted_sort_key)
  then have "sorted_wrt (\<lambda>v w. sint (uo_profit_bps w) \<le> sint (uo_profit_bps v)) opps"
    by (simp add: sorted_map)
  moreover have "w \<in> set opps \<longleftrightarrow>
      (\<exists>n b s a. (n, b, s, a) \<in> set (search_candidates m weth) \<and> try_amount weth n b s a = Inr (Some w))"
    unfolding opps set_sort set_collect_found [OF found] by (simp add: Bex_def)
  ultimately show ?thesis
    unfolding set_search_candidates try_amount_Some_iff by blast
qed

section \<open>Overflow of the quotes\<close>

text \<open>Pools with the fees that discovery records and reserves in the range of a V2 pair.\<close>

definition pd_small :: "PoolData \<Rightarrow> bool" where
  "pd_small p \<longleftrightarrow> unat (pd_fee_bps p) \<le> 100 \<and> unat (pd_reserve0 p) < 2 ^ 112 \<and> unat (pd_reserve1 p) < 2 ^ 112"

lemma pd_smallD:
  assumes "pd_small p"
  shows "unat (pd_in p z) < 2 ^ 112" "unat (pd_fee_bps p) \<le> 10000" "9900 \<le> pd_share p" "pd_share p \<le> 10000"
  using assms by (auto simp: pd_small_def pd_in_def pd_share_def)

lemma pd_quote_returns:
  assumes "unat (pd_fee_bps p) \<le> 10000" "unat (pd_in p z) * 10000 + unat a * pd_share p < 2 ^ 128"
  obtains q where "pd_get_amount_out p a z = Inr q"
    "unat q * (unat (pd_in p z) * 10000 + unat a * pd_share p) < 2 ^ 128"
proof -
  have "\<exists>q. pd_get_amount_out p a z = Inr q"
  proof (cases "pd_in p z = 0 \<or> pd_out p z = 0")
    case False
    then have "pd_in p z * 10000 + a * (10000 - ucast (pd_fee_bps p)) \<noteq> 0"
      using pd_denominator(2) [OF assms] by (auto simp: unat_eq_iff)
    then show ?thesis
      by (simp add: pd_get_amount_out_unfold Let_def)
  qed (auto simp: pd_get_amount_out_unfold)
  then show ?thesis
    using pd_quote_capped [OF _ assms] that by blast
qed

lemma test_amounts_range: "a \<in> set test_amounts \<Longrightarrow> 10 ^ 17 \<le> unat a \<and> unat a \<le> 5 * 10 ^ 18"
  by (auto simp: test_amounts_def)

lemma buy_leg:
  assumes "pd_small p" "a \<in> set test_amounts"
  obtains q where "pd_get_amount_out p a z = Inr q" "unat q < 350000000000000000"
proof -
  note small = pd_smallD [OF assms(1)]
  have a: "10 ^ 17 \<le> unat a" "unat a \<le> 5 * 10 ^ 18"
    using test_amounts_range [OF assms(2)] by simp_all
  have hi: "unat a * pd_share p \<le> 5 * 10 ^ 18 * 10000"
    using a(2) small(4) by (rule mult_le_mono)
  have lo: "10 ^ 17 * 9900 \<le> unat a * pd_share p"
    using a(1) small(3) by (rule mult_le_mono)
  have "unat (pd_in p z) * 10000 + unat a * pd_share p < 2 ^ 112 * 10000 + 5 * 10 ^ 18 * 10000 + 1"
    using small(1) [of z] hi by simp
  also have "\<dots> < 2 ^ 128" by simp
  finally obtain q where q: "pd_get_amount_out p a z = Inr q"
    "unat q * (unat (pd_in p z) * 10000 + unat a * pd_share p) < 2 ^ 128"
    using pd_quote_returns [OF small(2)] by blast
  have "unat q * (10 ^ 17 * 9900) \<le> unat q * (unat (pd_in p z) * 10000 + unat a * pd_share p)"
    using lo by (intro mult_le_mono2) simp
  also note q(2)
  finally show ?thesis
    by (intro that [OF q(1)]) simp
qed

lemma sell_leg:
  assumes "pd_small p" "unat b < 350000000000000000"
  obtains q where "pd_get_amount_out p b z = Inr q" "unat q * unat (pd_in p z) * 10000 < 2 ^ 128"
proof -
  note small = pd_smallD [OF assms(1)]
  have "unat b * pd_share p \<le> 350000000000000000 * 10000"
    using assms(2) small(4) by (intro mult_le_mono) simp_all
  then have "unat (pd_in p z) * 10000 + unat b * pd_share p < 2 ^ 112 * 10000 + 350000000000000000 * 10000 + 1"
    using small(1) [of z] by simp
  also have "\<dots> < 2 ^ 128" by simp
  finally obtain q where q: "pd_get_amount_out p b z = Inr q"
    "unat q * (unat (pd_in p z) * 10000 + unat b * pd_share p) < 2 ^ 128"
    using pd_quote_returns [OF small(2)] by blast
  then show ?thesis
    by (intro that [of q]) (simp_all add: algebra_simps)
qed

lemma try_amount_small:
  assumes "pd_small buy" "pd_small sell" "a \<in> set test_amounts"
  obtains r where "try_amount weth n buy sell a = Inr r"
    "\<And>w. r = Some w \<Longrightarrow> unat (pd_in sell (pd_token0 sell \<noteq> weth)) < 350000000000000000"
proof -
  obtain bought where bought: "pd_get_amount_out buy a (pd_token0 buy = weth) = Inr bought" "unat bought < 350000000000000000"
    using assms(1,3) by (rule buy_leg)
  obtain out where out: "pd_get_amount_out sell bought (pd_token0 sell \<noteq> weth) = Inr out"
    "unat out * unat (pd_in sell (pd_token0 sell \<noteq> weth)) * 10000 < 2 ^ 128"
    using assms(2) bought(2) by (rule sell_leg)
  obtain r where r: "try_amount weth n buy sell a = Inr r"
    by (cases "bought = 0") (simp_all add: try_amount_def bought(1) out(1))
  have "unat (pd_in sell (pd_token0 sell \<noteq> weth)) < 350000000000000000" if "r = Some w" for w
  proof -
    have "a < out"
      using r that bought(1) out(1) unfolding that try_amount_Some_iff by auto
    then have "10 ^ 17 \<le> unat out"
      using test_amounts_range [OF assms(3)] by (simp add: word_less_nat_alt)
    then have "10 ^ 17 * unat (pd_in sell (pd_token0 sell \<noteq> weth)) * 10000 \<le> unat out * unat (pd_in sell (pd_token0 sell \<noteq> weth)) * 10000"
      by (intro mult_le_mono1)
    also note out(2)
    finally show ?thesis by simp
  qed
  with r show ?thesis
    by (rule that)
qed

lemma weth_pools_subset: "set (weth_pools m weth token) \<subseteq> snd ` set (um_pools m)"
  by (auto simp: weth_pools_def)

lemma find_opportunities_returns:
  assumes "\<forall>p \<in> snd ` set (um_pools m). pd_small p"
  obtains opps where "find_opportunities m weth = Inr opps"
proof -
  have "no_panic (collect_found (\<lambda>(n, b, s, a). try_amount weth n b s a) (search_candidates m weth))"
  proof (intro collect_found_returns ballI)
    fix c assume "c \<in> set (search_candidates m weth)"
    then obtain n b s a token where c: "c = (n, b, s, a)" "b \<in> set (weth_pools m weth token)"
      "s \<in> set (weth_pools m weth token)" "a \<in> set test_amounts"
      by (metis prod_cases4 set_search_candidates)
    with assms weth_pools_subset [of m weth token] have "pd_small b" "pd_small s"
      by blast+
    then obtain r where "try_amount weth n b s a = Inr r"
      using c(4) by (rule try_amount_small)
    with c(1) show "no_panic (case c of (n, b, s, a) \<Rightarrow> try_amount weth n b s a)"
      by simp
  qed
  then obtain found where "collect_found (\<lambda>(n, b, s, a). try_amount weth n b s a) (search_candidates m weth) = Inr found"
    by (auto simp: no_panic_def)
  then show ?thesis
    by (intro that) (simp add: find_opportunities_def)
qed


definition two_pool_manager :: "PoolData \<Rightarrow> PoolData \<Rightarrow> nat UltraFastPoolManager" where
  "two_pool_manager p q = (uf_manager_new [1])\<lparr>um_pools := [(pd_address p, p), (pd_address q, q)]\<rparr>"

lemma two_pool_manager_pools [simp]: "um_pools (two_pool_manager p q) = [(pd_address p, p), (pd_address q, q)]"
  by (simp add: two_pool_manager_def)

text \<open>Two WETH/ARB pools, one at 2000 ARB and one at 1000 ARB for one WETH: buying in the first and selling in
  the second doubles the money, but nothing is reported.\<close>

definition arb_pool :: "address \<Rightarrow> u128 \<Rightarrow> PoolData" where
  "arb_pool a r = \<lparr>pd_address = a, pd_token0 = UF_WETH, pd_token1 = 0x912CE59144191C1204E64559FE8253a0e49E6548,
     pd_is_v3 = False, pd_fee_bps = 30, pd_reserve0 = 1000000000000000000000, pd_reserve1 = r\<rparr>"


text \<open>Two WETH/USDC pools at 3300 and at 3000 USDC for one WETH: the trade with one WETH is reported.\<close>

definition gap_manager :: "nat UltraFastPoolManager" where
  "gap_manager = two_pool_manager (sample_pd 7 1000000000000000000000 3300000000000) (sample_pd 8 1000000000000000000000 3000000000000)"

lemma gap_quotes:
  "pd_get_amount_out (sample_pd 7 1000000000000000000000 3300000000000) 1000000000000000000 True = Inr 3286823037"
  "pd_get_amount_out (sample_pd 8 1000000000000000000000 3000000000000) 3286823037 False = Inr 1091128993007392119"
  by (simp_all add: pd_get_amount_out_def sample_pd_def)

lemma gap_bps: "sint (profit_bps_of 1091128993007392119 1000000000000000000) = 911"
proof -
  have "f64_of_u128 1091128993007392119 = (8524445257870251, 7)" "f64_of_u128 1000000000000000000 = (7812500000000000, 7)"
    by (simp_all add: f64_of_u128_def round53_eval [where k = 7])
  moreover have "f64_div (8524445257870251, 7) (7812500000000000, 7) = (4914008126321236, - 52)"
    by (simp add: f64_div_def round53_eval [where k = 69])
  moreover have "f64_diff (4914008126321236, - 52) (1, 0) = (410408498950740, - 52)"
    by (simp add: f64_diff_def round53_def)
  moreover have "f64_mult (410408498950740, - 52) (10000, 0) = (8015790995131641, - 43)"
    by (simp add: f64_mult_def round53_eval [where k = 9])
  ultimately show ?thesis
    by (simp add: profit_bps_of_def f64_to_i32_def f64_trunc_def)
qed

theorem find_opportunities_exact_witness:
  "\<exists>opps. find_opportunities gap_manager UF_WETH = Inr opps
    \<and> opportunity_for ''USDC'' (sample_pd 7 1000000000000000000000 3300000000000)
         (sample_pd 8 1000000000000000000000 3000000000000) 1000000000000000000 1091128993007392119 \<in> set opps"
proof -
  let ?a = "sample_pd 7 1000000000000000000000 3300000000000" and ?b = "sample_pd 8 1000000000000000000000 3000000000000"
  obtain opps where opps: "find_opportunities gap_manager UF_WETH = Inr opps"
    by (rule find_opportunities_returns [of gap_manager UF_WETH]) (auto simp: gap_manager_def pd_small_def sample_pd_def)
  have pools: "?a \<in> set (weth_pools gap_manager UF_WETH 0xaf88d065e77c8cC2239327C5EDb3A432268e5831)"
    "?b \<in> set (weth_pools gap_manager UF_WETH 0xaf88d065e77c8cC2239327C5EDb3A432268e5831)"
    by (simp_all add: weth_pools_def gap_manager_def sample_pd_def)
  have token: "(''USDC'', 0xaf88d065e77c8cC2239327C5EDb3A432268e5831) \<in> set get_tokens"
    by (simp add: get_tokens_def)
  have dir: "(pd_token0 ?a = UF_WETH) = True" "(pd_token0 ?b \<noteq> UF_WETH) = False"
    by (simp_all add: sample_pd_def)
  have "opportunity_for ''USDC'' ?a ?b 1000000000000000000 1091128993007392119 \<in> set opps"
    unfolding find_opportunities_exact [OF opps, THEN conjunct2]
  proof (intro exI conjI)
    show "pd_get_amount_out ?a 1000000000000000000 (pd_token0 ?a = UF_WETH) = Inr 3286823037"
      "pd_get_amount_out ?b 3286823037 (pd_token0 ?b \<noteq> UF_WETH) = Inr 1091128993007392119"
      unfolding dir by (rule gap_quotes)+
    show "1000000000000000000 \<in> set test_amounts"
      by (simp add: test_amounts_def)
  qed (rule pools token refl | simp add: UF_WETH_def sample_pd_def gap_bps)+
  with opps show ?thesis by blast
qed

section \<open>Reading the multicall\<close>

text \<open>The contract's answer: \<open>enc\<close> is the encoding of the list of success flags and return data, which the
  decoder of the crate reads back. \<open>chain\<close> says what each contract returns for a call.\<close>

locale multicall_codec =
  fixes abi :: multicall_abi and enc :: "(bool \<times> bytes) list \<Rightarrow> bytes"
  assumes decode_enc: "abi_decode_results abi (enc rs) = Inr [TkArray (map (\<lambda>(ok, data). TkTuple [TkBool ok, TkBytes data]) rs)]"
    and length_enc: "64 \<le> length (enc rs)"
begin

lemma parse_enc:
  "parse_multicall_response abi (enc rs) = map (\<lambda>(ok, data). if ok \<and> data \<noteq> [] then Some data else None) rs"
  using length_enc [of rs] by (auto simp: parse_multicall_response_def decode_enc result_of_token_def)

end

type_synonym chain_view = "address \<Rightarrow> bytes \<Rightarrow> bool \<times> bytes"

definition call_result :: "chain_view \<Rightarrow> address \<times> bytes \<Rightarrow> bytes option" where
  "call_result chain = (\<lambda>(target, calldata). case chain target calldata of (ok, data) \<Rightarrow> if ok \<and> data \<noteq> [] then Some data else None)"

definition multicall_answer :: "chain_view \<Rightarrow> (address \<times> bytes) list \<Rightarrow> (bool \<times> bytes) list" where
  "multicall_answer chain = map (\<lambda>(target, calldata). chain target calldata)"

lemma parse_multicall_answer:
  "multicall_codec abi enc \<Longrightarrow> parse_multicall_response abi (enc (multicall_answer chain calls)) = map (call_result chain) calls"
  by (auto simp: multicall_codec.parse_enc multicall_answer_def call_result_def split: prod.splits)

text \<open>Loops over an enumerated list that look their answer up by index.\<close>

lemma foldE_enumerate:
  assumes "foldE f s (enumerate k es) = Inr s'" "\<And>i s s'. i < length es \<Longrightarrow> f s (k + i, es ! i) = Inr s' \<Longrightarrow> s' = h s (es ! i)"
  shows "s' = foldl h s es"
  using assms
proof (induction es arbitrary: k s)
  case (Cons e es)
  obtain t where t: "f s (k, e) = Inr t" "foldE f t (enumerate (Suc k) es) = Inr s'"
    using Cons.prems(1) by (auto simp: bindE_eq_Inr_iff)
  have "t = h s e"
    using Cons.prems(2) [of 0] t(1) by simp
  moreover have "s' = foldl h t es"
  proof (rule Cons.IH [OF t(2)])
    show "v' = h v (es ! i)" if "i < length es" "f v (Suc k + i, es ! i) = Inr v'" for i v v'
      using Cons.prems(2) [of "Suc i" v v'] that by simp
  qed
  ultimately show ?case
    by simp
qed simp

lemma nth_concat_pairs:
  "i < length xs \<Longrightarrow> concat (map (\<lambda>x. [f x, g x]) xs) ! (i * 2) = f (xs ! i)
    \<and> concat (map (\<lambda>x. [f x, g x]) xs) ! (i * 2 + 1) = g (xs ! i)"
proof (induction xs arbitrary: i)
  case (Cons x xs)
  then show ?case by (cases i) auto
qed simp

lemma length_concat_pairs: "length (concat (map (\<lambda>x. [f x, g x]) xs)) = 2 * length xs"
  by (induction xs) simp_all

text \<open>What the chain says about a pool: the record that the refresh stores, or nothing when a call fails or a
  reserve is not above 1000.\<close>

definition word_value :: "bytes \<Rightarrow> nat" where
  "word_value data = be_val (take 32 data)"

definition pool_record :: "pool_entry \<Rightarrow> bool \<Rightarrow> nat \<Rightarrow> nat \<Rightarrow> PoolData option" where
  "pool_record = (\<lambda>(a, t0, t1, fee) is_v3 r0 r1.
    if 1000 < r0 \<and> 1000 < r1 then
      Some \<lparr>pd_address = a, pd_token0 = t0, pd_token1 = t1, pd_is_v3 = is_v3, pd_fee_bps = fee,
            pd_reserve0 = word_of_nat r0, pd_reserve1 = word_of_nat r1\<rparr>
    else None)"

definition v2_view :: "chain_view \<Rightarrow> pool_entry \<Rightarrow> PoolData option" where
  "v2_view chain e =
    (case call_result chain (fst e, [0x09, 0x02, 0xf1, 0xac]) of
       Some data \<Rightarrow> if 64 \<le> length data then pool_record e False (word_value data) (word_value (drop 32 data)) else None
     | None \<Rightarrow> None)"

definition v3_view :: "chain_view \<Rightarrow> pool_entry \<Rightarrow> PoolData option" where
  "v3_view chain e =
    (case (call_result chain (fst e, [0x38, 0x50, 0xc7, 0xbd]), call_result chain (fst e, [0x1a, 0x68, 0x65, 0x02])) of
       (Some s0, Some liq) \<Rightarrow>
         let p = word_value s0; l = word_value liq
         in if 32 \<le> length s0 \<and> 32 \<le> length liq \<and> 0 < l \<and> 0 < p
            then pool_record e True (l * 2 ^ 96 div p) (l * p div 2 ^ 96) else None
     | _ \<Rightarrow> None)"

definition put_view :: "(pool_entry \<Rightarrow> PoolData option) \<Rightarrow> (address \<times> PoolData) list \<Rightarrow> pool_entry \<Rightarrow> (address \<times> PoolData) list" where
  "put_view view pools e = (case view e of Some d \<Rightarrow> AList.update (fst e) d pools | None \<Rightarrow> pools)"

lemma put_pool_view:
  "put_pool pools e is_v3 r0 r1 = put_view (\<lambda>e. pool_record e is_v3 (unat r0) (unat r1)) pools e"
  by (auto simp: put_pool_def put_view_def pool_record_def word_less_nat_alt split: prod.splits)

lemma map_of_put_views:
  assumes "distinct (map fst es)"
  shows "map_of (foldl (put_view view) pools es) a =
    (case map_of (map (\<lambda>e. (fst e, view e)) es) a of Some (Some d) \<Rightarrow> Some d | _ \<Rightarrow> map_of pools a)"
  using assms
proof (induction es arbitrary: pools)
  case (Cons e es)
  have fresh: "map_of (map (\<lambda>e. (fst e, view e)) es) (fst e) = None"
    using Cons.prems by (simp add: map_of_eq_None_iff image_image)
  have "map_of (put_view view pools e) a = (if a = fst e then (case view e of Some d \<Rightarrow> Some d | None \<Rightarrow> map_of pools a) else map_of pools a)"
    by (auto simp: put_view_def map_of_alist_update split: option.splits)
  with Cons fresh show ?case
    by (auto split: option.splits)
qed simp

lemma map_of_two_views:
  assumes "distinct (map fst (es @ fs))"
  shows "\<forall>e \<in> set es. map_of (foldl (put_view g) (foldl (put_view f) pools es) fs) (fst e)
      = (case f e of Some d \<Rightarrow> Some d | None \<Rightarrow> map_of pools (fst e))"
    and "\<forall>e \<in> set fs. map_of (foldl (put_view g) (foldl (put_view f) pools es) fs) (fst e)
      = (case g e of Some d \<Rightarrow> Some d | None \<Rightarrow> map_of pools (fst e))"
    and "\<forall>a. a \<notin> fst ` set (es @ fs) \<longrightarrow> map_of (foldl (put_view g) (foldl (put_view f) pools es) fs) a = map_of pools a"
proof -
  have d: "distinct (map fst es)" "distinct (map fst fs)" "fst ` set es \<inter> fst ` set fs = {}"
    using assms by auto
  have listed: "map_of (map (\<lambda>e. (fst e, view e)) xs) (fst e) = Some (view e)" if "distinct (map fst xs)" "e \<in> set xs"
    for xs :: "pool_entry list" and view :: "pool_entry \<Rightarrow> PoolData option" and e
    using that by (intro map_of_is_SomeI) (auto simp: comp_def)
  have unlisted: "map_of (map (\<lambda>e. (fst e, view e)) xs) a = None" if "a \<notin> fst ` set xs"
    for xs :: "pool_entry list" and view :: "pool_entry \<Rightarrow> PoolData option" and a
    using that by (simp add: map_of_eq_None_iff image_image)
  have other: "fst e \<notin> fst ` set fs" if "e \<in> set es" for e
    using d(3) that by blast
  have other': "fst e \<notin> fst ` set es" if "e \<in> set fs" for e
    using d(3) that by blast
  show "\<forall>e \<in> set es. map_of (foldl (put_view g) (foldl (put_view f) pools es) fs) (fst e)
      = (case f e of Some d \<Rightarrow> Some d | None \<Rightarrow> map_of pools (fst e))"
    "\<forall>e \<in> set fs. map_of (foldl (put_view g) (foldl (put_view f) pools es) fs) (fst e)
      = (case g e of Some d \<Rightarrow> Some d | None \<Rightarrow> map_of pools (fst e))"
    "\<forall>a. a \<notin> fst ` set (es @ fs) \<longrightarrow> map_of (foldl (put_view g) (foldl (put_view f) pools es) fs) a = map_of pools a"
    by (simp_all add: map_of_put_views d(1,2) listed unlisted other other' image_Un split: option.splits)
qed

context u256_laws
begin

lemma v2_entry_view:
  assumes "result_at parsed i = call_result chain (fst e, [0x09, 0x02, 0xf1, 0xac])" "v2_entry ux parsed pools (i, e) = Inr pools'"
  shows "pools' = put_view (v2_view chain) pools e"
proof (cases "\<exists>data. result_at parsed i = Some data \<and> 64 \<le> length data")
  case True
  then obtain data where data: "result_at parsed i = Some data" "64 \<le> length data"
    by blast
  obtain r0 r1 where r: "unat r0 = word_value data" "unat r1 = word_value (drop 32 data)" "pools' = put_pool pools e False r0 r1"
    using assms(2) data
    by (auto simp: v2_entry_def bindE_eq_Inr_iff as_u128_Inr_iff unat_from_big_endian word_value_def sub_bytes_def)
  then show ?thesis
    using assms(1) [symmetric] data by (simp add: put_pool_view put_view_def v2_view_def)
next
  case False
  with assms show ?thesis
    by (auto simp: v2_entry_def put_view_def v2_view_def split: option.splits if_splits)
qed

lemma virtual_reserves_value:
  "virtual_reserves ux l p = Inr (r0, r1) \<Longrightarrow> unat r0 = unat l * 2 ^ 96 div unat p \<and> unat r1 = unat l * unat p div 2 ^ 96"
proof -
  have "unat (ucast l :: u256) = unat l"
    using unat_bound [of l] by (simp add: unsigned_ucast_eq take_bit_eq_mod)
  then show "virtual_reserves ux l p = Inr (r0, r1) \<Longrightarrow> ?thesis"
    by (auto simp: virtual_reserves_def Let_def bindE_eq_Inr_iff Inr_iffs as_u128_Inr_iff)
qed

lemma v3_entry_view:
  assumes "result_at parsed (k + i * 2) = call_result chain (fst e, [0x38, 0x50, 0xc7, 0xbd])"
    and "result_at parsed (k + i * 2 + 1) = call_result chain (fst e, [0x1a, 0x68, 0x65, 0x02])"
    and "v3_entry ux parsed k pools (i, e) = Inr pools'"
  shows "pools' = put_view (v3_view chain) pools e"
proof (cases "\<exists>s0 liq. result_at parsed (k + i * 2) = Some s0 \<and> result_at parsed (k + i * 2 + 1) = Some liq
    \<and> 32 \<le> length s0 \<and> 32 \<le> length liq")
  case True
  then obtain s0 liq where data: "result_at parsed (k + i * 2) = Some s0" "result_at parsed (k + i * 2 + 1) = Some liq"
    "32 \<le> length s0" "32 \<le> length liq"
    by blast
  define p where "p = ux_from_big_endian ux (sub_bytes 0 32 s0)"
  have p: "unat p = word_value s0"
    using data(3) by (simp add: p_def unat_from_big_endian word_value_def sub_bytes_def)
  obtain l where l': "ux_as_u128 ux (ux_from_big_endian ux (sub_bytes 0 32 liq)) = Inr l" and
    run: "(if 0 < l \<and> p \<noteq> 0 then bindE (virtual_reserves ux l p) (\<lambda>(r0, r1). Inr (put_pool pools e True r0 r1)) else Inr pools) = Inr pools'"
    using assms(3) data unfolding p_def by (auto simp: v3_entry_def Let_def bindE_eq_Inr_iff)
  have l: "unat l = word_value liq"
    using l' data(4) by (simp add: as_u128_Inr_iff unat_from_big_endian word_value_def sub_bytes_def)
  note read = assms(1,2) [symmetric, unfolded data(1,2)]
  show ?thesis
  proof (cases "0 < l \<and> p \<noteq> 0")
    case True
    then obtain r0 r1 where "virtual_reserves ux l p = Inr (r0, r1)" "pools' = put_pool pools e True r0 r1"
      using run by (auto simp: bindE_eq_Inr_iff)
    moreover have "0 < unat l" "0 < unat p"
      using True by (simp_all add: word_less_nat_alt unat_eq_iff)
    ultimately show ?thesis
      using data virtual_reserves_value [of l p r0 r1] by (simp add: put_pool_view put_view_def v3_view_def read l p Let_def)
  next
    case False
    then have "pools' = pools" "\<not> (0 < word_value liq \<and> 0 < word_value s0)"
      using run by (auto simp: word_less_nat_alt unat_eq_iff simp flip: l p)
    then show ?thesis
      by (auto simp: put_view_def v3_view_def read Let_def)
  qed
next
  case False
  with assms show ?thesis
    by (auto simp: v3_entry_def put_view_def v3_view_def split: option.splits if_splits)
qed

end

lemma race_Inl_iff: "(\<exists>e. race rs = Inl e) \<longleftrightarrow> (\<forall>r \<in> set rs. \<exists>e. r = Inl e)"
  by (induction rs) (auto split: sum.splits)

lemma race_member: "race rs = Inr x \<Longrightarrow> Inr x \<in> set rs"
  by (induction rs) (auto split: sum.splits)

lemma refresh_request_member:
  assumes "refresh_request net m tx = Inr (Inr r)"
  obtains p where "net_call net p tx = Inr r"
  using assms
  by (auto simp: refresh_request_def timed_call_def bindE_eq_Inr_iff dest!: race_member split: option.splits if_splits)

text \<open>A race over a permutation of the providers fails only if none of them answers in time.\<close>

lemma race_succeeds:
  assumes "um_ws_provider m = None" "1 < length (um_http_providers m)" "mset (net_order net (um_http_providers m)) = mset (um_http_providers m)"
    and "p \<in> set (um_http_providers m)" "net_in_time net p" "net_call net p tx = Inr r"
  obtains r' where "refresh_request net m tx = Inr (Inr r')"
proof -
  have "set (net_order net (um_http_providers m)) = set (um_http_providers m)"
    using assms(3) by (rule mset_eq_setD)
  then have "Inr r \<in> set (map (timed_call net tx) (net_order net (um_http_providers m)))"
    using assms(4-6) by (auto simp: timed_call_def intro!: image_eqI [of _ _ p])
  then have "\<not> (\<exists>e. race (map (timed_call net tx) (net_order net (um_http_providers m))) = Inl e)"
    unfolding race_Inl_iff by blast
  then obtain r' where "race (map (timed_call net tx) (net_order net (um_http_providers m))) = Inr r'"
    by (metis sum.exhaust)
  with assms(1,2) show ?thesis
    by (intro that) (simp add: refresh_request_def)
qed

lemma apply_results_views:
  assumes "u256_laws ux" "apply_results ux (map (call_result chain) (refresh_calls m)) m = Inr m'"
  shows "m' = m\<lparr>um_pools := foldl (put_view (v3_view chain)) (foldl (put_view (v2_view chain)) (um_pools m) (um_v2_pools m)) (um_v3_pools m)\<rparr>"
proof -
  let ?v2 = "um_v2_pools m" and ?v3 = "um_v3_pools m" and ?parsed = "map (call_result chain) (refresh_calls m)"
  have calls: "refresh_calls m = map (\<lambda>e. (fst e, [0x09, 0x02, 0xf1, 0xac])) ?v2
      @ concat (map (\<lambda>e. [(fst e, [0x38, 0x50, 0xc7, 0xbd]), (fst e, [0x1a, 0x68, 0x65, 0x02])]) ?v3)"
    by (simp add: refresh_calls_def case_prod_unfold)
  have v2: "result_at ?parsed i = call_result chain (fst (?v2 ! i), [0x09, 0x02, 0xf1, 0xac])" if "i < length ?v2" for i
    using that by (simp add: result_at_def calls nth_append)
  have v3: "result_at ?parsed (length ?v2 + i * 2) = call_result chain (fst (?v3 ! i), [0x38, 0x50, 0xc7, 0xbd])"
      "result_at ?parsed (length ?v2 + i * 2 + 1) = call_result chain (fst (?v3 ! i), [0x1a, 0x68, 0x65, 0x02])"
    if "i < length ?v3" for i
    using that nth_concat_pairs [OF that, of "\<lambda>e. (fst e, [0x38, 0x50, 0xc7, 0xbd :: u8])" "\<lambda>e. (fst e, [0x1a, 0x68, 0x65, 0x02])"]
    by (simp_all add: result_at_def calls nth_append length_concat_pairs)
  obtain pools where pools: "foldE (v2_entry ux ?parsed) (um_pools m) (enumerate 0 ?v2) = Inr pools"
    and m': "foldE (v3_entry ux ?parsed (length ?v2)) pools (enumerate 0 ?v3) = Inr (um_pools m')" "m' = m\<lparr>um_pools := um_pools m'\<rparr>"
    using assms(2) by (auto simp: apply_results_def bindE_eq_Inr_iff)
  have "pools = foldl (put_view (v2_view chain)) (um_pools m) ?v2"
    using pools by (rule foldE_enumerate) (auto intro: u256_laws.v2_entry_view [OF assms(1)] dest: v2)
  moreover have "um_pools m' = foldl (put_view (v3_view chain)) pools ?v3"
    using m'(1) by (rule foldE_enumerate) (auto intro: u256_laws.v3_entry_view [OF assms(1)] dest: v3)
  ultimately show ?thesis
    using m'(2) by simp
qed

text \<open>C27: a refresh stores what the chain says, pool by pool. Suppose every provider either fails or returns the
  contract's answer to the calls of the request, and no pool is listed twice. If the request
  succeeds and the refresh returns, every listed pool gets the record made from the answers to its
  own calls (the reserves of a V2 pair, the virtual reserves of a V3 pool) and keeps its old record
  if a call failed or a reserve is not above 1000; other records and the rest of the manager are
  kept. If the request fails, nothing changes.\<close>

theorem ultrafast_refresh_faithful:
  assumes "u256_laws ux" "multicall_codec abi enc" "distinct (map fst (um_v2_pools m @ um_v3_pools m))"
    and honest: "\<And>p. (\<exists>e. net_call net p \<lparr>tq_to = um_multicall_addr m, tq_data = encode_multicall abi (refresh_calls m)\<rparr> = Inl e)
      \<or> net_call net p \<lparr>tq_to = um_multicall_addr m, tq_data = encode_multicall abi (refresh_calls m)\<rparr>
          = Inr (enc (multicall_answer chain (refresh_calls m)))"
    and run: "uf_refresh_all ux abi net m = Inr m'"
  shows "if \<exists>r. refresh_request net m \<lparr>tq_to = um_multicall_addr m, tq_data = encode_multicall abi (refresh_calls m)\<rparr> = Inr (Inr r)
    then m' = m\<lparr>um_pools := um_pools m'\<rparr>
      \<and> (\<forall>e \<in> set (um_v2_pools m). map_of (um_pools m') (fst e)
            = (case v2_view chain e of Some d \<Rightarrow> Some d | None \<Rightarrow> map_of (um_pools m) (fst e)))
      \<and> (\<forall>e \<in> set (um_v3_pools m). map_of (um_pools m') (fst e)
            = (case v3_view chain e of Some d \<Rightarrow> Some d | None \<Rightarrow> map_of (um_pools m) (fst e)))
      \<and> (\<forall>a. a \<notin> fst ` set (um_v2_pools m @ um_v3_pools m) \<longrightarrow> map_of (um_pools m') a = map_of (um_pools m) a)
    else m' = m"
proof (cases "\<exists>r. refresh_request net m \<lparr>tq_to = um_multicall_addr m, tq_data = encode_multicall abi (refresh_calls m)\<rparr> = Inr (Inr r)")
  case True
  then obtain r where r: "refresh_request net m \<lparr>tq_to = um_multicall_addr m, tq_data = encode_multicall abi (refresh_calls m)\<rparr> = Inr (Inr r)"
    by blast
  then have "r = enc (multicall_answer chain (refresh_calls m))"
    using honest by (elim refresh_request_member) (metis sum.inject(2) sum.distinct(1))
  with run r have "apply_results ux (map (call_result chain) (refresh_calls m)) m = Inr m'"
    by (simp add: uf_refresh_all_def parse_multicall_answer [OF assms(2)])
  note m' = apply_results_views [OF assms(1) this]
  note views = map_of_two_views [OF assms(3), of "v3_view chain" "v2_view chain" "um_pools m"]
  have "um_pools m' = foldl (put_view (v3_view chain)) (foldl (put_view (v2_view chain)) (um_pools m) (um_v2_pools m)) (um_v3_pools m)"
    using m' by simp
  note views [folded this]
  moreover have "m' = m\<lparr>um_pools := um_pools m'\<rparr>"
    using m' by simp
  ultimately show ?thesis
    using True by simp
next
  case False
  with run show ?thesis
    unfolding uf_refresh_all_def Let_def bindE_eq_Inr_iff
    by (metis (no_types, lifting) sum.case(1) sum.exhaust sum.inject(2))
qed

text \<open>A concrete encoding of multicall results, which shows that the codec's laws can hold.\<close>

fun mark_result :: "bool \<times> bytes \<Rightarrow> bytes" where
  "mark_result (ok, data) = (if ok then 3 else 2) # mark_bytes data"

definition enc_std :: "(bool \<times> bytes) list \<Rightarrow> bytes" where
  "enc_std rs = replicate 64 0 @ concat (map mark_result rs)"

fun unmark :: "bytes \<Rightarrow> bytes \<times> bytes" where
  "unmark (t # b # rest) = (if t = 0 then ([], b # rest) else (b # fst (unmark rest), snd (unmark rest)))"
| "unmark _ = ([], [])"

fun unmark_results :: "nat \<Rightarrow> bytes \<Rightarrow> (bool \<times> bytes) list" where
  "unmark_results (Suc n) (flag # rest) = (flag = 3, fst (unmark rest)) # unmark_results n (snd (unmark rest))"
| "unmark_results _ _ = []"

definition multicall_std :: multicall_abi where
  "multicall_std = \<lparr>abi_encode = abi_encode abi_std, abi_execute_arbitrage = abi_execute_arbitrage abi_std,
     abi_decode_results = \<lambda>data. Inr [TkArray (map (\<lambda>(ok, d). TkTuple [TkBool ok, TkBytes d])
       (unmark_results (length data) (drop 64 data)))]\<rparr>"

lemma unmark_mark: "unmark (mark_bytes bs @ rest) = (bs, rest)"
  by (induction bs) (auto simp: mark_bytes_def intro: list.exhaust [of rest])

lemma unmark_results_mark: "length rs \<le> n \<Longrightarrow> unmark_results n (concat (map mark_result rs)) = rs"
proof (induction rs arbitrary: n)
  case Nil
  then show ?case by (cases n) simp_all
next
  case (Cons r rs)
  then obtain k where "n = Suc k" "length rs \<le> k"
    by (cases n) auto
  with Cons show ?case
    by (cases r) (simp add: unmark_mark)
qed

interpretation std_multicall: multicall_codec multicall_std enc_std
proof
  have "length rs \<le> length (enc_std rs)" for rs
    by (induction rs) (auto simp: enc_std_def)
  then show "abi_decode_results multicall_std (enc_std rs) = Inr [TkArray (map (\<lambda>(ok, data). TkTuple [TkBool ok, TkBytes data]) rs)]" for rs
    by (simp add: multicall_std_def unmark_results_mark) (simp add: enc_std_def unmark_results_mark)
qed (simp add: enc_std_def)

text \<open>A manager with one pair and one V3 pool, and a chain that knows both.\<close>

definition demo_manager :: "nat UltraFastPoolManager" where
  "demo_manager = (uf_manager_new [1, 2])\<lparr>um_v2_pools := [(7, 3, 4, 30)], um_v3_pools := [(9, 3, 5, 5)]\<rparr>"

definition demo_word :: "u8 \<Rightarrow> u8 \<Rightarrow> bytes" where
  "demo_word x y = replicate 30 0 @ [x, y]"

definition demo_chain :: chain_view where
  "demo_chain target calldata =
    (True, if calldata = [0x09, 0x02, 0xf1, 0xac] then demo_word 0x13 0x88 @ demo_word 0x17 0x70
           else if calldata = [0x38, 0x50, 0xc7, 0xbd] then replicate 19 0 @ [1] @ replicate 12 0
           else demo_word 0x1b 0x58)"

definition demo_net :: "nat uf_net" where
  "demo_net = \<lparr>net_call = \<lambda>p tx. if p = 1 then Inl ''down'' else Inr (enc_std (multicall_answer demo_chain (refresh_calls demo_manager))),
     net_in_time = \<lambda>p. True, net_order = \<lambda>ps. ps\<rparr>"

lemma demo_word: "length (demo_word x y) = 32" "be_val (demo_word x y) = unat x * 256 + unat y"
  "be_val (replicate 19 0 @ [1] @ replicate 12 0) = 2 ^ 96" "take 32 (demo_word x y @ bs) = demo_word x y"
  "drop 32 (demo_word x y @ bs) = bs" "demo_word x y \<noteq> []"
  by (simp_all add: demo_word_def be_val_append)

lemma demo_reads:
  "ux_as_u128 u256_std (ux_from_big_endian u256_std (demo_word 0x13 0x88)) = Inr 5000"
  "ux_as_u128 u256_std (ux_from_big_endian u256_std (demo_word 0x17 0x70)) = Inr 6000"
  "ux_as_u128 u256_std (ux_from_big_endian u256_std (demo_word 0x1b 0x58)) = Inr 7000"
  "ux_from_big_endian u256_std (replicate 19 0 @ [1] @ replicate 12 0) = 79228162514264337593543950336"
  unfolding std_u256.as_u128_Inr_iff
  by (simp_all add: std_u256.unat_from_big_endian demo_word unat_eq_iff del: append.simps)

lemma demo_virtual: "virtual_reserves u256_std 7000 79228162514264337593543950336 = Inr (7000, 7000)"
  by (simp add: virtual_reserves_def Let_def std_u256.mul_law std_u256.div_law std_u256.as_u128_law)

lemma demo_parsed:
  "map (call_result demo_chain) (refresh_calls demo_manager) =
    [Some (demo_word 0x13 0x88 @ demo_word 0x17 0x70), Some (replicate 19 0 @ [1] @ replicate 12 0), Some (demo_word 0x1b 0x58)]"
  by (simp add: refresh_calls_def demo_manager_def call_result_def demo_chain_def demo_word del: append.simps)

lemma demo_apply:
  assumes "parsed = [Some (demo_word 0x13 0x88 @ demo_word 0x17 0x70), Some (replicate 19 0 @ [1] @ replicate 12 0), Some (demo_word 0x1b 0x58)]"
  shows "\<exists>m'. apply_results u256_std parsed demo_manager = Inr m'"
proof -
  have "result_at parsed 0 = Some (demo_word 0x13 0x88 @ demo_word 0x17 0x70)" "result_at parsed 1 = Some (replicate 19 0 @ [1] @ replicate 12 0)"
    "result_at parsed (Suc (Suc 0)) = Some (demo_word 0x1b 0x58)"
    by (simp_all add: result_at_def assms del: append.simps)
  moreover have "v2_entry u256_std parsed pools (0, e) = Inr (put_pool pools e False 5000 6000)"
    if "result_at parsed 0 = Some (demo_word 0x13 0x88 @ demo_word 0x17 0x70)" for pools e
    using that by (simp add: v2_entry_def sub_bytes_def demo_word demo_reads del: append_Cons)
  moreover have "v3_entry u256_std parsed 1 pools (0, e) = Inr (put_pool pools e True 7000 7000)"
    if "result_at parsed 1 = Some (replicate 19 0 @ [1] @ replicate 12 0)" "result_at parsed (Suc (Suc 0)) = Some (demo_word 0x1b 0x58)" for pools e
    using that by (simp add: v3_entry_def sub_bytes_def demo_word demo_reads demo_virtual del: append.simps)
  ultimately show ?thesis
    by (simp add: apply_results_def demo_manager_def)
qed

lemma demo_request:
  "refresh_request demo_net demo_manager tx = Inr (Inr (enc_std (multicall_answer demo_chain (refresh_calls demo_manager))))"
  by (simp add: refresh_request_def demo_net_def timed_call_def demo_manager_def uf_manager_new_def)

theorem ultrafast_refresh_faithful_witness:
  "\<exists>m'. uf_refresh_all u256_std multicall_std demo_net demo_manager = Inr m'
    \<and> map_of (um_pools m') 7 = Some \<lparr>pd_address = 7, pd_token0 = 3, pd_token1 = 4, pd_is_v3 = False, pd_fee_bps = 30,
         pd_reserve0 = 5000, pd_reserve1 = 6000\<rparr>
    \<and> map_of (um_pools m') 9 = Some \<lparr>pd_address = 9, pd_token0 = 3, pd_token1 = 5, pd_is_v3 = True, pd_fee_bps = 5,
         pd_reserve0 = 7000, pd_reserve1 = 7000\<rparr>"
proof -
  obtain m' where m': "uf_refresh_all u256_std multicall_std demo_net demo_manager = Inr m'"
    using demo_apply [OF demo_parsed]
    by (auto simp: uf_refresh_all_def demo_request parse_multicall_answer [OF std_multicall.multicall_codec_axioms])
  have "(\<exists>e. net_call demo_net p tx = Inl e) \<or> net_call demo_net p tx = Inr (enc_std (multicall_answer demo_chain (refresh_calls demo_manager)))" for p tx
    by (simp add: demo_net_def)
  note run = ultrafast_refresh_faithful [OF std_u256.u256_laws_axioms std_multicall.multicall_codec_axioms _ this m']
  have lists: "um_v2_pools demo_manager = [(7, 3, 4, 30)]" "um_v3_pools demo_manager = [(9, 3, 5, 5)]"
    by (simp_all add: demo_manager_def)
  have "v2_view demo_chain (7, 3, 4, 30) = Some \<lparr>pd_address = 7, pd_token0 = 3, pd_token1 = 4, pd_is_v3 = False, pd_fee_bps = 30,
         pd_reserve0 = 5000, pd_reserve1 = 6000\<rparr>"
    by (simp add: v2_view_def call_result_def demo_chain_def demo_word word_value_def pool_record_def del: append_Cons)
  moreover have "v3_view demo_chain (9, 3, 5, 5) = Some \<lparr>pd_address = 9, pd_token0 = 3, pd_token1 = 5, pd_is_v3 = True, pd_fee_bps = 5,
         pd_reserve0 = 7000, pd_reserve1 = 7000\<rparr>"
    by (simp add: v3_view_def call_result_def demo_chain_def demo_word word_value_def pool_record_def Let_def del: append.simps)
  ultimately show ?thesis
    using run m' by (simp add: lists demo_request)
qed

section \<open>The invariant of the scanner\<close>

text \<open>A listed pool has an address, two different tokens of the token list in order, and one of the known
  fees; a stored pool is listed, is stored once under its address and has usable reserves.\<close>

definition known_tokens :: "address set" where
  "known_tokens = snd ` set get_tokens"

definition entry_wf :: "u32 set \<Rightarrow> pool_entry \<Rightarrow> bool" where
  "entry_wf fees = (\<lambda>(a, t0, t1, fee). a \<noteq> 0 \<and> t0 < t1 \<and> {t0, t1} \<subseteq> known_tokens \<and> fee \<in> fees)"

definition pool_entry_of :: "PoolData \<Rightarrow> pool_entry" where
  "pool_entry_of d = (pd_address d, pd_token0 d, pd_token1 d, pd_fee_bps d)"

definition pd_wf :: "'p UltraFastPoolManager \<Rightarrow> PoolData \<Rightarrow> bool" where
  "pd_wf m d \<longleftrightarrow> pool_entry_of d \<in> set (if pd_is_v3 d then um_v3_pools m else um_v2_pools m)
    \<and> 1000 < pd_reserve0 d \<and> 1000 < pd_reserve1 d"

definition pools_wf :: "'p UltraFastPoolManager \<Rightarrow> (address \<times> PoolData) list \<Rightarrow> bool" where
  "pools_wf m ps \<longleftrightarrow> distinct (map fst ps) \<and> (\<forall>(a, d) \<in> set ps. pd_address d = a \<and> pd_wf m d)"

definition um_wf :: "'p UltraFastPoolManager \<Rightarrow> bool" where
  "um_wf m \<longleftrightarrow> um_http_providers m \<noteq> [] \<and> um_multicall_addr m = MULTICALL3
    \<and> (\<forall>e \<in> set (um_v2_pools m). entry_wf {30} e) \<and> (\<forall>e \<in> set (um_v3_pools m). entry_wf {5, 30, 100} e)
    \<and> pools_wf m (um_pools m)"

definition meta_wf :: "address \<times> address \<times> bool \<times> u32 \<Rightarrow> bool" where
  "meta_wf = (\<lambda>(t0, t1, is_v3, fee). t0 < t1 \<and> {t0, t1} \<subseteq> known_tokens
    \<and> (if is_v3 then fee \<in> {500, 3000, 10000} else fee = 30))"

lemma distinct_tokens: "distinct (map snd get_tokens)"
  by (simp add: get_tokens_def)

lemma ordered_pairs_distinct: "distinct xs \<Longrightarrow> (x, y) \<in> set (ordered_pairs xs) \<Longrightarrow> x \<noteq> y \<and> x \<in> set xs \<and> y \<in> set xs"
  by (auto simp: set_ordered_pairs nth_eq_iff_index_eq)

lemma pair_calls_meta_wf:
  assumes "t0 \<noteq> t1" "{t0, t1} \<subseteq> known_tokens" "c \<in> set (pair_calls abi (t0, t1))"
  shows "meta_wf (snd c)"
proof -
  have "(if t0 < t1 then (t0, t1) else (t1, t0)) = (min t0 t1, max t0 t1)" "min t0 t1 < max t0 t1"
    "{min t0 t1, max t0 t1} \<subseteq> known_tokens"
    using assms(1,2) by (auto simp: min_def max_def)
  then show ?thesis
    using assms(3) by (auto simp: pair_calls_def factories_def meta_wf_def Let_def)
qed

lemma discovery_meta_wf:
  assumes "meta \<in> set (map snd (discovery_calls abi))"
  shows "meta_wf meta"
proof -
  obtain t0 t1 c where c: "(t0, t1) \<in> set (ordered_pairs (map snd get_tokens))" "c \<in> set (pair_calls abi (t0, t1))" "meta = snd c"
    using assms by (auto simp: discovery_calls_def)
  then show ?thesis
    using pair_calls_meta_wf [of t0 t1 c abi] ordered_pairs_distinct [OF distinct_tokens c(1)] by (simp add: known_tokens_def)
qed

text \<open>An answer leaves the manager alone or lists one pool with the metadata of its index.\<close>

lemma record_pool_cases:
  obtains "record_pool metas m r = m"
  | a t0 t1 fee where "(t0, t1, True, fee) \<in> set metas" "a \<noteq> 0"
      "record_pool metas m r = m\<lparr>um_v3_pools := um_v3_pools m @ [(a, t0, t1, fee div 100)]\<rparr>"
  | a t0 t1 fee where "(t0, t1, False, fee) \<in> set metas" "a \<noteq> 0"
      "record_pool metas m r = m\<lparr>um_v2_pools := um_v2_pools m @ [(a, t0, t1, fee)]\<rparr>"
proof (cases "\<exists>i data. r = (i, Some data) \<and> 32 \<le> length data \<and> (from_be (sub_bytes 12 32 data) :: address) \<noteq> 0 \<and> i < length metas")
  case True
  then obtain i data where data: "r = (i, Some data)" "32 \<le> length data" "(from_be (sub_bytes 12 32 data) :: address) \<noteq> 0" "i < length metas"
    by blast
  obtain t0 t1 is_v3 fee where meta: "metas ! i = (t0, t1, is_v3, fee)"
    by (metis surj_pair)
  with data(4) have "(t0, t1, is_v3, fee) \<in> set metas"
    by (metis nth_mem)
  moreover have "record_pool metas m r =
      (if is_v3 then m\<lparr>um_v3_pools := um_v3_pools m @ [(from_be (sub_bytes 12 32 data), t0, t1, fee div 100)]\<rparr>
       else m\<lparr>um_v2_pools := um_v2_pools m @ [(from_be (sub_bytes 12 32 data), t0, t1, fee)]\<rparr>)"
    using data meta by (simp add: record_pool_def)
  ultimately show ?thesis
    using that(2,3) data(3) by (cases is_v3) auto
next
  case False
  then have "record_pool metas m r = m"
    by (auto simp: record_pool_def Let_def split: prod.splits option.splits)
  then show ?thesis
    by (rule that(1))
qed

lemma record_pool_wf:
  assumes "um_wf m" "\<forall>meta \<in> set metas. meta_wf meta" "um_pools m = []"
  shows "um_wf (record_pool metas m r) \<and> um_pools (record_pool metas m r) = []"
proof (cases rule: record_pool_cases [of metas m r])
  case (2 a t0 t1 fee)
  then have "entry_wf {5, 30, 100} (a, t0, t1, fee div 100)"
    using assms(2) by (fastforce simp: meta_wf_def entry_wf_def)
  with 2 assms(1,3) show ?thesis
    by (simp add: um_wf_def pools_wf_def)
next
  case (3 a t0 t1 fee)
  then have "entry_wf {30} (a, t0, t1, fee)"
    using assms(2) by (fastforce simp: meta_wf_def entry_wf_def)
  with 3 assms(1,3) show ?thesis
    by (simp add: um_wf_def pools_wf_def)
qed (use assms in simp)

lemma uf_discover_wf:
  assumes "um_wf m" "um_pools m = []" "uf_discover_pools abi net m = Inr m'"
  shows "um_wf m' \<and> um_pools m' = []"
proof -
  have "um_wf (foldl (record_pool (map snd (discovery_calls abi))) m rs) \<and> um_pools (foldl (record_pool (map snd (discovery_calls abi))) m rs) = []" for rs
    using assms(1,2)
  proof (induction rs arbitrary: m)
    case (Cons r rs)
    then show ?case
      using record_pool_wf [of m "map snd (discovery_calls abi)" r] discovery_meta_wf by auto
  qed simp
  note all = this
  obtain p where p: "m' = (case net_call net p \<lparr>tq_to = um_multicall_addr m, tq_data = encode_multicall abi (map fst (discovery_calls abi))\<rparr> of
      Inr result \<Rightarrow> foldl (record_pool (map snd (discovery_calls abi))) m (enumerate 0 (parse_multicall_response abi result))
    | Inl e \<Rightarrow> m)"
    using assms(3) unfolding uf_discover_pools_def Let_def bindE_eq_Inr_iff by blast
  show ?thesis
    unfolding p using all assms(1,2) by (auto split: sum.split)
qed

lemma pd_wf_update [simp]: "pd_wf (m\<lparr>um_pools := ps\<rparr>) = pd_wf m" "pd_wf (m\<lparr>um_ws_provider := w\<rparr>) = pd_wf m"
  by (intro ext; simp add: pd_wf_def)+

lemma put_pool_wf:
  assumes "pools_wf m ps" "e \<in> set (if is_v3 then um_v3_pools m else um_v2_pools m)"
  shows "pools_wf m (put_pool ps e is_v3 r0 r1)"
proof -
  obtain a t0 t1 fee where e: "e = (a, t0, t1, fee)"
    by (metis surj_pair)
  show ?thesis
  proof (cases "1000 < r0 \<and> 1000 < r1")
    case True
    let ?d = "\<lparr>pd_address = a, pd_token0 = t0, pd_token1 = t1, pd_is_v3 = is_v3, pd_fee_bps = fee, pd_reserve0 = r0, pd_reserve1 = r1\<rparr>"
    have "pd_wf m ?d"
      using assms(2) True by (simp add: pd_wf_def pool_entry_of_def e)
    then show ?thesis
      using assms(1) True distinct_update [of ps a ?d]
      by (auto simp: put_pool_def e pools_wf_def dest!: set_alist_update)
  qed (use assms(1) in \<open>auto simp: put_pool_def e\<close>)
qed

lemma apply_results_wf:
  assumes "um_wf m" "apply_results ux parsed m = Inr m'"
  shows "um_wf m'"
proof -
  obtain ps ps' where ps: "foldE (v2_entry ux parsed) (um_pools m) (enumerate 0 (um_v2_pools m)) = Inr ps"
    and ps': "foldE (v3_entry ux parsed (length (um_v2_pools m))) ps (enumerate 0 (um_v3_pools m)) = Inr ps'"
    and m': "m' = m\<lparr>um_pools := ps'\<rparr>"
    using assms(2) by (auto simp: apply_results_def bindE_eq_Inr_iff)
  have member: "e \<in> set es" if "(i, e) \<in> set (enumerate 0 es)" for i e and es :: "pool_entry list"
    using that by (auto simp: in_set_enumerate_eq)
  have "pools_wf m (um_pools m)"
    using assms(1) by (simp add: um_wf_def)
  then have "pools_wf m ps"
    using ps
  proof (rule foldE_invariant)
    fix qs x qs' assume "pools_wf m qs" "x \<in> set (enumerate 0 (um_v2_pools m))" "v2_entry ux parsed qs x = Inr qs'"
    then show "pools_wf m qs'"
      by (cases x) (auto simp: v2_entry_def bindE_eq_Inr_iff dest: member intro!: put_pool_wf split: option.splits if_splits)
  qed
  then have "pools_wf m ps'"
    using ps'
  proof (rule foldE_invariant)
    fix qs x qs' assume "pools_wf m qs" "x \<in> set (enumerate 0 (um_v3_pools m))" "v3_entry ux parsed (length (um_v2_pools m)) qs x = Inr qs'"
    then show "pools_wf m qs'"
      by (cases x) (auto simp: v3_entry_def Let_def bindE_eq_Inr_iff dest: member intro!: put_pool_wf split: option.splits if_splits)
  qed
  with assms(1) show ?thesis
    by (simp add: m' um_wf_def pools_wf_def)
qed

lemma uf_refresh_wf:
  assumes "um_wf m" "uf_refresh_all ux abi net m = Inr m'"
  shows "um_wf m'"
proof -
  obtain r :: "string + bytes" where "(case r of Inl e \<Rightarrow> Inr m | Inr result \<Rightarrow> apply_results ux (parse_multicall_response abi result) m) = Inr m'"
    using assms(2) unfolding uf_refresh_all_def Let_def bindE_eq_Inr_iff by blast
  with assms(1) apply_results_wf [OF assms(1)] show ?thesis
    by (cases r) auto
qed

lemma uf_block_wf:
  assumes "um_wf m" "uf_block ux abi (net, time) (m, t) = Inr ((m', t'), opps)"
  shows "um_wf m' \<and> t' = uf_count time t \<and> find_opportunities m' UF_WETH = Inr opps"
  using assms uf_refresh_wf [OF assms(1)] by (auto simp: uf_block_def bindE_eq_Inr_iff Let_def split: if_splits)

lemma uf_loop_inv:
  "um_wf (m :: 'p UltraFastPoolManager) \<Longrightarrow> uf_loop ux abi blks (m, t) = Inr ((m', t'), found) \<Longrightarrow>
    um_wf m' \<and> t' = fold uf_count (map snd blks) t \<and> length found = length blks
    \<and> (\<forall>opps \<in> set found. \<exists>n :: 'p UltraFastPoolManager. um_wf n \<and> find_opportunities n UF_WETH = Inr opps)"
proof (induction blks arbitrary: m t found)
  case (Cons blk blks)
  obtain net time where blk: "blk = (net, time)"
    by (cases blk)
  obtain m1 t1 opps found' where b: "uf_block ux abi (net, time) (m, t) = Inr ((m1, t1), opps)"
    and rest: "uf_loop ux abi blks (m1, t1) = Inr ((m', t'), found')" "found = opps # found'"
    using Cons.prems(2) by (auto simp: blk bindE_eq_Inr_iff)
  note blk_wf = uf_block_wf [OF Cons.prems(1) b]
  then show ?case
    using Cons.IH [OF _ rest(1)] rest(2) by (auto simp: blk)
qed simp

lemma uf_setup_wf:
  assumes "uf_setup ux abi try_from ws net0 net1 net2 = Inr (Some m)"
  shows "um_wf m"
proof -
  let ?ps = "List.map_filter try_from RPC_URLS"
  obtain m0 m1 w where run: "?ps \<noteq> []" "uf_discover_pools abi net0 (uf_manager_new ?ps) = Inr m0"
    "uf_refresh_all ux abi net1 m0 = Inr m1" "uf_refresh_all ux abi net2 (set_ws_provider m1 w) = Inr m"
    using assms by (auto simp: uf_setup_def Let_def bindE_eq_Inr_iff split: if_splits option.splits)
  have "um_wf (uf_manager_new ?ps)"
    using run(1) by (simp add: um_wf_def uf_manager_new_def pools_wf_def)
  with run(2) have "um_wf m0"
    using uf_discover_wf by (fastforce simp: uf_manager_new_def)
  then have "um_wf m1"
    using run(3) by (rule uf_refresh_wf)
  then have "um_wf (set_ws_provider m1 w)"
    by (simp add: um_wf_def set_ws_provider_def pools_wf_def)
  then show ?thesis
    using run(4) by (rule uf_refresh_wf)
qed

lemma fold_uf_count:
  "ut_total_refreshes (fold uf_count ts t) = ut_total_refreshes t + of_nat (length ts)"
  "ut_total_time (fold uf_count ts t) = ut_total_time t + sum_list ts"
  "ut_min_time (fold uf_count ts t) = foldl min (ut_min_time t) ts"
  "ut_max_time (fold uf_count ts t) = foldl max (ut_max_time t) ts"
  by (induction ts arbitrary: t) (simp_all add: uf_count_def min.commute max.commute algebra_simps)

text \<open>The scanner's state stays well-formed, whatever the network answers. After the set-up and any number of
  blocks, every listed pool has an address, two different known tokens in order and one of the known
  fees; every stored pool is listed, is stored once under its address and has reserves above 1000.
  One list of opportunities has been produced per block, each from a well-formed manager, and the
  counters hold the number of refreshes and the sum of their times.\<close>

theorem ultrafast_invariant:
  assumes "uf_setup ux abi try_from ws net0 net1 net2 = Inr (Some (m :: 'p UltraFastPoolManager))"
    and "uf_loop ux abi blks (m, uf_times_new) = Inr ((m', t), found)"
  shows "um_wf m' \<and> length found = length blks \<and> ut_total_refreshes t = of_nat (length blks)
    \<and> ut_total_time t = sum_list (map snd blks)
    \<and> (\<forall>opps \<in> set found. \<exists>n :: 'p UltraFastPoolManager. um_wf n \<and> find_opportunities n UF_WETH = Inr opps)"
  using uf_loop_inv [OF uf_setup_wf [OF assms(1)] assms(2)] by (auto simp: fold_uf_count uf_times_new_def)

text \<open>A run in which discovery finds one pool and the refreshes read it.\<close>

definition answer_net :: "(bool \<times> bytes) list \<Rightarrow> nat uf_net" where
  "answer_net rs = \<lparr>net_call = \<lambda>p tx. Inr (enc_std rs), net_in_time = \<lambda>p. True, net_order = \<lambda>ps. ps\<rparr>"

definition state_net :: "nat uf_net" where
  "state_net = answer_net [(True, replicate 19 0 @ [1] @ replicate 12 0), (True, demo_word 0x1b 0x58)]"

definition found_pool :: pool_entry where
  "found_pool = (7, 0x82aF49447D8a07e3bd95BD0d56f35241523fBab1, 0xaf88d065e77c8cC2239327C5EDb3A432268e5831, 5)"

lemma discovery_first:
  obtains metas where "map snd (discovery_calls abi) =
    (0x82aF49447D8a07e3bd95BD0d56f35241523fBab1, 0xaf88d065e77c8cC2239327C5EDb3A432268e5831, True, 500) # metas"
proof -
  have head: "ordered_pairs (x # y # zs) = (x, y) # map (Pair x) zs @ ordered_pairs (y # zs)" for x y :: address and zs
    by simp
  obtain zs where "map snd get_tokens = 0x82aF49447D8a07e3bd95BD0d56f35241523fBab1 # 0xaf88d065e77c8cC2239327C5EDb3A432268e5831 # zs"
    by (simp add: get_tokens_def)
  then have calls: "map snd (discovery_calls abi) =
      map snd (pair_calls abi (0x82aF49447D8a07e3bd95BD0d56f35241523fBab1, 0xaf88d065e77c8cC2239327C5EDb3A432268e5831)) @
      map snd (concat (map (pair_calls abi) (map (Pair 0x82aF49447D8a07e3bd95BD0d56f35241523fBab1) zs
        @ ordered_pairs (0xaf88d065e77c8cC2239327C5EDb3A432268e5831 # zs))))"
    unfolding discovery_calls_def by (simp only: head list.map concat.simps map_append)
  show ?thesis
    by (rule that, subst calls) (simp add: pair_calls_def factories_def Let_def)
qed

lemma demo_discover:
  assumes "um_http_providers m = p # ps"
  shows "uf_discover_pools multicall_std (answer_net [(True, demo_word 0 7)]) m = Inr (m\<lparr>um_v3_pools := um_v3_pools m @ [found_pool]\<rparr>)"
proof -
  obtain metas where metas: "map snd (discovery_calls multicall_std) =
    (0x82aF49447D8a07e3bd95BD0d56f35241523fBab1, 0xaf88d065e77c8cC2239327C5EDb3A432268e5831, True, 500) # metas"
    by (rule discovery_first)
  have "(from_be (sub_bytes 12 32 (demo_word 0 7)) :: address) = 7"
    by (simp add: demo_word_def sub_bytes_def from_be_eq be_val_append)
  then show ?thesis
    using assms unfolding uf_discover_pools_def Let_def metas
    by (simp add: fast_provider_def answer_net_def std_multicall.parse_enc demo_word record_pool_def found_pool_def)
qed

lemma state_refresh:
  assumes "um_http_providers m \<noteq> []" "um_v2_pools m = []" "um_v3_pools m = [found_pool]"
  shows "uf_refresh_all u256_std multicall_std state_net m = Inr (m\<lparr>um_pools := put_pool (um_pools m) found_pool True 7000 7000\<rparr>)"
proof -
  let ?parsed = "[Some (replicate 19 0 @ [1] @ replicate 12 0), Some (demo_word 0x1b 0x58)]"
  have "refresh_request state_net m tx = Inr (Inr (enc_std [(True, replicate 19 0 @ [1] @ replicate 12 0), (True, demo_word 0x1b 0x58)]))" for tx
    using assms(1)
    by (cases "um_http_providers m") (simp_all add: refresh_request_def fast_provider_def timed_call_def state_net_def answer_net_def split: option.splits)
  then have "uf_refresh_all u256_std multicall_std state_net m = apply_results u256_std ?parsed m"
    by (simp add: uf_refresh_all_def std_multicall.parse_enc demo_word)
  also have "\<dots> = Inr (m\<lparr>um_pools := put_pool (um_pools m) found_pool True 7000 7000\<rparr>)"
    by (simp add: apply_results_def assms(2,3) v3_entry_def result_at_def sub_bytes_def demo_word demo_reads demo_virtual del: append.simps)
  finally show ?thesis .
qed

lemma no_pair_no_opportunity:
  assumes "length (um_pools m) \<le> 1"
  shows "find_opportunities m weth = Inr []"
proof -
  have "length (weth_pools m weth token) < 2" for token
    using assms by (auto simp: weth_pools_def intro: le_less_trans [OF length_filter_le])
  then have "search_candidates m weth = []"
    by (auto simp: search_candidates_def token_candidates_def)
  then show ?thesis
    by (simp add: find_opportunities_def)
qed

theorem ultrafast_invariant_witness:
  "\<exists>m m' t. uf_setup u256_std multicall_std (\<lambda>url. Some (length url)) (Some 1) (answer_net [(True, demo_word 0 7)]) state_net state_net = Inr (Some m)
    \<and> uf_loop u256_std multicall_std [(state_net, 4)] (m, uf_times_new) = Inr ((m', t), [[]])
    \<and> um_wf m' \<and> length (um_pools m') = 1 \<and> ut_total_time t = 4"
proof -
  define pd where "pd = \<lparr>pd_address = 7, pd_token0 = 0x82aF49447D8a07e3bd95BD0d56f35241523fBab1,
    pd_token1 = 0xaf88d065e77c8cC2239327C5EDb3A432268e5831, pd_is_v3 = True, pd_fee_bps = 5, pd_reserve0 = 7000, pd_reserve1 = 7000\<rparr>"
  define m where "m = (uf_manager_new (map length RPC_URLS))\<lparr>um_ws_provider := Some 1, um_v3_pools := [found_pool], um_pools := [(7, pd)]\<rparr>"
  have urls: "List.map_filter (\<lambda>url. Some (length url)) RPC_URLS = map length RPC_URLS" "map length RPC_URLS \<noteq> []"
    by (simp_all add: RPC_URLS_def map_filter_simps)
  have put: "put_pool [] found_pool True 7000 7000 = [(7, pd)]" "put_pool [(7, pd)] found_pool True 7000 7000 = [(7, pd)]"
    by (simp_all add: put_pool_def found_pool_def pd_def)
  obtain p ps where ps: "map length RPC_URLS = p # ps"
    using urls(2) by (cases "map length RPC_URLS") simp_all
  have started: "uf_setup u256_std multicall_std (\<lambda>url. Some (length url)) (Some 1) (answer_net [(True, demo_word 0 7)]) state_net state_net = Inr (Some m)"
    unfolding uf_setup_def urls(1) Let_def m_def ps
    by (simp add: demo_discover [where p = p and ps = ps] state_refresh uf_manager_new_def set_ws_provider_def put)
  have refresh: "uf_refresh_all u256_std multicall_std state_net m = Inr m"
    using state_refresh [of m] urls(2) by (simp add: m_def uf_manager_new_def put)
  have "find_opportunities m UF_WETH = Inr []"
    by (rule no_pair_no_opportunity) (simp add: m_def)
  then have loop: "uf_loop u256_std multicall_std [(state_net, 4)] (m, uf_times_new) = Inr ((m, uf_count 4 uf_times_new), [[]])"
    by (simp add: uf_block_def refresh Let_def uf_count_def uf_times_new_def)
  have "um_wf m" "ut_total_time (uf_count 4 uf_times_new) = 4"
    using ultrafast_invariant [OF started loop] by simp_all
  moreover have "length (um_pools m) = 1"
    by (simp add: m_def)
  ultimately show ?thesis
    using started loop by blast
qed

end
