(* ===== verification/Rust_Text.thy ===== *)
theory Rust_Text
  imports Prelude
begin

text \<open>
  The operations of Rust's \<^verbatim>\<open>str\<close> that the executables use on environment variables and URLs. A text is its
  UTF-8 bytes, held as a \<open>string\<close>. The first group are the definitions, the second the round trip
  of comma separated lists.
\<close>

section \<open>Operations\<close>

text \<open>\<^verbatim>\<open>str::replace\<close> for a non-empty pattern: non-overlapping occurrences from the left. The number says how
  many characters of the last match are still to be skipped.\<close>

fun replace_from :: "string \<Rightarrow> string \<Rightarrow> nat \<Rightarrow> string \<Rightarrow> string" where
  "replace_from pat rep k [] = []"
| "replace_from pat rep (Suc k) (c # cs) = replace_from pat rep k cs"
| "replace_from pat rep 0 (c # cs) =
    (if take (length pat) (c # cs) = pat then rep @ replace_from pat rep (length pat - 1) cs
     else c # replace_from pat rep 0 cs)"

text \<open>\<^verbatim>\<open>str::parse::<u32>\<close>: an optional plus sign and at least one digit, without overflow.\<close>

fun digits_value :: "nat \<Rightarrow> string \<Rightarrow> nat option" where
  "digits_value n [] = Some n"
| "digits_value n (c # cs) =
    (if 48 \<le> (of_char c :: nat) \<and> (of_char c :: nat) \<le> 57 then digits_value (n * 10 + (of_char c - 48)) cs else None)"

definition parse_u32 :: "string \<Rightarrow> u32 option" where
  "parse_u32 s =
    (let ds = (case s of CHR ''+'' # cs \<Rightarrow> cs | _ \<Rightarrow> s)
     in if ds = [] then None
        else case digits_value 0 ds of Some n \<Rightarrow> if n < 2 ^ 32 then Some (of_nat n) else None | None \<Rightarrow> None)"

text \<open>\<^verbatim>\<open>str::split\<close> at a character: one piece more than there are separators.\<close>

fun split_on :: "char \<Rightarrow> string \<Rightarrow> string list" where
  "split_on sep [] = [[]]"
| "split_on sep (c # cs) =
    (if c = sep then [] # split_on sep cs
     else case split_on sep cs of p # ps \<Rightarrow> (c # p) # ps | [] \<Rightarrow> [[c]])"

text \<open>\<^verbatim>\<open>str::trim\<close>: Unicode white space at both ends. \<open>ws_char\<close> recognises the UTF-8 encoding of one such
  character.\<close>

definition ws_char :: "nat list \<Rightarrow> bool" where
  "ws_char bs \<longleftrightarrow>
     (case bs of
        [a] \<Rightarrow> a = 32 \<or> (9 \<le> a \<and> a \<le> 13)
      | [a, b] \<Rightarrow> a = 194 \<and> (b = 133 \<or> b = 160)
      | [a, b, c] \<Rightarrow>
          (a = 225 \<and> b = 154 \<and> c = 128)
          \<or> (a = 226 \<and> b = 128 \<and> (128 \<le> c \<and> c \<le> 138 \<or> c = 168 \<or> c = 169 \<or> c = 175))
          \<or> (a = 226 \<and> b = 129 \<and> c = 159)
          \<or> (a = 227 \<and> b = 128 \<and> c = 128)
      | _ \<Rightarrow> False)"

fun strip_chars :: "(nat list \<Rightarrow> bool) \<Rightarrow> nat list \<Rightarrow> nat list" where
  "strip_chars ws bs =
    (if bs = [] then []
     else if ws (take 1 bs) then strip_chars ws (drop 1 bs)
     else if ws (take 2 bs) then strip_chars ws (drop 2 bs)
     else if ws (take 3 bs) then strip_chars ws (drop 3 bs)
     else bs)"

declare strip_chars.simps [simp del]

definition str_trim :: "string \<Rightarrow> string" where
  "str_trim s =
    map char_of (rev (strip_chars (\<lambda>bs. ws_char (rev bs)) (rev (strip_chars ws_char (map of_char s)))))"

section \<open>Comma separated lists\<close>

lemma split_on_nonempty [simp]: "split_on sep s \<noteq> []"
  by (induction s) (simp_all split: list.splits)

lemma split_on_plain: "sep \<notin> set s \<Longrightarrow> split_on sep s = [s]"
  by (induction s) auto

lemma split_on_append: "sep \<notin> set p \<Longrightarrow> split_on sep (p @ sep # s) = p # split_on sep s"
  by (induction p) auto

fun join_with :: "char \<Rightarrow> string list \<Rightarrow> string" where
  "join_with sep [] = []"
| "join_with sep [p] = p"
| "join_with sep (p # q # ps) = p @ sep # join_with sep (q # ps)"

lemma split_join: "ps \<noteq> [] \<Longrightarrow> \<forall>p \<in> set ps. sep \<notin> set p \<Longrightarrow> split_on sep (join_with sep ps) = ps"
  by (induction sep ps rule: join_with.induct) (simp_all add: split_on_plain split_on_append)

lemma join_split: "join_with sep (split_on sep s) = s"
proof (induction s)
  case (Cons c cs)
  obtain p ps where ps: "split_on sep cs = p # ps"
    by (cases "split_on sep cs") simp_all
  with Cons show ?case
    by (cases ps) auto
qed simp

text \<open>A text whose first and last bytes are printable ASCII has nothing to trim.\<close>

lemma strip_chars_solid:
  assumes "\<not> ws (take 1 bs)" "\<not> ws (take 2 bs)" "\<not> ws (take 3 bs)"
  shows "strip_chars ws bs = bs"
  using assms by (subst strip_chars.simps) simp

definition solid_byte :: "nat \<Rightarrow> bool" where
  "solid_byte b \<longleftrightarrow> 33 \<le> b \<and> b < 128"

lemma ws_char_ends:
  assumes "ws_char bs" "bs \<noteq> []"
  shows "\<not> solid_byte (hd bs)" "\<not> solid_byte (last bs)"
  using assms by (auto simp: ws_char_def solid_byte_def split: list.splits)

lemma str_trim_solid:
  assumes "s \<noteq> []" "solid_byte (of_char (hd s))" "solid_byte (of_char (last s))"
  shows "str_trim s = s"
proof -
  let ?bs = "map of_char s :: nat list"
  have ends: "hd ?bs = of_char (hd s)" "last ?bs = of_char (last s)" "?bs \<noteq> []"
    using assms(1) by (simp_all add: hd_map last_map)
  have "\<not> ws_char (take k ?bs)" if "0 < k" for k
    using ws_char_ends(1) [of "take k ?bs"] that ends assms by auto
  then have front: "strip_chars ws_char ?bs = ?bs"
    by (intro strip_chars_solid) simp_all
  have "\<not> ws_char (rev (take k (rev ?bs)))" if "0 < k" for k
  proof
    assume ws: "ws_char (rev (take k (rev ?bs)))"
    have "last (rev (take k (rev ?bs))) = last ?bs"
      using that ends(3) by (simp add: last_rev hd_rev)
    then show False
      using ws_char_ends(2) [OF ws] that ends assms by auto
  qed
  then have "strip_chars (\<lambda>bs. ws_char (rev bs)) (rev ?bs) = rev ?bs"
    by (intro strip_chars_solid) simp_all
  then show ?thesis
    by (simp add: str_trim_def front comp_def)
qed

end
