(* ===== verification/Mev_Launcher.thy ===== *)
theory Mev_Launcher
  imports Arbitrum_Executor Mempool_Monitor F64 Rust_Text
begin

text \<open>
  The Arbitrum launcher \<^verbatim>\<open>core/src/bin/mev_launcher.rs\<close>: its configuration, the decoder of pending swaps, and
  the tasks it runs (mempool monitor, pool scanner, arbitrage engine) as one state machine whose
  steps interleave freely. The engine's loop is cut at its await points: between two scans or two
  opportunities other tasks may run. Parameters are the environment after \<^verbatim>\<open>dotenv\<close>, the parsers of
  the wallet and of addresses, the node (\<open>chain_rpc\<close>, \<open>evm_node\<close>, fetched transactions) and the
  crates of the Arbitrum modules. Printing, and the timers between two turns, are left out.
\<close>

section \<open>Configuration\<close>

record 'w LauncherConfig =
  lc_http_rpc :: string
  lc_ws_rpc :: string
  lc_contract_address :: address
  lc_wallet :: 'w
  lc_min_profit_bps :: u32
  lc_execute_live :: bool
  lc_flash_amounts :: "u256 list"

definition flash_amounts_default :: "u256 list" where
  "flash_amounts_default = [1000000000000000000, 5000000000000000000, 10000000000000000000, 50 * 1000000000000000000]"

definition launcher_from_env ::
  "(string \<rightharpoonup> string) \<Rightarrow> (string \<Rightarrow> string + 'w) \<Rightarrow> ('w \<Rightarrow> u64 \<Rightarrow> 'w) \<Rightarrow> (string \<Rightarrow> string + address) \<Rightarrow> (string + 'w LauncherConfig) exec" where
  "launcher_from_env env parse_wallet with_chain_id parse_address =
    (let http_rpc = (case env ''ARBITRUM_RPC_URL'' of Some v \<Rightarrow> v | None \<Rightarrow> ''https://arb1.arbitrum.io/rpc'');
         ws_rpc = (case env ''ARBITRUM_WS_URL'' of
                     Some v \<Rightarrow> v
                   | None \<Rightarrow> replace_from ''/v2/'' ''/v2/'' 0 (replace_from ''https://'' ''wss://'' 0 http_rpc))
     in case env ''PRIVATE_KEY'' of
          None \<Rightarrow> Inl ExpectFailed
        | Some private_key \<Rightarrow>
            let contract_address = (case env ''CONTRACT_ADDRESS'' of Some v \<Rightarrow> v | None \<Rightarrow> ''0x42a372E2f161e978ee9791F399c27c56D6CB55eb'');
                min_profit_bps = (case parse_u32 (case env ''MIN_PROFIT_BPS'' of Some v \<Rightarrow> v | None \<Rightarrow> ''10'') of Some n \<Rightarrow> n | None \<Rightarrow> 10);
                execute_live = ((case env ''EXECUTE_MODE'' of Some v \<Rightarrow> v | None \<Rightarrow> ''simulate'') = ''live'')
            in Inr (case parse_wallet private_key of
                      Inl e \<Rightarrow> Inl e
                    | Inr wallet \<Rightarrow>
                        (case parse_address contract_address of
                           Inl e \<Rightarrow> Inl e
                         | Inr addr \<Rightarrow>
                             Inr \<lparr>lc_http_rpc = http_rpc, lc_ws_rpc = ws_rpc, lc_contract_address = addr,
                                  lc_wallet = with_chain_id wallet 42161, lc_min_profit_bps = min_profit_bps,
                                  lc_execute_live = execute_live, lc_flash_amounts = flash_amounts_default\<rparr>)))"

section \<open>Statistics\<close>

record LauncherStats =
  ls_mempool_txs :: u64
  ls_swaps_detected :: u64
  ls_opportunities_found :: u64
  ls_simulations_ok :: u64
  ls_executions_sent :: u64
  ls_executions_success :: u64
  ls_total_profit_wei :: u64

definition launcher_stats_new :: LauncherStats where
  "launcher_stats_new =
    \<lparr>ls_mempool_txs = 0, ls_swaps_detected = 0, ls_opportunities_found = 0, ls_simulations_ok = 0,
     ls_executions_sent = 0, ls_executions_success = 0, ls_total_profit_wei = 0\<rparr>"

section \<open>Swap detection\<close>

datatype LauncherDex = LdUniswapV3 | LdUniswapV2 | LdSushiSwap | LdCamelot | LdUnknown

record LauncherSwap =
  lw_router :: address
  lw_token_in :: address
  lw_token_out :: address
  lw_amount_in :: u256
  lw_min_amount_out :: u256
  lw_dex_type :: LauncherDex

record LauncherTx = EthTransaction +
  lt_to :: "address option"

definition get_router_type :: "address \<Rightarrow> LauncherDex option" where
  "get_router_type addr =
    map_of [(0xE592427A0AEce92De3Edee1F18E0157C05861564, LdUniswapV3),
            (0x68b3465833fb72A70ecDF485E0e4C7bD8665Fc45, LdUniswapV3),
            (0x3fC91A3afd70395Cd496C647d5a6CC9D4B2b7FAD, LdUniswapV3),
            (0x1b02dA8Cb0d097eB8D57A175b88c7D8b47997506, LdSushiSwap),
            (0xc873fEcbd354f5A56E00E710B90EF4201db2448d, LdCamelot)] addr"

definition is_swap_selector :: "bytes \<Rightarrow> bool" where
  "is_swap_selector selector \<longleftrightarrow> 4 \<le> length selector \<and> take 4 selector \<in> set
    [[0x38, 0xed, 0x17, 0x39], [0x88, 0x03, 0xdb, 0xee], [0x7f, 0xf3, 0x6a, 0xb5], [0x18, 0xcb, 0xaf, 0xe5],
     [0x41, 0x4b, 0xf3, 0x89], [0xc0, 0x4b, 0x8d, 0x59], [0xdb, 0x3e, 0x21, 0x98], [0xf2, 0x8c, 0x05, 0x98],
     [0x3c, 0xd0, 0x71, 0x37], [0x24, 0x85, 0x6b, 0xc3]]"

text \<open>The token path of the V2 branches; unlike the monitor's reader it asks for three words at the offset.\<close>

definition launcher_path :: "u256crate \<Rightarrow> bytes \<Rightarrow> nat \<Rightarrow> (address \<times> address) option exec" where
  "launcher_path ux data pos =
    bindE (ux_as_usize ux (ux_from_big_endian ux (sub_bytes pos (pos + 32) data))) (\<lambda>off.
    let path_offset = off + 4 in
    if length data < unat (path_offset + 96) then Inr None
    else bindE (slice data path_offset (path_offset + 32)) (\<lambda>len_word.
      bindE (ux_as_usize ux (ux_from_big_endian ux len_word)) (\<lambda>path_len.
      if path_len < 2 \<or> length data < unat (path_offset + 32 + path_len * 32) then Inr None
      else bindE (slice data (path_offset + 32 + 12) (path_offset + 32 + 32)) (\<lambda>tin.
        bindE (slice data (path_offset + 64 + 12) (path_offset + 64 + 32)) (\<lambda>tout.
        Inr (Some (from_be tin, from_be tout)))))))"

text \<open>The match on the selector: tokens and amounts.\<close>

definition decode_swap_call :: "u256crate \<Rightarrow> LauncherTx \<Rightarrow> (address \<times> address \<times> u256 \<times> u256) option exec" where
  "decode_swap_call ux tx =
    (let data = et_input tx; be = (\<lambda>a b. ux_from_big_endian ux (sub_bytes a b data)); selector = take 4 data in
     if selector = [0x38, 0xed, 0x17, 0x39] \<or> selector = [0x18, 0xcb, 0xaf, 0xe5] then
       if length data < 164 then Inr None
       else bindE (launcher_path ux data 68) (\<lambda>r. Inr (map_option (\<lambda>(tin, tout). (tin, tout, be 4 36, be 36 68)) r))
     else if selector = [0x7f, 0xf3, 0x6a, 0xb5] then
       if length data < 132 then Inr None
       else bindE (launcher_path ux data 36) (\<lambda>r. Inr (map_option (\<lambda>(tin, tout). (tin, tout, et_value tx, be 4 36)) r))
     else if selector = [0x41, 0x4b, 0xf3, 0x89] then
       if length data < 260 then Inr None
       else Inr (Some (from_be (sub_bytes 16 36 data), from_be (sub_bytes 48 68 data), be 164 196, be 196 228))
     else Inr (Some (0, 0, et_value tx, 0)))"

definition decode_swap_info :: "u256crate \<Rightarrow> LauncherTx \<Rightarrow> LauncherSwap option exec" where
  "decode_swap_info ux tx =
    (case lt_to tx of
       None \<Rightarrow> Inr None
     | Some router \<Rightarrow>
         if length (et_input tx) < 4 then Inr None
         else case get_router_type router of
           None \<Rightarrow> Inr None
         | Some dex_type \<Rightarrow>
             if \<not> is_swap_selector (take 4 (et_input tx)) then Inr None
             else bindE (decode_swap_call ux tx) (\<lambda>r.
               Inr (map_option (\<lambda>(token_in, token_out, amount_in, min_amount_out).
                 \<lparr>lw_router = router, lw_token_in = token_in, lw_token_out = token_out, lw_amount_in = amount_in,
                  lw_min_amount_out = min_amount_out, lw_dex_type = dex_type\<rparr>) r)))"

section \<open>The tasks\<close>

text \<open>Where the engine stands in its loop: waiting in the select, with amounts left to scan, with
  opportunities left to handle, or ended. The flag says whether a pending swap triggered the scan.\<close>

datatype engine_phase =
  EngineIdle | EngineScan bool "u256 list" | EngineOpps bool "ArbitrageOpportunity list" "u256 list" | EngineDone

text \<open>Beside the shared state the record keeps what has left the launcher: the transactions handed to the signer
  with the opportunity they execute, and the hashes that came back.\<close>

record 'w launch_state =
  la_running :: bool
  la_pools :: PoolManager
  la_stats :: LauncherStats
  la_fetching :: "bytes32 list"
  la_queue :: "(LauncherTx \<times> LauncherSwap) list"
  la_phase :: engine_phase
  la_scan_count :: u64
  la_received :: "bytes32 list"
  la_swaps :: "(LauncherTx \<times> LauncherSwap) list"
  la_submitted :: "(ArbitrageOpportunity \<times> 'w \<times> u64 \<times> tx_request) list"
  la_accepted :: "(ArbitrageOpportunity \<times> u256) list"

text \<open>\<^verbatim>\<open>run_mempool_monitor\<close>: a hash from the subscription starts a fetch; a fetch that ends with a swap
  counts it and puts it into the channel, whose receiver is gone when the engine has ended.\<close>

definition on_pending_hash :: "bytes32 \<Rightarrow> 'w launch_state \<Rightarrow> 'w launch_state" where
  "on_pending_hash h s =
    (if \<not> la_running s then s
     else s\<lparr>la_stats := (la_stats s)\<lparr>ls_mempool_txs := ls_mempool_txs (la_stats s) + 1\<rparr>,
            la_fetching := la_fetching s @ [h], la_received := la_received s @ [h]\<rparr>)"

definition on_fetched :: "u256crate \<Rightarrow> bytes32 \<Rightarrow> LauncherTx option \<Rightarrow> 'w launch_state \<Rightarrow> 'w launch_state exec" where
  "on_fetched ux h answer s =
    (let s1 = s\<lparr>la_fetching := remove1 h (la_fetching s)\<rparr> in
     case answer of
       None \<Rightarrow> Inr s1
     | Some tx \<Rightarrow>
         bindE (decode_swap_info ux tx) (\<lambda>r. Inr (case r of
           None \<Rightarrow> s1
         | Some swap_info \<Rightarrow>
             s1\<lparr>la_stats := (la_stats s1)\<lparr>ls_swaps_detected := ls_swaps_detected (la_stats s1) + 1\<rparr>,
                la_queue := (if la_phase s1 = EngineDone then la_queue s1 else la_queue s1 @ [(tx, swap_info)]),
                la_swaps := la_swaps s1 @ [(tx, swap_info)]\<rparr>)))"

text \<open>\<^verbatim>\<open>run_pool_scanner\<close>\<close>

definition scanner_turn :: "u256crate \<Rightarrow> chain_rpc \<Rightarrow> 'w launch_state \<Rightarrow> 'w launch_state exec" where
  "scanner_turn ux rpc s =
    (if \<not> la_running s then Inr s
     else bindE (refresh_all ux rpc (la_pools s)) (\<lambda>pools.
          Inr (s\<lparr>la_pools := pools, la_scan_count := la_scan_count s + 1\<rparr>)))"

section \<open>The arbitrage engine\<close>

definition profit_eth_of :: "u128 \<Rightarrow> f64" where
  "profit_eth_of w = f64_div (f64_of_u128 w) (f64_of_u128 1000000000000000000)"

definition count_found :: "'w launch_state \<Rightarrow> 'w launch_state" where
  "count_found s = s\<lparr>la_stats := (la_stats s)\<lparr>ls_opportunities_found := ls_opportunities_found (la_stats s) + 1\<rparr>\<rparr>"

text \<open>A submission that came back with a hash counts as sent and as successful.\<close>

definition record_execution ::
  "u256crate \<Rightarrow> ArbitrageOpportunity \<Rightarrow> (ExecutorError + u256) \<times> ('w \<times> u64 \<times> tx_request) list \<Rightarrow> 'w launch_state \<Rightarrow>
    'w launch_state exec" where
  "record_execution ux opp = (\<lambda>(res, sent) s.
    let s1 = s\<lparr>la_submitted := la_submitted s @ map (Pair opp) sent\<rparr> in
    case res of
      Inl e \<Rightarrow> Inr s1
    | Inr sent_hash \<Rightarrow>
        bindE (ux_as_u64 ux (ao_net_profit opp)) (\<lambda>wei.
        Inr (s1\<lparr>la_stats := (la_stats s1)\<lparr>ls_executions_sent := ls_executions_sent (la_stats s1) + 1,
               ls_executions_success := ls_executions_success (la_stats s1) + 1,
               ls_total_profit_wei := ls_total_profit_wei (la_stats s1) + wei\<rparr>,
             la_accepted := la_accepted s1 @ [(opp, sent_hash)]\<rparr>)))"

definition record_simulation ::
  "u256crate \<Rightarrow> ExecutorError + SimulationResult_arb \<Rightarrow> 'w launch_state \<Rightarrow> 'w launch_state exec" where
  "record_simulation ux res s =
    (case res of
       Inl e \<Rightarrow> Inr s
     | Inr sim \<Rightarrow>
         bindE (ux_as_u128 ux (sx_net_profit sim)) (\<lambda>_.
         Inr (s\<lparr>la_stats := (la_stats s)\<lparr>ls_simulations_ok := ls_simulations_ok (la_stats s) + 1\<rparr>\<rparr>)))"

definition handle_opportunity_launch ::
  "u256crate \<Rightarrow> abi_crate \<Rightarrow> 'w LauncherConfig \<Rightarrow> 'w ArbitrageExecutor \<Rightarrow> 'w evm_node \<Rightarrow> ArbitrageOpportunity \<Rightarrow>
    'w launch_state \<Rightarrow> 'w launch_state exec" where
  "handle_opportunity_launch ux abi config x node opp s =
    (let s1 = count_found s in
     bindE (ux_as_u128 ux (ao_net_profit opp)) (\<lambda>profit.
     bindE (ux_as_u128 ux (ao_input_amount opp)) (\<lambda>_.
     if f64_lt f64_0_0001 (profit_eth_of profit) then
       if lc_execute_live config then bindE (execute_arb ux abi node x opp) (\<lambda>r. record_execution ux opp r s1)
       else bindE (simulate_arb ux abi node x opp) (\<lambda>r. record_simulation ux r s1)
     else Inr s1)))"

text \<open>An opportunity of the periodic scan is only counted.\<close>

definition background_opportunity :: "u256crate \<Rightarrow> ArbitrageOpportunity \<Rightarrow> 'w launch_state \<Rightarrow> 'w launch_state exec" where
  "background_opportunity ux opp s = bindE (ux_as_u128 ux (ao_net_profit opp)) (\<lambda>_. Inr (count_found s))"

datatype engine_choice = TakeSwap | TimerFired

definition launcher_detector :: "'w LauncherConfig \<Rightarrow> 'w launch_state \<Rightarrow> ArbitrumDetector" where
  "launcher_detector config s = arbitrum_detector_new (la_pools s) (lc_min_profit_bps config)"

text \<open>\<^verbatim>\<open>run_arbitrage_engine\<close> up to its next await point.\<close>

definition engine_turn ::
  "u256crate \<Rightarrow> abi_crate \<Rightarrow> 'w LauncherConfig \<Rightarrow> 'w ArbitrageExecutor \<Rightarrow> engine_choice \<Rightarrow> 'w evm_node \<Rightarrow>
    'w launch_state \<Rightarrow> 'w launch_state exec" where
  "engine_turn ux abi config x choice node s =
    (case la_phase s of
       EngineDone \<Rightarrow> Inr s
     | EngineIdle \<Rightarrow>
         Inr (if \<not> la_running s then s\<lparr>la_phase := EngineDone\<rparr>
              else case choice of
                TakeSwap \<Rightarrow>
                  (case la_queue s of
                     [] \<Rightarrow> s
                   | _ # rest \<Rightarrow> s\<lparr>la_queue := rest, la_phase := EngineScan True (lc_flash_amounts config)\<rparr>)
              | TimerFired \<Rightarrow> s\<lparr>la_phase := EngineScan False (take 1 (lc_flash_amounts config))\<rparr>)
     | EngineScan triggered [] \<Rightarrow> Inr (s\<lparr>la_phase := EngineIdle\<rparr>)
     | EngineScan triggered (amount # amounts) \<Rightarrow>
         bindE (scan_all ux (launcher_detector config s) amount) (\<lambda>opps.
         Inr (s\<lparr>la_phase := EngineOpps triggered opps amounts\<rparr>))
     | EngineOpps triggered [] amounts \<Rightarrow> Inr (s\<lparr>la_phase := EngineScan triggered amounts\<rparr>)
     | EngineOpps triggered (opp # opps) amounts \<Rightarrow>
         bindE (if triggered then handle_opportunity_launch ux abi config x node opp s else background_opportunity ux opp s) (\<lambda>s'.
         Inr (s'\<lparr>la_phase := EngineOpps triggered opps amounts\<rparr>)))"

definition on_ctrl_c :: "'w launch_state \<Rightarrow> 'w launch_state" where
  "on_ctrl_c s = s\<lparr>la_running := False\<rparr>"

section \<open>Start-up\<close>

definition discover_with :: "u256crate \<Rightarrow> (address \<Rightarrow> chain_rpc) \<Rightarrow> address \<Rightarrow> PoolManager \<Rightarrow> address \<Rightarrow> PoolManager exec" where
  "discover_with ux rpcs weth pools token =
    bindE (discover_pools ux (rpcs token) pools weth token) (\<lambda>(pools', found). Inr pools')"

definition launcher_pools :: "u256crate \<Rightarrow> (address \<Rightarrow> chain_rpc) \<Rightarrow> PoolManager exec" where
  "launcher_pools ux rpcs =
    (let tokens = map snd get_top_arbitrum_tokens; weth = tokens ! 0
     in foldE (discover_with ux rpcs weth) pool_manager_new (drop 1 tokens))"

definition launch_state_new :: "PoolManager \<Rightarrow> 'w launch_state" where
  "launch_state_new pools =
    \<lparr>la_running = True, la_pools = pools, la_stats = launcher_stats_new, la_fetching = [], la_queue = [],
     la_phase = EngineIdle, la_scan_count = 0, la_received = [], la_swaps = [], la_submitted = [], la_accepted = []\<rparr>"

definition launcher_executor :: "'w LauncherConfig \<Rightarrow> 'w ArbitrageExecutor" where
  "launcher_executor config =
    executor_new \<lparr>xc_contract_address = lc_contract_address config, xc_private_key = lc_wallet config,
      xc_max_gas_price = 500000000, xc_priority_fee = 10000000, xc_slippage_bps = 50\<rparr>"

text \<open>\<^verbatim>\<open>main\<close> up to the spawning of the tasks: a bad URL or a node that does not answer ends it.\<close>

definition launcher_main ::
  "u256crate \<Rightarrow> (string \<Rightarrow> string + unit) \<Rightarrow> (string + u64) \<Rightarrow> (address \<Rightarrow> chain_rpc) \<Rightarrow> 'w LauncherConfig \<Rightarrow>
    (string + 'w ArbitrageExecutor \<times> 'w launch_state) exec" where
  "launcher_main ux try_provider block_number rpcs config =
    (case try_provider (lc_http_rpc config) of
       Inl e \<Rightarrow> Inr (Inl e)
     | Inr _ \<Rightarrow>
         (case block_number of
            Inl e \<Rightarrow> Inr (Inl e)
          | Inr _ \<Rightarrow>
              bindE (launcher_pools ux rpcs) (\<lambda>pools.
              Inr (Inr (launcher_executor config, launch_state_new pools)))))"

text \<open>The tasks interleave in any order.\<close>

inductive launch_step ::
  "u256crate \<Rightarrow> abi_crate \<Rightarrow> 'w LauncherConfig \<Rightarrow> 'w ArbitrageExecutor \<Rightarrow> 'w launch_state \<Rightarrow> 'w launch_state \<Rightarrow> bool"
  for ux abi config x where
  pending: "launch_step ux abi config x s (on_pending_hash h s)"
| fetched: "h \<in> set (la_fetching s) \<Longrightarrow> on_fetched ux h answer s = Inr s' \<Longrightarrow> launch_step ux abi config x s s'"
| scanner: "scanner_turn ux rpc s = Inr s' \<Longrightarrow> launch_step ux abi config x s s'"
| engine: "engine_turn ux abi config x choice node s = Inr s' \<Longrightarrow> launch_step ux abi config x s s'"
| ctrl_c: "launch_step ux abi config x s (on_ctrl_c s)"

inductive launch_reachable :: "u256crate \<Rightarrow> abi_crate \<Rightarrow> 'w LauncherConfig \<Rightarrow> 'w launch_state \<Rightarrow> bool" for ux abi config where
  started: "launcher_main ux try_provider block_number rpcs config = Inr (Inr (x, s)) \<Longrightarrow> launch_reachable ux abi config s"
| stepped: "launch_reachable ux abi config s \<Longrightarrow> launch_step ux abi config (launcher_executor config) s s' \<Longrightarrow>
    launch_reachable ux abi config s'"

section \<open>The profit threshold\<close>

lemma f64_one_ether: "f64_of_u128 1000000000000000000 = (7812500000000000, 7)"
  by (simp add: f64_of_u128_def round53_eval [where k = 7])

text \<open>A profit that passes the comparison with 0.0001 ether is at least \<open>10^14\<close> wei.\<close>

lemma profit_threshold:
  assumes "f64_lt f64_0_0001 (profit_eth_of w)"
  shows "10 ^ 14 \<le> unat w"
proof -
  have big: "f64_val f64_0_0001 < f64_val (profit_eth_of w)"
    using assms by (simp add: f64_lt_def f64_le_val)
  have pos: "0 < fst (f64_of_u128 w)"
  proof (rule ccontr)
    assume "\<not> 0 < fst (f64_of_u128 w)"
    then have "f64_val (profit_eth_of w) = 0"
      by (simp add: profit_eth_of_def f64_div_def f64_val_def round53_def f64_one_ether)
    with big show False
      using f64_val_nonneg [of f64_0_0001] by simp
  qed
  have ether: "f64_val (f64_of_u128 1000000000000000000) = 10 ^ 18"
    by (simp add: f64_one_ether f64_val_def)
  have "f64_val (profit_eth_of w) * 2 ^ 52 \<le> f64_val (f64_of_u128 w) / 10 ^ 18 * (1 + 1 / 2 ^ 60) * (2 ^ 52 + 1)"
    using f64_div_val [OF pos, of "f64_of_u128 1000000000000000000"]
    unfolding profit_eth_of_def ether by (simp add: f64_one_ether)
  moreover have "f64_val (f64_of_u128 w) * 2 ^ 52 \<le> real (unat w) * (2 ^ 52 + 1)"
    by (rule f64_of_u128_val)
  moreover have "f64_val f64_0_0001 = 7378697629483821 / 2 ^ 66"
    by (simp add: f64_0_0001_def f64_val_def power_int_def power_one_over)
  ultimately have "real (unat w) > 10 ^ 14 - 1"
    using big by (simp add: field_simps)
  then have "real (10 ^ 14 - 1) < real (unat w)" by simp
  then show ?thesis
    unfolding of_nat_less_iff by simp
qed

text \<open>Conversely a profit of \<open>2^64\<close> wei passes it.\<close>

lemma profit_passes:
  assumes "2 ^ 64 \<le> unat w"
  shows "f64_lt f64_0_0001 (profit_eth_of w)"
proof -
  have w: "2 ^ 63 \<le> f64_val (f64_of_u128 w)"
    using f64_of_u128_lower [of w] of_nat_mono [OF assms, where ?'a = real] by simp
  have "fst (f64_of_u128 w) \<noteq> 0"
  proof
    assume "fst (f64_of_u128 w) = 0"
    with w show False by (simp add: f64_val_def)
  qed
  then have "f64_val (f64_of_u128 w) / 10 ^ 18 \<le> 4 * f64_val (profit_eth_of w)"
    using f64_div_lower [of "f64_of_u128 1000000000000000000" "f64_of_u128 w"]
    by (simp add: profit_eth_of_def f64_one_ether f64_val_def [of "(_, 7)"])
  with w have "1 \<le> f64_val (profit_eth_of w)"
    by simp
  moreover have "f64_val f64_0_0001 < 1"
    by (simp add: f64_0_0001_def f64_val_def power_int_def power_one_over)
  ultimately show ?thesis
    by (simp add: f64_lt_def f64_le_val)
qed

section \<open>What the launcher submits\<close>

lemma scan_all_members:
  assumes "u256_laws ux" "scan_all ux d amount = Inr opps" "w \<in> set opps"
  shows "sound_opportunity d w \<and> ao_input_token w = ac_weth ArbitrumConfig_default \<and> ao_input_amount w = amount"
proof -
  define tokens where "tokens = map snd get_top_arbitrum_tokens"
  let ?w = "tokens ! 0"
  have weth: "?w = ac_weth ArbitrumConfig_default"
    by (simp add: tokens_def get_top_arbitrum_tokens_def ArbitrumConfig_default_def)
  obtain two tri where two: "collect_found (\<lambda>t. find_two_hop_arb ux d ?w t amount) (drop 1 tokens) = Inr two"
    and tri: "collect_found (\<lambda>(x, y). find_triangular_arb ux d ?w x y amount) (ordered_pairs (drop 1 tokens)) = Inr tri"
    and opps: "set opps = set two \<union> set tri"
    using assms(2) unfolding scan_all_def Let_def tokens_def [symmetric]
    by (auto simp: bindE_eq_Inr_iff simp del: sort_key_simps)
  from assms(3) opps consider t where "find_two_hop_arb ux d ?w t amount = Inr (Some w)"
    | x y where "find_triangular_arb ux d ?w x y amount = Inr (Some w)"
    using set_collect_found [OF two, of w] set_collect_found [OF tri, of w] by fastforce
  then show ?thesis
    unfolding weth using find_two_hop_arb_Some [OF assms(1)] find_triangular_arb_Some [OF assms(1)] by cases blast+
qed

text \<open>An opportunity that a scan of some state of the pools has found.\<close>

definition launch_opp :: "u256crate \<Rightarrow> 'w LauncherConfig \<Rightarrow> ArbitrageOpportunity \<Rightarrow> bool" where
  "launch_opp ux config opp \<longleftrightarrow>
    (\<exists>pools. manager_reachable ux pools \<and> sound_opportunity (arbitrum_detector_new pools (lc_min_profit_bps config)) opp)
    \<and> ao_input_token opp = ac_weth ArbitrumConfig_default \<and> ao_input_amount opp \<in> set (lc_flash_amounts config)"

fun phase_ok :: "u256crate \<Rightarrow> 'w LauncherConfig \<Rightarrow> engine_phase \<Rightarrow> bool" where
  "phase_ok ux config (EngineScan t amounts) \<longleftrightarrow> set amounts \<subseteq> set (lc_flash_amounts config)"
| "phase_ok ux config (EngineOpps t opps amounts) \<longleftrightarrow>
    set amounts \<subseteq> set (lc_flash_amounts config) \<and> (\<forall>opp \<in> set opps. launch_opp ux config opp)"
| "phase_ok ux config _ \<longleftrightarrow> True"

definition submission_ok ::
  "u256crate \<Rightarrow> abi_crate \<Rightarrow> 'w LauncherConfig \<Rightarrow> ArbitrageOpportunity \<times> 'w \<times> u64 \<times> tx_request \<Rightarrow> bool" where
  "submission_ok ux abi config = (\<lambda>(opp, wallet, chain, tx).
    lc_execute_live config \<and> launch_opp ux config opp \<and> 10 ^ 14 \<le> unat (ao_net_profit opp)
    \<and> wallet = lc_wallet config \<and> chain = 42161 \<and> tq_to tx = lc_contract_address config
    \<and> (\<exists>data. encode_arb_path ux abi (ao_path opp) = Inr data
         \<and> tq_data tx = abi_execute_arbitrage abi [ao_input_token opp] [ao_input_amount opp] data))"

definition launch_accounts :: "'w launch_state \<Rightarrow> bool" where
  "launch_accounts s \<longleftrightarrow>
    ls_mempool_txs (la_stats s) = of_nat (length (la_received s))
    \<and> ls_swaps_detected (la_stats s) = of_nat (length (la_swaps s))
    \<and> ls_executions_sent (la_stats s) = of_nat (length (la_accepted s))
    \<and> ls_executions_success (la_stats s) = of_nat (length (la_accepted s))
    \<and> ls_total_profit_wei (la_stats s) = of_nat (\<Sum>(opp, h) \<leftarrow> la_accepted s. unat (ao_net_profit opp))
    \<and> length (la_accepted s) \<le> length (la_submitted s)
    \<and> mset (la_fetching s) \<subseteq># mset (la_received s)
    \<and> (la_phase s \<noteq> EngineDone \<longrightarrow> (\<exists>taken. la_swaps s = taken @ la_queue s))"

definition launch_inv :: "u256crate \<Rightarrow> abi_crate \<Rightarrow> 'w LauncherConfig \<Rightarrow> 'w launch_state \<Rightarrow> bool" where
  "launch_inv ux abi config s \<longleftrightarrow> manager_reachable ux (la_pools s) \<and> phase_ok ux config (la_phase s)
    \<and> (\<forall>e \<in> set (la_submitted s). submission_ok ux abi config e) \<and> launch_accounts s"

lemma execute_arb_submission:
  assumes "execute_arb ux abi node (launcher_executor config) opp = Inr (res, sent)" "(w, c, tx) \<in> set sent"
    and "lc_execute_live config" "launch_opp ux config opp" "10 ^ 14 \<le> unat (ao_net_profit opp)"
  shows "submission_ok ux abi config (opp, w, c, tx)"
proof -
  obtain data where "encode_arb_path ux abi (ao_path opp) = Inr data"
    "submit_tx node (launcher_executor config) (arbitrage_call abi (launcher_executor config) opp data) = (res, sent)"
    using assms(1) by (auto simp: execute_arb_def bindE_eq_Inr_iff)
  with assms(2-5) show ?thesis
    by (auto simp: submission_ok_def submit_tx_def arbitrage_call_def launcher_executor_def executor_new_def Let_def
        split: sum.splits if_splits)
qed

lemma execute_arb_accepted:
  "execute_arb ux abi node x opp = Inr (Inr h, sent) \<Longrightarrow> length sent = 1"
  by (cases "nd_gas_price node") (auto simp: execute_arb_def bindE_eq_Inr_iff submit_tx_def Let_def split: if_splits)

lemma record_execution_inv:
  assumes ux: "u256_laws ux" and inv: "launch_inv ux abi config s"
    and exe: "execute_arb ux abi node (launcher_executor config) opp = Inr (res, sent)"
    and ok: "lc_execute_live config" "launch_opp ux config opp" "10 ^ 14 \<le> unat (ao_net_profit opp)"
    and run: "record_execution ux opp (res, sent) s = Inr s'"
  shows "launch_inv ux abi config s' \<and> la_phase s' = la_phase s"
proof (cases res)
  case (Inl e)
  then have "s' = s\<lparr>la_submitted := la_submitted s @ map (Pair opp) sent\<rparr>"
    using run by (simp add: record_execution_def)
  with inv show ?thesis
    using execute_arb_submission [OF exe _ ok] by (auto simp: launch_inv_def launch_accounts_def)
next
  case (Inr h)
  then have "length sent = 1"
    using exe execute_arb_accepted by blast
  obtain wei where wei: "unat wei = unat (ao_net_profit opp)" and
    s': "s' = s\<lparr>la_submitted := la_submitted s @ map (Pair opp) sent,
      la_stats := (la_stats s)\<lparr>ls_executions_sent := ls_executions_sent (la_stats s) + 1,
         ls_executions_success := ls_executions_success (la_stats s) + 1,
         ls_total_profit_wei := ls_total_profit_wei (la_stats s) + wei\<rparr>,
      la_accepted := la_accepted s @ [(opp, h)]\<rparr>"
    using run Inr by (auto simp: record_execution_def bindE_eq_Inr_iff u256_laws.as_u64_Inr_iff [OF ux])
  have "(of_nat (unat (ao_net_profit opp)) :: u64) = wei"
    by (simp flip: wei)
  with inv \<open>length sent = 1\<close> show ?thesis
    using execute_arb_submission [OF exe _ ok] unfolding s' by (auto simp: launch_inv_def launch_accounts_def)
qed

lemma record_simulation_inv:
  "launch_inv ux abi config s \<Longrightarrow> record_simulation ux res s = Inr s' \<Longrightarrow> launch_inv ux abi config s' \<and> la_phase s' = la_phase s"
  by (cases res) (auto simp: record_simulation_def bindE_eq_Inr_iff launch_inv_def launch_accounts_def)

lemma count_found_inv: "launch_inv ux abi config s \<Longrightarrow> launch_inv ux abi config (count_found s) \<and> la_phase (count_found s) = la_phase s"
  by (simp add: launch_inv_def launch_accounts_def count_found_def)

lemma handle_opportunity_inv:
  assumes ux: "u256_laws ux" and inv: "launch_inv ux abi config s" and opp: "launch_opp ux config opp"
    and run: "handle_opportunity_launch ux abi config (launcher_executor config) node opp s = Inr s'"
  shows "launch_inv ux abi config s' \<and> la_phase s' = la_phase s"
proof -
  obtain w where w: "unat w = unat (ao_net_profit opp)" and
    rest: "(if f64_lt f64_0_0001 (profit_eth_of w) then
       if lc_execute_live config then bindE (execute_arb ux abi node (launcher_executor config) opp) (\<lambda>r. record_execution ux opp r (count_found s))
       else bindE (simulate_arb ux abi node (launcher_executor config) opp) (\<lambda>r. record_simulation ux r (count_found s))
     else Inr (count_found s)) = Inr s'"
    using run by (auto simp: handle_opportunity_launch_def Let_def bindE_eq_Inr_iff u256_laws.as_u128_Inr_iff [OF ux])
  note base = count_found_inv [OF inv]
  have net: "10 ^ 14 \<le> unat (ao_net_profit opp)" if "f64_lt f64_0_0001 (profit_eth_of w)"
    using profit_threshold [OF that] by (simp add: w)
  show ?thesis
  proof (cases "f64_lt f64_0_0001 (profit_eth_of w)")
    case high: True
    show ?thesis
    proof (cases "lc_execute_live config")
      case True
      then obtain res sent where r: "execute_arb ux abi node (launcher_executor config) opp = Inr (res, sent)"
        "record_execution ux opp (res, sent) (count_found s) = Inr s'"
        using rest high by (simp add: bindE_eq_Inr_iff) (metis surj_pair)
      from record_execution_inv [OF ux conjunct1 [OF base] r(1) True opp net [OF high] r(2)] base show ?thesis
        by simp
    next
      case False
      then obtain r where "record_simulation ux r (count_found s) = Inr s'"
        using rest high by (auto simp: bindE_eq_Inr_iff)
      from record_simulation_inv [OF conjunct1 [OF base] this] base show ?thesis
        by simp
    qed
  next
    case False
    with rest base show ?thesis by simp
  qed
qed

lemma background_inv:
  "launch_inv ux abi config s \<Longrightarrow> background_opportunity ux opp s = Inr s' \<Longrightarrow> launch_inv ux abi config s' \<and> la_phase s' = la_phase s"
  using count_found_inv by (auto simp: background_opportunity_def bindE_eq_Inr_iff)

text \<open>Moving to a phase in which the engine may be keeps the invariant.\<close>

lemma launch_inv_phase:
  assumes "launch_inv ux abi config s" "phase_ok ux config ph" "ph = EngineDone \<or> la_phase s \<noteq> EngineDone"
  shows "launch_inv ux abi config (s\<lparr>la_phase := ph\<rparr>)"
  using assms by (auto simp: launch_inv_def launch_accounts_def)

lemma engine_turn_inv:
  assumes ux: "u256_laws ux" and inv: "launch_inv ux abi config s"
    and run: "engine_turn ux abi config (launcher_executor config) choice node s = Inr s'"
  shows "launch_inv ux abi config s'"
proof (cases "la_phase s")
  case EngineIdle
  then show ?thesis
    using run inv
    by (auto simp: engine_turn_def launch_inv_def launch_accounts_def dest: in_set_takeD split: if_splits engine_choice.splits list.splits)
next
  case (EngineScan t amounts)
  show ?thesis
  proof (cases amounts)
    case Nil
    with EngineScan run inv show ?thesis
      by (auto simp: engine_turn_def intro: launch_inv_phase)
  next
    case (Cons a as)
    obtain opps where scan: "scan_all ux (launcher_detector config s) a = Inr opps" and s': "s' = s\<lparr>la_phase := EngineOpps t opps as\<rparr>"
      using run EngineScan Cons by (auto simp: engine_turn_def bindE_eq_Inr_iff)
    have am: "a \<in> set (lc_flash_amounts config)" "set as \<subseteq> set (lc_flash_amounts config)" "manager_reachable ux (la_pools s)"
      using inv EngineScan Cons by (simp_all add: launch_inv_def)
    have "launch_opp ux config opp" if "opp \<in> set opps" for opp
      using scan_all_members [OF ux scan that] am unfolding launch_opp_def launcher_detector_def by metis
    then show ?thesis
      unfolding s' using am EngineScan by (intro launch_inv_phase inv) simp_all
  qed
next
  case (EngineOpps t opps amounts)
  show ?thesis
  proof (cases opps)
    case Nil
    have "set amounts \<subseteq> set (lc_flash_amounts config)"
      using inv EngineOpps by (simp add: launch_inv_def)
    with Nil EngineOpps run inv show ?thesis
      by (auto simp: engine_turn_def intro!: launch_inv_phase)
  next
    case (Cons opp rest)
    obtain s1 where s1: "(if t then handle_opportunity_launch ux abi config (launcher_executor config) node opp s else background_opportunity ux opp s) = Inr s1"
      and s': "s' = s1\<lparr>la_phase := EngineOpps t rest amounts\<rparr>"
      using run EngineOpps Cons by (auto simp: engine_turn_def bindE_eq_Inr_iff)
    have ph: "launch_opp ux config opp" "phase_ok ux config (EngineOpps t rest amounts)"
      using inv EngineOpps Cons by (simp_all add: launch_inv_def)
    have "launch_inv ux abi config s1 \<and> la_phase s1 = la_phase s"
      using s1 handle_opportunity_inv [OF ux inv ph(1)] background_inv [OF inv] by (cases t) auto
    then show ?thesis
      unfolding s' using ph(2) EngineOpps by (intro launch_inv_phase) simp_all
  qed
next
  case EngineDone
  with run inv show ?thesis by (simp add: engine_turn_def)
qed

lemma launch_step_inv:
  assumes ux: "u256_laws ux" and inv: "launch_inv ux abi config s" and step: "launch_step ux abi config (launcher_executor config) s s'"
  shows "launch_inv ux abi config s'"
  using step
proof cases
  case (pending h)
  have "mset fs \<subseteq># mset rs \<Longrightarrow> add_mset h (mset fs) \<subseteq># add_mset h (mset rs)" for fs rs
    by simp
  with inv show ?thesis
    by (auto simp: pending on_pending_hash_def launch_inv_def launch_accounts_def)
next
  case (fetched h answer)
  have sub: "mset (remove1 h (la_fetching s)) \<subseteq># mset (la_received s)"
  proof -
    have "mset (la_fetching s) \<subseteq># mset (la_received s)"
      using inv by (simp add: launch_inv_def launch_accounts_def)
    then show ?thesis
      unfolding mset_remove1 by (rule subset_mset.order_trans [OF diff_subset_eq_self])
  qed
  show ?thesis
  proof (cases answer)
    case None
    with fetched inv sub show ?thesis
      by (auto simp: on_fetched_def launch_inv_def launch_accounts_def)
  next
    case (Some tx)
    then obtain r where r: "decode_swap_info ux tx = Inr r"
      using fetched by (auto simp: on_fetched_def Let_def bindE_eq_Inr_iff)
    show ?thesis
      using fetched inv sub Some r by (cases r) (auto simp: on_fetched_def Let_def launch_inv_def launch_accounts_def)
  qed
next
  case (scanner rpc)
  then show ?thesis
    using inv manager_reachable.all
    by (auto simp: scanner_turn_def bindE_eq_Inr_iff launch_inv_def launch_accounts_def split: if_splits)
next
  case (engine choice node)
  then show ?thesis
    by (rule engine_turn_inv [OF ux inv])
next
  case ctrl_c
  with inv show ?thesis
    by (simp add: on_ctrl_c_def launch_inv_def launch_accounts_def)
qed

lemma launcher_pools_reachable:
  assumes "launcher_pools ux rpcs = Inr pools"
  shows "manager_reachable ux pools"
proof (rule foldE_invariant [where P = "manager_reachable ux", OF manager_reachable.new])
  show "foldE (discover_with ux rpcs (map snd get_top_arbitrum_tokens ! 0)) pool_manager_new (drop 1 (map snd get_top_arbitrum_tokens)) = Inr pools"
    using assms by (simp add: launcher_pools_def Let_def)
qed (auto simp: discover_with_def bindE_eq_Inr_iff intro: manager_reachable.discover)

lemma launcher_mainE:
  assumes "launcher_main ux try_provider block_number rpcs config = Inr (Inr (x, s))"
  obtains pools where "launcher_pools ux rpcs = Inr pools" "x = launcher_executor config" "s = launch_state_new pools"
  using assms by (auto simp: launcher_main_def bindE_eq_Inr_iff split: sum.splits)

lemma launch_reachable_inv:
  assumes "u256_laws ux" "launch_reachable ux abi config s"
  shows "launch_inv ux abi config s"
  using assms(2)
proof induction
  case (started try_provider block_number rpcs x s)
  then obtain pools where "launcher_pools ux rpcs = Inr pools" "s = launch_state_new pools"
    by (rule launcher_mainE)
  then show ?case
    using launcher_pools_reachable
    by (simp add: launch_inv_def launch_accounts_def launch_state_new_def launcher_stats_new_def)
next
  case (stepped s s')
  then show ?case
    using launch_step_inv [OF assms(1)] by blast
qed

section \<open>The pools of the launcher\<close>

definition has_token :: "address \<Rightarrow> Pool \<Rightarrow> bool" where
  "has_token t p \<longleftrightarrow> pl_token0 p = t \<or> pl_token1 p = t"

definition all_have :: "address \<Rightarrow> PoolManager \<Rightarrow> bool" where
  "all_have t m \<longleftrightarrow> (\<forall>p \<in> snd ` set (pm_pools m). has_token t p)"

text \<open>The factory of Uniswap V3 returns a pool of the two tokens it was asked for.\<close>

definition honest_v3 :: "chain_rpc \<Rightarrow> bool" where
  "honest_v3 rpc \<longleftrightarrow> (\<forall>factory t0 t1 fee a. rpc_get_pool rpc factory t0 t1 fee = Some a \<and> a \<noteq> 0 \<longrightarrow>
    rpc_token0 rpc a \<in> {None, Some t0} \<and> rpc_token1 rpc a \<in> {None, Some t1})"

lemma fetch_v3_tokens:
  "fetch_v3_pool ux rpc a fee = Inr (Some p) \<Longrightarrow> rpc_token0 rpc a = Some (pl_token0 p) \<and> rpc_token1 rpc a = Some (pl_token1 p)"
  by (auto simp: fetch_v3_pool_def bindE_eq_Inr_iff split: option.splits if_splits)

lemma discover_v3_tokens:
  assumes "honest_v3 rpc" "discover_v3 ux rpc factory t0 t1 fees = Inr ps" "p \<in> set ps"
  shows "pl_token0 p = t0 \<and> pl_token1 p = t1"
  using assms(2,3)
proof (induction fees arbitrary: ps)
  case (Cons fee fees)
  let ?get = "rpc_get_pool rpc factory t0 t1 fee"
  obtain r qs where r: "(case ?get of Some a \<Rightarrow> if a \<noteq> 0 then fetch_v3_pool ux rpc a fee else Inr None | None \<Rightarrow> Inr None) = Inr r"
    and qs: "discover_v3 ux rpc factory t0 t1 fees = Inr qs" "ps = opt_cons r qs"
    using Cons.prems(1) by (auto simp: bindE_eq_Inr_iff)
  show ?case
  proof (cases "p \<in> set qs")
    case True
    with Cons.IH [OF qs(1)] show ?thesis by blast
  next
    case False
    then have "r = Some p"
      using Cons.prems(2) qs(2) by (auto simp: set_opt_cons)
    with r obtain a where "?get = Some a" "a \<noteq> 0" "fetch_v3_pool ux rpc a fee = Inr (Some p)"
      by (auto split: option.splits if_splits)
    then show ?thesis
      using assms(1) fetch_v3_tokens [of ux rpc a fee p] unfolding honest_v3_def by fastforce
  qed
qed simp

lemma fetch_v2_tokens: "fetch_v2_pool ux rpc factory t0 t1 ty = Inr (Some p) \<Longrightarrow> pl_token0 p = t0 \<and> pl_token1 p = t1"
  by (auto simp: fetch_v2_pool_def bindE_eq_Inr_iff split: option.splits if_splits)

lemma discover_tokens:
  assumes "honest_v3 rpc" "discover_pools ux rpc m ta tb = Inr (m', ps)" "p \<in> set ps"
  shows "has_token ta p"
proof -
  let ?t0 = "if ta < tb then ta else tb" and ?t1 = "if ta < tb then tb else ta"
  obtain v3 sushi camelot where d: "discover_v3 ux rpc (pm_uniswap_v3_factory m) ?t0 ?t1 [100, 500, 3000, 10000] = Inr v3"
    "fetch_v2_pool ux rpc (pm_sushi_factory m) ?t0 ?t1 PtSushiSwap = Inr sushi"
    "fetch_v2_pool ux rpc (pm_camelot_factory m) ?t0 ?t1 PtCamelot = Inr camelot"
    "ps = v3 @ opt_cons sushi (opt_cons camelot [])"
    using assms(2) by (auto simp: discover_pools_def Let_def bindE_eq_Inr_iff split: if_splits)
  from assms(3) consider "p \<in> set v3" | "sushi = Some p" | "camelot = Some p"
    by (auto simp: d(4) set_opt_cons)
  then have "pl_token0 p = ?t0 \<and> pl_token1 p = ?t1"
    using discover_v3_tokens [OF assms(1) d(1)] fetch_v2_tokens d(2,3) by cases blast+
  then show ?thesis
    by (auto simp: has_token_def)
qed

lemma all_have_store:
  "all_have t m \<Longrightarrow> \<forall>p \<in> set ps. has_token t p \<Longrightarrow> all_have t (foldl store_pool m ps)"
proof (induction ps arbitrary: m)
  case (Cons p ps)
  have "all_have t (store_pool m p)"
    using Cons.prems by (auto simp: all_have_def store_pool_def dest!: set_alist_update)
  with Cons show ?case by simp
qed simp

lemma refresh_one_tokens: "refresh_one ux rpc a p = Inr (Some p') \<Longrightarrow> pl_token0 p' = pl_token0 p \<and> pl_token1 p' = pl_token1 p"
  by (cases "pl_pool_type p")
    (auto simp: refresh_one_def refresh_v2_def bindE_eq_Inr_iff split: option.splits if_splits)

lemma refresh_results_tokens:
  "refresh_results ux rpc ps = Inr rs \<Longrightarrow> \<forall>p \<in> snd ` set ps. has_token t p \<Longrightarrow> (a, Some p') \<in> set rs \<Longrightarrow> has_token t p'"
proof (induction ps arbitrary: rs)
  case (Cons x ps)
  obtain b p where "x = (b, p)"
    by (cases x)
  with Cons show ?case
    by (auto simp: bindE_eq_Inr_iff has_token_def dest: refresh_one_tokens)
qed simp

lemma put_results_tokens:
  "\<forall>p \<in> snd ` set ps. has_token t p \<Longrightarrow> \<forall>a p. (a, Some p) \<in> set rs \<longrightarrow> has_token t p \<Longrightarrow>
    p \<in> snd ` set (foldl put_result ps rs) \<Longrightarrow> has_token t p"
proof (induction rs arbitrary: ps)
  case (Cons r rs)
  have "\<forall>p \<in> snd ` set (put_result ps r). has_token t p"
    using Cons.prems(1,2) by (cases r; cases "snd r") (auto simp: put_result_def dest!: set_alist_update)
  from Cons.IH [OF this] Cons.prems(2,3) show ?case
    by simp
qed auto

lemma refresh_all_have:
  assumes "all_have t m" "refresh_all ux rpc m = Inr m'"
  shows "all_have t m'"
proof -
  obtain rs where rs: "refresh_results ux rpc (pm_pools m) = Inr rs" "pm_pools m' = foldl put_result (pm_pools m) rs"
    using assms(2) by (auto simp: refresh_all_def bindE_eq_Inr_iff)
  have "\<forall>a p. (a, Some p) \<in> set rs \<longrightarrow> has_token t p"
    using refresh_results_tokens [OF rs(1)] assms(1) by (auto simp: all_have_def)
  then show ?thesis
    using put_results_tokens [of "pm_pools m" t rs] assms(1) by (auto simp: all_have_def rs(2))
qed

abbreviation WETH :: address where
  "WETH \<equiv> ac_weth ArbitrumConfig_default"

lemma token_list:
  "map snd get_top_arbitrum_tokens ! 0 = WETH" "WETH \<notin> set (drop 1 (map snd get_top_arbitrum_tokens))"
  by (simp_all add: get_top_arbitrum_tokens_def ArbitrumConfig_default_def)

lemma launcher_pools_have:
  assumes "launcher_pools ux rpcs = Inr pools" "\<forall>token. honest_v3 (rpcs token)"
  shows "all_have WETH pools"
proof (rule foldE_invariant [where P = "all_have WETH"])
  show "foldE (discover_with ux rpcs WETH) pool_manager_new (drop 1 (map snd get_top_arbitrum_tokens)) = Inr pools"
    using assms(1) by (simp add: launcher_pools_def Let_def token_list)
  show "all_have WETH pool_manager_new"
    by (simp add: all_have_def pool_manager_new_def)
  fix m t m' assume m: "all_have WETH m" "discover_with ux rpcs WETH m t = Inr m'"
  then obtain ps where d: "discover_pools ux (rpcs t) m WETH t = Inr (m', ps)"
    by (auto simp: discover_with_def bindE_eq_Inr_iff)
  have "\<forall>p \<in> set ps. has_token WETH p"
    using discover_tokens [OF _ d] assms(2) by blast
  then show "all_have WETH m'"
    unfolding discover_pools_wf(2) [OF d] by (rule all_have_store [OF m(1)])
qed

lemma handle_keeps_pools:
  assumes "handle_opportunity_launch ux abi config x node opp s = Inr s'"
  shows "la_pools s' = la_pools s"
proof -
  have "la_pools t' = la_pools t" if "record_execution ux opp r t = Inr t'" for r and t t' :: "'a launch_state"
    using that by (cases r; cases "fst r") (auto simp: record_execution_def bindE_eq_Inr_iff)
  moreover have "la_pools t' = la_pools t" if "record_simulation ux r t = Inr t'" for r and t t' :: "'a launch_state"
    using that by (cases r) (auto simp: record_simulation_def bindE_eq_Inr_iff)
  moreover have "la_pools (count_found s) = la_pools s"
    by (simp add: count_found_def)
  ultimately show ?thesis
    using assms by (force simp: handle_opportunity_launch_def Let_def bindE_eq_Inr_iff split: if_splits)
qed

lemma engine_keeps_pools:
  assumes "engine_turn ux abi config x choice node s = Inr s'"
  shows "la_pools s' = la_pools s"
proof (cases "la_phase s")
  case EngineIdle
  with assms show ?thesis
    by (auto simp: engine_turn_def split: if_splits engine_choice.splits list.splits)
next
  case (EngineScan t amounts)
  with assms show ?thesis
    by (cases amounts) (auto simp: engine_turn_def bindE_eq_Inr_iff)
next
  case (EngineOpps t opps amounts)
  with assms show ?thesis
    by (cases opps; cases t)
      (auto simp: engine_turn_def background_opportunity_def count_found_def bindE_eq_Inr_iff dest: handle_keeps_pools)
next
  case EngineDone
  with assms show ?thesis by (simp add: engine_turn_def)
qed

lemma launch_step_have:
  assumes "launch_step ux abi config x s s'" "all_have t (la_pools s)"
  shows "all_have t (la_pools s')"
  using assms(1)
proof cases
  case (pending h)
  with assms(2) show ?thesis by (simp add: on_pending_hash_def)
next
  case (fetched h answer)
  then have "la_pools s' = la_pools s"
    by (auto simp: on_fetched_def Let_def bindE_eq_Inr_iff split: option.splits)
  with assms(2) show ?thesis by simp
next
  case (scanner rpc)
  with assms(2) show ?thesis
    by (auto simp: scanner_turn_def bindE_eq_Inr_iff split: if_splits dest: refresh_all_have)
next
  case (engine choice node)
  then have "la_pools s' = la_pools s"
    by (rule engine_keeps_pools)
  with assms(2) show ?thesis by simp
next
  case ctrl_c
  with assms(2) show ?thesis by (simp add: on_ctrl_c_def)
qed

lemma get_pools_empty: "all_have t m \<Longrightarrow> b \<noteq> t \<Longrightarrow> c \<noteq> t \<Longrightarrow> get_pools m b c = []"
  by (auto simp: get_pools_def all_have_def has_token_def filter_empty_conv)

lemma no_triangular:
  "all_have t (ad_pool_manager d) \<Longrightarrow> b \<noteq> t \<Longrightarrow> c \<noteq> t \<Longrightarrow> find_triangular_arb ux d t b c amount = Inr None"
  by (simp add: find_triangular_arb_def get_pools_empty)

lemma collect_found_none: "\<forall>c \<in> set cs. f c = Inr None \<Longrightarrow> collect_found f cs = Inr []"
  by (induction cs) (simp_all add: opt_cons_def)

lemma two_hop_path:
  assumes "find_two_hop_arb ux d t i amount = Inr (Some w)"
  shows "length (ao_path w) = 2"
proof -
  obtain cs where "best_of (two_hop_candidate ux d t i amount) cs None = Inr (Some w)"
    using assms by (auto simp: find_two_hop_arb_def Let_def split: if_splits)
  then obtain c where "two_hop_candidate ux d t i amount c = Inr (Some w)"
    using best_of_Some by blast
  then show ?thesis
    by (cases c) (auto simp: two_hop_candidate_def opportunity_from_def Let_def bindE_eq_Inr_iff split: if_splits)
qed

lemma ordered_pairs_members: "(x, y) \<in> set (ordered_pairs xs) \<Longrightarrow> x \<in> set xs \<and> y \<in> set xs"
  by (auto simp: set_ordered_pairs)

text \<open>With WETH in every pool a scan is its two-hop half.\<close>

lemma scan_all_two_hop:
  assumes "all_have WETH (ad_pool_manager d)"
  shows "scan_all ux d amount =
    bindE (collect_found (\<lambda>t. find_two_hop_arb ux d WETH t amount) (drop 1 (map snd get_top_arbitrum_tokens))) (\<lambda>two.
    bindE (if two = [] then run_all (near_miss_token ux d WETH amount) (drop 1 (map snd get_top_arbitrum_tokens)) else Inr ()) (\<lambda>_.
    Inr (sort_key (\<lambda>opp. - int (unat (ao_net_profit opp))) two)))"
proof -
  have "find_triangular_arb ux d WETH x y amount = Inr None"
    if "(x, y) \<in> set (ordered_pairs (drop 1 (map snd get_top_arbitrum_tokens)))" for x y
    using ordered_pairs_members [OF that] token_list(2) by (intro no_triangular assms) auto
  then have "collect_found (\<lambda>(x, y). find_triangular_arb ux d WETH x y amount) (ordered_pairs (drop 1 (map snd get_top_arbitrum_tokens))) = Inr []"
    by (intro collect_found_none) auto
  then show ?thesis
    unfolding scan_all_def Let_def token_list(1) by simp
qed



text \<open>C25: the launcher's books. In every reachable state the counters hold the number of hashes received, of
  swaps decoded and of submissions that returned a hash; the profit counter is the sum of the net
  profits of the latter, modulo \<open>2^64\<close>. The success counter always equals the counter of
  submissions, since nothing waits for a confirmation. Swaps are taken from the channel in order,
  and every running fetch belongs to a received hash.\<close>

theorem launcher_accounting:
  assumes "u256_laws ux" "launch_reachable ux abi config s"
  shows "ls_mempool_txs (la_stats s) = of_nat (length (la_received s))
    \<and> ls_swaps_detected (la_stats s) = of_nat (length (la_swaps s))
    \<and> ls_executions_sent (la_stats s) = of_nat (length (la_accepted s))
    \<and> ls_executions_success (la_stats s) = ls_executions_sent (la_stats s)
    \<and> ls_total_profit_wei (la_stats s) = of_nat (\<Sum>(opp, h) \<leftarrow> la_accepted s. unat (ao_net_profit opp))
    \<and> length (la_accepted s) \<le> length (la_submitted s)
    \<and> mset (la_fetching s) \<subseteq># mset (la_received s)
    \<and> (la_phase s \<noteq> EngineDone \<longrightarrow> (\<exists>taken. la_swaps s = taken @ la_queue s))"
  using launch_reachable_inv [OF assms] by (simp add: launch_inv_def launch_accounts_def)

section \<open>A live run\<close>

definition demo_config :: "nat LauncherConfig" where
  "demo_config = \<lparr>lc_http_rpc = [], lc_ws_rpc = [], lc_contract_address = 99, lc_wallet = 5, lc_min_profit_bps = 10,
     lc_execute_live = True, lc_flash_amounts = [1000000000000000000]\<rparr>"

abbreviation USDC :: address where
  "USDC \<equiv> 0xaf88d065e77c8cC2239327C5EDb3A432268e5831"

definition silent_rpc :: chain_rpc where
  "silent_rpc = \<lparr>rpc_get_pool = \<lambda>f a b fee. None, rpc_get_pair = \<lambda>f a b. None, rpc_token0 = \<lambda>a. None, rpc_token1 = \<lambda>a. None,
     rpc_liquidity = \<lambda>a. None, rpc_sqrt_price = \<lambda>a. None, rpc_reserves = \<lambda>a. None\<rparr>"

definition pairs_rpc :: chain_rpc where
  "pairs_rpc = silent_rpc\<lparr>rpc_get_pair := \<lambda>f a b. Some (if f = pm_sushi_factory pool_manager_new then 7 else 8),
     rpc_reserves := \<lambda>a. Some (1000000000000000000000, if a = 7 then 3300000000000 else 3000000000000)\<rparr>"

definition demo_rpcs :: "address \<Rightarrow> chain_rpc" where
  "demo_rpcs token = (if token = USDC then pairs_rpc else silent_rpc)"

definition usdc_pool :: "address \<Rightarrow> PoolType \<Rightarrow> u256 \<Rightarrow> Pool" where
  "usdc_pool a ty r = \<lparr>pl_address = a, pl_token0 = WETH, pl_token1 = USDC, pl_pool_type = ty,
     pl_reserve0 = 1000000000000000000000, pl_reserve1 = r, pl_liquidity = 1000000000000000000000 + r, pl_fee_bps = 30\<rparr>"

definition demo_pools :: PoolManager where
  "demo_pools = pool_manager_new\<lparr>pm_pools := [(7, usdc_pool 7 PtSushiSwap 3300000000000), (8, usdc_pool 8 PtCamelot 3000000000000)]\<rparr>"

lemma foldE_same: "\<forall>x \<in> set xs. f s x = Inr s \<Longrightarrow> foldE f s xs = Inr s"
  by (induction xs) simp_all

lemma silent_discover: "discover_pools u256_std silent_rpc m a b = Inr (m, [])"
  by (simp add: discover_pools_def silent_rpc_def fetch_v2_pool_def opt_cons_def Let_def)

lemma pairs_discover: "discover_pools u256_std pairs_rpc pool_manager_new WETH USDC
  = Inr (demo_pools, [usdc_pool 7 PtSushiSwap 3300000000000, usdc_pool 8 PtCamelot 3000000000000])"
  by (simp add: discover_pools_def pairs_rpc_def silent_rpc_def fetch_v2_pool_def opt_cons_def Let_def pool_manager_new_def
      store_pool_def demo_pools_def usdc_pool_def std_u256.add_law ArbitrumConfig_default_def)

lemma demo_launcher_pools: "launcher_pools u256_std demo_rpcs = Inr demo_pools"
proof -
  obtain rest where tokens: "drop 1 (map snd get_top_arbitrum_tokens) = USDC # rest" "USDC \<notin> set rest"
    by (simp add: get_top_arbitrum_tokens_def)
  have "foldE (discover_with u256_std demo_rpcs WETH) demo_pools rest = Inr demo_pools"
    using tokens(2) by (intro foldE_same) (auto simp: discover_with_def demo_rpcs_def silent_discover)
  then show ?thesis
    unfolding launcher_pools_def Let_def token_list(1) tokens(1)
    by (simp add: discover_with_def demo_rpcs_def pairs_discover)
qed

definition demo_opp :: ArbitrageOpportunity where
  "demo_opp = \<lparr>ao_path = [step_on (usdc_pool 7 PtSushiSwap 3300000000000) WETH USDC 1000000000000000000 3286823037,
       step_on (usdc_pool 8 PtCamelot 3000000000000) USDC WETH 3286823037 1091128993007392119],
     ao_input_token = WETH, ao_input_amount = 1000000000000000000, ao_output_amount = 1091128993007392119,
     ao_profit = 91128993007392119, ao_profit_bps = 911, ao_gas_estimate = 250000, ao_net_profit = 91103993007392119\<rparr>"

lemma usdc_quotes:
  "get_amount_out u256_std (usdc_pool 7 PtSushiSwap 3300000000000) 1000000000000000000 WETH = Inr 3286823037"
  "get_amount_out u256_std (usdc_pool 8 PtCamelot 3000000000000) 3286823037 USDC = Inr 1091128993007392119"
  "get_amount_out u256_std (usdc_pool 8 PtCamelot 3000000000000) 1000000000000000000 WETH = Inr 2988020943"
  "get_amount_out u256_std (usdc_pool 7 PtSushiSwap 3300000000000) 2988020943 USDC = Inr 901930296519914448"
  by (simp_all add: get_amount_out_def usdc_pool_def ArbitrumConfig_default_def std_u256.mul_law std_u256.add_law std_u256.div_law)

lemma demo_two_hop:
  assumes "ad_pool_manager d = demo_pools" "ad_min_profit_bps d = 10" "ad_gas_price_wei d = 100000000"
  shows "find_two_hop_arb u256_std d WETH USDC 1000000000000000000 = Inr (Some demo_opp)"
proof -
  let ?a = "usdc_pool 7 PtSushiSwap 3300000000000" and ?b = "usdc_pool 8 PtCamelot 3000000000000"
  have pools: "get_pools (ad_pool_manager d) WETH USDC = [?a, ?b]" "get_pools (ad_pool_manager d) USDC WETH = [?a, ?b]"
    by (simp_all add: assms(1) demo_pools_def get_pools_def usdc_pool_def)
  have addr: "pl_address ?a = 7" "pl_address ?b = 8" "pl_pool_type ?a = PtSushiSwap" "pl_pool_type ?b = PtCamelot"
    by (simp_all add: usdc_pool_def)
  have "two_hop_candidate u256_std d WETH USDC 1000000000000000000 (?a, ?b) = Inr (Some demo_opp)"
    by (simp add: two_hop_candidate_def addr usdc_quotes opportunity_from_def assms(2,3) arbitrum_estimate_gas_def demo_opp_def
        std_u256.sub_law std_u256.mul_law std_u256.div_law std_u256.low_u32_law)
  moreover have "two_hop_candidate u256_std d WETH USDC 1000000000000000000 (?b, ?a) = Inr None"
    by (simp add: two_hop_candidate_def addr usdc_quotes)
  ultimately show ?thesis
    by (simp add: find_two_hop_arb_def pools two_hop_candidate_def)
qed

lemma demo_scan: "scan_all u256_std (arbitrum_detector_new demo_pools 10) 1000000000000000000 = Inr [demo_opp]"
proof -
  let ?d = "arbitrum_detector_new demo_pools 10"
  have d: "ad_pool_manager ?d = demo_pools" "ad_min_profit_bps ?d = 10" "ad_gas_price_wei ?d = 100000000"
    by (simp_all add: arbitrum_detector_new_def)
  have weth: "all_have WETH (ad_pool_manager ?d)"
    unfolding d(1) by (simp add: demo_pools_def all_have_def has_token_def usdc_pool_def)
  obtain rest where tokens: "drop 1 (map snd get_top_arbitrum_tokens) = USDC # rest" "USDC \<notin> set rest" "WETH \<notin> set rest"
    by (simp add: get_top_arbitrum_tokens_def ArbitrumConfig_default_def)
  have "get_pools demo_pools WETH t = []" if "t \<noteq> USDC" "t \<noteq> WETH" for t
    using that by (simp add: demo_pools_def get_pools_def usdc_pool_def)
  then have none: "find_two_hop_arb u256_std ?d WETH t 1000000000000000000 = Inr None" if "t \<noteq> USDC" "t \<noteq> WETH" for t
    using that unfolding find_two_hop_arb_def d(1) Let_def by simp
  have "\<forall>t \<in> set rest. find_two_hop_arb u256_std ?d WETH t 1000000000000000000 = Inr None"
  proof (intro ballI none)
    fix t assume "t \<in> set rest"
    with tokens(2,3) show "t \<noteq> USDC" "t \<noteq> WETH" by metis+
  qed
  then have "collect_found (\<lambda>t. find_two_hop_arb u256_std ?d WETH t 1000000000000000000) rest = Inr []"
    by (rule collect_found_none)
  then show ?thesis
    unfolding scan_all_two_hop [OF weth] tokens(1)
    by (simp add: demo_two_hop [OF d] opt_cons_def)
qed

lemma demo_profit: "f64_lt f64_0_0001 (profit_eth_of 91103993007392119)"
proof -
  have "f64_of_u128 91103993007392119 = (5693999562962007, 4)"
    by (simp add: f64_of_u128_def round53_eval [where k = 4])
  then have "profit_eth_of 91103993007392119 = (6564734543360886, - 56)"
    by (simp add: profit_eth_of_def f64_one_ether f64_div_def round53_eval [where k = 68])
  then show ?thesis
    by (simp add: f64_lt_def f64_le_def f64_0_0001_def)
qed

definition demo_node :: "nat evm_node" where
  "demo_node = \<lparr>nd_gas_price = Inr 100000000, nd_estimate_gas = \<lambda>tx. Inr 300000, nd_send = \<lambda>w c tx. Inr 12345\<rparr>"

definition demo_swap_tx :: LauncherTx where
  "demo_swap_tx = \<lparr>et_hash = 11, et_input = [0x3c, 0xd0, 0x71, 0x37], et_value = 4, et_gas_price = None,
     lt_to = Some 0x3fC91A3afd70395Cd496C647d5a6CC9D4B2b7FAD\<rparr>"

lemma demo_decode:
  obtains swap where "decode_swap_info u256_std demo_swap_tx = Inr (Some swap)"
  by (simp add: decode_swap_info_def demo_swap_tx_def get_router_type_def is_swap_selector_def decode_swap_call_def)

lemma demo_execution:
  obtains tx where "execute_arb u256_std abi_std demo_node (launcher_executor demo_config) demo_opp = Inr (Inr 12345, [(5, 42161, tx)])"
proof -
  have "\<forall>s \<in> set (ao_path demo_opp). unat (as_amount_out s) * 95 < 2 ^ 256" "unat (ao_output_amount demo_opp) * 10000 < 2 ^ 256"
    "unat (xc_slippage_bps (xe_config (launcher_executor demo_config))) \<le> 10000"
    by (simp_all add: demo_opp_def step_on_def launcher_executor_def executor_new_def)
  from execute_arb_Inr [OF std_u256.u256_laws_axioms this, of abi_std demo_node] show ?thesis
    using that by (auto simp: submit_tx_def demo_node_def launcher_executor_def executor_new_def demo_config_def)
qed

lemma demo_handled:
  obtains s' where "handle_opportunity_launch u256_std abi_std demo_config (launcher_executor demo_config) demo_node demo_opp s = Inr s'"
    "length (la_submitted s') = Suc (length (la_submitted s))" "length (la_accepted s') = Suc (length (la_accepted s))"
proof -
  obtain tx where tx: "execute_arb u256_std abi_std demo_node (launcher_executor demo_config) demo_opp = Inr (Inr 12345, [(5, 42161, tx)])"
    by (rule demo_execution)
  have net: "ux_as_u128 u256_std (ao_net_profit demo_opp) = Inr 91103993007392119"
    "ux_as_u128 u256_std (ao_input_amount demo_opp) = Inr 1000000000000000000"
    "ux_as_u64 u256_std (ao_net_profit demo_opp) = Inr 91103993007392119"
    by (simp_all add: demo_opp_def std_u256.as_u128_law std_u256.as_u64_law)
  have live: "lc_execute_live demo_config"
    by (simp add: demo_config_def)
  show ?thesis
    by (rule that, simp add: handle_opportunity_launch_def net demo_profit live tx record_execution_def count_found_def) simp_all
qed

text \<open>Hash, fetch, trigger, scan, execution.\<close>

lemma demo_launch:
  obtains s :: "nat launch_state" where "launch_reachable u256_std abi_std demo_config s" "length (la_submitted s) = 1" "length (la_accepted s) = 1"
proof -
  let ?x = "launcher_executor demo_config" and ?R = "launch_reachable u256_std abi_std demo_config"
  let ?step = "launch_step u256_std abi_std demo_config ?x"
  define s0 :: "nat launch_state" where "s0 = launch_state_new demo_pools"
  obtain swap where swap: "decode_swap_info u256_std demo_swap_tx = Inr (Some swap)"
    by (rule demo_decode)
  have "launcher_main u256_std (\<lambda>url. Inr ()) (Inr 1) demo_rpcs demo_config = Inr (Inr (?x, s0))"
    by (simp add: launcher_main_def demo_launcher_pools s0_def)
  then have r0: "?R s0"
    by (rule launch_reachable.started)
  define s1 where "s1 = on_pending_hash 11 s0"
  have r1: "?R s1"
    unfolding s1_def by (rule launch_reachable.stepped [OF r0 launch_step.pending])
  have s1: "la_fetching s1 = [11]" "la_running s1" "la_phase s1 = EngineIdle" "la_queue s1 = []" "la_pools s1 = demo_pools"
    "la_submitted s1 = []" "la_accepted s1 = []"
    by (simp_all add: s1_def s0_def on_pending_hash_def launch_state_new_def)
  obtain s2 where s2: "on_fetched u256_std 11 (Some demo_swap_tx) s1 = Inr s2" "la_queue s2 = [(demo_swap_tx, swap)]"
    "la_running s2" "la_phase s2 = EngineIdle" "la_pools s2 = demo_pools" "la_submitted s2 = []" "la_accepted s2 = []"
    by (simp add: on_fetched_def swap s1)
  have r2: "?R s2"
    by (rule launch_reachable.stepped [OF r1 launch_step.fetched [OF _ s2(1)]]) (simp add: s1)
  define s3 where "s3 = s2\<lparr>la_queue := [], la_phase := EngineScan True [1000000000000000000]\<rparr>"
  have "engine_turn u256_std abi_std demo_config ?x TakeSwap demo_node s2 = Inr s3"
    by (simp add: engine_turn_def s2 s3_def demo_config_def)
  then have r3: "?R s3"
    by (rule launch_reachable.stepped [OF r2 launch_step.engine])
  define s4 where "s4 = s3\<lparr>la_phase := EngineOpps True [demo_opp] []\<rparr>"
  have "la_phase s3 = EngineScan True [1000000000000000000]" "la_phase s4 = EngineOpps True [demo_opp] []"
    by (simp_all add: s3_def s4_def)
  have "launcher_detector demo_config s3 = arbitrum_detector_new demo_pools 10"
    by (simp add: launcher_detector_def s3_def s2 demo_config_def)
  then have "engine_turn u256_std abi_std demo_config ?x TakeSwap demo_node s3 = Inr s4"
    using \<open>la_phase s3 = EngineScan True [1000000000000000000]\<close> by (simp add: engine_turn_def s4_def demo_scan)
  then have r4: "?R s4"
    by (rule launch_reachable.stepped [OF r3 launch_step.engine])
  obtain s5 where s5: "handle_opportunity_launch u256_std abi_std demo_config ?x demo_node demo_opp s4 = Inr s5"
    "length (la_submitted s5) = Suc (length (la_submitted s4))" "length (la_accepted s5) = Suc (length (la_accepted s4))"
    by (rule demo_handled)
  have "engine_turn u256_std abi_std demo_config ?x TakeSwap demo_node s4 = Inr (s5\<lparr>la_phase := EngineOpps True [] []\<rparr>)"
    using \<open>la_phase s4 = EngineOpps True [demo_opp] []\<close> by (simp add: engine_turn_def s5(1))
  then have "?R (s5\<lparr>la_phase := EngineOpps True [] []\<rparr>)"
    by (rule launch_reachable.stepped [OF r4 launch_step.engine])
  then show ?thesis
    by (rule that) (simp_all add: s5(2,3) s4_def s3_def s2)
qed


theorem launcher_accounting_witness:
  "\<exists>s. launch_reachable u256_std abi_std demo_config s \<and> ls_executions_success (la_stats s) = 1 \<and> length (la_submitted s) = 1"
proof -
  obtain s :: "nat launch_state" where s: "launch_reachable u256_std abi_std demo_config s" "length (la_submitted s) = 1" "length (la_accepted s) = 1"
    by (rule demo_launch)
  have "ls_executions_success (la_stats s) = 1"
    using launcher_accounting [OF std_u256.u256_laws_axioms s(1)] s(3) by simp
  with s show ?thesis by blast
qed


section \<open>Decoding\<close>

lemma launcher_path_agrees:
  assumes "path_tokens ux data pos = Inr (Some r)"
  shows "launcher_path ux data pos = Inr (Some r)"
proof -
  obtain off where off: "ux_as_usize ux (ux_from_big_endian ux (sub_bytes pos (pos + 32) data)) = Inr off"
    and rest: "bindE (slice data (off + 4) (off + 4 + 32)) (\<lambda>len_word.
      bindE (ux_as_usize ux (ux_from_big_endian ux len_word)) (\<lambda>path_len.
      if path_len < 2 \<or> length data < unat (off + 4 + 32 + path_len * 32) then Inr None
      else bindE (slice data (off + 4 + 32 + 12) (off + 4 + 32 + 32)) (\<lambda>tin.
        bindE (slice data (off + 4 + 64 + 12) (off + 4 + 64 + 32)) (\<lambda>tout.
        Inr (Some (from_be tin, from_be tout)))))) = Inr (Some r)"
    using assms by (auto simp: path_tokens_def Let_def bindE_eq_Inr_iff split: if_splits)
  then obtain tout where "slice data (off + 4 + 64 + 12) (off + 4 + 64 + 32) = Inr tout"
    by (auto simp: bindE_eq_Inr_iff split: if_splits)
  then have "unat (off + 4 + 96) \<le> length data"
    by (auto simp: slice_def split: if_splits)
  with off rest show ?thesis
    by (simp add: launcher_path_def Let_def)
qed

text \<open>The launcher and the monitor decode alike. Whenever the enhanced mempool monitor decodes a call as a
  swap, the launcher decodes the same call, sent to one of its known routers, to the same tokens
  and amounts.\<close>

theorem launcher_decode_agrees:
  assumes "parse_swap_fast ux (EthTransaction.truncate tx) = Inr (Some info)" "lt_to tx = Some router" "get_router_type router = Some dex"
  shows "decode_swap_info ux tx = Inr (Some \<lparr>lw_router = router, lw_token_in = ms_token_in info, lw_token_out = ms_token_out info,
    lw_amount_in = ms_amount_in info, lw_min_amount_out = ms_min_amount_out info, lw_dex_type = dex\<rparr>)"
proof -
  have data: "et_input (EthTransaction.truncate tx) = et_input tx" "et_value (EthTransaction.truncate tx) = et_value tx"
    by (simp_all add: EthTransaction.defs)
  have len: "\<not> length (et_input tx) < 68"
    using assms(1) by (auto simp: parse_swap_fast_def data Let_def split: if_splits)
  have sel: "take 4 (et_input tx) \<in> set [[0x38, 0xed, 0x17, 0x39], [0x18, 0xcb, 0xaf, 0xe5], [0x7f, 0xf3, 0x6a, 0xb5], [0x41, 0x4b, 0xf3, 0x89]]"
    using assms(1) by (auto simp: parse_swap_fast_def data Let_def split: if_splits)
  then have "is_swap_selector (take 4 (et_input tx))"
    using len by (auto simp: is_swap_selector_def)
  moreover have "decode_swap_call ux tx = Inr (Some (ms_token_in info, ms_token_out info, ms_amount_in info, ms_min_amount_out info))"
    using assms(1) len
    by (auto simp: parse_swap_fast_def decode_swap_call_def data Let_def bindE_eq_Inr_iff v2_info_def
        dest!: launcher_path_agrees split: if_splits)
  ultimately show ?thesis
    using len assms(2,3) by (simp add: decode_swap_info_def)
qed

theorem launcher_decode_agrees_witness:
  "\<exists>tx info. parse_swap_fast u256_std (EthTransaction.truncate tx) = Inr (Some info)
    \<and> decode_swap_info u256_std tx = Inr (Some \<lparr>lw_router = 0x3fC91A3afd70395Cd496C647d5a6CC9D4B2b7FAD, lw_token_in = ms_token_in info,
        lw_token_out = ms_token_out info, lw_amount_in = ms_amount_in info, lw_min_amount_out = ms_min_amount_out info,
        lw_dex_type = the (get_router_type 0x3fC91A3afd70395Cd496C647d5a6CC9D4B2b7FAD)\<rparr>)"
proof -
  define tx :: LauncherTx where "tx = \<lparr>et_hash = 11,
    et_input = [0x41, 0x4b, 0xf3, 0x89] @ replicate 31 0 @ [3] @ replicate 31 0 @ [4] @ replicate 192 0, et_value = 0, et_gas_price = None,
    lt_to = Some 0x3fC91A3afd70395Cd496C647d5a6CC9D4B2b7FAD\<rparr>"
  obtain info where info: "parse_swap_fast u256_std (EthTransaction.truncate tx) = Inr (Some info)"
    by (simp add: parse_swap_fast_def tx_def EthTransaction.defs Let_def)
  moreover have "decode_swap_info u256_std tx = Inr (Some \<lparr>lw_router = 0x3fC91A3afd70395Cd496C647d5a6CC9D4B2b7FAD, lw_token_in = ms_token_in info,
        lw_token_out = ms_token_out info, lw_amount_in = ms_amount_in info, lw_min_amount_out = ms_min_amount_out info,
        lw_dex_type = the (get_router_type 0x3fC91A3afd70395Cd496C647d5a6CC9D4B2b7FAD)\<rparr>)"
    by (rule launcher_decode_agrees [OF info]) (simp_all add: tx_def get_router_type_def)
  ultimately show ?thesis by blast
qed

section \<open>Large profits\<close>

text \<open>A large profit panics after the transaction went out. When a live launcher handles an opportunity
  whose net profit is at least \<open>2^64\<close> wei (about 18.4 ether) and the node accepts the
  transaction, booking the profit with \<open>as_u64\<close> panics (the release build aborts the process): no
  counter is updated although the transaction has been sent.\<close>

theorem launcher_profit_panic:
  assumes "u256_laws ux" "lc_execute_live config" "2 ^ 64 \<le> unat (ao_net_profit opp)"
    and "unat (ao_net_profit opp) < 2 ^ 128" "unat (ao_input_amount opp) < 2 ^ 128"
    and "execute_arb ux abi node x opp = Inr (Inr sent_hash, sent)"
  shows "handle_opportunity_launch ux abi config x node opp s = Inl IntegerCast"
proof -
  obtain profit where profit: "ux_as_u128 ux (ao_net_profit opp) = Inr profit"
    using assms(4) by (simp add: u256_laws.as_u128_law [OF assms(1)])
  then have "f64_lt f64_0_0001 (profit_eth_of profit)"
    using assms(3) by (intro profit_passes) (simp add: u256_laws.as_u128_Inr_iff [OF assms(1)])
  moreover have "ux_as_u64 ux (ao_net_profit opp) = Inl IntegerCast"
    using assms(3) by (simp add: u256_laws.as_u64_law [OF assms(1)])
  moreover obtain amount where "ux_as_u128 ux (ao_input_amount opp) = Inr amount"
    using assms(5) by (simp add: u256_laws.as_u128_law [OF assms(1)])
  ultimately show ?thesis
    by (simp add: handle_opportunity_launch_def profit assms(2,6) record_execution_def)
qed

theorem launcher_profit_panic_witness:
  "\<exists>opp sent. execute_arb u256_std abi_std demo_node (launcher_executor demo_config) opp = Inr (Inr 12345, sent) \<and> length sent = 1
    \<and> handle_opportunity_launch u256_std abi_std demo_config (launcher_executor demo_config) demo_node opp (launch_state_new demo_pools) = Inl IntegerCast"
proof -
  let ?opp = "demo_opp\<lparr>ao_net_profit := 18446744073709551616\<rparr>"
  have "\<forall>s \<in> set (ao_path ?opp). unat (as_amount_out s) * 95 < 2 ^ 256" "unat (ao_output_amount ?opp) * 10000 < 2 ^ 256"
    "unat (xc_slippage_bps (xe_config (launcher_executor demo_config))) \<le> 10000"
    by (simp_all add: demo_opp_def step_on_def launcher_executor_def executor_new_def)
  from execute_arb_Inr [OF std_u256.u256_laws_axioms this, of abi_std demo_node] obtain tx where
    run: "execute_arb u256_std abi_std demo_node (launcher_executor demo_config) ?opp = Inr (Inr 12345, [(5, 42161, tx)])"
    by (auto simp: submit_tx_def demo_node_def launcher_executor_def executor_new_def demo_config_def)
  have "handle_opportunity_launch u256_std abi_std demo_config (launcher_executor demo_config) demo_node ?opp (launch_state_new demo_pools) = Inl IntegerCast"
    by (rule launcher_profit_panic [OF std_u256.u256_laws_axioms _ _ _ _ run]) (simp_all add: demo_config_def demo_opp_def)
  with run show ?thesis by (intro exI [of _ ?opp] exI [of _ "[(5, 42161, tx)]"]) simp
qed

end
