(* ===== verification/Engine_Main.thy ===== *)
theory Engine_Main
  imports Mev_Engine Mempool_Monitor Threaded_Detector F64 Rust_Text
begin

text \<open>
  The engine executable \<^verbatim>\<open>core/src/main.rs\<close>: start-up from the environment, the block tracker with its
  transaction classifier and its rotation over RPC endpoints, and the loop that receives the mempool
  monitor's transactions. The tasks share the metrics registry and interleave as the steps of one
  relation. Parameters are the environment, the configuration file, the provider constructor, the
  answers of the endpoints and the clock. Metrics are modelled where their value does not only
  measure a latency: a counter is the \<^verbatim>\<open>u64\<close> sum of its increments, a gauge its last value.
  The HTTP server of the metrics, logging and the latency histograms are left out.
\<close>

section \<open>Start-up\<close>

definition backup_ws :: "(string \<rightharpoonup> string) \<Rightarrow> string list" where
  "backup_ws env =
    (case env ''ARBITRUM_WS_URL_2'' of Some ws2 \<Rightarrow> if \<not> blank ws2 then [ws2] else [] | None \<Rightarrow> [])
    @ (case env ''ARBITRUM_WS_URL_3'' of Some ws3 \<Rightarrow> if \<not> blank ws3 then [ws3] else [] | None \<Rightarrow> [])"

definition mempool_config :: "(string \<rightharpoonup> string) \<Rightarrow> ChainConfig \<Rightarrow> MempoolConfig" where
  "mempool_config env arbitrum_config =
    \<lparr>mc_ws_url = ch_ws_url arbitrum_config, mc_backup_ws_urls = backup_ws env, mc_max_pending_txs = 10000,
     mc_cpu_core = Some 0, mc_batch_size = 32\<rparr>"

definition rpc_urls :: "(string \<rightharpoonup> string) \<Rightarrow> ChainConfig \<Rightarrow> string list" where
  "rpc_urls env arbitrum_config =
    (case env ''MEV_RPC_ENDPOINTS'' of
       Some endpoints \<Rightarrow>
         let urls = filter (\<lambda>s. s \<noteq> []) (map str_trim (split_on CHR '','' endpoints))
         in if urls = [] then [ch_rpc_url arbitrum_config] else urls
     | None \<Rightarrow> [ch_rpc_url arbitrum_config])"

definition http_url :: "string \<Rightarrow> string" where
  "http_url url = replace_from ''ws://'' ''http://'' 0 (replace_from ''wss://'' ''https://'' 0 url)"

definition detector_config :: MtConfig where
  "detector_config = \<lparr>dc_num_workers = 4, dc_min_profit_wei = 500000000000000, dc_max_hops = 3, dc_gas_price = 100000000,
     dc_batch_size = 64\<rparr>"

section \<open>Classification\<close>

definition classify_tx :: "bytes \<Rightarrow> u256 \<Rightarrow> string" where
  "classify_tx input value =
    (let by_value = (if 0 < value then ''transfer'' else ''unknown'')
     in if length input < 4 then by_value
        else
          let sel = take 4 input
          in if sel \<in> set [[0x38, 0xed, 0x17, 0x39], [0x8a, 0x65, 0x7e, 0x67], [0x7f, 0xf3, 0x6a, 0xb5], [0x18, 0xcb, 0xaf, 0xe5]]
               then ''swap_v2''
             else if sel \<in> set [[0xc0, 0x4b, 0x8d, 0x59], [0x41, 0x4b, 0xf3, 0x89]] then ''swap_v3''
             else if sel \<in> set [[0xac, 0x96, 0x50, 0xd8], [0x5a, 0xe4, 0x01, 0xdc]] then ''swap_v3''
             else if sel = [0xa9, 0x05, 0x9c, 0xbb] then ''transfer''
             else if sel = [0x09, 0x5e, 0xa7, 0xb3] then ''unknown''
             else by_value)"

section \<open>Metrics\<close>

text \<open>The counters, by the label where they have one, and the gauges.\<close>

record metrics =
  mx_block_processed :: u64
  mx_classified :: "string \<Rightarrow> u64"
  mx_found :: "string \<Rightarrow> u64"
  mx_filtered :: u64
  mx_processed :: u64
  mx_received :: u64
  mx_gauge :: "string \<rightharpoonup> f64"

definition metrics_new :: metrics where
  "metrics_new = \<lparr>mx_block_processed = 0, mx_classified = (\<lambda>_. 0), mx_found = (\<lambda>_. 0), mx_filtered = 0, mx_processed = 0,
     mx_received = 0, mx_gauge = (\<lambda>_. None)\<rparr>"

definition set_gauge :: "string \<Rightarrow> f64 \<Rightarrow> metrics \<Rightarrow> metrics" where
  "set_gauge name v m = m\<lparr>mx_gauge := (mx_gauge m)(name \<mapsto> v)\<rparr>"

definition count_classified :: "string \<Rightarrow> metrics \<Rightarrow> metrics" where
  "count_classified ty m = m\<lparr>mx_classified := (mx_classified m)(ty := mx_classified m ty + 1)\<rparr>"

definition count_swap :: "string \<Rightarrow> metrics \<Rightarrow> metrics" where
  "count_swap ty m = m\<lparr>mx_found := (mx_found m)(ty := mx_found m ty + 1), mx_filtered := mx_filtered m + 1\<rparr>"

abbreviation f64_of_u64 :: "u64 \<Rightarrow> f64" where
  "f64_of_u64 w \<equiv> f64_of_u128 (ucast w)"

section \<open>The block tracker\<close>

text \<open>The fields of the client library's block that the tracker reads.\<close>

record Block =
  bl_number :: "u64 option"
  bl_base_fee :: "u256 option"
  bl_gas_limit :: u256
  bl_gas_used :: u256
  bl_timestamp :: u256
  bl_transactions :: "EthTransaction list"

datatype rpc_answer = BlockAnswer "Block option" | RpcFailed

record block_counts =
  bc_swaps_v2 :: u64
  bc_swaps_v3 :: u64
  bc_transfers :: u64
  bc_unknown :: u64

record tracker =
  tk_healthy :: f64
  tk_idx :: nat
  tk_prev_block :: u64
  tk_total_tx :: u64
  tk_swaps_v2 :: u64
  tk_swaps_v3 :: u64
  tk_transfers :: u64
  tk_filtered :: u64

text \<open>What the clock shows during one round: the uptime at the top of the loop and, for a new block, the wall
  clock in seconds (\<open>None\<close>: before the epoch) and the elapsed time.\<close>

record tick_clock =
  ck_uptime :: f64
  ck_now :: "u64 option"
  ck_elapsed :: f64

definition tracker_new :: "nat \<Rightarrow> tracker" where
  "tracker_new providers =
    \<lparr>tk_healthy = f64_of_u128 (of_nat providers), tk_idx = 0, tk_prev_block = 0, tk_total_tx = 0, tk_swaps_v2 = 0,
     tk_swaps_v3 = 0, tk_transfers = 0, tk_filtered = 0\<rparr>"

definition classify_one :: "EthTransaction \<Rightarrow> block_counts \<times> metrics \<Rightarrow> block_counts \<times> metrics" where
  "classify_one tx = (\<lambda>(c, m).
    let ty = classify_tx (et_input tx) (et_value tx)
    in if ty = ''swap_v2'' then
         (c\<lparr>bc_swaps_v2 := bc_swaps_v2 c + 1\<rparr>, count_swap ''swap_v2'' (count_classified ''swap_v2'' m))
       else if ty = ''swap_v3'' then
         (c\<lparr>bc_swaps_v3 := bc_swaps_v3 c + 1\<rparr>, count_swap ''swap_v3'' (count_classified ''swap_v3'' m))
       else if ty = ''transfer'' then (c\<lparr>bc_transfers := bc_transfers c + 1\<rparr>, count_classified ''transfer'' m)
       else (c\<lparr>bc_unknown := bc_unknown c + 1\<rparr>, count_classified ''unknown'' m))"

definition gas_gauges :: "u256crate \<Rightarrow> Block \<Rightarrow> metrics \<Rightarrow> metrics exec" where
  "gas_gauges ux block m =
    bindE (case bl_base_fee block of
             Some base_fee \<Rightarrow>
               bindE (ux_as_u64 ux base_fee) (\<lambda>w.
               let gwei = f64_div (f64_of_u64 w) (f64_of_u128 1000000000)
               in Inr (set_gauge ''mev_gas_predicted_base_fee_gwei'' (f64_mult gwei (9, - 3))
                    (set_gauge ''mev_gas_priority_fee_gwei'' f64_0_01 (set_gauge ''mev_gas_base_fee_gwei'' gwei m))))
           | None \<Rightarrow> Inr m) (\<lambda>m1.
    bindE (ux_as_u64 ux (bl_gas_limit block)) (\<lambda>gl.
    bindE (ux_as_u64 ux (bl_gas_used block)) (\<lambda>gu.
    Inr (if 0 < gl then set_gauge ''mev_block_gas_utilization_ratio'' (f64_div (f64_of_u64 gu) (f64_of_u64 gl)) m1
         else m1))))"

definition propagation_gauge :: "u256crate \<Rightarrow> u64 option \<Rightarrow> Block \<Rightarrow> metrics \<Rightarrow> metrics exec" where
  "propagation_gauge ux now block m =
    (case now of
       None \<Rightarrow> Inl ExpectFailed
     | Some now_ts \<Rightarrow>
         bindE (ux_as_u64 ux (bl_timestamp block)) (\<lambda>ts.
         Inr (set_gauge ''mev_block_propagation_ms'' (f64_of_u64 (saturating_sub now_ts ts * 1000)) m)))"

definition process_block :: "u256crate \<Rightarrow> tick_clock \<Rightarrow> Block \<Rightarrow> tracker \<times> metrics \<Rightarrow> (tracker \<times> metrics) exec" where
  "process_block ux clock block = (\<lambda>(tk, m).
    bindE (gas_gauges ux block (m\<lparr>mx_block_processed := mx_block_processed m + 1\<rparr>)) (\<lambda>m1.
    bindE (propagation_gauge ux (ck_now clock) block m1) (\<lambda>m2.
    let tx_count = of_nat (length (bl_transactions block));
        (c, m3) = fold classify_one (bl_transactions block)
          (\<lparr>bc_swaps_v2 = 0, bc_swaps_v3 = 0, bc_transfers = 0, bc_unknown = 0\<rparr>, m2);
        m4 = m3\<lparr>mx_processed := mx_processed m3 + tx_count, mx_received := mx_received m3 + tx_count\<rparr>;
        tk1 = tk\<lparr>tk_total_tx := tk_total_tx tk + tx_count,
                 tk_swaps_v2 := tk_swaps_v2 tk + bc_swaps_v2 c,
                 tk_swaps_v3 := tk_swaps_v3 tk + bc_swaps_v3 c,
                 tk_transfers := tk_transfers tk + bc_transfers c,
                 tk_filtered := tk_filtered tk + (bc_swaps_v2 c + bc_swaps_v3 c)\<rparr>
    in Inr (tk1, set_gauge ''mev_mempool_tx_rate_per_sec''
              (f64_div (f64_of_u64 (tk_total_tx tk1)) (f64_max (ck_elapsed clock) (1, 0)))
              (set_gauge ''mev_mempool_buffer_usage'' (f64_div (f64_of_u64 (tk_total_tx tk1 mod 10000)) (f64_of_u128 10000)) m4)))))"

definition block_num :: "Block \<Rightarrow> u64" where
  "block_num block = (case bl_number block of Some n \<Rightarrow> n | None \<Rightarrow> 0)"

definition on_block :: "u256crate \<Rightarrow> tick_clock \<Rightarrow> Block \<Rightarrow> tracker \<times> metrics \<Rightarrow> (tracker \<times> metrics) exec" where
  "on_block ux clock block = (\<lambda>(tk, m).
    let num = block_num block;
        m1 = set_gauge ''mev_block_latest_number'' (f64_of_u64 num) m
    in bindE (if num \<noteq> tk_prev_block tk \<and> 0 < tk_prev_block tk then process_block ux clock block (tk, m1) else Inr (tk, m1))
         (\<lambda>(tk1, m2). Inr (tk1\<lparr>tk_prev_block := num\<rparr>, m2)))"

text \<open>One round of the loop; \<open>poll i\<close> is what endpoint \<open>i\<close> of the \<open>n\<close> answers now.\<close>

definition tracker_tick ::
  "u256crate \<Rightarrow> nat \<Rightarrow> tick_clock \<times> (nat \<Rightarrow> rpc_answer) \<Rightarrow> tracker \<times> metrics \<Rightarrow> (tracker \<times> metrics) exec" where
  "tracker_tick ux n = (\<lambda>(clock, poll) (tk, m).
    let m1 = set_gauge ''mev_rpc_total_endpoints'' (f64_of_u128 (of_nat n))
               (set_gauge ''mev_rpc_healthy_endpoints'' (tk_healthy tk)
                 (set_gauge ''mev_node_uptime_seconds_total'' (ck_uptime clock) m))
    in if n \<le> tk_idx tk then Inl IndexOutOfBounds
       else case poll (tk_idx tk) of
         BlockAnswer (Some block) \<Rightarrow> on_block ux clock block (tk, m1)
       | BlockAnswer None \<Rightarrow> Inr (tk, m1)
       | RpcFailed \<Rightarrow>
           Inr (tk\<lparr>tk_idx := (tk_idx tk + 1) mod n, tk_healthy := f64_max (f64_diff (tk_healthy tk) (1, 0)) (1, 0)\<rparr>, m1))"

fun tracker_run ::
  "u256crate \<Rightarrow> nat \<Rightarrow> (tick_clock \<times> (nat \<Rightarrow> rpc_answer)) list \<Rightarrow> tracker \<times> metrics \<Rightarrow> (tracker \<times> metrics) exec" where
  "tracker_run ux n [] s = Inr s"
| "tracker_run ux n (t # ts) s = bindE (tracker_tick ux n t s) (tracker_run ux n ts)"

section \<open>The process\<close>

text \<open>\<open>mn_inbox\<close> is the unbounded channel from the monitor and \<open>mn_taken\<close> the transactions the main loop has taken
  from it. The multi-threaded detector is constructed and dropped: its tables and its configuration
  are all it has.\<close>

record main_state =
  mn_metrics :: metrics
  mn_providers :: nat
  mn_tracker :: "tracker option"
  mn_detector :: "MtConfig \<times> MtTables"
  mn_engine :: MevEngine
  mn_mempool_config :: MempoolConfig
  mn_monitor :: monitor_state
  mn_inbox :: "MempoolTx list"
  mn_taken :: "MempoolTx list"
  mn_tx_count :: u64
  mn_total_count :: u64
  mn_looping :: bool

definition main_start :: "(string \<rightharpoonup> string) \<Rightarrow> (string \<Rightarrow> bool) \<Rightarrow> Config \<Rightarrow> ChainConfig \<Rightarrow> main_state" where
  "main_start env try_provider config arbitrum_config =
    (let providers = length (filter (\<lambda>url. try_provider (http_url url)) (rpc_urls env arbitrum_config))
     in \<lparr>mn_metrics = metrics_new, mn_providers = providers,
         mn_tracker = (if providers = 0 then None else Some (tracker_new providers)),
         mn_detector = (detector_config, tables_new), mn_engine = engine_new config,
         mn_mempool_config = mempool_config env arbitrum_config, mn_monitor = monitor_start, mn_inbox = [], mn_taken = [],
         mn_tx_count = 0, mn_total_count = 0, mn_looping = True\<rparr>)"

datatype main_result = Benchmarked | ConfigError config_error | Started main_state

definition engine_main ::
  "string list \<Rightarrow> (string \<rightharpoonup> string) \<Rightarrow> (string \<Rightarrow> string option option) \<Rightarrow> (string \<Rightarrow> Config option) \<Rightarrow> usize
   \<Rightarrow> (string \<Rightarrow> bool) \<Rightarrow> main_result exec" where
  "engine_main args env fs parse num_cpus try_provider =
    (if 1 < length args \<and> args ! 1 = ''benchmark'' then Inr Benchmarked
     else case from_env env fs parse num_cpus of
       Inl e \<Rightarrow> Inr (ConfigError e)
     | Inr config \<Rightarrow>
         (case cf_chains config 42161 of
            None \<Rightarrow> Inl ExpectFailed
          | Some arbitrum_config \<Rightarrow> Inr (Started (main_start env try_provider config arbitrum_config))))"

text \<open>A received transaction; \<open>late\<close> says that the last statistics line is more than five seconds old and \<open>secs\<close> how
  old it is.\<close>

definition on_mempool_tx :: "bool \<Rightarrow> f64 \<Rightarrow> MempoolTx \<Rightarrow> main_state \<Rightarrow> main_state" where
  "on_mempool_tx late secs tx s =
    (let tx_count = mn_tx_count s + 1;
         total_count = mn_total_count s + 1;
         m = mn_metrics s;
         m1 = set_gauge ''mev_mempool_buffer_usage'' (f64_div (f64_of_u64 total_count) (f64_of_u128 10000))
                (m\<lparr>mx_received := mx_received m + 1, mx_processed := mx_processed m + 1\<rparr>);
         m2 = (if mt_is_swap tx then count_swap ''swap_v2'' m1 else m1)
     in if late
        then s\<lparr>mn_metrics := set_gauge ''mev_mempool_tx_rate_per_sec'' (f64_div (f64_of_u64 tx_count) secs) m2,
               mn_tx_count := 0, mn_total_count := total_count, mn_taken := mn_taken s @ [tx]\<rparr>
        else s\<lparr>mn_metrics := m2, mn_tx_count := tx_count, mn_total_count := total_count, mn_taken := mn_taken s @ [tx]\<rparr>)"

definition put_monitor :: "monitor_state \<Rightarrow> main_state \<Rightarrow> main_state" where
  "put_monitor mon s =
    s\<lparr>mn_monitor := mon, mn_inbox := mn_inbox s @ drop (length (mo_sent (mn_monitor s))) (mo_sent mon)\<rparr>"

text \<open>The tasks of the process. The monitor is never stopped, and the receiver lives as long as the loop. Both
  the shutdown task and the loop wait for the interrupt; the process ends with the loop.\<close>

inductive main_step :: "u256crate \<Rightarrow> hexcrate \<Rightarrow> main_state \<Rightarrow> main_state \<Rightarrow> bool" for ux hx where
  track: "mn_looping s \<Longrightarrow> mn_tracker s = Some tk \<Longrightarrow> tracker_tick ux (mn_providers s) tick (tk, mn_metrics s) = Inr (tk', m') \<Longrightarrow>
    main_step ux hx s (s\<lparr>mn_tracker := Some tk', mn_metrics := m'\<rparr>)"
| monitor: "mn_looping s \<Longrightarrow> ev \<notin> {ReceiverDropped, StopCalled} \<Longrightarrow>
    monitor_turn hx (mn_mempool_config s) ev (mn_monitor s) = Inr mon \<Longrightarrow> main_step ux hx s (put_monitor mon s)"
| receive: "mn_looping s \<Longrightarrow> mn_inbox s = tx # rest \<Longrightarrow> main_step ux hx s (on_mempool_tx late secs tx (s\<lparr>mn_inbox := rest\<rparr>))"
| stop_engine: "mn_looping s \<Longrightarrow> main_step ux hx s (s\<lparr>mn_engine := engine_stop (mn_engine s)\<rparr>)"
| leave: "mn_looping s \<Longrightarrow> main_step ux hx s (s\<lparr>mn_looping := False\<rparr>)"

inductive main_reachable :: "u256crate \<Rightarrow> hexcrate \<Rightarrow> main_state \<Rightarrow> bool" for ux hx where
  started: "engine_main args env fs parse num_cpus try_provider = Inr (Started s) \<Longrightarrow> main_reachable ux hx s"
| stepped: "main_reachable ux hx s \<Longrightarrow> main_step ux hx s s' \<Longrightarrow> main_reachable ux hx s'"

section \<open>Classifying a block\<close>

definition class_count :: "string \<Rightarrow> EthTransaction list \<Rightarrow> nat" where
  "class_count ty txs = length (filter (\<lambda>tx. classify_tx (et_input tx) (et_value tx) = ty) txs)"

lemma class_count_simps [simp]:
  "class_count ty [] = 0"
  "class_count ty (tx # txs) = (if classify_tx (et_input tx) (et_value tx) = ty then 1 else 0) + class_count ty txs"
  "class_count ty (txs @ txs') = class_count ty txs + class_count ty txs'"
  by (simp_all add: class_count_def)

lemma classify_tx_cases:
  obtains "classify_tx input value = ''swap_v2''" | "classify_tx input value = ''swap_v3''"
    | "classify_tx input value = ''transfer''" | "classify_tx input value = ''unknown''"
proof -
  have "classify_tx input value \<in> {''swap_v2'', ''swap_v3'', ''transfer'', ''unknown''}"
    by (simp only: classify_tx_def Let_def split: if_split) simp
  then show ?thesis
    using that by blast
qed

lemma set_gauge_counters [simp]:
  "mx_block_processed (set_gauge g v m) = mx_block_processed m" "mx_classified (set_gauge g v m) = mx_classified m"
  "mx_found (set_gauge g v m) = mx_found m" "mx_filtered (set_gauge g v m) = mx_filtered m"
  "mx_processed (set_gauge g v m) = mx_processed m" "mx_received (set_gauge g v m) = mx_received m"
  by (simp_all add: set_gauge_def)

definition swap_label :: "string \<Rightarrow> bool" where
  "swap_label ty \<longleftrightarrow> ty = ''swap_v2'' \<or> ty = ''swap_v3''"

definition classified_as :: "EthTransaction list \<Rightarrow> block_counts \<times> metrics \<Rightarrow> block_counts \<times> metrics" where
  "classified_as txs = (\<lambda>(c, m).
    (c\<lparr>bc_swaps_v2 := bc_swaps_v2 c + of_nat (class_count ''swap_v2'' txs),
       bc_swaps_v3 := bc_swaps_v3 c + of_nat (class_count ''swap_v3'' txs),
       bc_transfers := bc_transfers c + of_nat (class_count ''transfer'' txs),
       bc_unknown := bc_unknown c + of_nat (class_count ''unknown'' txs)\<rparr>,
     m\<lparr>mx_classified := (\<lambda>ty. mx_classified m ty + of_nat (class_count ty txs)),
       mx_found := (\<lambda>ty. mx_found m ty + (if swap_label ty then of_nat (class_count ty txs) else 0)),
       mx_filtered := mx_filtered m + of_nat (class_count ''swap_v2'' txs + class_count ''swap_v3'' txs)\<rparr>))"

lemma classify_one_counts: "classify_one tx s = classified_as [tx] s"
proof (cases s)
  case (Pair c m)
  show ?thesis
    by (cases rule: classify_tx_cases [of "et_input tx" "et_value tx"])
      (simp_all add: Pair classify_one_def classified_as_def Let_def count_swap_def count_classified_def swap_label_def fun_upd_def,
        (intro conjI metrics.equality block_counts.equality; simp add: fun_eq_iff)+)
qed

lemma classified_as_append: "classified_as txs' (classified_as txs s) = classified_as (txs @ txs') s"
  by (cases s) (auto simp: classified_as_def algebra_simps intro!: metrics.equality)

lemma classify_all: "fold classify_one txs s = classified_as txs s"
proof (induction txs arbitrary: s)
  case (Cons tx txs)
  then show ?case by (simp add: classify_one_counts classified_as_append)
qed (auto simp: classified_as_def intro!: metrics.equality)

section \<open>What a run of the tracker counts\<close>

text \<open>The blocks that are processed: those whose number differs from the last one seen, the first block excepted.\<close>

fun observed :: "u64 \<Rightarrow> rpc_answer list \<Rightarrow> Block list" where
  "observed prev [] = []"
| "observed prev (BlockAnswer (Some b) # as) =
    (if block_num b \<noteq> prev \<and> 0 < prev then [b] else []) @ observed (block_num b) as"
| "observed prev (a # as) = observed prev as"

text \<open>The answers the tracker gets: it stays with an endpoint until the endpoint fails.\<close>

fun polled :: "nat \<Rightarrow> (tick_clock \<times> (nat \<Rightarrow> rpc_answer)) list \<Rightarrow> nat \<Rightarrow> rpc_answer list" where
  "polled n [] i = []"
| "polled n (t # ts) i = snd t i # polled n ts (if snd t i = RpcFailed then (i + 1) mod n else i)"

definition failures :: "rpc_answer list \<Rightarrow> nat" where
  "failures as = length (filter (\<lambda>a. a = RpcFailed) as)"

definition txs_of :: "Block list \<Rightarrow> EthTransaction list" where
  "txs_of bs = concat (map bl_transactions bs)"

lemma txs_of_simps [simp]: "txs_of [] = []" "txs_of (b # bs) = bl_transactions b @ txs_of bs" "txs_of (bs @ bs') = txs_of bs @ txs_of bs'"
  by (simp_all add: txs_of_def)

definition advances :: "Block list \<Rightarrow> tracker \<times> metrics \<Rightarrow> tracker \<times> metrics \<Rightarrow> bool" where
  "advances bs = (\<lambda>(tk, m) (tk', m').
     tk_total_tx tk' = tk_total_tx tk + of_nat (length (txs_of bs))
     \<and> tk_swaps_v2 tk' = tk_swaps_v2 tk + of_nat (class_count ''swap_v2'' (txs_of bs))
     \<and> tk_swaps_v3 tk' = tk_swaps_v3 tk + of_nat (class_count ''swap_v3'' (txs_of bs))
     \<and> tk_transfers tk' = tk_transfers tk + of_nat (class_count ''transfer'' (txs_of bs))
     \<and> tk_filtered tk' = tk_filtered tk + of_nat (class_count ''swap_v2'' (txs_of bs) + class_count ''swap_v3'' (txs_of bs))
     \<and> mx_block_processed m' = mx_block_processed m + of_nat (length bs)
     \<and> mx_classified m' = (\<lambda>ty. mx_classified m ty + of_nat (class_count ty (txs_of bs)))
     \<and> mx_found m' = (\<lambda>ty. mx_found m ty + (if swap_label ty then of_nat (class_count ty (txs_of bs)) else 0))
     \<and> mx_filtered m' = mx_filtered m + of_nat (class_count ''swap_v2'' (txs_of bs) + class_count ''swap_v3'' (txs_of bs))
     \<and> mx_processed m' = mx_processed m + of_nat (length (txs_of bs))
     \<and> mx_received m' = mx_received m + of_nat (length (txs_of bs)))"

lemma advances_refl: "advances [] s s"
  by (cases s) (simp add: advances_def fun_eq_iff)

lemma advances_trans: "advances bs s s' \<Longrightarrow> advances bs' s' s'' \<Longrightarrow> advances (bs @ bs') s s''"
  by (cases s; cases s'; cases s'') (simp add: advances_def fun_eq_iff algebra_simps)

lemma advances_prev: "advances bs s (tk\<lparr>tk_prev_block := p\<rparr>, m) = advances bs s (tk, m)"
  by (cases s) (simp add: advances_def)

lemma gas_gauges_counters:
  assumes "gas_gauges ux b m = Inr m'"
  shows "mx_block_processed m' = mx_block_processed m" "mx_classified m' = mx_classified m" "mx_found m' = mx_found m"
    "mx_filtered m' = mx_filtered m" "mx_processed m' = mx_processed m" "mx_received m' = mx_received m"
  using assms by (auto simp: gas_gauges_def bindE_eq_Inr_iff Let_def split: option.splits)

lemma propagation_gauge_counters:
  assumes "propagation_gauge ux now b m = Inr m'"
  shows "mx_block_processed m' = mx_block_processed m" "mx_classified m' = mx_classified m" "mx_found m' = mx_found m"
    "mx_filtered m' = mx_filtered m" "mx_processed m' = mx_processed m" "mx_received m' = mx_received m"
  using assms by (auto simp: propagation_gauge_def bindE_eq_Inr_iff split: option.splits)

lemma process_block_advances:
  assumes "process_block ux clock b (tk, m) = Inr (tk', m')"
  shows "advances [b] (tk, m) (tk', m') \<and> tk_idx tk' = tk_idx tk \<and> tk_healthy tk' = tk_healthy tk"
proof -
  obtain m1 m2 where "gas_gauges ux b (m\<lparr>mx_block_processed := mx_block_processed m + 1\<rparr>) = Inr m1"
    "propagation_gauge ux (ck_now clock) b m1 = Inr m2"
    using assms by (auto simp: process_block_def bindE_eq_Inr_iff)
  with assms show ?thesis
    by (auto simp: process_block_def classify_all classified_as_def Let_def advances_def gas_gauges_counters propagation_gauge_counters)
qed

text \<open>The number of healthy endpoints stays an integer of at most 53 bits.\<close>

lemma healthy_step:
  assumes "1 \<le> k" "k < 2 ^ 53"
  shows "f64_max (f64_diff (k, 0) (1, 0)) (1, 0) = (max 1 (k - 1), 0)"
  using assms by (auto simp: f64_max_def f64_diff_def f64_le_def round53_def max_def)

lemma tracker_tick_advances:
  assumes "tracker_tick ux n t (tk, m) = Inr (tk', m')" "a = snd t (tk_idx tk)"
  shows "advances (observed (tk_prev_block tk) [a]) (tk, m) (tk', m')
    \<and> tk_idx tk < n \<and> tk_idx tk' = (if a = RpcFailed then (tk_idx tk + 1) mod n else tk_idx tk)
    \<and> tk_healthy tk' = (if a = RpcFailed then f64_max (f64_diff (tk_healthy tk) (1, 0)) (1, 0) else tk_healthy tk)
    \<and> observed (tk_prev_block tk) (a # as) = observed (tk_prev_block tk) [a] @ observed (tk_prev_block tk') as"
proof -
  obtain clock poll where t: "t = (clock, poll)"
    by (cases t)
  define m1 where "m1 = set_gauge ''mev_rpc_total_endpoints'' (f64_of_u128 (of_nat n))
    (set_gauge ''mev_rpc_healthy_endpoints'' (tk_healthy tk) (set_gauge ''mev_node_uptime_seconds_total'' (ck_uptime clock) m))"
  have m1: "advances [] (tk, m) (tk, m1)"
    by (simp add: advances_def m1_def fun_eq_iff)
  have a: "poll (tk_idx tk) = a" and lt: "tk_idx tk < n"
    using assms by (auto simp: t tracker_tick_def Let_def split: if_splits)
  consider "a = RpcFailed" | "a = BlockAnswer None" | b where "a = BlockAnswer (Some b)"
    by (metis rpc_answer.exhaust option.exhaust)
  then show ?thesis
  proof cases
    case 3
    define m2 where "m2 = set_gauge ''mev_block_latest_number'' (f64_of_u64 (block_num b)) m1"
    obtain tk1 where tk1: "tk' = tk1\<lparr>tk_prev_block := block_num b\<rparr>"
      "(if block_num b \<noteq> tk_prev_block tk \<and> 0 < tk_prev_block tk then process_block ux clock b (tk, m2) else Inr (tk, m2)) = Inr (tk1, m')"
    proof -
      have "on_block ux clock b (tk, m1) = Inr (tk', m')"
        using assms(1) lt by (simp add: t tracker_tick_def Let_def a 3 m1_def)
      then show ?thesis
        unfolding on_block_def Let_def prod.case m2_def [symmetric] bindE_eq_Inr_iff by (elim exE conjE) (auto intro: that)
    qed
    have "advances (observed (tk_prev_block tk) [a]) (tk, m2) (tk1, m') \<and> tk_idx tk1 = tk_idx tk \<and> tk_healthy tk1 = tk_healthy tk"
      using tk1(2) process_block_advances [of ux clock b tk m2 tk1 m'] by (auto simp: 3 advances_refl split: if_splits)
    moreover have "advances [] (tk, m) (tk, m2)"
      by (simp add: advances_def m1_def m2_def fun_eq_iff)
    ultimately show ?thesis
      using lt advances_trans [of "[]" "(tk, m)" "(tk, m2)" "observed (tk_prev_block tk) [a]" "(tk1, m')"]
      unfolding tk1(1) by (simp add: 3 advances_prev)
  qed (use assms(1) lt m1 in \<open>simp_all add: t tracker_tick_def Let_def a m1_def [symmetric], auto simp: advances_def\<close>)
qed

lemma tracker_run_advances:
  assumes "tracker_run ux n ts (tk, m) = Inr (tk', m')" "tk_idx tk < n" "tk_healthy tk = (k, 0)" "1 \<le> k" "k < 2 ^ 53"
  shows "advances (observed (tk_prev_block tk) (polled n ts (tk_idx tk))) (tk, m) (tk', m')
    \<and> tk_idx tk' = (tk_idx tk + failures (polled n ts (tk_idx tk))) mod n
    \<and> tk_healthy tk' = (max 1 (k - failures (polled n ts (tk_idx tk))), 0)"
  using assms
proof (induction ts arbitrary: tk m k)
  case Nil
  then show ?case by (simp add: advances_refl failures_def)
next
  case (Cons t ts)
  let ?a = "snd t (tk_idx tk)"
  let ?as = "polled n ts (if ?a = RpcFailed then (tk_idx tk + 1) mod n else tk_idx tk)"
  obtain tk1 m1 where t: "tracker_tick ux n t (tk, m) = Inr (tk1, m1)" and ts: "tracker_run ux n ts (tk1, m1) = Inr (tk', m')"
    using Cons.prems(1) by (auto simp: bindE_eq_Inr_iff)
  note tick = tracker_tick_advances [OF t refl, of ?as]
  define k1 where "k1 = (if ?a = RpcFailed then max 1 (k - 1) else k)"
  have k1: "tk_healthy tk1 = (k1, 0)" "1 \<le> k1" "k1 < 2 ^ 53"
    using tick Cons.prems(3-5) healthy_step [of k] by (auto simp: k1_def)
  have idx: "tk_idx tk1 < n"
    using tick by auto
  note ih = Cons.IH [OF ts idx k1]
  have fails: "failures (polled n (t # ts) (tk_idx tk)) = (if ?a = RpcFailed then Suc (failures ?as) else failures ?as)"
    by (simp add: failures_def)
  have polled: "polled n ts (tk_idx tk1) = ?as"
    using tick by simp
  have "advances (observed (tk_prev_block tk) (polled n (t # ts) (tk_idx tk))) (tk, m) (tk', m')"
    using advances_trans [of "observed (tk_prev_block tk) [?a]" "(tk, m)" "(tk1, m1)" "observed (tk_prev_block tk1) ?as" "(tk', m')"] tick ih
    by (simp add: polled)
  moreover have "tk_idx tk' = (tk_idx tk + failures (polled n (t # ts) (tk_idx tk))) mod n"
    using tick ih unfolding fails polled by (auto simp: mod_simps)
  moreover have "tk_healthy tk' = (max 1 (k - failures (polled n (t # ts) (tk_idx tk))), 0)"
    using ih Cons.prems(4) unfolding fails polled by (auto simp: k1_def max_def)
  ultimately show ?case by blast
qed

text \<open>C23: the tracker's accounting. Whatever the endpoints answer, after any number of rounds the process-wide
  counters are exactly those of the blocks with a new number (the first block seen is never
  processed): blocks and transactions processed, transactions per class, swaps counted as
  opportunities and as filtered. The endpoint in use is the number of failures modulo the number
  of endpoints, and the healthy endpoints are the endpoints less all failures ever, at least one: a
  success never restores one.\<close>

theorem tracker_accounting:
  assumes "tracker_run ux n ticks (tracker_new n, metrics_new) = Inr (tk, m)" "0 < n" "n < 2 ^ 53"
    and "answers = polled n ticks 0" "txs = concat (map bl_transactions (observed 0 answers))"
  shows "mx_block_processed m = of_nat (length (observed 0 answers))
    \<and> mx_processed m = of_nat (length txs) \<and> mx_received m = of_nat (length txs) \<and> tk_total_tx tk = of_nat (length txs)
    \<and> mx_classified m = (\<lambda>ty. of_nat (class_count ty txs))
    \<and> mx_found m ''swap_v2'' = of_nat (class_count ''swap_v2'' txs) \<and> mx_found m ''swap_v3'' = of_nat (class_count ''swap_v3'' txs)
    \<and> mx_filtered m = mx_found m ''swap_v2'' + mx_found m ''swap_v3''
    \<and> tk_idx tk = failures answers mod n \<and> tk_healthy tk = (max 1 (n - failures answers), 0)"
proof -
  have "(of_nat n :: u128) = word_of_nat n" "n < 2 ^ 128"
    using assms(3) by simp_all
  then have "f64_of_u128 (of_nat n) = (n, 0)"
    using assms(3) by (simp add: f64_of_u128_def round53_def unat_word_of_nat_small)
  then have start: "tk_idx (tracker_new n) < n" "tk_healthy (tracker_new n) = (n, 0)" "1 \<le> n"
    using assms(2) by (simp_all add: tracker_new_def)
  show ?thesis
    using tracker_run_advances [OF assms(1) start assms(3)] assms(4,5)
    by (simp add: tracker_new_def metrics_new_def advances_def txs_of_def swap_label_def)
qed

section \<open>Failover\<close>

text \<open>Rounds in which no conversion of the tracker panics.\<close>

definition block_fits :: "Block \<Rightarrow> bool" where
  "block_fits b \<longleftrightarrow> (case bl_base_fee b of Some f \<Rightarrow> unat f < 2 ^ 64 | None \<Rightarrow> True) \<and> unat (bl_gas_limit b) < 2 ^ 64
    \<and> unat (bl_gas_used b) < 2 ^ 64 \<and> unat (bl_timestamp b) < 2 ^ 64"

definition tick_sane :: "nat \<Rightarrow> tick_clock \<times> (nat \<Rightarrow> rpc_answer) \<Rightarrow> bool" where
  "tick_sane n t \<longleftrightarrow> ck_now (fst t) \<noteq> None
    \<and> list_all (\<lambda>i. case snd t i of BlockAnswer (Some b) \<Rightarrow> block_fits b | _ \<Rightarrow> True) [0..<n]"

lemma process_block_total:
  assumes "u256_laws ux" "block_fits b" "ck_now clock \<noteq> None"
  shows "\<exists>s'. process_block ux clock b (tk, m) = Inr s'"
proof -
  note as_u64 = u256_laws.as_u64_law [OF assms(1)]
  obtain m1 where "gas_gauges ux b (m\<lparr>mx_block_processed := mx_block_processed m + 1\<rparr>) = Inr m1"
    using assms(2) by (cases "bl_base_fee b") (simp_all add: gas_gauges_def block_fits_def as_u64 Let_def)
  moreover obtain m2 where "propagation_gauge ux (ck_now clock) b m1 = Inr m2"
    using assms(2,3) by (auto simp: propagation_gauge_def block_fits_def as_u64)
  ultimately show ?thesis
    by (simp add: process_block_def Let_def split: prod.split)
qed

lemma tracker_tick_total:
  assumes "u256_laws ux" "tick_sane n t" "tk_idx tk < n"
  shows "\<exists>tk' m'. tracker_tick ux n t (tk, m) = Inr (tk', m')"
proof -
  obtain clock poll where t: "t = (clock, poll)"
    by (cases t)
  show ?thesis
  proof (cases "poll (tk_idx tk)")
    case (BlockAnswer r)
    show ?thesis
    proof (cases r)
      case None
      with BlockAnswer assms(3) show ?thesis
        by (simp add: t tracker_tick_def Let_def)
    next
      case (Some b)
      have fits: "block_fits b" "ck_now clock \<noteq> None"
        using assms(2,3) BlockAnswer Some by (auto simp: tick_sane_def t list_all_iff split: rpc_answer.splits option.splits)
      have "\<exists>tk' m'. on_block ux clock b (tk, m1) = Inr (tk', m')" for m1
      proof -
        obtain tk1 m2 where "process_block ux clock b (tk, set_gauge ''mev_block_latest_number'' (f64_of_u64 (block_num b)) m1) = Inr (tk1, m2)"
          using process_block_total [OF assms(1) fits] by (metis prod.exhaust)
        then show ?thesis
          by (simp add: on_block_def Let_def)
      qed
      with BlockAnswer Some assms(3) show ?thesis
        by (simp add: t tracker_tick_def Let_def)
    qed
  next
    case RpcFailed
    with assms(3) show ?thesis
      by (simp add: t tracker_tick_def Let_def)
  qed
qed

lemma tracker_run_total:
  assumes "u256_laws ux" "\<forall>t \<in> set ts. tick_sane n t" "tk_idx tk < n"
  shows "\<exists>s'. tracker_run ux n ts (tk, m) = Inr s'"
  using assms(2,3)
proof (induction ts arbitrary: tk m)
  case (Cons t ts)
  obtain tk1 m1 where t: "tracker_tick ux n t (tk, m) = Inr (tk1, m1)"
    using tracker_tick_total [OF assms(1)] Cons.prems by fastforce
  then have "tk_idx tk1 < n"
    using tracker_tick_advances [OF t refl, of "[]"] by auto
  with Cons t show ?case by simp
qed simp

text \<open>While the endpoints fail they are tried in turn.\<close>

lemma length_polled [simp]: "length (polled n ts i) = length ts"
  by (induction ts arbitrary: i) simp_all

lemma polled_rotates:
  assumes "\<forall>j < k. polled n ts i ! j = RpcFailed" "k < length ts" "i < n"
  shows "polled n ts i ! k = snd (ts ! k) ((i + k) mod n)"
  using assms
proof (induction ts arbitrary: i k)
  case (Cons t ts)
  show ?case
  proof (cases k)
    case 0
    with Cons.prems show ?thesis by simp
  next
    case (Suc k')
    with Cons.prems(1) have first: "snd t i = RpcFailed"
      by fastforce
    have rest: "\<forall>j < k'. polled n ts ((i + 1) mod n) ! j = RpcFailed"
    proof (intro allI impI)
      fix j assume "j < k'"
      with Cons.prems(1) [rule_format, of "Suc j"] Suc first show "polled n ts ((i + 1) mod n) ! j = RpcFailed"
        by simp
    qed
    have "polled n ts ((i + 1) mod n) ! k' = snd (ts ! k') (((i + 1) mod n + k') mod n)"
      using Cons.prems Suc by (intro Cons.IH rest) simp_all
    with first Suc show ?thesis
      by (simp add: mod_simps)
  qed
qed simp

lemma polled_drop: "i < n \<Longrightarrow> \<exists>i' < n. drop k (polled n ts i) = polled n (drop k ts) i'"
proof (induction ts arbitrary: i k)
  case (Cons t ts)
  then show ?case
    by (cases k) (auto intro: exI [of _ i])
qed auto


section \<open>The process does not act\<close>

lemma monitor_turn_sends:
  assumes "monitor_turn hx config ev mon = Inr mon'"
  shows "\<exists>txs. mo_sent mon' = mo_sent mon @ txs \<and> (\<forall>tx \<in> set txs. \<not> mt_is_swap tx)"
proof -
  have flush: "\<exists>txs. mo_sent (flush_pending tsc ns u) = mo_sent u @ txs \<and> (\<forall>tx \<in> set txs. \<not> mt_is_swap tx)" for tsc ns u
    by (auto simp: flush_pending_def process_batch_def hash_tx_def)
  have texts: "\<exists>txs. mo_sent u' = mo_sent u @ txs \<and> (\<forall>tx \<in> set txs. \<not> mt_is_swap tx)"
    if run: "on_text hx config msg tsc ns u = Inr u'" for msg tsc ns u u'
  proof -
    obtain r where "extract_tx_hash_fast hx msg = Inr r"
      using run by (auto simp: on_text_def Let_def bindE_eq_Inr_iff)
    then show ?thesis
      using run flush [of tsc ns "u\<lparr>mo_stats := _, mo_pending := _\<rparr>"]
      by (cases r) (auto simp: on_text_def Let_def split: if_splits)
  qed
  show ?thesis
  proof (cases "mo_running mon")
    case True
    with assms flush [of _ _ mon] texts [of _ _ _ mon mon'] show ?thesis
      by (cases ev) (auto simp: monitor_turn_def split: if_splits ws_message.splits)
  qed (use assms in \<open>simp add: monitor_turn_def\<close>)
qed

definition tracker_found :: "tracker option \<Rightarrow> string \<Rightarrow> u64" where
  "tracker_found t ty = (case t of None \<Rightarrow> 0 | Some tk \<Rightarrow> if ty = ''swap_v2'' then tk_swaps_v2 tk else if ty = ''swap_v3'' then tk_swaps_v3 tk else 0)"

definition main_inv :: "main_state \<Rightarrow> bool" where
  "main_inv s \<longleftrightarrow> mn_taken s @ mn_inbox s = mo_sent (mn_monitor s) \<and> (\<forall>tx \<in> set (mo_sent (mn_monitor s)). \<not> mt_is_swap tx)
    \<and> mn_total_count s = of_nat (length (mn_taken s)) \<and> mn_detector s = (detector_config, tables_new)
    \<and> (\<exists>c. mn_engine s = engine_new c)
    \<and> (\<forall>ty. mx_found (mn_metrics s) ty = tracker_found (mn_tracker s) ty)
    \<and> mx_received (mn_metrics s) = of_nat (length (mn_taken s)) + (case mn_tracker s of None \<Rightarrow> 0 | Some tk \<Rightarrow> tk_total_tx tk)"

lemma main_step_inv: "main_step ux hx s s' \<Longrightarrow> main_inv s \<Longrightarrow> main_inv s'"
proof (induction rule: main_step.induct)
  case (track s tk tick tk' m')
  note tick = tracker_tick_advances [OF track(3) refl, of "[]"]
  have "mx_found m' ty = tracker_found (Some tk') ty" for ty
    using tick track(2,4) by (simp add: main_inv_def advances_def tracker_found_def swap_label_def)
  with tick track(2,4) show ?case
    by (simp add: main_inv_def advances_def)
next
  case (monitor s ev mon)
  obtain txs where "mo_sent mon = mo_sent (mn_monitor s) @ txs" "\<forall>tx \<in> set txs. \<not> mt_is_swap tx"
    using monitor_turn_sends [OF monitor(3)] by blast
  with monitor(4) show ?case
    by (auto simp: main_inv_def put_monitor_def)
next
  case (receive s tx rest late secs)
  then have "tx \<in> set (mo_sent (mn_monitor s))"
    unfolding main_inv_def by (metis in_set_conv_decomp)
  with receive(2,3) show ?case
    by (auto simp: main_inv_def on_mempool_tx_def Let_def)
next
  case (stop_engine s)
  then show ?case
    by (auto simp: main_inv_def engine_stop_def engine_new_def)
qed (simp add: main_inv_def)

lemma main_reachable_inv: "main_reachable ux hx s \<Longrightarrow> main_inv s"
proof (induction rule: main_reachable.induct)
  case (started args env fs parse num_cpus try_provider s)
  then show ?case
    by (auto simp: engine_main_def main_start_def main_inv_def Let_def monitor_start_def metrics_new_def tracker_found_def tracker_new_def
        split: if_splits sum.splits option.splits)
qed (rule main_step_inv)

text \<open>C22: the engine executable observes but does not act. In every state the process can reach, the channel
  from the monitor has lost and reordered nothing, none of its transactions is marked as a swap, so
  the loop's swap branch is dead and every opportunity ever counted comes from the block tracker's
  classifier; the received transactions are those of the mempool and those of the blocks. The
  engine is never started and has counted nothing, and the multi-threaded detector is as created.\<close>

theorem engine_main_inert:
  assumes "main_reachable ux hx s"
  shows "mn_taken s @ mn_inbox s = mo_sent (mn_monitor s) \<and> (\<forall>tx \<in> set (mn_taken s @ mn_inbox s). \<not> mt_is_swap tx)
    \<and> (\<forall>ty. mx_found (mn_metrics s) ty = tracker_found (mn_tracker s) ty)
    \<and> mn_total_count s = of_nat (length (mn_taken s))
    \<and> mx_received (mn_metrics s) = mn_total_count s + (case mn_tracker s of None \<Rightarrow> 0 | Some tk \<Rightarrow> tk_total_tx tk)
    \<and> \<not> is_running (mn_engine s) \<and> mn_detector s = (detector_config, tables_new)
    \<and> engine_stats now (mn_engine s) = \<lparr>ee_opportunities_detected = 0, ee_simulations_run = 0, ee_bundles_submitted = 0, ee_uptime_seconds = 0\<rparr>"
  using main_reachable_inv [OF assms]
  by (auto simp: main_inv_def is_running_def engine_stats_def engine_new_def detector_new_def simulator_new_def builder_new_def)

section \<open>Endpoints from the environment\<close>

text \<open>Endpoint lists. Writing a list of URLs (no commas or outer white space in them) to the variable, separated by
  commas, gives back exactly this list, in order.\<close>

theorem rpc_urls_round_trip:
  assumes "urls \<noteq> []" "\<forall>u \<in> set urls. u \<noteq> [] \<and> CHR '','' \<notin> set u \<and> solid_byte (of_char (hd u)) \<and> solid_byte (of_char (last u))"
  shows "rpc_urls (env(''MEV_RPC_ENDPOINTS'' \<mapsto> join_with CHR '','' urls)) arbitrum_config = urls"
proof -
  have "split_on CHR '','' (join_with CHR '','' urls) = urls"
    using assms by (intro split_join) simp_all
  moreover have "map str_trim urls = urls"
    using assms(2) by (intro map_idI str_trim_solid) simp_all
  moreover have "filter (\<lambda>s. s \<noteq> []) urls = urls"
    using assms(2) by (simp add: filter_id_conv)
  ultimately show ?thesis
    using assms(1) by (simp add: rpc_urls_def)
qed

text \<open>An exact-output swap is not seen. A call of \<^verbatim>\<open>swapTokensForExactTokens\<close>, which the backrun detector
  recognises as a swap, is classified as unknown: the classifier's constant for it is another
  selector.\<close>

theorem classify_tx_misses:
  assumes "take 4 (tx_input tx) = [0x88, 0x03, 0xdb, 0xee]"
  shows "is_swap tx \<and> classify_tx (tx_input tx) 0 = ''unknown''"
proof -
  have "\<not> length (tx_input tx) < 4"
    using arg_cong [OF assms, of length] by simp
  with assms show ?thesis
    by (simp add: is_swap_def classify_tx_def SWAP_SELECTORS_def)
qed

section \<open>Instances\<close>

definition demo_clock :: tick_clock where
  "demo_clock = \<lparr>ck_uptime = (1, 0), ck_now = Some 1700000000, ck_elapsed = (1, 0)\<rparr>"

definition demo_block :: "u64 \<Rightarrow> EthTransaction list \<Rightarrow> Block" where
  "demo_block num txs = \<lparr>bl_number = Some num, bl_base_fee = Some 10000000, bl_gas_limit = 32000000, bl_gas_used = 1000000,
     bl_timestamp = 1699999999, bl_transactions = txs\<rparr>"

definition demo_ticks :: "(tick_clock \<times> (nat \<Rightarrow> rpc_answer)) list" where
  "demo_ticks = [(demo_clock, \<lambda>i. if i = 0 then BlockAnswer (Some (demo_block 7 [])) else BlockAnswer None),
     (demo_clock, \<lambda>i. if i = 0 then RpcFailed else BlockAnswer None),
     (demo_clock, \<lambda>i. if i = 0 then RpcFailed
        else BlockAnswer (Some (demo_block 8 [EthTransaction_default\<lparr>et_input := [0x38, 0xed, 0x17, 0x39]\<rparr>, EthTransaction_default])))]"

lemma demo_ticks_sane: "\<forall>t \<in> set demo_ticks. tick_sane 2 t"
  by (simp add: demo_ticks_def tick_sane_def demo_clock_def demo_block_def block_fits_def upt_rec)

lemma demo_polled: "polled 2 demo_ticks 0 = [BlockAnswer (Some (demo_block 7 [])), RpcFailed,
   BlockAnswer (Some (demo_block 8 [EthTransaction_default\<lparr>et_input := [0x38, 0xed, 0x17, 0x39]\<rparr>, EthTransaction_default]))]"
  by (simp add: demo_ticks_def)

theorem tracker_accounting_witness:
  "\<exists>tk m. tracker_run u256_std 2 demo_ticks (tracker_new 2, metrics_new) = Inr (tk, m) \<and> mx_block_processed m = 1 \<and> tk_total_tx tk = 2
    \<and> mx_found m ''swap_v2'' = 1 \<and> mx_classified m ''unknown'' = 1 \<and> tk_idx tk = 1 \<and> tk_healthy tk = (1, 0)"
proof -
  obtain tk m where run: "tracker_run u256_std 2 demo_ticks (tracker_new 2, metrics_new) = Inr (tk, m)"
    using tracker_run_total [OF std_u256.u256_laws_axioms demo_ticks_sane, of "tracker_new 2" metrics_new]
    by (auto simp: tracker_new_def)
  from tracker_accounting [OF run _ _ refl refl] run show ?thesis
    unfolding demo_polled by (simp add: demo_block_def block_num_def failures_def EthTransaction_default_def classify_tx_def)
qed


text \<open>A process that has read one hash from the socket, flushed it and received it.\<close>

theorem engine_main_inert_witness:
  "\<exists>s. main_reachable u256_std hex_std s \<and> mn_total_count s = 1 \<and> map mt_hash (mn_taken s) = [258] \<and> \<not> is_running (mn_engine s)"
proof -
  let ?R = "main_reachable u256_std hex_std" and ?m = "RESULT_PATTERN @ hex_encode hex_std (to_be 32 (258 :: bytes32)) @ [CHR 0x22]"
  obtain s0 where s0: "engine_main [] (\<lambda>_. None) (\<lambda>_. None) (\<lambda>_. None) 8 (\<lambda>_. True) = Inr (Started s0)"
    "mn_looping s0" "mn_monitor s0 = monitor_start" "mc_batch_size (mn_mempool_config s0) = 32" "mn_inbox s0 = []" "mn_taken s0 = []"
    by (simp add: engine_main_def from_env_def Config_default_def main_start_def mempool_config_def Let_def)
  define mon1 where "mon1 = monitor_start\<lparr>mo_stats := (mo_stats monitor_start)\<lparr>st_txs_received := st_txs_received (mo_stats monitor_start) + 1\<rparr>,
    mo_pending := [258]\<rparr>"
  have "extract_tx_hash_fast hex_std ?m = Inr (Some 258)"
    using extract_tx_hash_round_trip [OF std_hex_text.hex_text_axioms refl, of "[]" 258 "[CHR 0x22]"] by simp
  then have t1: "monitor_turn hex_std (mn_mempool_config s0) (Received (WsText ?m) 1 2) (mn_monitor s0) = Inr mon1"
    by (simp add: s0 monitor_turn_def on_text_def mon1_def monitor_start_def)
  define s1 where "s1 = put_monitor mon1 s0"
  have r1: "?R s1"
    unfolding s1_def by (rule main_reachable.stepped [OF main_reachable.started [OF s0(1)] main_step.monitor [OF s0(2) _ t1]]) simp
  define s2 where "s2 = put_monitor (flush_pending 3 4 mon1) s1"
  have "monitor_turn hex_std (mn_mempool_config s1) (Tick 3 4) (mn_monitor s1) = Inr (flush_pending 3 4 mon1)" and "mn_looping s1"
    by (simp_all add: s1_def put_monitor_def monitor_turn_def mon1_def monitor_start_def s0)
  then have r2: "?R s2"
    unfolding s2_def by (intro main_reachable.stepped [OF r1 main_step.monitor]) simp_all
  have s2: "mn_inbox s2 = [hash_tx 3 4 258]" "mn_looping s2" "mn_taken s2 = []"
    by (simp_all add: s2_def s1_def put_monitor_def s0 mon1_def monitor_start_def flush_pending_def process_batch_def)
  define s where "s = on_mempool_tx False (0, 0) (hash_tx 3 4 258) (s2\<lparr>mn_inbox := []\<rparr>)"
  have r: "?R s"
    unfolding s_def by (rule main_reachable.stepped [OF r2 main_step.receive [OF s2(2,1)]])
  have "mn_taken s = [hash_tx 3 4 258]"
    by (simp add: s_def on_mempool_tx_def Let_def s2)
  with engine_main_inert [OF r] r show ?thesis
    by (intro exI [of _ s]) (simp add: hash_tx_def)
qed

theorem rpc_urls_round_trip_witness:
  "rpc_urls ([''MEV_RPC_ENDPOINTS'' \<mapsto> ''https://a.example,wss://b.example/ws'']) (the (cf_chains (Config_default 8) 42161)) = [''https://a.example'', ''wss://b.example/ws'']
    \<and> http_url ''wss://b.example/ws'' = ''https://b.example/ws''"
proof
  show "rpc_urls ([''MEV_RPC_ENDPOINTS'' \<mapsto> ''https://a.example,wss://b.example/ws'']) (the (cf_chains (Config_default 8) 42161)) = [''https://a.example'', ''wss://b.example/ws'']"
    using rpc_urls_round_trip [of "[''https://a.example'', ''wss://b.example/ws'']" Map.empty "the (cf_chains (Config_default 8) 42161)"]
    by (simp add: solid_byte_def)
  show "http_url ''wss://b.example/ws'' = ''https://b.example/ws''"
    by (simp add: http_url_def)
qed

theorem classify_tx_misses_witness:
  "is_swap (sample_tx_with [0x88, 0x03, 0xdb, 0xee]) \<and> classify_tx [0x88, 0x03, 0xdb, 0xee] 0 = ''unknown''"
  using classify_tx_misses [of "sample_tx_with [0x88, 0x03, 0xdb, 0xee]"] by (simp add: sample_tx_with_def)

end
