(* ===== verification/C_Fast_Path.thy ===== *)
theory C_Fast_Path
  imports Fast_Path Arbitrage_Detector Rust_Text
begin

text \<open>
  The foreign-function layer in the build with the C library (configuration \<^verbatim>\<open>has_c_fast_path\<close>): the C
  functions of \<^verbatim>\<open>fast/src/rlp.c\<close>, \<^verbatim>\<open>simd_utils.c\<close>, \<^verbatim>\<open>parser.c\<close> and \<^verbatim>\<open>fast/include/amm_simulator.h\<close> that
  the Rust wrappers call, the wrappers of \<^verbatim>\<open>core/src/ffi\<close>, and the comparison with the Rust fallbacks
  of the theory \<open>Fast_Path\<close>, which are documented as giving identical results. A C function that fills
  an output buffer is the function to the bytes it writes; the null checks are left out because
  the wrappers never pass a null pointer. A structure that crosses the boundary is the list of its bytes,
  written with the offsets of the C declaration and read with those of the Rust one; integers are
  little-endian, as on x86-64. Keccak and the V3 approximation in doubles are not modelled.
\<close>

section \<open>Choosing the C functions\<close>

definition ascii_lower :: "char \<Rightarrow> char" where
  "ascii_lower c = (let n = of_char c :: nat in if 65 \<le> n \<and> n \<le> 90 then char_of (n + 32) else c)"

definition disable_c_fast_path :: "(string \<rightharpoonup> string) \<Rightarrow> bool" where
  "disable_c_fast_path env =
    (case env ''MEV_DISABLE_FFI'' of
       Some v \<Rightarrow> map ascii_lower (str_trim v) \<in> set [''1'', ''true'', ''yes'', ''on'']
     | None \<Rightarrow> False)"

section \<open>RLP\<close>

text \<open>The number of bytes of a length, and the length prefix.\<close>

fun len_byte_count :: "nat \<Rightarrow> nat" where
  "len_byte_count n = (if n = 0 then 0 else Suc (len_byte_count (n div 256)))"

declare len_byte_count.simps [simp del]

definition encode_length :: "u64 \<Rightarrow> u8 \<Rightarrow> bytes" where
  "encode_length len offset =
    (if len < 56 then [offset + ucast len]
     else let len_bytes = len_byte_count (unat len)
          in (offset + 55 + of_nat len_bytes) # to_be len_bytes len)"

definition mev_rlp_encode_string :: "bytes \<Rightarrow> bytes" where
  "mev_rlp_encode_string input =
    (if length input = 1 \<and> hd input < 0x80 then input
     else if length input < 56 then (0x80 + of_nat (length input)) # input
     else encode_length (of_nat (length input)) 0xb7 @ input)"

definition mev_rlp_encode_uint256 :: "bytes \<Rightarrow> bytes" where
  "mev_rlp_encode_uint256 value =
    (let start = (case first_nonzero value of Some i \<Rightarrow> i | None \<Rightarrow> 32)
     in if start = 32 then [0x80] else mev_rlp_encode_string (drop start value))"

definition mev_rlp_encode_address :: "bytes \<Rightarrow> bytes" where
  "mev_rlp_encode_address addr = 0x94 # take 20 addr"

text \<open>The wrappers: a buffer that is too small for what C reports falls back to the Rust encoder.\<close>

definition rlp_encode_ffi :: "bool \<Rightarrow> bytes \<Rightarrow> bytes" where
  "rlp_encode_ffi disabled input =
    (if \<not> disabled then
       let out = mev_rlp_encode_string input
       in if 0 < length out \<and> length out \<le> length input + 16 then out else rlp_encode input
     else rlp_encode input)"

definition rlp_encode_address_ffi :: "address \<Rightarrow> bytes" where
  "rlp_encode_address_ffi addr = mev_rlp_encode_address (to_be 20 addr)"

definition rlp_encode_u256_ffi :: "u256crate \<Rightarrow> u256 \<Rightarrow> bytes" where
  "rlp_encode_u256_ffi ux value = mev_rlp_encode_uint256 (ux_to_big_endian ux value)"

section \<open>Addresses and prices\<close>

text \<open>Sixteen bytes in one comparison, the last four in another.\<close>

definition mev_address_eq :: "bytes \<Rightarrow> bytes \<Rightarrow> i32" where
  "mev_address_eq a b = (if take 16 a \<noteq> take 16 b then 0 else if take 4 (drop 16 a) = take 4 (drop 16 b) then 1 else 0)"

definition address_eq_ffi :: "address \<Rightarrow> address \<Rightarrow> bool" where
  "address_eq_ffi a b = (mev_address_eq (to_be 20 a) (to_be 20 b) \<noteq> 0)"

text \<open>One pool of the batch; the fee product and the denominator are 64-bit. A zero denominator traps.\<close>

definition mev_price_impact :: "u64 \<Rightarrow> u64 \<Rightarrow> u64 \<Rightarrow> u64 exec" where
  "mev_price_impact r0 r1 amount_in =
    (if r0 = 0 \<or> r1 = 0 then Inr 0
     else let amount_fee = amount_in * 997;
              den = r0 * 1000 + amount_fee
          in if den = 0 then Inl DivisionByZero
             else Inr (ucast ((ucast amount_fee * ucast r1 :: u128) div ucast den)))"

fun collect_exec :: "'a exec list \<Rightarrow> 'a list exec" where
  "collect_exec [] = Inr []"
| "collect_exec (x # xs) = bindE x (\<lambda>v. bindE (collect_exec xs) (\<lambda>vs. Inr (v # vs)))"

definition calc_price_impact_batch_ffi :: "u64 list \<Rightarrow> u64 list \<Rightarrow> u64 \<Rightarrow> u64 list exec" where
  "calc_price_impact_batch_ffi reserves0 reserves1 amount_in =
    collect_exec (map (\<lambda>i. mev_price_impact (reserves0 ! i) (reserves1 ! i) amount_in) [0..<4])"

section \<open>V2 amounts and fingerprints\<close>

text \<open>The fee complement is computed in 32 bits and widened.\<close>

definition amm_v2_amount_out :: "u64 \<Rightarrow> u64 \<Rightarrow> u32 \<Rightarrow> u64 \<Rightarrow> u64" where
  "amm_v2_amount_out reserve_in reserve_out fee_bps amount_in =
    (if reserve_in = 0 \<or> reserve_out = 0 \<or> amount_in = 0 then 0
     else let fc = (ucast (10000 - fee_bps div 100) :: u64);
              ain_fee = (ucast amount_in * ucast fc :: u128);
              numer = ain_fee * ucast reserve_out;
              denom = ucast reserve_in * 10000 + ain_fee
          in if denom = 0 then 0
             else let out = numer div denom in if 0xFFFFFFFFFFFFFFFF < out then 0 else ucast out)"

definition amm_v2_amount_in :: "u64 \<Rightarrow> u64 \<Rightarrow> u32 \<Rightarrow> u64 \<Rightarrow> u64" where
  "amm_v2_amount_in reserve_in reserve_out fee_bps amount_out =
    (if reserve_in = 0 \<or> reserve_out = 0 \<or> reserve_out \<le> amount_out then 0
     else let fc = (ucast (10000 - fee_bps div 100) :: u64);
              numer = (ucast reserve_in * ucast amount_out * 10000 :: u128);
              denom = (ucast (reserve_out - amount_out) * ucast fc :: u128)
          in if denom = 0 then 0
             else let ain = numer div denom + 1 in if 0xFFFFFFFFFFFFFFFF < ain then 0 else ucast ain)"

definition v2_amount_out_ffi :: "u64 \<Rightarrow> u64 \<Rightarrow> u32 \<Rightarrow> u64 \<Rightarrow> u64 option" where
  "v2_amount_out_ffi reserve_in reserve_out fee_bps amount_in =
    (let out = amm_v2_amount_out reserve_in reserve_out fee_bps amount_in in if out = 0 then None else Some out)"

definition v2_amount_in_ffi :: "u64 \<Rightarrow> u64 \<Rightarrow> u32 \<Rightarrow> u64 \<Rightarrow> u64 option" where
  "v2_amount_in_ffi reserve_in reserve_out fee_bps amount_out =
    (let needed = amm_v2_amount_in reserve_in reserve_out fee_bps amount_out in if needed = 0 then None else Some needed)"

definition pf_fnv1a :: "bytes \<Rightarrow> nat \<Rightarrow> u64" where
  "pf_fnv1a data len = foldl (\<lambda>h i. (h XOR ucast (data ! i)) * 1099511628211) 14695981039346656037 [0..<len]"

definition token_fingerprint_ffi :: "address \<Rightarrow> u64" where
  "token_fingerprint_ffi addr = pf_fnv1a (to_be 20 addr) 20"

section \<open>Structures that cross the boundary\<close>

text \<open>A declaration is the list of its fields with their sizes and alignments. Fields are placed in order, at
  the next multiple of their alignment unless the structure is packed; the whole size is rounded
  up to the largest alignment.\<close>

definition align_up :: "nat \<Rightarrow> nat \<Rightarrow> nat" where
  "align_up n a = (n + a - 1) div a * a"

fun offsets_from :: "bool \<Rightarrow> nat \<Rightarrow> (string \<times> nat \<times> nat) list \<Rightarrow> (string \<times> nat) list" where
  "offsets_from packed n [] = []"
| "offsets_from packed n ((name, sz, al) # fs) =
    (let off = (if packed then n else align_up n al) in (name, off) # offsets_from packed (off + sz) fs)"

definition offset_of :: "(string \<times> nat \<times> nat) list \<Rightarrow> string \<Rightarrow> nat" where
  "offset_of fs name = the (map_of (offsets_from False 0 fs) name)"

fun end_from :: "bool \<Rightarrow> nat \<Rightarrow> (string \<times> nat \<times> nat) list \<Rightarrow> nat" where
  "end_from packed n [] = n"
| "end_from packed n ((name, sz, al) # fs) = end_from packed ((if packed then n else align_up n al) + sz) fs"

definition size_of :: "bool \<Rightarrow> (string \<times> nat \<times> nat) list \<Rightarrow> nat" where
  "size_of packed fs = (let e = end_from packed 0 fs in if packed then e else align_up e (foldr (\<lambda>(_, _, al) m. max al m) fs 1))"

definition SwapInfoFFI :: "(string \<times> nat \<times> nat) list" where
  "SwapInfoFFI = [(''dex_type'', 1, 1), (''token_in'', 20, 1), (''token_out'', 20, 1), (''amount_in'', 32, 1),
     (''amount_out_min'', 32, 1), (''pool_address'', 20, 1), (''fee'', 4, 4)]"

definition mev_swap_info_t :: "(string \<times> nat \<times> nat) list" where
  "mev_swap_info_t = [(''dex_type'', 4, 4), (''token_in'', 20, 1), (''token_out'', 20, 1), (''amount_in'', 32, 1),
     (''amount_out_min'', 32, 1), (''fee'', 4, 4)]"

text \<open>The declarations of the pathfinder, in Rust and in C++. On the C++ side all are packed.\<close>

definition AMMPoolC :: "(string \<times> nat \<times> nat) list" where
  "AMMPoolC = [(''token0'', 20, 1), (''token1'', 20, 1), (''pool_addr'', 20, 1), (''reserve0'', 8, 8), (''reserve1'', 8, 8),
     (''fee_bps'', 4, 4), (''block_updated'', 8, 8), (''extra'', 8, 8), (''is_v3'', 1, 1), (''_pad'', 3, 1)]"

definition HopPoolC :: "(string \<times> nat \<times> nat) list" where
  "HopPoolC = [(''pool_addr'', 20, 1), (''token_in'', 20, 1), (''token_out'', 20, 1), (''fee_bps'', 4, 4), (''is_v3'', 1, 1), (''_pad'', 3, 1)]"

definition PathC :: "(string \<times> nat \<times> nat) list" where
  "PathC = [(''hops'', 4 * size_of True HopPoolC, 1), (''n_hops'', 4, 4), (''_pad'', 4, 1)]"

definition PathfinderResultC :: "(string \<times> nat \<times> nat) list" where
  "PathfinderResultC = [(''best_path'', size_of False PathC, 4), (''optimal_amount'', 8, 8), (''gross_profit'', 8, 8), (''valid'', 1, 1), (''_pad'', 7, 1)]"

definition AMMPool :: "(string \<times> nat \<times> nat) list" where
  "AMMPool = [(''token0'', 20, 1), (''token1'', 20, 1), (''pool_addr'', 20, 1), (''reserve0'', 8, 8), (''reserve1'', 8, 8),
     (''fee_bps'', 4, 4), (''block_updated'', 8, 8), (''extra'', 8, 8), (''is_v3'', 1, 1), (''_pad'', 3, 1)]"

definition HopPool :: "(string \<times> nat \<times> nat) list" where
  "HopPool = [(''pool_addr'', 20, 1), (''token_in'', 20, 1), (''token_out'', 20, 1), (''fee_bps'', 4, 4), (''is_v3'', 1, 1), (''_pad'', 3, 1)]"

definition Path :: "(string \<times> nat \<times> nat) list" where
  "Path = [(''hops'', 4 * size_of True HopPool, 1), (''n_hops'', 4, 4), (''_pad'', 4, 1)]"

definition PathfinderResult :: "(string \<times> nat \<times> nat) list" where
  "PathfinderResult = [(''best_path'', size_of True Path, 1), (''optimal_amount'', 8, 8), (''gross_profit'', 8, 8), (''valid'', 1, 1), (''_pad'', 7, 1)]"

definition mem_write :: "nat \<Rightarrow> bytes \<Rightarrow> bytes \<Rightarrow> bytes" where
  "mem_write off bs mem = take off mem @ bs @ drop (off + length bs) mem"

definition mem_read :: "nat \<Rightarrow> nat \<Rightarrow> bytes \<Rightarrow> bytes" where
  "mem_read off len mem = take len (drop off mem)"

definition le32 :: "u32 \<Rightarrow> bytes" where
  "le32 w = rev (to_be 4 w)"

section \<open>The calldata parser\<close>

definition mev_parse_selector :: "bytes \<Rightarrow> u32" where
  "mev_parse_selector calldata = (if length calldata < 4 then 0 else from_be (take 4 calldata))"

text \<open>The decoders write to the structure at \<open>dst\<close>; their callers ignore the result code.\<close>

definition mev_decode_uint256 :: "bytes \<Rightarrow> nat \<Rightarrow> nat \<Rightarrow> bytes \<Rightarrow> bytes" where
  "mev_decode_uint256 calldata offset dst mem =
    (if length calldata < offset + 32 then mem else mem_write dst (take 32 (drop offset calldata)) mem)"

definition mev_decode_address :: "bytes \<Rightarrow> nat \<Rightarrow> nat \<Rightarrow> bytes \<Rightarrow> bytes" where
  "mev_decode_address calldata offset dst mem =
    (if length calldata < offset + 32 then mem else mem_write dst (take 20 (drop (offset + 12) calldata)) mem)"

definition mev_parse_v2_swap :: "bytes \<Rightarrow> bytes \<Rightarrow> (i32 \<times> bytes)" where
  "mev_parse_v2_swap calldata mem =
    (if length calldata < 164 then (- 1, mem)
     else if mev_parse_selector calldata \<notin> {0x38ed1739, 0x8803dbee} then (- 1, mem)
     else
       let m1 = mem_write (offset_of mev_swap_info_t ''dex_type'') (le32 1) mem;
           m2 = mev_decode_uint256 calldata 4 (offset_of mev_swap_info_t ''amount_in'') m1;
           m3 = mev_decode_uint256 calldata 36 (offset_of mev_swap_info_t ''amount_out_min'') m2;
           m4 = mev_decode_address calldata 132 (offset_of mev_swap_info_t ''token_in'') m3
       in (0, if 196 \<le> length calldata then mev_decode_address calldata 164 (offset_of mev_swap_info_t ''token_out'') m4 else m4))"

definition mev_parse_v3_swap :: "bytes \<Rightarrow> bytes \<Rightarrow> (i32 \<times> bytes)" where
  "mev_parse_v3_swap calldata mem =
    (if length calldata < 196 then (- 1, mem)
     else if mev_parse_selector calldata \<noteq> 0x414bf389 then (- 1, mem)
     else
       let m1 = mem_write (offset_of mev_swap_info_t ''dex_type'') (le32 2) mem;
           m2 = mev_decode_address calldata 4 (offset_of mev_swap_info_t ''token_in'') m1;
           m3 = mev_decode_address calldata 36 (offset_of mev_swap_info_t ''token_out'') m2;
           m4 = mem_write (offset_of mev_swap_info_t ''fee'') (le32 (from_be (take 3 (drop 97 calldata)))) m3;
           m5 = mev_decode_uint256 calldata 164 (offset_of mev_swap_info_t ''amount_in'') m4
       in (0, mev_decode_uint256 calldata 196 (offset_of mev_swap_info_t ''amount_out_min'') m5))"

definition mev_parse_swap :: "bytes \<Rightarrow> bytes \<Rightarrow> (i32 \<times> bytes)" where
  "mev_parse_swap calldata mem =
    (if length calldata < 4 then (- 1, mem)
     else
       let m0 = mem_write 0 (replicate (size_of False mev_swap_info_t) 0) mem;
           selector = mev_parse_selector calldata
       in if selector \<in> {0x38ed1739, 0x8803dbee} then mev_parse_v2_swap calldata m0
          else if selector = 0x414bf389 then mev_parse_v3_swap calldata m0
          else (- 1, m0))"

datatype HpDexType = HpUniswapV2 | HpUniswapV3 | HpSushiSwap

record HpSwapInfo =
  hp_dex_type :: HpDexType
  hp_token_in :: address
  hp_token_out :: address
  hp_amount_in :: u256
  hp_amount_out_min :: u256
  hp_pool_address :: address
  hp_fee :: u32

definition swap_info_of :: "u256crate \<Rightarrow> bytes \<Rightarrow> HpDexType \<Rightarrow> HpSwapInfo" where
  "swap_info_of ux info dex =
    (let field = (\<lambda>name len. mem_read (offset_of SwapInfoFFI name) len info)
     in \<lparr>hp_dex_type = dex, hp_token_in = from_be (field ''token_in'' 20), hp_token_out = from_be (field ''token_out'' 20),
         hp_amount_in = ux_from_big_endian ux (field ''amount_in'' 32),
         hp_amount_out_min = ux_from_big_endian ux (field ''amount_out_min'' 32),
         hp_pool_address = from_be (field ''pool_address'' 20), hp_fee = from_be (rev (field ''fee'' 4))\<rparr>)"

definition parse_swap_ffi :: "u256crate \<Rightarrow> bytes \<Rightarrow> HpSwapInfo option" where
  "parse_swap_ffi ux calldata =
    (let (result, info) = mev_parse_swap calldata (replicate (size_of False SwapInfoFFI) 0);
         dex = hd (mem_read (offset_of SwapInfoFFI ''dex_type'') 1 info)
     in if result \<noteq> 0 then None
        else if dex = 1 then Some (swap_info_of ux info HpUniswapV2)
        else if dex = 2 then Some (swap_info_of ux info HpUniswapV3)
        else if dex = 3 then Some (swap_info_of ux info HpSushiSwap)
        else None)"

section \<open>Equal results\<close>

lemma address_eq_ffi_correct: "address_eq_ffi a b = address_eq a b"
proof -
  have "(to_be 20 a = to_be 20 b) = (a = b)"
    by (metis from_be_to_be [where 'a = 160 and n = 20, simplified])
  moreover have "(take 16 xs = take 16 ys \<and> take 4 (drop 16 xs) = take 4 (drop 16 ys)) = (xs = ys)"
    if "length xs = 20" "length ys = 20" for xs ys :: bytes
  proof -
    have "take 4 (drop 16 xs) = drop 16 xs" "take 4 (drop 16 ys) = drop 16 ys"
      using that by simp_all
    then show ?thesis
      by (metis append_take_drop_id)
  qed
  from this [of "to_be 20 a" "to_be 20 b"]
  have "(take 16 (to_be 20 a) = take 16 (to_be 20 b) \<and> take 4 (drop 16 (to_be 20 a)) = take 4 (drop 16 (to_be 20 b))) = (to_be 20 a = to_be 20 b)"
    by simp
  ultimately show ?thesis
    by (auto simp: address_eq_ffi_def mev_address_eq_def address_eq_def)
qed

lemma rlp_string_short: "length input < 56 \<Longrightarrow> mev_rlp_encode_string input = rlp_encode input"
  by (simp add: mev_rlp_encode_string_def rlp_encode_def)

lemma rlp_encode_u256_ffi_correct:
  assumes "u256_laws ux"
  shows "rlp_encode_u256_ffi ux v = rlp_encode_u256 ux v"
proof -
  have len: "length (ux_to_big_endian ux v) = 32"
    by (simp add: u256_laws.to_be_law [OF assms])
  show ?thesis
    by (auto simp: rlp_encode_u256_ffi_def rlp_encode_u256_def mev_rlp_encode_uint256_def mev_rlp_encode_string_def len Let_def split: option.splits)
qed

lemma pf_fnv1a_eq: "pf_fnv1a data (length data) = fnv1a_64 data"
proof -
  have "foldl (\<lambda>h i. (h XOR ucast (data ! i)) * 1099511628211) h [0..<length data]
      = foldl (\<lambda>h b. (h XOR ucast b) * 1099511628211) h (map ((!) data) [0..<length data])" for h :: u64
    by (simp add: foldl_map)
  then show ?thesis
    by (simp only: pf_fnv1a_def fnv1a_64_def map_nth)
qed

lemma fee_complement_widened:
  assumes "unat (fee :: u32) \<le> 1000000"
  shows "(ucast (ucast (10000 - fee div 100) :: u64) :: u128) = 10000 - ucast fee div 100"
proof -
  have le: "unat fee div 100 \<le> 10000"
    using div_le_mono [OF assms, of 100] by simp
  then have fc: "unat (10000 - fee div 100) = 10000 - unat fee div 100"
    by (subst unat_sub_exact) (simp_all add: word_le_nat_alt unat_div)
  then have "unat (ucast (10000 - fee div 100) :: u64) = 10000 - unat fee div 100"
    by (simp add: unsigned_ucast_eq take_bit_eq_mod)
  then show ?thesis
    by (simp only: unat_eq_iff unat_ucast_64_128 unat_fee_fraction [OF assms])
qed

lemma ucast_sub_64_128:
  fixes a b :: u64
  assumes "b \<le> a"
  shows "(ucast (a - b) :: u128) = ucast a - ucast b"
proof -
  have "unat (ucast a - ucast b :: u128) = unat a - unat b"
    using assms by (subst unat_sub_exact) (simp_all add: word_le_nat_alt unat_ucast_64_128)
  then show ?thesis
    using assms by (simp add: unat_eq_iff unat_ucast_64_128 unat_sub_exact)
qed

text \<open>Absent and zero are the same to the C functions.\<close>

definition nonzero :: "u64 option \<Rightarrow> u64 option" where
  "nonzero r = (case r of Some w \<Rightarrow> if w = 0 then None else Some w | None \<Rightarrow> None)"

lemma v2_amount_out_ffi_correct:
  assumes "unat fee \<le> 1000000"
  shows "v2_amount_out_ffi ri ro fee a = nonzero (v2_amount_out ri ro fee a)"
  by (simp add: v2_amount_out_ffi_def amm_v2_amount_out_def v2_amount_out_def nonzero_def Let_def fee_complement_widened [OF assms])

lemma v2_amount_in_ffi_correct:
  assumes "unat fee \<le> 1000000"
  shows "v2_amount_in_ffi ri ro fee a = nonzero (v2_amount_in ri ro fee a)"
proof (cases "ro \<le> a")
  case False
  then have "(ucast (ro - a) :: u128) = ucast ro - ucast a"
    by (intro ucast_sub_64_128) simp
  then show ?thesis
    by (simp add: v2_amount_in_ffi_def amm_v2_amount_in_def v2_amount_in_def nonzero_def Let_def fee_complement_widened [OF assms])
qed (simp add: v2_amount_in_ffi_def amm_v2_amount_in_def v2_amount_in_def nonzero_def)

text \<open>C33: the C and the Rust versions agree. Address comparison, the encodings of addresses and of 256-bit integers
  and the token fingerprint give the same results in both builds; so do the V2 amounts for fees of
  at most 100 percent, except that the C build reports an amount of zero as absent.\<close>

theorem ffi_wrappers_agree:
  assumes "u256_laws ux" "unat fee \<le> 1000000"
  shows "address_eq_ffi a b = address_eq a b \<and> rlp_encode_address_ffi a = rlp_encode_address a
    \<and> rlp_encode_u256_ffi ux v = rlp_encode_u256 ux v \<and> token_fingerprint_ffi a = token_fingerprint a
    \<and> v2_amount_out_ffi ri ro fee x = nonzero (v2_amount_out ri ro fee x)
    \<and> v2_amount_in_ffi ri ro fee x = nonzero (v2_amount_in ri ro fee x)"
proof -
  have "rlp_encode_address_ffi a = rlp_encode_address a"
    by (simp add: rlp_encode_address_ffi_def mev_rlp_encode_address_def rlp_encode_address_def del: to_be.simps)
  moreover have "token_fingerprint_ffi a = token_fingerprint a"
    using pf_fnv1a_eq [of "to_be 20 a"] by (simp add: token_fingerprint_ffi_def token_fingerprint_def del: to_be.simps)
  ultimately show ?thesis
    using address_eq_ffi_correct rlp_encode_u256_ffi_correct [OF assms(1)] v2_amount_out_ffi_correct [OF assms(2)]
      v2_amount_in_ffi_correct [OF assms(2)] by blast
qed

theorem ffi_wrappers_agree_witness:
  "v2_amount_out_ffi 1000000 2000000 3000 1000 = Some 1992 \<and> v2_amount_out_ffi 1000000000 1 3000 1000 = None
    \<and> v2_amount_out 1000000000 1 3000 1000 = Some 0"
proof -
  have "v2_amount_out_ffi ri ro 3000 x = nonzero (v2_amount_out ri ro 3000 x)" for ri ro x
    using ffi_wrappers_agree [OF std_u256.u256_laws_axioms, of 3000] by simp
  then show ?thesis
    by (simp add: nonzero_def v2_amount_out_def)
qed

section \<open>Long strings\<close>

lemma len_byte_count_bound: "n < 256 ^ m \<Longrightarrow> len_byte_count n \<le> m"
proof (induction m arbitrary: n)
  case 0
  then show ?case by (simp add: len_byte_count.simps [of 0])
next
  case (Suc m)
  then have "len_byte_count (n div 256) \<le> m"
    by (simp add: less_mult_imp_div_less mult.commute)
  then show ?case by (simp add: len_byte_count.simps [of n])
qed

text \<open>Long byte strings are encoded as lists. Read back with the reference decoder, the output of the default
  (C) encoder is the input for strings of less than 56 bytes, and is not a string at all for longer
  ones: the C code adds the long-form offset twice, so the prefix byte is that of a list. The Rust
  encoder, which \<^verbatim>\<open>MEV_DISABLE_FFI\<close> selects, always reads back.\<close>

theorem rlp_encode_ffi_long:
  assumes "length input < 2 ^ 63"
  shows "rlp_decode (rlp_encode_ffi False input) = (if length input < 56 then Some (input, []) else None)
    \<and> rlp_decode (rlp_encode_ffi True input) = Some (input, [])"
proof -
  have good: "rlp_decode (rlp_encode input) = Some (input, [])"
    using rlp_decode_encode [of input "[]"] assms by simp
  have "rlp_decode (rlp_encode_ffi False input) = (if length input < 56 then Some (input, []) else None)"
  proof (cases "length input < 56")
    case True
    then show ?thesis
      using good by (simp add: rlp_encode_ffi_def rlp_string_short)
  next
    case False
    define k where "k = len_byte_count (length input)"
    have n: "unat (word_of_nat (length input) :: u64) = length input"
      using assms by (intro unat_word_of_nat_small) simp
    have k: "k \<le> 8"
      unfolding k_def using assms by (intro len_byte_count_bound) simp
    have "1 \<le> k"
      unfolding k_def using False by (subst len_byte_count.simps) auto
    have "\<not> (word_of_nat (length input) :: u64) < 56"
      using False by (simp add: word_less_nat_alt n)
    then have out: "mev_rlp_encode_string input = (0xb7 + 55 + of_nat k) # to_be k (of_nat (length input) :: u64) @ input"
      using False by (auto simp: mev_rlp_encode_string_def encode_length_def n k_def Let_def)
    have "unat (0xb7 + 55 + of_nat k :: u8) = 238 + k"
      using k by (subst unat_add_exact) (simp_all add: unat_word_of_nat_small)
    then show ?thesis
      using False k \<open>1 \<le> k\<close> by (simp add: rlp_encode_ffi_def out rlp_decode_def)
  qed
  with good show ?thesis
    by (simp add: rlp_encode_ffi_def)
qed

theorem rlp_encode_ffi_long_witness:
  "rlp_decode (rlp_encode_ffi False (replicate 56 7)) = None \<and> rlp_decode (rlp_encode_ffi False (replicate 55 7)) = Some (replicate 55 7, [])
    \<and> rlp_decode (rlp_encode_ffi True (replicate 56 7)) = Some (replicate 56 7, [])"
  using rlp_encode_ffi_long [of "replicate 56 7"] rlp_encode_ffi_long [of "replicate 55 7"] by simp

section \<open>Prices\<close>

lemma mev_price_impact_value:
  assumes "unat amount * 997 + unat r0 * 1000 < 2 ^ 64"
  shows "mev_price_impact r0 r1 amount = Inr (price_impact r0 r1 amount)"
proof (cases "r0 = 0 \<or> r1 = 0")
  case True
  then show ?thesis by (auto simp: mev_price_impact_def price_impact_def Let_def)
next
  case False
  have fee: "unat (amount * 997) = unat amount * 997"
    using assms by (subst unat_mult_exact) simp_all
  have r: "unat (r0 * 1000) = unat r0 * 1000"
    using assms by (subst unat_mult_exact) simp_all
  have den: "unat (r0 * 1000 + amount * 997) = unat r0 * 1000 + unat amount * 997"
    using assms by (subst unat_add_exact) (simp_all add: fee r)
  have "r0 * 1000 + amount * 997 \<noteq> 0"
    using False by (simp add: unat_eq_iff den)
  moreover have "(ucast (amount * 997) * ucast r1 :: u128) = ucast amount * ucast r1 * 997"
  proof -
    have "(ucast (amount * 997) :: u128) = ucast amount * 997"
      using assms by (simp add: unat_eq_iff unat_ucast_64_128 fee unat_mult_exact)
    then show ?thesis by (simp add: ac_simps)
  qed
  moreover have "(ucast (r0 * 1000 + amount * 997) :: u128) = ucast r0 * 1000 + ucast amount * 997"
  proof -
    have "unat (ucast r0 * 1000 :: u128) = unat r0 * 1000" "unat (ucast amount * 997 :: u128) = unat amount * 997"
      using assms by (subst unat_mult_exact; simp add: unat_ucast_64_128)+
    then show ?thesis
      using assms by (simp add: unat_eq_iff unat_ucast_64_128 den unat_add_exact)
  qed
  moreover have "(ucast r0 :: u128) \<noteq> 0"
    using False by (simp add: unat_eq_iff unat_ucast_64_128)
  ultimately show ?thesis
    using False by (simp add: mev_price_impact_def price_impact_def Let_def)
qed

lemma collect_exec_Inr: "collect_exec (map (\<lambda>i. Inr (f i)) xs) = Inr (map f xs)"
  by (induction xs) simp_all

text \<open>The four-pool batch. Both versions give the same four outputs as long as the 64-bit products of the C
  code do not overflow; from about 0.0185 ether on (\<open>2^64 / 997\<close> wei) they do.\<close>

theorem calc_price_impact_batch_ffi_agrees:
  assumes "\<forall>i < 4. unat amount * 997 + unat (reserves0 ! i) * 1000 < 2 ^ 64"
  shows "calc_price_impact_batch_ffi reserves0 reserves1 amount = Inr (calc_price_impact_batch reserves0 reserves1 amount)"
proof -
  have "map (\<lambda>i. mev_price_impact (reserves0 ! i) (reserves1 ! i) amount) [0..<4]
      = map (\<lambda>i. Inr (price_impact (reserves0 ! i) (reserves1 ! i) amount)) [0..<4]"
    using assms by (simp add: mev_price_impact_value)
  then show ?thesis
    by (simp only: calc_price_impact_batch_ffi_def calc_price_impact_batch_def collect_exec_Inr)
qed

theorem calc_price_impact_batch_ffi_agrees_witness:
  "calc_price_impact_batch_ffi [1000, 2000, 3000, 0] [1000, 2000, 3000, 5] 100 = Inr [90, 94, 96, 0]"
proof -
  have "unat (100 :: u64) * 997 + unat ([1000, 2000, 3000, 0 :: u64] ! i) * 1000 < 2 ^ 64" if "i < 4" for i
  proof -
    have "i = 0 \<or> i = 1 \<or> i = 2 \<or> i = 3"
      using that by linarith
    then show ?thesis by auto
  qed
  from calc_price_impact_batch_ffi_agrees [of 100 "[1000, 2000, 3000, 0]" "[1000, 2000, 3000, 5]", OF allI [OF impI [OF this]]]
  show ?thesis
    by (simp add: calc_price_impact_batch_def price_impact_def upt_rec)
qed

text \<open>A tenth of an ether into a pool of a tenth of an ether on each side: the C batch reports a wrong output.\<close>

theorem price_impact_ffi_wraps:
  "mev_price_impact 100000000000000000 100000000000000000 100000000000000000 = Inr 49015267248194519
    \<and> price_impact 100000000000000000 100000000000000000 100000000000000000 = 49924887330996494"
  by (simp add: mev_price_impact_def price_impact_def)

section \<open>The layouts differ\<close>

lemma swap_info_offsets [simp]:
  "offset_of mev_swap_info_t ''dex_type'' = 0" "offset_of mev_swap_info_t ''token_in'' = 4"
  "offset_of mev_swap_info_t ''token_out'' = 24" "offset_of mev_swap_info_t ''amount_in'' = 44"
  "offset_of mev_swap_info_t ''amount_out_min'' = 76" "offset_of mev_swap_info_t ''fee'' = 108"
  "size_of False mev_swap_info_t = 112"
  "offset_of SwapInfoFFI ''dex_type'' = 0" "offset_of SwapInfoFFI ''token_in'' = 1"
  "offset_of SwapInfoFFI ''token_out'' = 21" "offset_of SwapInfoFFI ''amount_in'' = 41"
  "offset_of SwapInfoFFI ''amount_out_min'' = 73" "offset_of SwapInfoFFI ''pool_address'' = 105"
  "offset_of SwapInfoFFI ''fee'' = 128" "size_of False SwapInfoFFI = 132"
  by (simp_all add: offset_of_def size_of_def mev_swap_info_t_def SwapInfoFFI_def align_up_def Let_def)

text \<open>Layouts across the boundary. The four structures of the pathfinder have the same size and the same field offsets on both
  sides, although two of them are packed only in C++; the swap structure has not: the Rust fields
  start three bytes before the C fields of the same name, and the fee twenty bytes after.\<close>

theorem ffi_layouts:
  "offsets_from True 0 AMMPoolC = offsets_from True 0 AMMPool \<and> size_of True AMMPoolC = size_of True AMMPool
    \<and> offsets_from True 0 HopPoolC = offsets_from True 0 HopPool \<and> size_of True HopPoolC = size_of True HopPool
    \<and> offsets_from False 0 PathC = offsets_from True 0 Path \<and> size_of False PathC = size_of True Path
    \<and> offsets_from False 0 PathfinderResultC = offsets_from True 0 PathfinderResult \<and> size_of False PathfinderResultC = size_of True PathfinderResult
    \<and> list_all (\<lambda>name. offset_of SwapInfoFFI name + 3 = offset_of mev_swap_info_t name) [''token_in'', ''token_out'', ''amount_in'', ''amount_out_min'']
    \<and> offset_of SwapInfoFFI ''fee'' = offset_of mev_swap_info_t ''fee'' + 20"
  by (simp add: AMMPoolC_def AMMPool_def HopPoolC_def HopPool_def PathC_def Path_def PathfinderResultC_def PathfinderResult_def
      size_of_def align_up_def Let_def)

text \<open>The memory of the Rust structure as the C code sees it: six fields and 20 bytes it does not know.\<close>

definition c_image :: "bytes \<Rightarrow> bytes \<Rightarrow> bytes \<Rightarrow> bytes \<Rightarrow> bytes \<Rightarrow> bytes \<Rightarrow> bytes" where
  "c_image dex tin tout amt out_min fee = dex @ tin @ tout @ amt @ out_min @ fee @ replicate 20 0"

definition c_image_wf :: "bytes \<Rightarrow> bytes \<Rightarrow> bytes \<Rightarrow> bytes \<Rightarrow> bytes \<Rightarrow> bytes \<Rightarrow> bool" where
  "c_image_wf dex tin tout amt out_min fee \<longleftrightarrow> length dex = 4 \<and> length tin = 20 \<and> length tout = 20 \<and> length amt = 32
    \<and> length out_min = 32 \<and> length fee = 4"

lemma c_image_write:
  assumes "c_image_wf dex tin tout amt out_min fee"
  shows "length x = 4 \<Longrightarrow> mem_write 0 x (c_image dex tin tout amt out_min fee) = c_image x tin tout amt out_min fee"
    "length x = 20 \<Longrightarrow> mem_write 4 x (c_image dex tin tout amt out_min fee) = c_image dex x tout amt out_min fee"
    "length x = 20 \<Longrightarrow> mem_write 24 x (c_image dex tin tout amt out_min fee) = c_image dex tin x amt out_min fee"
    "length x = 32 \<Longrightarrow> mem_write 44 x (c_image dex tin tout amt out_min fee) = c_image dex tin tout x out_min fee"
    "length x = 32 \<Longrightarrow> mem_write 76 x (c_image dex tin tout amt out_min fee) = c_image dex tin tout amt x fee"
    "length x = 4 \<Longrightarrow> mem_write 108 x (c_image dex tin tout amt out_min fee) = c_image dex tin tout amt out_min x"
  using assms by (simp_all add: mem_write_def c_image_def c_image_wf_def)

text \<open>What Rust reads: every field starts three bytes early.\<close>

lemma c_image_read:
  assumes "c_image_wf dex tin tout amt out_min fee"
  shows "mem_read 0 1 (c_image dex tin tout amt out_min fee) = take 1 dex"
    "mem_read 1 20 (c_image dex tin tout amt out_min fee) = drop 1 dex @ take 17 tin"
    "mem_read 21 20 (c_image dex tin tout amt out_min fee) = drop 17 tin @ take 17 tout"
    "mem_read 41 32 (c_image dex tin tout amt out_min fee) = drop 17 tout @ take 29 amt"
    "mem_read 73 32 (c_image dex tin tout amt out_min fee) = drop 29 amt @ take 29 out_min"
    "mem_read 128 4 (c_image dex tin tout amt out_min fee) = replicate 4 0"
  using assms by (simp_all add: mem_read_def c_image_def c_image_wf_def)

lemma c_image_blank: "replicate 132 0 = c_image (replicate 4 0) (replicate 20 0) (replicate 20 0) (replicate 32 0) (replicate 32 0) (replicate 4 0)"
  by (simp add: c_image_def flip: replicate_add)

lemma be_val_take_to_be: "k \<le> n \<Longrightarrow> be_val (take k (to_be n w)) = unat w mod 256 ^ n div 256 ^ (n - k)"
proof -
  assume k: "k \<le> n"
  have "be_val (to_be n w) = be_val (take k (to_be n w)) * 256 ^ (n - k) + be_val (drop k (to_be n w))"
    using be_val_append [of "take k (to_be n w)" "drop k (to_be n w)"] k by (simp del: to_be.simps)
  moreover have "be_val (drop k (to_be n w)) < 256 ^ (n - k)"
    using be_val_bound [of "drop k (to_be n w)"] by (simp del: to_be.simps)
  ultimately show ?thesis
    by (simp add: be_val_to_be del: to_be.simps)
qed

lemma be_val_drop_to_be: "k \<le> n \<Longrightarrow> be_val (drop k (to_be n w)) = unat w mod 256 ^ (n - k)"
  by (simp add: drop_to_be be_val_to_be)

lemma drop_le32: "drop 1 (le32 1) = replicate 3 0" "drop 1 (le32 2) = replicate 3 0"
  by (simp_all add: le32_def numeral_eq_Suc)

lemma unat_swap_fields:
  assumes "u256_laws ux" "c_image_wf (le32 d) (to_be 20 tin) (to_be 20 tout) (to_be 32 amt) (to_be 32 out_min) fee"
    and "d = 1 \<or> d = 2" "info = swap_info_of ux (c_image (le32 d) (to_be 20 (tin :: address)) (to_be 20 (tout :: address)) (to_be 32 (amt :: u256)) (to_be 32 (out_min :: u256)) fee) dex"
  shows "unat (hp_token_in info) = unat tin div 2 ^ 24"
    "unat (hp_token_out info) = unat tin mod 2 ^ 24 * 2 ^ 136 + unat tout div 2 ^ 24"
    "unat (hp_amount_in info) = unat tout mod 2 ^ 24 * 2 ^ 232 + unat amt div 2 ^ 24"
    "hp_fee info = 0"
proof -
  have d: "drop 1 (le32 d) = replicate 3 0"
    using assms(3) drop_le32 by blast
  have b160: "unat a mod 1461501637330902918203684832716283019655932542976 = unat a" for a :: address
    using unat_bound [of a] by simp
  have b256: "unat a mod 115792089237316195423570985008687907853269984665640564039457584007913129639936 = unat a" for a :: u256
    using unat_bound [of a] by simp
  note read = c_image_read [OF assms(2)]
  show "unat (hp_token_in info) = unat tin div 2 ^ 24"
    unfolding assms(4) swap_info_of_def Let_def HpSwapInfo.simps swap_info_offsets read d
    by (subst unat_from_be) (simp_all add: be_val_append be_val_take_to_be b160 del: to_be.simps)
  show "unat (hp_token_out info) = unat tin mod 2 ^ 24 * 2 ^ 136 + unat tout div 2 ^ 24"
    unfolding assms(4) swap_info_of_def Let_def HpSwapInfo.simps swap_info_offsets read
    by (subst unat_from_be) (simp_all add: be_val_append be_val_take_to_be be_val_drop_to_be b160 del: to_be.simps)
  show "unat (hp_amount_in info) = unat tout mod 2 ^ 24 * 2 ^ 232 + unat amt div 2 ^ 24"
    unfolding assms(4) swap_info_of_def Let_def HpSwapInfo.simps swap_info_offsets read
    by (subst u256_laws.unat_from_big_endian [OF assms(1)]) (simp_all add: be_val_append be_val_take_to_be be_val_drop_to_be b256 del: to_be.simps)
  show "hp_fee info = 0"
    unfolding assms(4) swap_info_of_def Let_def HpSwapInfo.simps swap_info_offsets read by (simp add: from_be_eq)
qed

lemma abi_word_u256: "abi_word (w :: u256) = to_be 32 w"
  by (simp add: abi_word_def)

lemma length_le32 [simp]: "length (le32 w) = 4"
  by (simp add: le32_def)

lemma hd_le32: "unat d < 256 \<Longrightarrow> hd (take 1 (le32 d)) = ucast d"
  by (simp add: le32_def numeral_eq_Suc)

definition abi_exact_input_single :: "address \<Rightarrow> address \<Rightarrow> u32 \<Rightarrow> address \<Rightarrow> u256 \<Rightarrow> u256 \<Rightarrow> u256 \<Rightarrow> bytes \<Rightarrow> bytes" where
  "abi_exact_input_single token_in token_out fee recipient deadline amount_in amount_out_min rest =
    [0x41, 0x4b, 0xf3, 0x89] @ abi_word token_in @ abi_word token_out @ abi_word fee @ abi_word recipient @ abi_word deadline
      @ abi_word amount_in @ abi_word amount_out_min @ rest"

lemma parse_v3_image:
  "\<exists>f. length f = 4 \<and> mev_parse_swap (abi_exact_input_single tin tout fee recipient deadline amt out_min rest) (replicate 132 0)
    = (0, c_image (le32 2) (to_be 20 tin) (to_be 20 tout) (to_be 32 amt) (to_be 32 out_min) f)"
proof -
  let ?d = "abi_exact_input_single tin tout fee recipient deadline amt out_min rest"
  let ?f = "le32 (from_be (take 3 (drop 97 ?d)))"
  have "take 20 (drop 16 ?d) = to_be 20 tin" "take 20 (drop 48 ?d) = to_be 20 tout"
    "take 32 (drop 164 ?d) = to_be 32 amt" "take 32 (drop 196 ?d) = to_be 32 out_min"
    by (simp_all add: abi_exact_input_single_def drop_abi_word abi_word_u256 del: to_be.simps)
  moreover have "mev_parse_selector ?d = 0x414bf389" "228 \<le> length ?d"
    by (simp_all add: abi_exact_input_single_def mev_parse_selector_def from_be_def)
  moreover have "mem_write 0 (replicate 112 0) (replicate 132 0) = (replicate 132 0 :: bytes)"
    by (simp add: mem_write_def flip: replicate_add)
  ultimately have "mev_parse_swap ?d (replicate 132 0)
    = (0, c_image (le32 2) (to_be 20 tin) (to_be 20 tout) (to_be 32 amt) (to_be 32 out_min) ?f)"
    by (simp add: mev_parse_swap_def mev_parse_v3_swap_def mev_decode_address_def mev_decode_uint256_def Let_def
        c_image_blank c_image_write c_image_wf_def del: to_be.simps replicate.simps)
  then show ?thesis
    by (intro exI [of _ ?f]) simp
qed

lemma parse_swap_ffi_image:
  assumes "mev_parse_swap calldata (replicate 132 0) = (0, c_image (le32 d) tin tout amt out_min fee)"
    "c_image_wf (le32 d) tin tout amt out_min fee" "d = 1 \<or> d = 2"
  shows "parse_swap_ffi ux calldata = Some (swap_info_of ux (c_image (le32 d) tin tout amt out_min fee) (if d = 1 then HpUniswapV2 else HpUniswapV3))"
proof -
  have "hd (take 1 (le32 d)) = ucast d"
    using assms(3) by (intro hd_le32) auto
  then have "hd (mem_read 0 (Suc 0) (c_image (le32 d) tin tout amt out_min fee)) = ucast d"
    using c_image_read(1) [OF assms(2)] by simp
  then show ?thesis
    using assms(1,3) by (auto simp: parse_swap_ffi_def Let_def)
qed

text \<open>C32: the parser's structure is misread. The C declaration of the swap structure begins with a four-byte enumeration, the
  Rust one with a single byte, so every field is read three bytes early: for a well-formed
  \<^verbatim>\<open>exactInputSingle\<close> call the wrapper returns the input token shifted right by 24 bits, an output
  token made of the last three bytes of the input token and the first seventeen of the output
  token, an amount shifted in the same way, and a fee of zero.\<close>

theorem parse_swap_ffi_misread:
  assumes "u256_laws ux"
  shows "\<exists>info. parse_swap_ffi ux (abi_exact_input_single token_in token_out fee recipient deadline amount_in amount_out_min rest) = Some info
    \<and> hp_dex_type info = HpUniswapV3 \<and> unat (hp_token_in info) = unat token_in div 2 ^ 24
    \<and> unat (hp_token_out info) = unat token_in mod 2 ^ 24 * 2 ^ 136 + unat token_out div 2 ^ 24
    \<and> unat (hp_amount_in info) = unat token_out mod 2 ^ 24 * 2 ^ 232 + unat amount_in div 2 ^ 24
    \<and> hp_fee info = 0"
proof -
  obtain f where f: "length f = 4" and run: "mev_parse_swap (abi_exact_input_single token_in token_out fee recipient deadline amount_in amount_out_min rest) (replicate 132 0)
    = (0, c_image (le32 2) (to_be 20 token_in) (to_be 20 token_out) (to_be 32 amount_in) (to_be 32 amount_out_min) f)"
    using parse_v3_image [of token_in token_out fee recipient deadline amount_in amount_out_min rest] by auto
  have wf: "c_image_wf (le32 2) (to_be 20 token_in) (to_be 20 token_out) (to_be 32 amount_in) (to_be 32 amount_out_min) f"
    using f by (simp add: c_image_wf_def del: to_be.simps)
  show ?thesis
    using parse_swap_ffi_image [OF run wf, of ux] unat_swap_fields [OF assms wf _ refl, of HpUniswapV3]
    by (simp add: swap_info_of_def Let_def)
qed

theorem parse_swap_ffi_misread_witness:
  "\<exists>info. parse_swap_ffi u256_std (abi_exact_input_single 0x82aF49447D8a07e3bd95BD0d56f35241523fBab1 0xaf88d065e77c8cC2239327C5EDb3A432268e5831 500 1 2 3 4 []) = Some info
    \<and> hp_token_in info \<noteq> 0x82aF49447D8a07e3bd95BD0d56f35241523fBab1 \<and> hp_fee info = 0"
proof -
  let ?t = "0x82aF49447D8a07e3bd95BD0d56f35241523fBab1 :: address"
  obtain info where info: "parse_swap_ffi u256_std (abi_exact_input_single ?t 0xaf88d065e77c8cC2239327C5EDb3A432268e5831 500 1 2 3 4 []) = Some info"
    "unat (hp_token_in info) = unat ?t div 2 ^ 24" "hp_fee info = 0"
    using parse_swap_ffi_misread [OF std_u256.u256_laws_axioms, of ?t "0xaf88d065e77c8cC2239327C5EDb3A432268e5831" 500 1 2 3 4 "[]"] by blast
  then have "hp_token_in info \<noteq> ?t"
    by auto
  with info show ?thesis by blast
qed

text \<open>The C parser does not look at the token path. For a well-formed V2 swap it takes the deadline for the input token
  and the length of the path for the output token, so the tokens are those of no call, whatever the
  path is.\<close>

theorem parse_swap_ffi_ignores_path:
  assumes "u256_laws ux" "sel = [0x38, 0xed, 0x17, 0x39] \<or> sel = [0x88, 0x03, 0xdb, 0xee]" "length path < 2 ^ 24"
  shows "\<exists>info. parse_swap_ffi ux (abi_v2_swap sel a b path to deadline) = Some info
    \<and> hp_dex_type info = HpUniswapV2 \<and> unat (hp_token_in info) = unat deadline div 2 ^ 24
    \<and> unat (hp_token_out info) = unat deadline mod 2 ^ 24 * 2 ^ 136"
proof -
  let ?d = "abi_v2_swap sel a b path to deadline"
  let ?dl = "ucast deadline :: address" and ?n = "ucast (of_nat (length path) :: u64) :: address"
  have sel: "length sel = 4"
    using assms(2) by auto
  have word: "drop 12 (abi_word (w :: u64)) = to_be 20 (ucast w :: address)" for w
    by (simp add: abi_word_def drop_to_be to_be_ucast)
  have "take 20 (drop 144 ?d) = to_be 20 ?dl" "take 20 (drop 176 ?d) = to_be 20 ?n"
    "take 32 (drop 4 ?d) = to_be 32 (ucast a :: u256)" "take 32 (drop 36 ?d) = to_be 32 (ucast b :: u256)"
    using sel by (simp_all add: abi_v2_swap_def word del: to_be.simps) (simp_all add: abi_word_def)
  moreover have "mev_parse_selector ?d \<in> {0x38ed1739, 0x8803dbee}" "196 \<le> length ?d"
    using assms(2) by (auto simp: abi_v2_swap_def mev_parse_selector_def from_be_def)
  moreover have "mem_write 0 (replicate 112 0) (replicate 132 0) = (replicate 132 0 :: bytes)"
    by (simp add: mem_write_def flip: replicate_add)
  ultimately have run: "mev_parse_swap ?d (replicate 132 0)
    = (0, c_image (le32 1) (to_be 20 ?dl) (to_be 20 ?n) (to_be 32 (ucast a :: u256)) (to_be 32 (ucast b :: u256)) (replicate 4 0))"
    by (simp add: mev_parse_swap_def mev_parse_v2_swap_def mev_decode_address_def mev_decode_uint256_def Let_def
        c_image_blank c_image_write c_image_wf_def del: to_be.simps replicate.simps)
  have wf: "c_image_wf (le32 1) (to_be 20 ?dl) (to_be 20 ?n) (to_be 32 (ucast a :: u256)) (to_be 32 (ucast b :: u256)) (replicate 4 0)"
    by (simp add: c_image_wf_def del: to_be.simps)
  have "unat ?dl = unat deadline" "unat ?n = length path"
    using assms(3) unat_bound [of deadline] by (simp_all add: unsigned_ucast_eq take_bit_eq_mod unat_of_nat)
  then show ?thesis
    using parse_swap_ffi_image [OF run wf, of ux] unat_swap_fields [OF assms(1) wf _ refl, of HpUniswapV2] assms(3)
    by (simp add: swap_info_of_def Let_def)
qed

theorem parse_swap_ffi_ignores_path_witness:
  "\<exists>info. parse_swap_ffi u256_std (abi_v2_swap [0x38, 0xed, 0x17, 0x39] 1000 900 [3, 4] 5 1700000000) = Some info \<and> unat (hp_token_in info) = 101"
  using parse_swap_ffi_ignores_path [OF std_u256.u256_laws_axioms disjI1 [OF refl], of "[3, 4]" 1000 900 5 1700000000] by auto

end
