(* ===== verification/C_Queue.thy ===== *)
theory C_Queue
  imports Fast_Path
begin

text \<open>
  The lock-free opportunity queue of the build with the C library (\<^verbatim>\<open>fast/src/lockfree_queue.c\<close> and its wrapper in
  \<^verbatim>\<open>core/src/ffi/hot_path.rs\<close>) with one caller at a time, on 64-bit counters that wrap: creation, push, pop and size, the
  contract of a bounded FIFO (locale \<open>bounded_fifo\<close>) with its interpretation on the C queue, and the capacities for
  which the queue does not work. Items are pointers, as numbers. The theory \<open>C_Queue_Threads\<close> has the concurrent algorithm.
\<close>

section \<open>Creation\<close>

text \<open>A C function returns, or is stuck: its loop never ends or it leaves its arrays.\<close>

datatype 'a c_run = Done 'a | Stuck

record c_queue =
  cq_seq :: "u64 list"
  cq_data :: "u64 list"
  cq_capacity :: u64
  cq_mask :: u64
  cq_head :: u64
  cq_tail :: u64

text \<open>\<^verbatim>\<open>while (n < capacity) n <<= 1\<close> from 1. After 64 shifts \<open>n\<close> is 0 and stays 0.\<close>

fun round_up_from :: "nat \<Rightarrow> u64 \<Rightarrow> u64 \<Rightarrow> u64 c_run" where
  "round_up_from 0 n capacity = (if n < capacity then Stuck else Done n)"
| "round_up_from (Suc k) n capacity = (if n < capacity then round_up_from k (push_bit 1 n) capacity else Done n)"

text \<open>\<open>None\<close> is the null pointer of a failed allocation.\<close>

definition mev_queue_create :: "bool \<Rightarrow> u64 \<Rightarrow> c_queue option c_run" where
  "mev_queue_create allocated capacity =
    (case (if capacity AND (capacity - 1) \<noteq> 0 then round_up_from 64 1 capacity else Done capacity) of
       Stuck \<Rightarrow> Stuck
     | Done cap \<Rightarrow>
         Done (if allocated
               then Some \<lparr>cq_seq = map of_nat [0..<unat cap], cq_data = replicate (unat cap) 0, cq_capacity = cap,
                          cq_mask = cap - 1, cq_head = 0, cq_tail = 0\<rparr>
               else None))"

section \<open>One caller at a time\<close>

text \<open>Without interference the compare-and-exchange eventually succeeds, and reloading the counter gives the same
  value, so the loop does not end when the slot is ahead.\<close>

definition mev_queue_push :: "c_queue \<Rightarrow> u64 \<Rightarrow> (c_queue \<times> i32) c_run" where
  "mev_queue_push q item =
    (let pos = cq_tail q; i = unat (pos AND cq_mask q)
     in if length (cq_seq q) \<le> i then Stuck
        else
          let diff = cq_seq q ! i - pos
          in if diff = 0 then
               Done (q\<lparr>cq_tail := pos + 1, cq_data := (cq_data q)[i := item], cq_seq := (cq_seq q)[i := pos + 1]\<rparr>, 0)
             else if diff <s 0 then Done (q, - 1)
             else Stuck)"

definition mev_queue_pop :: "c_queue \<Rightarrow> (c_queue \<times> u64) c_run" where
  "mev_queue_pop q =
    (let pos = cq_head q; i = unat (pos AND cq_mask q)
     in if length (cq_seq q) \<le> i then Stuck
        else
          let diff = cq_seq q ! i - (pos + 1)
          in if diff = 0 then
               Done (q\<lparr>cq_head := pos + 1, cq_seq := (cq_seq q)[i := pos + cq_capacity q]\<rparr>, cq_data q ! i)
             else if diff <s 0 then Done (q, 0)
             else Stuck)"

definition mev_queue_size :: "c_queue \<Rightarrow> u64" where
  "mev_queue_size q = cq_tail q - cq_head q"

text \<open>The wrapper.\<close>

definition ffi_queue_new :: "bool \<Rightarrow> usize \<Rightarrow> c_queue option c_run" where
  "ffi_queue_new allocated capacity = mev_queue_create allocated capacity"

definition ffi_queue_push :: "c_queue \<Rightarrow> u64 \<Rightarrow> (c_queue \<times> bool) c_run" where
  "ffi_queue_push q item = (case mev_queue_push q item of Done (q', r) \<Rightarrow> Done (q', r = 0) | Stuck \<Rightarrow> Stuck)"

definition ffi_queue_pop :: "c_queue \<Rightarrow> (c_queue \<times> u64 option) c_run" where
  "ffi_queue_pop q =
    (case mev_queue_pop q of Done (q', ptr) \<Rightarrow> Done (q', if ptr = 0 then None else Some ptr) | Stuck \<Rightarrow> Stuck)"

definition ffi_queue_len :: "c_queue \<Rightarrow> usize" where
  "ffi_queue_len q = mev_queue_size q"

definition ffi_queue_is_empty :: "c_queue \<Rightarrow> bool" where
  "ffi_queue_is_empty q = (ffi_queue_len q = 0)"

section \<open>The contract of a bounded queue\<close>

fun bounded_run :: "('q \<Rightarrow> 'p \<Rightarrow> ('q \<times> bool) c_run) \<Rightarrow> ('q \<Rightarrow> ('q \<times> 'p option) c_run) \<Rightarrow> 'q \<Rightarrow> 'p queue_op list
    \<Rightarrow> ('q \<times> 'p list \<times> 'p list) c_run" where
  "bounded_run push pop q [] = Done (q, [], [])"
| "bounded_run push pop q (Push x # ops) =
    (case push q x of
       Stuck \<Rightarrow> Stuck
     | Done (q1, ok) \<Rightarrow>
         (case bounded_run push pop q1 ops of
            Stuck \<Rightarrow> Stuck
          | Done (q2, ins, outs) \<Rightarrow> Done (q2, if ok then x # ins else ins, outs)))"
| "bounded_run push pop q (Pop # ops) =
    (case pop q of
       Stuck \<Rightarrow> Stuck
     | Done (q1, r) \<Rightarrow>
         (case bounded_run push pop q1 ops of
            Stuck \<Rightarrow> Stuck
          | Done (q2, ins, outs) \<Rightarrow> Done (q2, ins, case r of Some x \<Rightarrow> x # outs | None \<Rightarrow> outs)))"

text \<open>The reference: a list that refuses an item when \<open>cap\<close> are queued.\<close>

definition list_push :: "nat \<Rightarrow> 'p list \<Rightarrow> 'p \<Rightarrow> ('p list \<times> bool) c_run" where
  "list_push cap xs x = Done (if length xs < cap then xs @ [x] else xs, length xs < cap)"

definition list_pop :: "'p list \<Rightarrow> ('p list \<times> 'p option) c_run" where
  "list_pop xs = Done (tl xs, case xs of [] \<Rightarrow> None | x # _ \<Rightarrow> Some x)"

locale bounded_fifo =
  fixes push :: "'q \<Rightarrow> 'p \<Rightarrow> ('q \<times> bool) c_run" and pop :: "'q \<Rightarrow> ('q \<times> 'p option) c_run"
    and valid :: "'p \<Rightarrow> bool" and holds :: "nat \<Rightarrow> 'q \<Rightarrow> 'p list \<Rightarrow> bool"
  assumes push_law: "holds cap q xs \<Longrightarrow> valid x \<Longrightarrow> \<exists>q'. push q x = Done (q', length xs < cap)
      \<and> holds cap q' (if length xs < cap then xs @ [x] else xs)"
    and pop_law: "holds cap q xs \<Longrightarrow> \<exists>q'. holds cap q' (tl xs)
      \<and> pop q = Done (q', case xs of [] \<Rightarrow> None | x # _ \<Rightarrow> Some x)"
begin

text \<open>No call is stuck, and the queue answers every call as the list does.\<close>

lemma run_refines:
  assumes "holds cap q xs" "\<forall>x. Push x \<in> set ops \<longrightarrow> valid x"
  shows "\<exists>q' ys ins outs. bounded_run push pop q ops = Done (q', ins, outs) \<and> holds cap q' ys
    \<and> bounded_run (list_push cap) list_pop xs ops = Done (ys, ins, outs) \<and> xs @ ins = outs @ ys"
  using assms
proof (induction ops arbitrary: q xs)
  case Nil
  then show ?case by auto
next
  case (Cons op ops)
  show ?case
  proof (cases op)
    case (Push x)
    obtain q1 where q1: "push q x = Done (q1, length xs < cap)" "holds cap q1 (if length xs < cap then xs @ [x] else xs)"
      using push_law [OF Cons.prems(1), of x] Cons.prems(2) Push by auto
    obtain q' ys ins outs where "bounded_run push pop q1 ops = Done (q', ins, outs)" "holds cap q' ys"
      "bounded_run (list_push cap) list_pop (if length xs < cap then xs @ [x] else xs) ops = Done (ys, ins, outs)"
      "(if length xs < cap then xs @ [x] else xs) @ ins = outs @ ys"
      using Cons.IH [OF q1(2)] Cons.prems(2) by auto
    with q1(1) Push show ?thesis
      by (cases "length xs < cap") (auto simp: list_push_def [of cap xs x])
  next
    case Pop
    obtain q1 where q1: "pop q = Done (q1, case xs of [] \<Rightarrow> None | x # _ \<Rightarrow> Some x)" "holds cap q1 (tl xs)"
      using pop_law [OF Cons.prems(1)] by auto
    obtain q' ys ins outs where "bounded_run push pop q1 ops = Done (q', ins, outs)" "holds cap q' ys"
      "bounded_run (list_push cap) list_pop (tl xs) ops = Done (ys, ins, outs)" "tl xs @ ins = outs @ ys"
      using Cons.IH [OF q1(2)] Cons.prems(2) by auto
    with q1(1) Pop show ?thesis
      by (cases xs) (auto simp: list_pop_def [of "[]"] list_pop_def [of "_ # _"])
  qed
qed

end

section \<open>The ring\<close>

text \<open>\<open>ring cap q h xs\<close>: \<open>q\<close> has \<open>cap\<close> slots, \<open>h\<close> items have been taken, and \<open>xs\<close> are queued.\<close>

definition ring :: "nat \<Rightarrow> c_queue \<Rightarrow> nat \<Rightarrow> u64 list \<Rightarrow> bool" where
  "ring cap q h xs \<longleftrightarrow> (\<exists>k. cap = 2 ^ k \<and> 1 \<le> k \<and> k < 64) \<and> length (cq_seq q) = cap \<and> length (cq_data q) = cap
    \<and> cq_capacity q = of_nat cap \<and> cq_mask q = of_nat cap - 1 \<and> cq_head q = of_nat h \<and> cq_tail q = of_nat (h + length xs)
    \<and> length xs \<le> cap
    \<and> (\<forall>j < length xs. cq_seq q ! ((h + j) mod cap) = of_nat (h + j + 1) \<and> cq_data q ! ((h + j) mod cap) = xs ! j)
    \<and> (\<forall>j. length xs \<le> j \<longrightarrow> j < cap \<longrightarrow> cq_seq q ! ((h + j) mod cap) = of_nat (h + j))"

lemma ring_index:
  assumes "k < 64"
  shows "unat (of_nat p AND (of_nat (2 ^ k) - 1) :: u64) = p mod 2 ^ k"
proof -
  have "(of_nat p AND (of_nat (2 ^ k) - 1) :: u64) = take_bit k (of_nat p)"
    by (simp add: take_bit_eq_mask mask_eq_exp_minus_1)
  then have "unat (of_nat p AND (of_nat (2 ^ k) - 1) :: u64) = take_bit k (unat (of_nat p :: u64))"
    by (simp only: unsigned_take_bit_eq)
  also have "\<dots> = p mod 2 ^ 64 mod 2 ^ k"
    by (simp only: unat_of_nat take_bit_eq_mod) simp
  also have "\<dots> = p mod 2 ^ k"
    using assms by (intro mod_mod_cancel le_imp_power_dvd) simp
  finally show ?thesis .
qed

lemma mod_neq:
  assumes "p < q" "q < p + (cap :: nat)"
  shows "p mod cap \<noteq> q mod cap"
proof
  assume "p mod cap = q mod cap"
  then have "cap dvd q - p"
    using assms(1) mod_eq_dvd_iff_nat [of p q cap] by simp
  with assms show False
    by (auto dest: dvd_imp_le)
qed

lemma negative_difference:
  assumes "0 < n" "n \<le> 2 ^ 63"
  shows "- (of_nat n :: u64) <s 0" "- (of_nat n :: u64) \<noteq> 0"
proof -
  have "sint (of_int (- int n) :: u64) = - int n"
    using assms by (simp only: signed_of_int) (simp add: signed_take_bit_int_eq_self)
  then show "- (of_nat n :: u64) <s 0"
    using assms(1) by (simp add: word_sless_alt)
  then show "- (of_nat n :: u64) \<noteq> 0"
    by auto
qed

lemma ring_cap: "ring cap q h xs \<Longrightarrow> 2 \<le> cap \<and> cap \<le> 2 ^ 63"
  using power_increasing [of 1 _ "2 :: nat"] power_increasing [of _ 63 "2 :: nat"] by (fastforce simp: ring_def)

lemma ring_slot:
  assumes "ring cap q h xs"
  shows "unat (of_nat p AND cq_mask q) = p mod cap" "\<not> length (cq_seq q) \<le> p mod cap"
  using assms ring_cap [OF assms] ring_index by (auto simp: ring_def not_le)

text \<open>Two of the positions from \<open>h\<close> to \<open>h + cap\<close> share a slot only if they are equal.\<close>

lemma ring_slots_differ: "i < cap \<Longrightarrow> j < cap \<Longrightarrow> i \<noteq> j \<Longrightarrow> (h + i) mod cap \<noteq> (h + j) mod (cap :: nat)"
  using mod_neq [of "h + i" "h + j" cap] mod_neq [of "h + j" "h + i" cap] by (cases "i < j") auto

lemma ring_push:
  assumes "ring cap q h xs"
  shows "\<exists>q'. mev_queue_push q x = Done (q', if length xs < cap then 0 else - 1)
    \<and> ring cap q' h (if length xs < cap then xs @ [x] else xs)"
proof -
  define t where "t = h + length xs"
  have r: "length (cq_seq q) = cap" "length (cq_data q) = cap" "cq_tail q = of_nat t" "length xs \<le> cap"
    using assms by (auto simp: ring_def t_def)
  note cap = ring_cap [OF assms]
  note slot = ring_slot [OF assms, of t]
  show ?thesis
  proof (cases "length xs < cap")
    case True
    let ?i = "t mod cap"
    let ?q = "q\<lparr>cq_tail := of_nat t + 1, cq_data := (cq_data q)[?i := x], cq_seq := (cq_seq q)[?i := of_nat t + 1]\<rparr>"
    have "cq_seq q ! ?i = of_nat t"
      using assms True unfolding ring_def t_def by blast
    then have run: "mev_queue_push q x = Done (?q, 0)"
      using slot by (simp add: mev_queue_push_def Let_def r(3))
    have i: "?i < cap"
      using cap by simp
    have other: "(h + j) mod cap \<noteq> ?i" if "j < cap" "j \<noteq> length xs" for j
      unfolding t_def using that True by (intro ring_slots_differ)
    have "ring cap ?q h (xs @ [x])"
      unfolding ring_def
    proof (intro conjI allI impI)
      fix j assume j: "j < length (xs @ [x])"
      have "cq_seq q ! ((h + j) mod cap) = of_nat (h + j + 1) \<and> cq_data q ! ((h + j) mod cap) = xs ! j" if "j < length xs"
        using assms that unfolding ring_def by blast
      with j other [of j] True i show "cq_seq ?q ! ((h + j) mod cap) = of_nat (h + j + 1)" "cq_data ?q ! ((h + j) mod cap) = (xs @ [x]) ! j"
        by (cases "j = length xs"; simp add: nth_append r t_def)+
    next
      fix j assume j: "length (xs @ [x]) \<le> j" "j < cap"
      then have "cq_seq q ! ((h + j) mod cap) = of_nat (h + j)"
        using assms unfolding ring_def by simp
      with j other [of j] show "cq_seq ?q ! ((h + j) mod cap) = of_nat (h + j)"
        by simp
    qed (use assms True in \<open>auto simp: ring_def t_def\<close>)
    with run True show ?thesis by auto
  next
    case False
    with r have full: "length xs = cap" by simp
    have "cq_seq q ! (h mod cap) = of_nat (h + 1)"
      using assms full cap unfolding ring_def by (metis add_0_right less_le_trans zero_less_numeral)
    moreover have "t mod cap = h mod cap"
      by (simp add: full t_def)
    ultimately have "cq_seq q ! (t mod cap) - of_nat t = - of_nat (cap - 1)"
      using cap by (simp add: full of_nat_diff t_def)
    moreover have "0 < cap - 1" "cap - 1 \<le> 2 ^ 63"
      using cap by linarith+
    note negative_difference [OF this]
    ultimately have "mev_queue_push q x = Done (q, - 1)"
      using slot by (simp only: mev_queue_push_def Let_def r(3) if_True if_False)
    with False assms show ?thesis by auto
  qed
qed

lemma ring_pop:
  assumes "ring cap q h xs"
  shows "\<exists>q'. mev_queue_pop q = Done (q', case xs of [] \<Rightarrow> 0 | x # _ \<Rightarrow> x)
    \<and> ring cap q' (if xs = [] then h else h + 1) (tl xs)"
proof -
  note cap = ring_cap [OF assms]
  note slot = ring_slot [OF assms, of h]
  have r: "length (cq_seq q) = cap" "length (cq_data q) = cap" "cq_head q = of_nat h" "cq_capacity q = of_nat cap" "length xs \<le> cap"
    using assms by (auto simp: ring_def)
  show ?thesis
  proof (cases xs)
    case Nil
    have "cq_seq q ! (h mod cap) = of_nat h"
      using assms cap Nil unfolding ring_def by (metis add_0_right le_refl less_le_trans list.size(3) zero_less_numeral)
    then have "cq_seq q ! (h mod cap) - (of_nat h + 1) = - of_nat 1"
      by simp
    then have "mev_queue_pop q = Done (q, 0)"
      using slot negative_difference [of 1] by (simp add: mev_queue_pop_def Let_def r(3))
    with Nil assms show ?thesis by auto
  next
    case (Cons x ys)
    let ?i = "h mod cap"
    let ?q = "q\<lparr>cq_head := of_nat h + 1, cq_seq := (cq_seq q)[?i := of_nat h + of_nat cap]\<rparr>"
    have front: "cq_seq q ! ?i = of_nat (h + 1)" "cq_data q ! ?i = x"
      using assms unfolding ring_def Cons by (metis add_0_right length_Cons nth_Cons_0 zero_less_Suc)+
    then have run: "mev_queue_pop q = Done (?q, x)"
      using slot by (simp add: mev_queue_pop_def Let_def r(3,4))
    have i: "?i < cap"
      using cap by simp
    have other: "(h + j) mod cap \<noteq> ?i" if "j < cap" "j \<noteq> 0" for j
      using ring_slots_differ [of j cap 0 h] that cap by simp
    have "ring cap ?q (h + 1) ys"
      unfolding ring_def
    proof (intro conjI allI impI)
      fix j assume j: "j < length ys"
      have "cq_seq q ! ((h + Suc j) mod cap) = of_nat (h + Suc j + 1) \<and> cq_data q ! ((h + Suc j) mod cap) = (x # ys) ! Suc j"
        using assms j unfolding ring_def Cons by (metis Suc_less_eq length_Cons)
      with other [of "Suc j"] j r(5) Cons show "cq_seq ?q ! ((h + 1 + j) mod cap) = of_nat (h + 1 + j + 1)" "cq_data ?q ! ((h + 1 + j) mod cap) = ys ! j"
        by (simp_all add: add.commute add.left_commute)
    next
      fix j assume j: "length ys \<le> j" "j < cap"
      show "cq_seq ?q ! ((h + 1 + j) mod cap) = of_nat (h + 1 + j)"
      proof (cases "Suc j = cap")
        case True
        then have lap: "h + 1 + j = h + cap"
          by simp
        have "(h + cap) mod cap = ?i"
          by simp
        with i r(1) show ?thesis
          unfolding lap by simp
      next
        case False
        have "length (x # ys) \<le> Suc j" "Suc j < cap"
          using False j by simp_all
        then have "cq_seq q ! ((h + Suc j) mod cap) = of_nat (h + Suc j)"
          using assms unfolding ring_def Cons by blast
        with other [of "Suc j"] j False show ?thesis
          by (simp add: add.commute add.left_commute)
      qed
    qed (use assms Cons in \<open>auto simp: ring_def algebra_simps\<close>)
    with run Cons show ?thesis by auto
  qed
qed

definition queue_holds :: "nat \<Rightarrow> c_queue \<Rightarrow> u64 list \<Rightarrow> bool" where
  "queue_holds cap q xs \<longleftrightarrow> (\<exists>h. ring cap q h xs) \<and> 0 \<notin> set xs"

interpretation c_queue_fifo: bounded_fifo ffi_queue_push ffi_queue_pop "\<lambda>x. x \<noteq> 0" queue_holds
proof unfold_locales
  fix cap q xs and x :: u64
  assume h: "queue_holds cap q xs" and "x \<noteq> 0"
  then obtain h where "ring cap q h xs"
    by (auto simp: queue_holds_def)
  from ring_push [OF this, of x] h \<open>x \<noteq> 0\<close>
  show "\<exists>q'. ffi_queue_push q x = Done (q', length xs < cap) \<and> queue_holds cap q' (if length xs < cap then xs @ [x] else xs)"
    by (cases "length xs < cap") (auto simp: ffi_queue_push_def queue_holds_def)
next
  fix cap q xs
  assume h: "queue_holds cap q xs"
  then obtain h where "ring cap q h xs"
    by (auto simp: queue_holds_def)
  from ring_pop [OF this] h
  show "\<exists>q'. queue_holds cap q' (tl xs) \<and> ffi_queue_pop q = Done (q', case xs of [] \<Rightarrow> None | x # _ \<Rightarrow> Some x)"
    by (cases xs) (auto simp: ffi_queue_pop_def queue_holds_def)
qed

section \<open>Creation gives an empty ring\<close>

lemma unat_power_64:
  assumes "j < 64"
  shows "unat ((2 :: u64) ^ j) = 2 ^ j"
proof -
  have "(2 :: nat) ^ j < 2 ^ 64"
    using assms by (intro power_strict_increasing) simp_all
  then have "unat (of_nat (2 ^ j) :: u64) = 2 ^ j"
    by (simp only: unat_of_nat) simp
  then show ?thesis
    by simp
qed

lemma round_up_from_power:
  assumes "unat capacity \<le> 2 ^ 63" "j \<le> 63" "63 \<le> fuel + j" "j = 0 \<or> 2 ^ (j - 1) < unat capacity" "0 < unat capacity"
  shows "\<exists>k \<le> 63. round_up_from fuel (2 ^ j) capacity = Done (2 ^ k) \<and> unat capacity \<le> 2 ^ k \<and> 2 ^ k < 2 * unat capacity"
  using assms(2-4)
proof (induction fuel arbitrary: j)
  case 0
  then have "j = 63" by simp
  have "unat ((2 :: u64) ^ 63) = 2 ^ 63"
    by simp
  with assms(1) 0 \<open>j = 63\<close> show ?case
    by (auto simp: word_less_nat_alt intro!: exI [of _ 63])
next
  case (Suc fuel)
  have u: "unat ((2 :: u64) ^ j) = 2 ^ j"
    using Suc.prems(1) by (intro unat_power_64) simp
  show ?case
  proof (cases "2 ^ j < capacity")
    case True
    then have lt: "2 ^ j < unat capacity"
      by (simp add: word_less_nat_alt u)
    with assms(1) have "(2 :: nat) ^ j < 2 ^ 63"
      by simp
    then have "j < 63"
      by (rule power_less_imp_less_exp [rotated]) simp
    with Suc.IH [of "Suc j"] lt Suc.prems True show ?thesis
      by (simp add: push_bit_eq_mult mult.commute)
  next
    case False
    then have "unat capacity \<le> 2 ^ j"
      by (simp add: word_less_nat_alt u)
    moreover have "2 ^ j < 2 * unat capacity"
      using Suc.prems(3) assms(5) by (cases j) auto
    ultimately show ?thesis
      using Suc.prems(1) False by auto
  qed
qed

text \<open>\<open>c & (c - 1)\<close> is zero only for powers of two: the highest bit of \<open>c\<close> is one of \<open>c - 1\<close> otherwise.\<close>

lemma highest_bit:
  assumes "2 ^ m \<le> unat (c :: u64)" "unat c < 2 ^ Suc m"
  shows "bit c m"
proof -
  have "unat c div 2 ^ m = 1"
    using assms by (simp add: div_nat_eqI)
  then have "bit (unat c) m"
    by (simp add: bit_iff_odd)
  then show ?thesis
    by (simp add: bit_unsigned_iff)
qed

lemma unat_less_64: "unat (c :: u64) < 2 ^ 64"
  using unsigned_less [of c] by simp

lemma power_of_two_test:
  assumes "c AND (c - 1) = (0 :: u64)" "0 < unat c"
  shows "\<exists>k < 64. c = 2 ^ k"
proof -
  obtain m where m: "2 ^ m \<le> unat c" "unat c < 2 ^ Suc m"
    using ex_power_ivl1 [of 2 "unat c"] assms(2) by auto
  have "m < 64"
  proof (rule power_less_imp_less_exp [of "2 :: nat"])
    show "(2 :: nat) ^ m < 2 ^ 64"
      by (rule le_less_trans [OF m(1)]) (rule unat_less_64)
  qed simp
  show ?thesis
  proof (cases "unat c = 2 ^ m")
    case True
    then have "c = 2 ^ m"
      using unat_power_64 [OF \<open>m < 64\<close>] by (metis unsigned_word_eqI)
    with \<open>m < 64\<close> show ?thesis by blast
  next
    case False
    have "unat (c - 1) = unat c - 1"
      using assms(2) by (simp add: unat_minus_one unat_gt_0)
    then have "bit (c - 1) m"
      using False m by (intro highest_bit) simp_all
    with highest_bit [OF m] have "bit (c AND (c - 1)) m"
      by (simp add: bit_and_iff)
    with assms(1) show ?thesis by simp
  qed
qed

lemma mev_queue_create_ring:
  assumes "2 \<le> unat capacity" "unat capacity \<le> 2 ^ 63"
  shows "\<exists>q k. mev_queue_create True capacity = Done (Some q) \<and> ring (2 ^ k) q 0 []
    \<and> unat capacity \<le> 2 ^ k \<and> 2 ^ k < 2 * unat capacity"
proof -
  obtain k where k: "k < 64" "unat capacity \<le> 2 ^ k" "2 ^ k < 2 * unat capacity"
    "(if capacity AND (capacity - 1) \<noteq> 0 then round_up_from 64 1 capacity else Done capacity) = Done (2 ^ k)"
  proof (cases "capacity AND (capacity - 1) = 0")
    case True
    with assms obtain k where "k < 64" "capacity = 2 ^ k"
      using power_of_two_test by force
    with True assms that [of k] unat_power_64 [of k] show ?thesis by simp
  next
    case False
    obtain k where "k \<le> 63" "round_up_from 64 1 capacity = Done (2 ^ k)" "unat capacity \<le> 2 ^ k" "2 ^ k < 2 * unat capacity"
      using round_up_from_power [of capacity 0 64] assms by auto
    with False that [of k] show ?thesis by simp
  qed
  have "1 \<le> k"
    using k(2) assms(1) by (cases k) auto
  with k unat_power_64 [OF k(1)] show ?thesis
    by (intro exI [of _ "_ :: c_queue"] exI [of _ k] conjI) (auto simp: mev_queue_create_def ring_def)
qed

lemma queue_holds_len:
  assumes "queue_holds cap q xs"
  shows "ffi_queue_len q = of_nat (length xs)" "length xs \<le> cap"
  using assms by (auto simp: queue_holds_def ring_def ffi_queue_len_def mev_queue_size_def)



section \<open>Capacities it does not work for\<close>

text \<open>With one slot the ring cannot tell a full queue from an empty one: a queue of capacity 1 accepts two items, the
  second in the place of the first, and the next pop does not return. With capacity 0 the first push leaves the array.\<close>

theorem c_queue_one_slot:
  "(\<exists>q q'. ffi_queue_new True 1 = Done (Some q)
     \<and> bounded_run ffi_queue_push ffi_queue_pop q [Push x, Push y] = Done (q', [x, y], []) \<and> cq_data q' = [y]
     \<and> bounded_run ffi_queue_push ffi_queue_pop q [Push x, Push y, Pop] = Stuck)
   \<and> (\<exists>q. ffi_queue_new True 0 = Done (Some q) \<and> ffi_queue_push q x = Stuck)"
  by (simp add: ffi_queue_new_def mev_queue_create_def ffi_queue_push_def mev_queue_push_def ffi_queue_pop_def
      mev_queue_pop_def Let_def word_sless_alt)

lemma power_below:
  assumes "2 ^ 63 < unat (capacity :: u64)" "n = 0 \<or> (\<exists>j \<le> 63. n = 2 ^ j)"
  shows "n < capacity"
proof (cases "n = 0")
  case True
  with assms(1) show ?thesis by (simp add: word_less_nat_alt)
next
  case False
  with assms(2) obtain j where "j \<le> 63" "n = 2 ^ j"
    by blast
  with assms(1) unat_power_64 [of j] power_increasing [of j 63 "2 :: nat"] show ?thesis
    by (simp add: word_less_nat_alt)
qed

lemma round_up_from_stuck:
  assumes "2 ^ 63 < unat capacity" "n = 0 \<or> (\<exists>j \<le> 63. n = 2 ^ j)"
  shows "round_up_from fuel n capacity = Stuck"
  using assms(2)
proof (induction fuel arbitrary: n)
  case (Suc fuel)
  have "push_bit 1 n = 0 \<or> (\<exists>j \<le> 63. push_bit 1 n = 2 ^ j)"
  proof (cases "n = 0 \<or> n = 2 ^ 63")
    case False
    with Suc.prems obtain j where j: "j \<le> 63" "n = 2 ^ j"
      by blast
    with False have "j \<noteq> 63"
      by blast
    with j have "push_bit 1 n = 2 ^ Suc j \<and> Suc j \<le> 63"
      by (simp add: push_bit_eq_mult mult.commute)
    then show ?thesis by blast
  qed auto
  moreover have "n < capacity"
    by (rule power_below [OF assms(1) Suc.prems])
  ultimately show ?case
    using Suc.IH by simp
qed (use power_below [OF assms(1)] in simp)

text \<open>Above \<open>2 ^ 63\<close> creation does not return: the doubling loop passes from \<open>2 ^ 63\<close> to 0 and stays there, for any
  number of rounds, so the constructor never reports a failure.\<close>

theorem c_queue_too_large:
  assumes "2 ^ 63 < unat capacity"
  shows "round_up_from rounds 1 capacity = Stuck \<and> ffi_queue_new allocated capacity = Stuck"
proof -
  have *: "round_up_from rounds 1 capacity = Stuck" for rounds
    using round_up_from_stuck [OF assms, of 1 rounds] by (metis power_0 le0)
  have "capacity AND (capacity - 1) \<noteq> 0"
  proof
    assume "capacity AND (capacity - 1) = 0"
    then obtain k where "k < 64" "capacity = 2 ^ k"
      using power_of_two_test [of capacity] assms by force
    with assms unat_power_64 [of k] power_increasing [of k 63 "2 :: nat"] show False by simp
  qed
  then show ?thesis
    by (simp add: * ffi_queue_new_def mev_queue_create_def)
qed

theorem c_queue_too_large_witness: "ffi_queue_new True (2 ^ 63 + 1) = Stuck"
  using c_queue_too_large [of "2 ^ 63 + 1"] by simp

end
