(* ===== verification/C_Queue_Threads.thy ===== *)
theory C_Queue_Threads
  imports C_Queue
begin

text \<open>
  The lock-free queue of \<^verbatim>\<open>fast/src/lockfree_queue.c\<close> with any number of threads that push and pop. A turn of a
  thread is one atomic access to the shared queue, in the order of the source; turns interleave freely, a weak
  compare-and-exchange may fail without reason, and accesses are sequentially consistent. The theory
  shows that no item is lost, duplicated, invented or reordered as long as fewer than \<open>2 ^ 63\<close> items are pushed.
\<close>

section \<open>Threads\<close>

text \<open>Where a thread is in \<^verbatim>\<open>mev_queue_push\<close> or \<^verbatim>\<open>mev_queue_pop\<close>; the arguments are its local variables.\<close>

datatype q_phase =
    Idle
  | PushLoad u64
  | PushSeq u64 u64
  | PushCas u64 u64
  | PushStore u64 u64
  | PushPublish u64
  | PopLoad
  | PopSeq u64
  | PopCas u64
  | PopRead u64
  | PopRelease u64 u64

text \<open>
  The last three fields record what happened: the items in the order in which their slots were claimed, the number
  of claims by consumers, and the finished pops with thread, position and item.
\<close>

record q_threads =
  qt_queue :: c_queue
  qt_phase :: "nat \<Rightarrow> q_phase"
  qt_log :: "u64 list"
  qt_claims :: nat
  qt_out :: "(nat \<times> u64 \<times> u64) list"

abbreviation slot_of :: "c_queue \<Rightarrow> u64 \<Rightarrow> nat" where
  "slot_of q pos \<equiv> unat (pos AND cq_mask q)"

definition go_to :: "nat \<Rightarrow> q_phase \<Rightarrow> q_threads \<Rightarrow> q_threads" where
  "go_to t ph s = s\<lparr>qt_phase := (qt_phase s)(t := ph)\<rparr>"

text \<open>One atomic access of a thread inside \<^verbatim>\<open>mev_queue_push\<close>. \<open>weak\<close>: the compare-and-exchange fails without reason.\<close>

definition push_turn :: "bool \<Rightarrow> nat \<Rightarrow> q_threads \<Rightarrow> q_threads" where
  "push_turn weak t s =
    (let q = qt_queue s in
     case qt_phase s t of
       PushLoad x \<Rightarrow> go_to t (PushSeq x (cq_tail q)) s
     | PushSeq x pos \<Rightarrow>
         (let diff = cq_seq q ! slot_of q pos - pos
          in go_to t (if diff = 0 then PushCas x pos else if diff <s 0 then Idle else PushLoad x) s)
     | PushCas x pos \<Rightarrow>
         (if cq_tail q = pos \<and> \<not> weak
          then go_to t (PushStore x pos) (s\<lparr>qt_queue := q\<lparr>cq_tail := pos + 1\<rparr>, qt_log := qt_log s @ [x]\<rparr>)
          else go_to t (PushSeq x (cq_tail q)) s)
     | PushStore x pos \<Rightarrow> go_to t (PushPublish pos) (s\<lparr>qt_queue := q\<lparr>cq_data := (cq_data q)[slot_of q pos := x]\<rparr>\<rparr>)
     | PushPublish pos \<Rightarrow> go_to t Idle (s\<lparr>qt_queue := q\<lparr>cq_seq := (cq_seq q)[slot_of q pos := pos + 1]\<rparr>\<rparr>)
     | _ \<Rightarrow> s)"

definition pop_turn :: "bool \<Rightarrow> nat \<Rightarrow> q_threads \<Rightarrow> q_threads" where
  "pop_turn weak t s =
    (let q = qt_queue s in
     case qt_phase s t of
       PopLoad \<Rightarrow> go_to t (PopSeq (cq_head q)) s
     | PopSeq pos \<Rightarrow>
         (let diff = cq_seq q ! slot_of q pos - (pos + 1)
          in go_to t (if diff = 0 then PopCas pos else if diff <s 0 then Idle else PopLoad) s)
     | PopCas pos \<Rightarrow>
         (if cq_head q = pos \<and> \<not> weak
          then go_to t (PopRead pos) (s\<lparr>qt_queue := q\<lparr>cq_head := pos + 1\<rparr>, qt_claims := qt_claims s + 1\<rparr>)
          else go_to t (PopSeq (cq_head q)) s)
     | PopRead pos \<Rightarrow> go_to t (PopRelease pos (cq_data q ! slot_of q pos)) s
     | PopRelease pos x \<Rightarrow>
         go_to t Idle (s\<lparr>qt_queue := q\<lparr>cq_seq := (cq_seq q)[slot_of q pos := pos + cq_capacity q]\<rparr>,
                         qt_out := qt_out s @ [(t, pos, x)]\<rparr>)
     | _ \<Rightarrow> s)"

definition threads_start :: "c_queue \<Rightarrow> q_threads" where
  "threads_start q = \<lparr>qt_queue = q, qt_phase = (\<lambda>_. Idle), qt_log = [], qt_claims = 0, qt_out = []\<rparr>"

text \<open>An idle thread may call push or pop; a thread in a call takes a turn.\<close>

inductive queue_step :: "q_threads \<Rightarrow> q_threads \<Rightarrow> bool" where
  call_push: "qt_phase s t = Idle \<Longrightarrow> queue_step s (go_to t (PushLoad x) s)"
| call_pop: "qt_phase s t = Idle \<Longrightarrow> queue_step s (go_to t PopLoad s)"
| turn_push: "queue_step s (push_turn weak t s)"
| turn_pop: "queue_step s (pop_turn weak t s)"

text \<open>A schedule, to compute with the step relation; a call by a thread that is not idle is ignored.\<close>

datatype q_action = CallPush nat u64 | CallPop nat | TurnPush bool nat | TurnPop bool nat

fun queue_schedule :: "q_action list \<Rightarrow> q_threads \<Rightarrow> q_threads" where
  "queue_schedule [] s = s"
| "queue_schedule (CallPush t x # acts) s = queue_schedule acts (if qt_phase s t = Idle then go_to t (PushLoad x) s else s)"
| "queue_schedule (CallPop t # acts) s = queue_schedule acts (if qt_phase s t = Idle then go_to t PopLoad s else s)"
| "queue_schedule (TurnPush weak t # acts) s = queue_schedule acts (push_turn weak t s)"
| "queue_schedule (TurnPop weak t # acts) s = queue_schedule acts (pop_turn weak t s)"

lemma queue_schedule_reachable: "queue_step\<^sup>*\<^sup>* s (queue_schedule acts s)"
  by (induction acts s rule: queue_schedule.induct)
    (auto intro: converse_rtranclp_into_rtranclp queue_step.intros)

section \<open>Tickets\<close>

text \<open>The position a thread has claimed and not yet published, or not yet released.\<close>

fun writing :: "q_phase \<Rightarrow> nat option" where
  "writing (PushStore x pos) = Some (unat pos)"
| "writing (PushPublish pos) = Some (unat pos)"
| "writing _ = None"

fun reading :: "q_phase \<Rightarrow> nat option" where
  "reading (PopRead pos) = Some (unat pos)"
| "reading (PopRelease pos x) = Some (unat pos)"
| "reading _ = None"

definition written :: "q_threads \<Rightarrow> nat \<Rightarrow> bool" where
  "written s p \<longleftrightarrow> (\<exists>t. writing (qt_phase s t) = Some p)"

definition being_read :: "q_threads \<Rightarrow> nat \<Rightarrow> bool" where
  "being_read s p \<longleftrightarrow> (\<exists>t. reading (qt_phase s t) = Some p)"

section \<open>The invariant\<close>

definition seq_at :: "nat \<Rightarrow> q_threads \<Rightarrow> nat \<Rightarrow> nat" where
  "seq_at cap s p = unat (cq_seq (qt_queue s) ! (p mod cap))"

definition data_at :: "nat \<Rightarrow> q_threads \<Rightarrow> nat \<Rightarrow> u64" where
  "data_at cap s p = cq_data (qt_queue s) ! (p mod cap)"

definition q_shape :: "nat \<Rightarrow> q_threads \<Rightarrow> bool" where
  "q_shape cap s \<longleftrightarrow> (\<exists>k. cap = 2 ^ k \<and> 1 \<le> k \<and> k < 64) \<and> length (cq_seq (qt_queue s)) = cap \<and> length (cq_data (qt_queue s)) = cap
    \<and> cq_capacity (qt_queue s) = of_nat cap \<and> cq_mask (qt_queue s) = of_nat cap - 1
    \<and> unat (cq_tail (qt_queue s)) = length (qt_log s) \<and> unat (cq_head (qt_queue s)) = qt_claims s
    \<and> qt_claims s \<le> length (qt_log s) \<and> length (qt_log s) \<le> qt_claims s + cap \<and> length (qt_log s) < 2 ^ 63"

text \<open>
  The positions from the head on are one lap of the ring. A claimed one holds its own number until it is published and
  one more after that, with its item; one that is still to be claimed holds its number, unless the consumer of the lap
  before has not released it.
\<close>

definition q_slots :: "nat \<Rightarrow> q_threads \<Rightarrow> bool" where
  "q_slots cap s \<longleftrightarrow>
    (\<forall>p. qt_claims s \<le> p \<longrightarrow> p < length (qt_log s) \<longrightarrow>
       seq_at cap s p = (if written s p then p else p + 1) \<and> (written s p \<or> data_at cap s p = qt_log s ! p))
    \<and> (\<forall>p. length (qt_log s) \<le> p \<longrightarrow> p < qt_claims s + cap \<longrightarrow>
       (if cap \<le> p \<and> being_read s (p - cap) then seq_at cap s p = p - cap + 1 \<and> data_at cap s p = qt_log s ! (p - cap)
        else seq_at cap s p = p))"

fun phase_ok :: "nat \<Rightarrow> q_threads \<Rightarrow> q_phase \<Rightarrow> bool" where
  "phase_ok cap s (PushSeq x pos) = (unat pos \<le> length (qt_log s))"
| "phase_ok cap s (PushCas x pos) =
    (unat pos \<le> length (qt_log s) \<and> (unat pos = length (qt_log s) \<longrightarrow> seq_at cap s (unat pos) = unat pos))"
| "phase_ok cap s (PushStore x pos) = (qt_claims s \<le> unat pos \<and> unat pos < length (qt_log s) \<and> qt_log s ! unat pos = x)"
| "phase_ok cap s (PushPublish pos) =
    (qt_claims s \<le> unat pos \<and> unat pos < length (qt_log s) \<and> data_at cap s (unat pos) = qt_log s ! unat pos)"
| "phase_ok cap s (PopSeq pos) = (unat pos \<le> qt_claims s)"
| "phase_ok cap s (PopCas pos) =
    (unat pos \<le> qt_claims s \<and> (unat pos = qt_claims s \<longrightarrow> seq_at cap s (unat pos) = unat pos + 1))"
| "phase_ok cap s (PopRead pos) = (unat pos < qt_claims s \<and> length (qt_log s) \<le> unat pos + cap)"
| "phase_ok cap s (PopRelease pos x) =
    (unat pos < qt_claims s \<and> length (qt_log s) \<le> unat pos + cap \<and> qt_log s ! unat pos = x)"
| "phase_ok cap s _ = True"

definition q_unique :: "q_threads \<Rightarrow> bool" where
  "q_unique s \<longleftrightarrow> (\<forall>t t' p. writing (qt_phase s t) = Some p \<longrightarrow> writing (qt_phase s t') = Some p \<longrightarrow> t = t')
    \<and> (\<forall>t t' p. reading (qt_phase s t) = Some p \<longrightarrow> reading (qt_phase s t') = Some p \<longrightarrow> t = t')"

definition tickets :: "(nat \<times> u64 \<times> u64) list \<Rightarrow> nat list" where
  "tickets out = map (\<lambda>(t, pos, x). unat pos) out"

definition tickets_of :: "nat \<Rightarrow> (nat \<times> u64 \<times> u64) list \<Rightarrow> nat list" where
  "tickets_of t out = tickets (filter (\<lambda>e. fst e = t) out)"

definition q_outs :: "q_threads \<Rightarrow> bool" where
  "q_outs s \<longleftrightarrow>
    (\<forall>(t, pos, x) \<in> set (qt_out s). unat pos < qt_claims s \<and> \<not> being_read s (unat pos) \<and> x = qt_log s ! unat pos)
    \<and> (\<forall>p < qt_claims s. being_read s p \<or> p \<in> set (tickets (qt_out s))) \<and> distinct (tickets (qt_out s))
    \<and> (\<forall>t. sorted_wrt (<) (tickets_of t (qt_out s)))
    \<and> (\<forall>t p. reading (qt_phase s t) = Some p \<longrightarrow> (\<forall>p' \<in> set (tickets_of t (qt_out s)). p' < p))"

definition q_inv :: "nat \<Rightarrow> q_threads \<Rightarrow> bool" where
  "q_inv cap s \<longleftrightarrow> q_shape cap s \<and> q_slots cap s \<and> (\<forall>t. phase_ok cap s (qt_phase s t)) \<and> q_unique s \<and> q_outs s"

lemma go_to_simps [simp]:
  "qt_queue (go_to t ph s) = qt_queue s" "qt_log (go_to t ph s) = qt_log s" "qt_claims (go_to t ph s) = qt_claims s"
  "qt_out (go_to t ph s) = qt_out s" "qt_phase (go_to t ph s) = (qt_phase s)(t := ph)"
  by (simp_all add: go_to_def)

section \<open>What the sequence numbers tell\<close>

lemma shape_cap: "q_shape cap s \<Longrightarrow> 2 \<le> cap \<and> cap \<le> 2 ^ 63"
  using power_increasing [of 1 _ "2 :: nat"] power_increasing [of _ 63 "2 :: nat"] by (fastforce simp: q_shape_def)

lemma shape_slot:
  assumes "q_shape cap s"
  shows "slot_of (qt_queue s) pos = unat pos mod cap" "p mod cap < cap"
proof -
  obtain k where "k < 64" "cap = 2 ^ k" "cq_mask (qt_queue s) = of_nat cap - 1"
    using assms by (auto simp: q_shape_def)
  then show "slot_of (qt_queue s) pos = unat pos mod cap"
    using ring_index [of k "unat pos"] by simp
  show "p mod cap < cap"
    using shape_cap [OF assms] by simp
qed

lemma lap_slots_differ:
  "h \<le> p \<Longrightarrow> p < h + cap \<Longrightarrow> h \<le> p' \<Longrightarrow> p' < h + cap \<Longrightarrow> p \<noteq> p' \<Longrightarrow> p mod cap \<noteq> p' mod (cap :: nat)"
  using mod_neq [of p p' cap] mod_neq [of p' p cap] by (cases "p < p'") auto

text \<open>A slot that carries the number of the tail can be claimed by a producer.\<close>

lemma claim_free:
  assumes "q_shape cap s" "q_slots cap s" "seq_at cap s (length (qt_log s)) = length (qt_log s)"
  shows "length (qt_log s) < qt_claims s + cap" "\<not> (cap \<le> length (qt_log s) \<and> being_read s (length (qt_log s) - cap))"
proof -
  let ?T = "length (qt_log s)" and ?H = "qt_claims s"
  note cap = shape_cap [OF assms(1)]
  have T: "?H \<le> ?T" "?T \<le> ?H + cap"
    using assms(1) by (auto simp: q_shape_def)
  show lt: "?T < ?H + cap"
  proof (rule ccontr)
    assume "\<not> ?thesis"
    then have full: "?T = ?H + cap" using T by simp
    then have "seq_at cap s ?T = seq_at cap s ?H"
      by (simp add: seq_at_def)
    moreover have "seq_at cap s ?H = (if written s ?H then ?H else ?H + 1)"
      using assms(2) full cap unfolding q_slots_def by simp
    ultimately show False
      using assms(3) full cap by (simp split: if_splits)
  qed
  show "\<not> (cap \<le> ?T \<and> being_read s (?T - cap))"
  proof
    assume "cap \<le> ?T \<and> being_read s (?T - cap)"
    then have "seq_at cap s ?T = ?T - cap + 1" "cap \<le> ?T"
      using assms(2) lt unfolding q_slots_def by auto
    with assms(3) cap show False by linarith
  qed
qed

text \<open>A slot that carries one more than the head holds a published item.\<close>

lemma claim_ready:
  assumes "q_shape cap s" "q_slots cap s" "seq_at cap s (qt_claims s) = qt_claims s + 1"
  shows "qt_claims s < length (qt_log s)" "\<not> written s (qt_claims s)"
    "data_at cap s (qt_claims s) = qt_log s ! qt_claims s"
proof -
  let ?T = "length (qt_log s)" and ?H = "qt_claims s"
  note cap = shape_cap [OF assms(1)]
  have T: "?H \<le> ?T"
    using assms(1) by (auto simp: q_shape_def)
  show lt: "?H < ?T"
  proof (rule ccontr)
    assume "\<not> ?thesis"
    with T have "?T \<le> ?H" "?H < ?H + cap" using cap by simp_all
    then have "seq_at cap s ?H = (if cap \<le> ?H \<and> being_read s (?H - cap) then ?H - cap + 1 else ?H)"
      using assms(2) unfolding q_slots_def by (metis (full_types))
    with assms(3) cap show False
      by (simp split: if_splits)
  qed
  then show "\<not> written s ?H" "data_at cap s ?H = qt_log s ! ?H"
    using assms(2,3) unfolding q_slots_def by (metis le_refl n_not_Suc_n Suc_eq_plus1)+
qed

section \<open>Every turn keeps the invariant\<close>

lemma inv_parts:
  assumes "q_inv cap s"
  shows "q_shape cap s" "q_slots cap s" "phase_ok cap s (qt_phase s t)" "q_unique s" "q_outs s"
  using assms by (auto simp: q_inv_def)

text \<open>A turn that only changes what the thread knows.\<close>

lemma phase_ok_go_to: "phase_ok cap (go_to t ph s) ph' = phase_ok cap s ph'"
  by (cases ph') (simp_all add: seq_at_def data_at_def)

lemma at_go_to: "seq_at cap (go_to t ph s) = seq_at cap s" "data_at cap (go_to t ph s) = data_at cap s"
  by (simp_all add: fun_eq_iff seq_at_def data_at_def)

lemma written_upd:
  assumes "qt_phase s' = (qt_phase s)(t := ph)"
  shows "writing ph = writing (qt_phase s t) \<Longrightarrow> written s' p = written s p"
    "writing (qt_phase s t) = None \<Longrightarrow> written s' p \<longleftrightarrow> written s p \<or> writing ph = Some p"
    "q_unique s \<Longrightarrow> writing ph = None \<Longrightarrow> writing (qt_phase s t) = Some p0 \<Longrightarrow> written s' p \<longleftrightarrow> written s p \<and> p \<noteq> p0"
  unfolding written_def q_unique_def assms fun_upd_apply by (metis option.distinct(1) option.inject)+

lemma being_read_upd:
  assumes "qt_phase s' = (qt_phase s)(t := ph)"
  shows "reading ph = reading (qt_phase s t) \<Longrightarrow> being_read s' p = being_read s p"
    "reading (qt_phase s t) = None \<Longrightarrow> being_read s' p \<longleftrightarrow> being_read s p \<or> reading ph = Some p"
    "q_unique s \<Longrightarrow> reading ph = None \<Longrightarrow> reading (qt_phase s t) = Some p0 \<Longrightarrow> being_read s' p \<longleftrightarrow> being_read s p \<and> p \<noteq> p0"
  unfolding being_read_def q_unique_def assms fun_upd_apply by (metis option.distinct(1) option.inject)+

lemma inv_quiet:
  assumes "q_inv cap s" "writing ph = writing (qt_phase s t)" "reading ph = reading (qt_phase s t)" "phase_ok cap s ph"
  shows "q_inv cap (go_to t ph s)"
proof -
  have w: "writing (((qt_phase s)(t := ph)) t') = writing (qt_phase s t')"
    and r: "reading (((qt_phase s)(t := ph)) t') = reading (qt_phase s t')" for t'
    using assms(2,3) by simp_all
  have "written (go_to t ph s) = written s" "being_read (go_to t ph s) = being_read s"
    using written_upd(1) [of "go_to t ph s" s t ph] being_read_upd(1) [of "go_to t ph s" s t ph] assms(2,3)
    by (simp_all add: fun_eq_iff)
  moreover have "q_unique (go_to t ph s)" "q_outs (go_to t ph s) \<longleftrightarrow> q_outs s" if "being_read (go_to t ph s) = being_read s"
    using inv_parts(4) [OF assms(1)] unfolding q_unique_def q_outs_def go_to_simps w r that by blast+
  ultimately show ?thesis
    using assms by (simp add: q_inv_def q_shape_def q_slots_def phase_ok_go_to at_go_to)
qed

lemma unat_succ:
  assumes "unat (pos :: u64) < 2 ^ 63"
  shows "unat (pos + 1) = unat pos + 1"
proof -
  have "unat pos + unat (1 :: u64) < 2 ^ 64"
    using assms by simp
  then show ?thesis
    using unat_add_lem [of pos 1] by simp
qed

lemma unat_lap:
  assumes "unat (pos :: u64) < 2 ^ 63" "cap \<le> 2 ^ 63"
  shows "unat (pos + of_nat cap) = unat pos + cap"
proof -
  have u: "unat (of_nat cap :: u64) = cap"
    using assms(2) by (simp add: unat_of_nat)
  have "unat pos + unat (of_nat cap :: u64) < 2 ^ 64"
    using assms by (simp add: u)
  then show ?thesis
    using unat_add_lem [of pos "of_nat cap"] by (simp add: u)
qed

text \<open>A producer claims the tail.\<close>

lemma inv_push_claim:
  assumes inv: "q_inv cap s" and ph: "qt_phase s t = PushCas x (cq_tail (qt_queue s))" and few: "length (qt_log s) + 1 < 2 ^ 63"
  shows "q_inv cap (go_to t (PushStore x (cq_tail (qt_queue s)))
    (s\<lparr>qt_queue := (qt_queue s)\<lparr>cq_tail := cq_tail (qt_queue s) + 1\<rparr>, qt_log := qt_log s @ [x]\<rparr>))" (is "q_inv cap ?s")
proof -
  let ?T = "length (qt_log s)" and ?H = "qt_claims s"
  note parts = inv_parts [OF inv]
  have tail: "unat (cq_tail (qt_queue s)) = ?T" and bounds: "?H \<le> ?T" "?T \<le> ?H + cap"
    using parts(1) by (auto simp: q_shape_def)
  have seqT: "seq_at cap s ?T = ?T"
    using parts(3) [of t] ph tail by simp
  note free = claim_free [OF parts(1,2) seqT]
  have same: "seq_at cap ?s = seq_at cap s" "data_at cap ?s = data_at cap s"
    by (simp_all add: fun_eq_iff seq_at_def data_at_def)
  have w: "written ?s p \<longleftrightarrow> written s p \<or> p = ?T" for p
    using written_upd(2) [of ?s s t] ph by (auto simp: tail)
  have r: "being_read ?s = being_read s"
    using being_read_upd(1) [of ?s s t] ph by (simp add: fun_eq_iff)
  have new: "\<not> written s ?T"
    using parts(3) by (auto simp: written_def elim!: writing.elims) (metis less_irrefl phase_ok.simps(3,4))+
  have "q_shape cap ?s"
    using parts(1) free(1) few unat_succ [of "cq_tail (qt_queue s)"] tail by (simp add: q_shape_def)
  moreover have "q_slots cap ?s"
    unfolding q_slots_def same r w
  proof (intro conjI allI impI)
    fix p assume "qt_claims ?s \<le> p" "p < length (qt_log ?s)"
    then consider "p = ?T" | "?H \<le> p" "p < ?T" by fastforce
    then have "seq_at cap s p = (if written s p \<or> p = ?T then p else p + 1) \<and> (written s p \<or> p = ?T \<or> data_at cap s p = qt_log s ! p)
      \<and> (p < ?T \<longrightarrow> qt_log ?s ! p = qt_log s ! p)"
      using parts(2) seqT unfolding q_slots_def by cases (auto simp: nth_append)
    then show "seq_at cap s p = (if written s p \<or> p = ?T then p else p + 1)"
      "(written s p \<or> p = ?T) \<or> data_at cap s p = qt_log ?s ! p"
      using \<open>p < length (qt_log ?s)\<close> by auto
  next
    fix p assume "length (qt_log ?s) \<le> p" "p < qt_claims ?s + cap"
    then have p: "?T \<le> p" "p < ?H + cap" and lt: "cap \<le> p \<Longrightarrow> p - cap < ?T"
      using bounds by auto
    have "if cap \<le> p \<and> being_read s (p - cap) then seq_at cap s p = p - cap + 1 \<and> data_at cap s p = qt_log s ! (p - cap)
        else seq_at cap s p = p"
      using parts(2) p unfolding q_slots_def by blast
    with lt show "if cap \<le> p \<and> being_read s (p - cap)
        then seq_at cap s p = p - cap + 1 \<and> data_at cap s p = qt_log ?s ! (p - cap) else seq_at cap s p = p"
      by (auto simp: nth_append split: if_splits)
  qed
  moreover have "phase_ok cap ?s (qt_phase ?s t')" for t'
  proof (cases "t' = t")
    case True
    with bounds tail show ?thesis by simp
  next
    case False
    have "?T < p + cap" if "reading (qt_phase s t') = Some p" "?T \<le> p + cap" for p
    proof (rule ccontr)
      assume "\<not> ?thesis"
      with that have "cap \<le> ?T" "?T - cap = p" by simp_all
      with that(1) free(2) show False by (auto simp: being_read_def)
    qed
    with parts(3) [of t'] False bounds(1) show ?thesis
      by (cases "qt_phase s t'") (auto simp: same nth_append Suc_le_eq)
  qed
  moreover have "q_unique ?s"
    using parts(4) new ph unfolding q_unique_def by (auto simp: written_def tail)
  moreover have "q_outs ?s"
    using parts(5) bounds(1) ph unfolding q_outs_def r by (auto simp: nth_append)
  ultimately show ?thesis
    by (simp add: q_inv_def)
qed

text \<open>A producer writes its item.\<close>

lemma inv_push_store:
  assumes inv: "q_inv cap s" and ph: "qt_phase s t = PushStore x pos"
  shows "q_inv cap (go_to t (PushPublish pos)
    (s\<lparr>qt_queue := (qt_queue s)\<lparr>cq_data := (cq_data (qt_queue s))[slot_of (qt_queue s) pos := x]\<rparr>\<rparr>))" (is "q_inv cap ?s")
proof -
  let ?T = "length (qt_log s)" and ?H = "qt_claims s"
  note parts = inv_parts [OF inv]
  note slot = shape_slot [OF parts(1)]
  have bounds: "?H \<le> unat pos" "unat pos < ?T" "?T \<le> ?H + cap" "qt_log s ! unat pos = x"
    using parts(1) parts(3) [of t] ph by (auto simp: q_shape_def)
  have seq: "seq_at cap ?s = seq_at cap s"
    by (simp add: fun_eq_iff seq_at_def)
  have dat: "data_at cap ?s p = (if p = unat pos then x else data_at cap s p)" if "?H \<le> p" "p < ?H + cap" for p
    using lap_slots_differ [of ?H "unat pos" cap p] bounds that slot parts(1) by (auto simp: data_at_def q_shape_def)
  have w: "written ?s = written s" and r: "being_read ?s = being_read s"
    using written_upd(1) [of ?s s t] being_read_upd(1) [of ?s s t] ph by (simp_all add: fun_eq_iff)
  have own: "written s (unat pos)"
    using ph by (auto simp: written_def intro: exI [of _ t])
  have "q_shape cap ?s"
    using parts(1) by (simp add: q_shape_def)
  moreover have "q_slots cap ?s"
    using parts(2) own bounds unfolding q_slots_def w r seq by (auto simp: dat split: if_splits)
  moreover have "phase_ok cap ?s (qt_phase ?s t')" for t'
  proof (cases "t' = t")
    case True
    with bounds show ?thesis by (simp add: dat)
  next
    case False
    have "p \<noteq> unat pos" if "writing (qt_phase s t') = Some p" for p
      using parts(4) that False ph unfolding q_unique_def by force
    with parts(3) [of t'] False bounds(3) show ?thesis
      by (cases "qt_phase s t'") (auto simp: seq dat)
  qed
  moreover have "q_unique ?s" "q_outs ?s"
    using parts(4,5) ph unfolding q_unique_def q_outs_def r by (auto split: if_splits)
  ultimately show ?thesis
    by (simp add: q_inv_def)
qed

text \<open>A producer publishes its slot.\<close>

lemma inv_push_publish:
  assumes inv: "q_inv cap s" and ph: "qt_phase s t = PushPublish pos"
  shows "q_inv cap (go_to t Idle
    (s\<lparr>qt_queue := (qt_queue s)\<lparr>cq_seq := (cq_seq (qt_queue s))[slot_of (qt_queue s) pos := pos + 1]\<rparr>\<rparr>))" (is "q_inv cap ?s")
proof -
  let ?T = "length (qt_log s)" and ?H = "qt_claims s"
  note parts = inv_parts [OF inv]
  note slot = shape_slot [OF parts(1)]
  have bounds: "?H \<le> unat pos" "unat pos < ?T" "?T \<le> ?H + cap" "?T < 2 ^ 63" "data_at cap s (unat pos) = qt_log s ! unat pos"
    using parts(1) parts(3) [of t] ph by (auto simp: q_shape_def)
  then have succ: "unat (pos + 1) = unat pos + 1"
    by (intro unat_succ) simp
  have dat: "data_at cap ?s = data_at cap s"
    by (simp add: fun_eq_iff data_at_def)
  have seq: "seq_at cap ?s p = (if p = unat pos then p + 1 else seq_at cap s p)" if "?H \<le> p" "p < ?H + cap" for p
    using lap_slots_differ [of ?H "unat pos" cap p] bounds that slot parts(1) by (auto simp: seq_at_def q_shape_def succ)
  have w: "written ?s p \<longleftrightarrow> written s p \<and> p \<noteq> unat pos" for p
    using written_upd(3) [of ?s s t Idle "unat pos" p] ph parts(4) by simp
  have r: "being_read ?s = being_read s"
    using being_read_upd(1) [of ?s s t] ph by (simp add: fun_eq_iff)
  have own: "written s (unat pos)"
    using ph by (auto simp: written_def intro: exI [of _ t])
  have "q_shape cap ?s"
    using parts(1) by (simp add: q_shape_def)
  moreover have "q_slots cap ?s"
    using parts(2) own bounds unfolding q_slots_def w r dat by (auto simp: seq split: if_splits)
  moreover have "phase_ok cap ?s (qt_phase ?s t')" for t'
  proof (cases "t' = t")
    case False
    have "seq_at cap ?s ?T = ?T" if "seq_at cap s ?T = ?T"
      using seq [of ?T] claim_free(1) [OF parts(1,2) that] bounds that by simp
    moreover have "seq_at cap ?s ?H = ?H + 1" if "seq_at cap s ?H = ?H + 1"
      using seq [of ?H] claim_ready(2) [OF parts(1,2) that] shape_cap [OF parts(1)] own that by auto
    ultimately show ?thesis
      using parts(3) [of t'] False by (cases "qt_phase s t'") (auto simp: dat)
  qed simp
  moreover have "q_unique ?s" "q_outs ?s"
    using parts(4,5) ph unfolding q_unique_def q_outs_def r by (auto split: if_splits)
  ultimately show ?thesis
    by (simp add: q_inv_def)
qed

text \<open>A consumer claims the head.\<close>

lemma inv_pop_claim:
  assumes inv: "q_inv cap s" and ph: "qt_phase s t = PopCas (cq_head (qt_queue s))"
  shows "q_inv cap (go_to t (PopRead (cq_head (qt_queue s)))
    (s\<lparr>qt_queue := (qt_queue s)\<lparr>cq_head := cq_head (qt_queue s) + 1\<rparr>, qt_claims := Suc (qt_claims s)\<rparr>))" (is "q_inv cap ?s")
proof -
  let ?T = "length (qt_log s)" and ?H = "qt_claims s"
  note parts = inv_parts [OF inv]
  have head: "unat (cq_head (qt_queue s)) = ?H" and bounds: "?H \<le> ?T" "?T \<le> ?H + cap" "?T < 2 ^ 63"
    using parts(1) by (auto simp: q_shape_def)
  have seqH: "seq_at cap s ?H = ?H + 1"
    using parts(3) [of t] ph head by simp
  note ready = claim_ready [OF parts(1,2) seqH]
  have same: "seq_at cap ?s = seq_at cap s" "data_at cap ?s = data_at cap s"
    by (simp_all add: fun_eq_iff seq_at_def data_at_def)
  have lap: "seq_at cap s (?H + cap) = ?H + 1" "data_at cap s (?H + cap) = qt_log s ! ?H"
    using seqH ready(3) by (simp_all add: seq_at_def data_at_def)
  have w: "written ?s = written s"
    using written_upd(1) [of ?s s t] ph by (simp add: fun_eq_iff)
  have r: "being_read ?s p \<longleftrightarrow> being_read s p \<or> p = ?H" for p
    using being_read_upd(2) [of ?s s t] ph by (auto simp: head)
  have old: "p < ?H" if "reading (qt_phase s t') = Some p" for t' p
    using parts(3) [of t'] that by (auto elim!: reading.elims)
  have "q_shape cap ?s"
    using parts(1) ready(1) unat_succ [of "cq_head (qt_queue s)"] head bounds by (simp add: q_shape_def)
  moreover have "q_slots cap ?s"
    unfolding q_slots_def same r w
  proof (intro conjI allI impI)
    fix p assume "length (qt_log ?s) \<le> p" "p < qt_claims ?s + cap"
    then consider "p = ?H + cap" | "?T \<le> p" "p < ?H + cap" by fastforce
    then show "if cap \<le> p \<and> (being_read s (p - cap) \<or> p - cap = ?H)
        then seq_at cap s p = p - cap + 1 \<and> data_at cap s p = qt_log ?s ! (p - cap) else seq_at cap s p = p"
    proof cases
      case 1
      with lap show ?thesis by simp
    next
      case 2
      then have "\<not> (cap \<le> p \<and> p - cap = ?H)" by auto
      with 2 parts(2) show ?thesis
        unfolding q_slots_def by auto
    qed
  qed (use parts(2) in \<open>auto simp: q_slots_def\<close>)
  moreover have "phase_ok cap ?s (qt_phase ?s t')" for t'
  proof (cases "t' = t")
    case True
    with bounds head show ?thesis by simp
  next
    case False
    have "p \<noteq> ?H" if "writing (qt_phase s t') = Some p" for p
      using ready(2) that by (auto simp: written_def)
    with parts(3) [of t'] False show ?thesis
      by (cases "qt_phase s t'") (auto simp: same Suc_le_eq le_less)
  qed
  moreover have "q_unique ?s"
    using parts(4) ph old unfolding q_unique_def by (auto simp: head split: if_splits)
  moreover have "q_outs ?s"
  proof -
    have below: "p < ?H" if "p \<in> set (tickets_of t' (qt_out s))" for t' p
      using parts(5) that by (auto simp: q_outs_def tickets_of_def tickets_def)
    have "unat pos' \<noteq> ?H" if "(t', pos', x) \<in> set (qt_out s)" for t' pos' x
      using parts(5) that by (auto simp: q_outs_def)
    with parts(5) below show ?thesis
      unfolding q_outs_def r by (auto simp: head less_Suc_eq)
  qed
  ultimately show ?thesis
    by (simp add: q_inv_def)
qed

text \<open>A consumer reads the item it has claimed.\<close>

lemma inv_pop_read:
  assumes inv: "q_inv cap s" and ph: "qt_phase s t = PopRead pos"
  shows "q_inv cap (go_to t (PopRelease pos (cq_data (qt_queue s) ! slot_of (qt_queue s) pos)) s)"
proof (rule inv_quiet [OF inv])
  note parts = inv_parts [OF inv]
  have pos: "unat pos < qt_claims s" "length (qt_log s) \<le> unat pos + cap"
    using parts(3) [of t] ph by auto
  moreover have "being_read s (unat pos)"
    using ph by (auto simp: being_read_def intro: exI [of _ t])
  ultimately have "data_at cap s (unat pos + cap) = qt_log s ! unat pos"
    using parts(2) unfolding q_slots_def by (metis add_diff_cancel_right' add_less_cancel_right le_add2)
  with pos show "phase_ok cap s (PopRelease pos (cq_data (qt_queue s) ! slot_of (qt_queue s) pos))"
    by (simp add: shape_slot [OF parts(1)] data_at_def)
qed (simp_all add: ph)

text \<open>A consumer releases its slot for the next lap and returns.\<close>

lemma inv_pop_release:
  assumes inv: "q_inv cap s" and ph: "qt_phase s t = PopRelease pos x"
  shows "q_inv cap (go_to t Idle
    (s\<lparr>qt_queue := (qt_queue s)\<lparr>cq_seq := (cq_seq (qt_queue s))[slot_of (qt_queue s) pos := pos + cq_capacity (qt_queue s)]\<rparr>,
       qt_out := qt_out s @ [(t, pos, x)]\<rparr>))" (is "q_inv cap ?s")
proof -
  let ?T = "length (qt_log s)" and ?H = "qt_claims s"
  note parts = inv_parts [OF inv]
  note slot = shape_slot [OF parts(1)] and cap = shape_cap [OF parts(1)]
  have bounds: "unat pos < ?H" "?T \<le> unat pos + cap" "?H \<le> ?T" "?T \<le> ?H + cap" "?T < 2 ^ 63" "qt_log s ! unat pos = x"
    using parts(1) parts(3) [of t] ph by (auto simp: q_shape_def)
  have next_lap: "unat (pos + cq_capacity (qt_queue s)) = unat pos + cap"
    using unat_lap [of pos cap] bounds cap parts(1) by (simp add: q_shape_def)
  have len: "length (cq_seq (qt_queue s)) = cap"
    using parts(1) by (simp add: q_shape_def)
  have dat: "data_at cap ?s = data_at cap s"
    by (simp add: fun_eq_iff data_at_def)
  have seq: "seq_at cap ?s p = (if p = unat pos + cap then p else seq_at cap s p)" if "?H \<le> p" "p < ?H + cap" for p
    using lap_slots_differ [of ?H "unat pos + cap" cap p] bounds that slot len by (auto simp: seq_at_def next_lap)
  have w: "written ?s = written s"
    using written_upd(1) [of ?s s t] ph by (simp add: fun_eq_iff)
  have r: "being_read ?s p \<longleftrightarrow> being_read s p \<and> p \<noteq> unat pos" for p
    using being_read_upd(3) [of ?s s t Idle "unat pos" p] ph parts(4) by simp
  have own: "being_read s (unat pos)"
    using ph by (auto simp: being_read_def intro: exI [of _ t])
  have "q_shape cap ?s"
    using parts(1) by (simp add: q_shape_def)
  moreover have "q_slots cap ?s"
    unfolding q_slots_def w r dat
  proof (intro conjI allI impI)
    fix p assume "length (qt_log ?s) \<le> p" "p < qt_claims ?s + cap"
    then have p: "?H \<le> p" "p < ?H + cap" "?T \<le> p"
      using bounds by auto
    have "p = unat pos + cap \<longleftrightarrow> cap \<le> p \<and> p - cap = unat pos" by auto
    with p parts(2) show "if cap \<le> p \<and> (being_read s (p - cap) \<and> p - cap \<noteq> unat pos)
        then seq_at cap ?s p = p - cap + 1 \<and> data_at cap s p = qt_log ?s ! (p - cap) else seq_at cap ?s p = p"
      unfolding q_slots_def by (auto simp: seq)
  qed (use parts(2) bounds in \<open>auto simp: q_slots_def seq\<close>)
  moreover have "phase_ok cap ?s (qt_phase ?s t')" for t'
  proof (cases "t' = t")
    case False
    have "seq_at cap ?s ?T = ?T" if "seq_at cap s ?T = ?T"
      using seq [of ?T] claim_free [OF parts(1,2) that] bounds that by simp
    moreover have "seq_at cap ?s ?H = ?H + 1" if "seq_at cap s ?H = ?H + 1"
      using seq [of ?H] claim_ready(1) [OF parts(1,2) that] bounds cap that by simp
    ultimately show ?thesis
      using parts(3) [of t'] False by (cases "qt_phase s t'") (auto simp: dat)
  qed simp
  moreover have "q_unique ?s"
    using parts(4) ph unfolding q_unique_def by (auto split: if_splits)
  moreover have "q_outs ?s"
  proof -
    have new: "unat pos \<notin> set (tickets (qt_out s))"
      using parts(5) own by (auto simp: q_outs_def tickets_def)
    have last: "\<forall>p \<in> set (tickets_of t (qt_out s)). p < unat pos"
      using parts(5) ph unfolding q_outs_def by (metis reading.simps(2))
    have out: "tickets (qt_out ?s) = tickets (qt_out s) @ [unat pos]"
      "tickets_of t' (qt_out ?s) = tickets_of t' (qt_out s) @ (if t' = t then [unat pos] else [])" for t'
      by (simp_all add: tickets_def tickets_of_def)
    show ?thesis
      using parts(5) new last bounds unfolding q_outs_def r out by (auto simp: sorted_wrt_append)
  qed
  ultimately show ?thesis
    by (simp add: q_inv_def)
qed

text \<open>What a thread learns from a sequence number it has read.\<close>

lemma phase_ok_seen:
  assumes "q_inv cap s"
  shows "phase_ok cap s (PushSeq x pos) \<Longrightarrow> cq_seq (qt_queue s) ! slot_of (qt_queue s) pos - pos = 0 \<Longrightarrow> phase_ok cap s (PushCas x pos)"
    "phase_ok cap s (PopSeq pos) \<Longrightarrow> cq_seq (qt_queue s) ! slot_of (qt_queue s) pos - (pos + 1) = 0 \<Longrightarrow> phase_ok cap s (PopCas pos)"
proof -
  note shape = inv_parts(1) [OF assms]
  show "phase_ok cap s (PushSeq x pos) \<Longrightarrow> cq_seq (qt_queue s) ! slot_of (qt_queue s) pos - pos = 0 \<Longrightarrow> phase_ok cap s (PushCas x pos)"
    by (auto simp: shape_slot [OF shape] seq_at_def)
  assume "phase_ok cap s (PopSeq pos)" "cq_seq (qt_queue s) ! slot_of (qt_queue s) pos - (pos + 1) = 0"
  moreover from this(1) have "unat (pos + 1) = unat pos + 1"
    using shape by (intro unat_succ) (simp add: q_shape_def)
  ultimately show "phase_ok cap s (PopCas pos)"
    by (auto simp: shape_slot [OF shape] seq_at_def)
qed

lemma inv_push_turn:
  assumes inv: "q_inv cap s" and few: "length (qt_log (push_turn weak t s)) < 2 ^ 63"
  shows "q_inv cap (push_turn weak t s)"
proof -
  note ok = inv_parts(3) [OF inv, of t]
  have quiet: "q_inv cap (go_to t ph s)" if "writing ph = None" "reading ph = None" "phase_ok cap s ph"
    "writing (qt_phase s t) = None" "reading (qt_phase s t) = None" for ph
    using inv_quiet [OF inv] that by simp
  have tail: "unat (cq_tail (qt_queue s)) \<le> length (qt_log s)"
    using inv_parts(1) [OF inv] by (simp add: q_shape_def)
  show ?thesis
  proof (cases "qt_phase s t")
    case (PushSeq x pos)
    with phase_ok_seen(1) [OF inv, of x pos] ok show ?thesis
      by (simp add: push_turn_def Let_def quiet)
  next
    case (PushCas x pos)
    with inv_push_claim [OF inv, of t x] few quiet tail show ?thesis
      by (auto simp: push_turn_def Let_def)
  next
    case (PushStore x pos)
    with inv_push_store [OF inv] show ?thesis by (simp add: push_turn_def Let_def)
  next
    case (PushPublish pos)
    with inv_push_publish [OF inv] show ?thesis by (simp add: push_turn_def Let_def)
  qed (simp_all add: push_turn_def quiet tail inv)
qed

lemma inv_pop_turn:
  assumes inv: "q_inv cap s"
  shows "q_inv cap (pop_turn weak t s)"
proof -
  note ok = inv_parts(3) [OF inv, of t]
  have quiet: "q_inv cap (go_to t ph s)" if "writing ph = None" "reading ph = None" "phase_ok cap s ph"
    "writing (qt_phase s t) = None" "reading (qt_phase s t) = None" for ph
    using inv_quiet [OF inv] that by simp
  have head: "unat (cq_head (qt_queue s)) \<le> qt_claims s"
    using inv_parts(1) [OF inv] by (simp add: q_shape_def)
  show ?thesis
  proof (cases "qt_phase s t")
    case (PopSeq pos)
    with phase_ok_seen(2) [OF inv, of pos] ok show ?thesis
      by (simp add: pop_turn_def Let_def quiet)
  next
    case (PopCas pos)
    with inv_pop_claim [OF inv, of t] quiet head show ?thesis
      by (auto simp: pop_turn_def Let_def)
  next
    case (PopRead pos)
    with inv_pop_read [OF inv] show ?thesis by (simp add: pop_turn_def Let_def)
  next
    case (PopRelease pos x)
    with inv_pop_release [OF inv] show ?thesis by (simp add: pop_turn_def Let_def)
  qed (simp_all add: pop_turn_def quiet head inv)
qed

lemma log_grows: "queue_step s s' \<Longrightarrow> length (qt_log s) \<le> length (qt_log s')"
  by (induction rule: queue_step.induct) (auto simp: push_turn_def pop_turn_def Let_def split: q_phase.splits)

lemma inv_step:
  assumes "queue_step s s'" "q_inv cap s" "length (qt_log s') < 2 ^ 63"
  shows "q_inv cap s'"
  using assms
proof cases
  case (call_push t x)
  with assms(2) show ?thesis by (simp add: inv_quiet)
next
  case (call_pop t)
  with assms(2) show ?thesis by (simp add: inv_quiet)
qed (use assms inv_push_turn inv_pop_turn in auto)

lemma inv_reachable:
  assumes "queue_step\<^sup>*\<^sup>* s s'" "q_inv cap s" "length (qt_log s') < 2 ^ 63"
  shows "q_inv cap s'"
  using assms
proof (induction rule: rtranclp_induct)
  case (step s1 s2)
  with log_grows [of s1 s2] inv_step [of s1 s2 cap] show ?case by simp
qed simp

lemma inv_start:
  assumes "ring cap q 0 []"
  shows "q_inv cap (threads_start q)"
  using assms ring_cap [OF assms]
  by (auto simp: q_inv_def q_shape_def q_slots_def q_unique_def q_outs_def ring_def threads_start_def written_def
      being_read_def seq_at_def data_at_def tickets_def tickets_of_def unat_of_nat)

section \<open>Safety\<close>

lemma outs_below: "q_outs s \<Longrightarrow> p \<in> set (tickets (qt_out s)) \<Longrightarrow> p < qt_claims s"
  unfolding q_outs_def tickets_def by auto

lemma outs_complete:
  assumes "q_outs s" "\<And>t. reading (qt_phase s t) = None"
  shows "set (tickets (qt_out s)) = {0..<qt_claims s}"
proof (intro equalityI subsetI)
  fix p assume "p \<in> {0..<qt_claims s}"
  then have "being_read s p \<or> p \<in> set (tickets (qt_out s))"
    using assms(1) unfolding q_outs_def by simp
  with assms(2) show "p \<in> set (tickets (qt_out s))"
    by (simp add: being_read_def)
qed (use outs_below [OF assms(1)] in simp)

text \<open>With one consumer the tickets come in order.\<close>

lemma one_consumer:
  assumes "q_inv cap s" "\<And>t. reading (qt_phase s t) = None" "\<forall>e \<in> set (qt_out s). fst e = c"
  shows "map (\<lambda>(t, pos, x). x) (qt_out s) = take (qt_claims s) (qt_log s)"
proof -
  note parts = inv_parts [OF assms(1)]
  have "filter (\<lambda>e. fst e = c) (qt_out s) = qt_out s"
    using assms(3) by (simp add: filter_id_conv)
  moreover have "sorted_wrt (<) (tickets_of c (qt_out s))"
    using parts(5) unfolding q_outs_def by (elim conjE) (rule spec)
  ultimately have "sorted_wrt (<) (tickets (qt_out s))"
    by (simp add: tickets_of_def)
  moreover have "set (tickets (qt_out s)) = set [0..<qt_claims s]"
    using outs_complete [OF parts(5) assms(2)] by simp
  ultimately have order: "tickets (qt_out s) = [0..<qt_claims s]"
    by (intro strict_sorted_equal) simp_all
  have "map (\<lambda>(t, pos, x). x) (qt_out s) = map ((!) (qt_log s)) (tickets (qt_out s))"
  proof -
    have "\<forall>(t, pos, x) \<in> set (qt_out s). x = qt_log s ! unat pos"
      using parts(5) unfolding q_outs_def by blast
    then show ?thesis
      by (auto simp: tickets_def)
  qed
  also have "\<dots> = take (qt_claims s) (qt_log s)"
  proof -
    have "qt_claims s \<le> length (qt_log s)"
      using parts(1) by (simp add: q_shape_def)
    then show ?thesis
      by (simp add: order list_eq_iff_nth_eq)
  qed
  finally show ?thesis .
qed

text \<open>C29: whatever the interleaving of the producers and consumers of a C queue of capacity from 2 to \<open>2 ^ 63\<close> into which fewer
  than \<open>2 ^ 63\<close> items were pushed, every pop that returned an item returned the one written by the producer that
  claimed the same position, no position was popped twice, the pops of each thread follow the order of the claims, when no pop
  is under way exactly the first claimed items have been returned, with a single consumer in the order in which they were
  pushed, and at most the capacity is in the queue.\<close>

theorem c_queue_threads_safe:
  assumes "2 \<le> unat capacity" "unat capacity \<le> 2 ^ 63" "ffi_queue_new True capacity = Done (Some q)"
    "queue_step\<^sup>*\<^sup>* (threads_start q) s" "length (qt_log s) < 2 ^ 63"
  shows "(\<forall>(t, pos, x) \<in> set (qt_out s). unat pos < length (qt_log s) \<and> x = qt_log s ! unat pos)
    \<and> distinct (tickets (qt_out s)) \<and> (\<forall>t. sorted_wrt (<) (tickets_of t (qt_out s)))
    \<and> length (qt_log s) \<le> qt_claims s + unat (cq_capacity (qt_queue s))
    \<and> ((\<forall>t. reading (qt_phase s t) = None) \<longrightarrow> set (tickets (qt_out s)) = {0..<qt_claims s}
         \<and> (\<forall>c. (\<forall>e \<in> set (qt_out s). fst e = c) \<longrightarrow> map (\<lambda>(t, pos, x). x) (qt_out s) = take (qt_claims s) (qt_log s)))"
proof -
  obtain k where "ring (2 ^ k) q 0 []"
    using mev_queue_create_ring [OF assms(1,2)] assms(3) by (auto simp: ffi_queue_new_def)
  then have inv: "q_inv (2 ^ k) s"
    by (intro inv_reachable [OF assms(4) inv_start assms(5)])
  note parts = inv_parts [OF inv]
  have "unat (cq_capacity (qt_queue s)) = 2 ^ k" "qt_claims s \<le> length (qt_log s)" "length (qt_log s) \<le> qt_claims s + 2 ^ k"
    using parts(1) unat_power_64 by (auto simp: q_shape_def)
  moreover have "set (tickets (qt_out s)) = {0..<qt_claims s}" if "\<forall>t. reading (qt_phase s t) = None"
    using outs_complete [OF parts(5)] that by simp
  moreover have "\<forall>(t, pos, x) \<in> set (qt_out s). unat pos < qt_claims s \<and> x = qt_log s ! unat pos"
    "distinct (tickets (qt_out s)) \<and> (\<forall>t. sorted_wrt (<) (tickets_of t (qt_out s)))"
    using parts(5) unfolding q_outs_def by blast+
  ultimately show ?thesis
    using one_consumer [OF inv] by auto
qed

text \<open>Two producers race for the first slot; the loser publishes first; then a consumer takes both items.\<close>

definition race_schedule :: "q_action list" where
  "race_schedule =
    [CallPush 0 7, CallPush 1 8, TurnPush False 0, TurnPush False 1, TurnPush False 0, TurnPush False 1, TurnPush False 0,
     TurnPush False 1, TurnPush False 1, TurnPush False 1, TurnPush False 1, TurnPush False 1, TurnPush False 0, TurnPush False 0]
    @ [CallPop 2] @ replicate 5 (TurnPop False 2) @ [CallPop 2] @ replicate 5 (TurnPop False 2)"

fun actor :: "q_action \<Rightarrow> nat" where
  "actor (CallPush t x) = t"
| "actor (CallPop t) = t"
| "actor (TurnPush weak t) = t"
| "actor (TurnPop weak t) = t"

lemma schedule_other: "t \<notin> actor ` set acts \<Longrightarrow> qt_phase (queue_schedule acts s) t = qt_phase s t"
  by (induction acts s rule: queue_schedule.induct)
    (simp_all add: push_turn_def pop_turn_def Let_def split: q_phase.split)

lemma two_slots:
  "ffi_queue_new True 2 = Done (Some \<lparr>cq_seq = [0, 1], cq_data = [0, 0], cq_capacity = 2, cq_mask = 1, cq_head = 0, cq_tail = 0\<rparr>)"
  by code_simp

lemma race_result:
  assumes "ffi_queue_new True 2 = Done (Some q)"
  defines "s \<equiv> queue_schedule race_schedule (threads_start q)"
  shows "qt_log s = [7, 8]" "qt_claims s = 2" "qt_out s = [(2, 0, 7), (2, 1, 8)]" "reading (qt_phase s t) = None"
proof -
  have q: "q = \<lparr>cq_seq = [0, 1], cq_data = [0, 0], cq_capacity = 2, cq_mask = 1, cq_head = 0, cq_tail = 0\<rparr>"
    using assms(1) by (simp add: two_slots)
  show "qt_log s = [7, 8]" "qt_claims s = 2" "qt_out s = [(2, 0, 7), (2, 1, 8)]"
    unfolding s_def q by code_simp+
  have "t \<notin> {0, 1, 2} \<Longrightarrow> qt_phase s t = Idle"
    using schedule_other [of t race_schedule "threads_start q"] by (simp add: s_def race_schedule_def threads_start_def)
  moreover have "qt_phase s 0 = Idle" "qt_phase s 1 = Idle" "qt_phase s 2 = Idle"
    unfolding s_def q by code_simp+
  ultimately have "qt_phase s t = Idle"
    by (cases "t \<in> {0, 1, 2}") auto
  then show "reading (qt_phase s t) = None"
    by simp
qed

theorem c_queue_threads_safe_witness:
  "\<exists>q s. ffi_queue_new True 2 = Done (Some q) \<and> queue_step\<^sup>*\<^sup>* (threads_start q) s \<and> qt_log s = [7, 8]
    \<and> distinct (tickets (qt_out s)) \<and> set (tickets (qt_out s)) = {0..<2} \<and> map (\<lambda>(t, pos, x). x) (qt_out s) = [7, 8]"
proof -
  obtain q where q: "ffi_queue_new True 2 = Done (Some q)"
    by (simp add: ffi_queue_new_def mev_queue_create_def)
  let ?s = "queue_schedule race_schedule (threads_start q)"
  note result = race_result [OF q]
  have "distinct (tickets (qt_out ?s)) \<and> set (tickets (qt_out ?s)) = {0..<2} \<and> map (\<lambda>(t, pos, x). x) (qt_out ?s) = take 2 [7, 8]"
    using c_queue_threads_safe [OF _ _ q queue_schedule_reachable, of race_schedule] by (simp add: result)
  with q result(1) queue_schedule_reachable show ?thesis
    by (intro exI [of _ q] exI [of _ ?s]) auto
qed

end
