(* ===== verification/C_Pool.thy ===== *)
theory C_Pool
  imports C_Queue
begin

text \<open>
  The block pools of \<^verbatim>\<open>fast/src/memory_pool.c\<close> and the transaction buffer of \<^verbatim>\<open>core/src/ffi/hot_path.rs\<close> that takes
  its bytes from them, with one caller at a time. The allocator of the C library is a parameter: the addresses it
  will hand out, 0 for a failure, and the sizes of the live blocks. The theory shows when two buffers never share a
  block, and that the pool hands out one block twice once more than 1024 blocks circulate.
\<close>

section \<open>Pools\<close>

record c_heap =
  hp_supply :: "u64 list"
  hp_size :: "u64 \<rightharpoonup> u64"

definition alloc_aligned :: "u64 \<Rightarrow> c_heap \<Rightarrow> u64 \<times> c_heap" where
  "alloc_aligned bytes h =
    (case hp_supply h of
       [] \<Rightarrow> (0, h)
     | a # rest \<Rightarrow>
         (if a = 0 then (0, h\<lparr>hp_supply := rest\<rparr>)
          else (a, h\<lparr>hp_supply := rest, hp_size := (hp_size h)(a \<mapsto> bytes)\<rparr>)))"

definition c_free :: "u64 \<Rightarrow> c_heap \<Rightarrow> c_heap" where
  "c_free a h = h\<lparr>hp_size := (hp_size h)(a := None)\<rparr>"

record mev_memory_pool =
  mp_blocks :: "u64 list"
  mp_head :: u32
  mp_tail :: u32
  mp_count :: u32
  mp_block_size :: u64

abbreviation POOL_MAX_BLOCKS :: nat where
  "POOL_MAX_BLOCKS \<equiv> 1024"

text \<open>A pool before initialisation is static memory, all zero.\<close>

definition static_pool :: mev_memory_pool where
  "static_pool = \<lparr>mp_blocks = replicate POOL_MAX_BLOCKS 0, mp_head = 0, mp_tail = 0, mp_count = 0, mp_block_size = 0\<rparr>"

text \<open>The pre-allocation loop, from round \<open>i\<close> with \<open>n\<close> rounds left.\<close>

fun fill_blocks :: "nat \<Rightarrow> nat \<Rightarrow> mev_memory_pool \<Rightarrow> c_heap \<Rightarrow> mev_memory_pool \<times> c_heap \<times> i32" where
  "fill_blocks i 0 pool h = (pool, h, 0)"
| "fill_blocks i (Suc n) pool h =
    (if POOL_MAX_BLOCKS \<le> i then (pool, h, 0)
     else
       let (block, h1) = alloc_aligned (mp_block_size pool) h
       in if block = 0 then (pool, h1, - 1)
          else fill_blocks (Suc i) n
                 (pool\<lparr>mp_blocks := (mp_blocks pool)[i := block], mp_count := mp_count pool + 1, mp_tail := of_nat (i + 1)\<rparr>) h1)"

definition pool_init :: "u64 \<Rightarrow> nat \<Rightarrow> c_heap \<Rightarrow> mev_memory_pool \<times> c_heap \<times> i32" where
  "pool_init block_size initial_blocks h = fill_blocks 0 initial_blocks (static_pool\<lparr>mp_block_size := block_size\<rparr>) h"

definition pool_get :: "mev_memory_pool \<Rightarrow> c_heap \<Rightarrow> u64 \<times> mev_memory_pool \<times> c_heap" where
  "pool_get pool h =
    (if mp_tail pool \<le> mp_head pool
     then let (block, h1) = alloc_aligned (mp_block_size pool) h in (block, pool, h1)
     else (mp_blocks pool ! (unat (mp_head pool) mod POOL_MAX_BLOCKS), pool\<lparr>mp_head := mp_head pool + 1\<rparr>, h))"

definition pool_put :: "u64 \<Rightarrow> mev_memory_pool \<Rightarrow> c_heap \<Rightarrow> mev_memory_pool \<times> c_heap" where
  "pool_put block pool h =
    (if block = 0 then (pool, h)
     else if of_nat POOL_MAX_BLOCKS \<le> mp_count pool then (pool, c_free block h)
     else
       (pool\<lparr>mp_tail := mp_tail pool + 1, mp_blocks := (mp_blocks pool)[unat (mp_tail pool) mod POOL_MAX_BLOCKS := block]\<rparr>, h))"

section \<open>The three pools and the transaction buffer\<close>

record c_pools =
  g_tx_pool :: mev_memory_pool
  g_calldata_pool :: mev_memory_pool
  g_result_pool :: mev_memory_pool
  g_pools_initialized :: bool

definition static_pools :: c_pools where
  "static_pools = \<lparr>g_tx_pool = static_pool, g_calldata_pool = static_pool, g_result_pool = static_pool, g_pools_initialized = False\<rparr>"

definition mev_pools_init :: "c_pools \<Rightarrow> c_heap \<Rightarrow> c_pools \<times> c_heap \<times> i32" where
  "mev_pools_init g h =
    (if g_pools_initialized g then (g, h, 0)
     else
       let (tx, h1, r1) = pool_init 512 256 h; g1 = g\<lparr>g_tx_pool := tx\<rparr>
       in if r1 \<noteq> 0 then (g1, h1, - 1)
          else
            let (calldata, h2, r2) = pool_init 2048 128 h1; g2 = g1\<lparr>g_calldata_pool := calldata\<rparr>
            in if r2 \<noteq> 0 then (g2, h2, - 1)
               else
                 let (result, h3, r3) = pool_init 256 512 h2; g3 = g2\<lparr>g_result_pool := result\<rparr>
                 in if r3 \<noteq> 0 then (g3, h3, - 1)
                    else (g3\<lparr>g_pools_initialized := True\<rparr>, h3, 0))"

definition init_pools_ffi :: "c_pools \<Rightarrow> c_heap \<Rightarrow> c_pools \<times> c_heap \<times> bool" where
  "init_pools_ffi g h = (let (g1, h1, r) = mev_pools_init g h in (g1, h1, r = 0))"

record TxBufferC =
  tc_ptr :: u64
  tc_len :: usize

text \<open>The buffers a caller holds.\<close>

record tx_world =
  tw_pools :: c_pools
  tw_heap :: c_heap
  tw_held :: "TxBufferC list"

definition txbuf_new_ffi :: "tx_world \<Rightarrow> tx_world \<times> TxBufferC option" where
  "txbuf_new_ffi w =
    (let (ptr, tx, h) = pool_get (g_tx_pool (tw_pools w)) (tw_heap w);
         w1 = w\<lparr>tw_pools := (tw_pools w)\<lparr>g_tx_pool := tx\<rparr>, tw_heap := h\<rparr>
     in (w1, if ptr = 0 then None else Some \<lparr>tc_ptr = ptr, tc_len = 0\<rparr>))"

definition txbuf_drop_ffi :: "TxBufferC \<Rightarrow> tx_world \<Rightarrow> tx_world" where
  "txbuf_drop_ffi b w =
    (let (tx, h) = pool_put (tc_ptr b) (g_tx_pool (tw_pools w)) (tw_heap w)
     in w\<lparr>tw_pools := (tw_pools w)\<lparr>g_tx_pool := tx\<rparr>, tw_heap := h\<rparr>)"

text \<open>A slice is its first address and its length.\<close>

definition as_slice_ffi :: "TxBufferC \<Rightarrow> u64 \<times> usize" where
  "as_slice_ffi b = (tc_ptr b, tc_len b)"

definition as_mut_slice_ffi :: "TxBufferC \<Rightarrow> usize \<Rightarrow> TxBufferC \<times> (u64 \<times> usize)" where
  "as_mut_slice_ffi b len = (let b' = b\<lparr>tc_len := min len 512\<rparr> in (b', tc_ptr b', tc_len b'))"

text \<open>What a caller can do: create a buffer and keep it, or drop one it holds.\<close>

definition hold_new :: "tx_world \<Rightarrow> tx_world" where
  "hold_new w =
    (case txbuf_new_ffi w of
       (w1, None) \<Rightarrow> w1
     | (w1, Some b) \<Rightarrow> w1\<lparr>tw_held := b # tw_held w1\<rparr>)"

definition drop_held :: "nat \<Rightarrow> tx_world \<Rightarrow> tx_world" where
  "drop_held i w = (txbuf_drop_ffi (tw_held w ! i) w)\<lparr>tw_held := take i (tw_held w) @ drop (Suc i) (tw_held w)\<rparr>"

text \<open>A caller that holds at most 1024 buffers.\<close>

inductive buffer_step :: "tx_world \<Rightarrow> tx_world \<Rightarrow> bool" where
  new_buffer: "length (tw_held w) < POOL_MAX_BLOCKS \<Longrightarrow> buffer_step w (hold_new w)"
| drop_buffer: "i < length (tw_held w) \<Longrightarrow> buffer_step w (drop_held i w)"

section \<open>The blocks of a pool\<close>

text \<open>\<open>pool_holds pool h ys\<close>: \<open>h\<close> blocks have been taken and \<open>ys\<close> are available, in the order they will be handed out.\<close>

definition pool_holds :: "mev_memory_pool \<Rightarrow> nat \<Rightarrow> u64 list \<Rightarrow> bool" where
  "pool_holds pool h ys \<longleftrightarrow> length (mp_blocks pool) = POOL_MAX_BLOCKS \<and> unat (mp_head pool) = h
    \<and> unat (mp_tail pool) = h + length ys \<and> length ys \<le> POOL_MAX_BLOCKS \<and> unat (mp_count pool) < POOL_MAX_BLOCKS
    \<and> (\<forall>j < length ys. mp_blocks pool ! ((h + j) mod POOL_MAX_BLOCKS) = ys ! j)"

lemma pool_get_empty:
  "pool_holds pool h [] \<Longrightarrow> pool_get pool hp = (let (block, h1) = alloc_aligned (mp_block_size pool) hp in (block, pool, h1))"
  by (simp add: pool_holds_def pool_get_def word_le_nat_alt)

lemma unat_succ_32:
  assumes "unat (x :: u32) + 1 < 2 ^ 32"
  shows "unat (x + 1) = unat x + 1"
  using assms unat_add_lem [of x 1] by simp

lemma pool_get_next:
  assumes "pool_holds pool h (y # ys)"
  shows "\<exists>pool'. pool_get pool hp = (y, pool', hp) \<and> pool_holds pool' (h + 1) ys \<and> mp_block_size pool' = mp_block_size pool"
proof -
  have r: "unat (mp_head pool) = h" "unat (mp_tail pool) = h + Suc (length ys)"
    and nth: "\<And>j. j < Suc (length ys) \<Longrightarrow> mp_blocks pool ! ((h + j) mod POOL_MAX_BLOCKS) = (y # ys) ! j"
    using assms by (auto simp: pool_holds_def)
  have "unat (mp_tail pool) < 2 ^ 32"
    using unsigned_less [of "mp_tail pool"] by simp
  with r have "unat (mp_head pool + 1) = h + 1"
    using unat_succ_32 [of "mp_head pool"] by simp
  moreover have "mp_blocks pool ! (h mod POOL_MAX_BLOCKS) = y"
    using nth [of 0] by simp
  moreover have "mp_blocks pool ! ((h + 1 + j) mod POOL_MAX_BLOCKS) = ys ! j" if "j < length ys" for j
    using nth [of "Suc j"] that by simp
  ultimately show ?thesis
    using assms r by (simp add: pool_get_def pool_holds_def word_le_nat_alt)
qed

lemma pool_put_holds:
  assumes "pool_holds pool h ys" "length ys < POOL_MAX_BLOCKS" "block \<noteq> 0" "h + length ys + 1 < 2 ^ 32"
  shows "\<exists>pool'. pool_put block pool hp = (pool', hp) \<and> pool_holds pool' h (ys @ [block]) \<and> mp_block_size pool' = mp_block_size pool"
proof -
  let ?t = "h + length ys"
  have r: "unat (mp_tail pool) = ?t" "unat (mp_count pool) < POOL_MAX_BLOCKS" "length (mp_blocks pool) = POOL_MAX_BLOCKS"
    using assms(1) by (auto simp: pool_holds_def)
  have "unat (mp_tail pool + 1) = ?t + 1"
    using assms(4) r(1) by (subst unat_succ_32) simp_all
  moreover have "\<not> of_nat POOL_MAX_BLOCKS \<le> mp_count pool"
    using r(2) by (simp add: word_le_nat_alt)
  moreover have "(mp_blocks pool)[?t mod POOL_MAX_BLOCKS := block] ! ((h + j) mod POOL_MAX_BLOCKS) = (ys @ [block]) ! j"
    if "j < Suc (length ys)" for j
    using that assms(1,2) ring_slots_differ [of j POOL_MAX_BLOCKS "length ys" h] r(3)
    by (cases "j = length ys") (auto simp: pool_holds_def nth_append)
  ultimately show ?thesis
    using assms r by (simp add: pool_put_def pool_holds_def)
qed

section \<open>Initialisation\<close>

text \<open>The C library's promise: an address it hands out is not that of a live block.\<close>

definition supply_ok :: "c_heap \<Rightarrow> bool" where
  "supply_ok h \<longleftrightarrow> distinct (filter (\<lambda>a. a \<noteq> 0) (hp_supply h)) \<and> (\<forall>a \<in> set (hp_supply h). a \<noteq> 0 \<longrightarrow> hp_size h a = None)"

lemma alloc_aligned_cases:
  assumes "supply_ok h" "alloc_aligned bytes h = (a, h')"
  obtains "a = 0" "hp_size h' = hp_size h" "supply_ok h'"
  | "a \<noteq> 0" "hp_size h a = None" "hp_size h' = (hp_size h)(a \<mapsto> bytes)" "supply_ok h'"
  using assms by (fastforce simp: alloc_aligned_def supply_ok_def split: list.splits if_splits)

definition heap_extends :: "c_heap \<Rightarrow> c_heap \<Rightarrow> bool" where
  "heap_extends h h' \<longleftrightarrow> (\<forall>a. hp_size h a \<noteq> None \<longrightarrow> hp_size h' a = hp_size h a)"

text \<open>\<open>fresh_blocks bytes h h' bs\<close>: between \<open>h\<close> and \<open>h'\<close> the blocks \<open>bs\<close> were allocated.\<close>

definition fresh_blocks :: "u64 \<Rightarrow> c_heap \<Rightarrow> c_heap \<Rightarrow> u64 list \<Rightarrow> bool" where
  "fresh_blocks bytes h h' bs \<longleftrightarrow> distinct bs \<and> (\<forall>b \<in> set bs. b \<noteq> 0 \<and> hp_size h b = None \<and> hp_size h' b = Some bytes)"

lemma fresh_blocks_Cons:
  assumes "a \<noteq> 0" "hp_size h a = None" "hp_size h1 = (hp_size h)(a \<mapsto> bytes)" "fresh_blocks bytes h1 h' bs" "heap_extends h1 h'"
  shows "fresh_blocks bytes h h' (a # bs)" "heap_extends h h'"
  using assms by (auto simp: fresh_blocks_def heap_extends_def split: if_splits)

lemma fill_blocks_holds:
  assumes "fill_blocks i n pool h = (pool', h', 0)" "pool_holds pool 0 ys" "length ys = i" "unat (mp_count pool) = i" "i + n < POOL_MAX_BLOCKS"
    "supply_ok h"
  shows "\<exists>new. pool_holds pool' 0 (ys @ new) \<and> length new = n \<and> fresh_blocks (mp_block_size pool) h h' new \<and> supply_ok h'
    \<and> heap_extends h h' \<and> mp_block_size pool' = mp_block_size pool"
  using assms
proof (induction i n pool h arbitrary: ys rule: fill_blocks.induct)
  case (1 i pool h)
  then show ?case by (auto simp: fresh_blocks_def heap_extends_def)
next
  case (2 i n pool h)
  obtain a h1 where a: "alloc_aligned (mp_block_size pool) h = (a, h1)"
    by fastforce
  let ?pool = "pool\<lparr>mp_blocks := (mp_blocks pool)[i := a], mp_count := mp_count pool + 1, mp_tail := of_nat (i + 1)\<rparr>"
  from \<open>supply_ok h\<close> a show ?case
  proof (cases rule: alloc_aligned_cases)
    case 1
    with 2 a show ?thesis by simp
  next
    case alloc: 2
    have run: "fill_blocks (Suc i) n ?pool h1 = (pool', h', 0)"
      using 2(2,6) a alloc(1) by simp
    have count: "unat (mp_count pool + 1) = Suc i"
      using unat_succ_32 [of "mp_count pool"] 2(5,6) by simp
    have "unat (of_nat (i + 1) :: u32) = i + 1"
      using 2(6) by (subst unat_of_nat) simp
    moreover have "(mp_blocks pool)[i := a] ! (j mod POOL_MAX_BLOCKS) = (ys @ [a]) ! j" if "j < Suc i" for j
      using that 2(3,4,6) by (cases "j = i") (auto simp: pool_holds_def nth_append)
    ultimately have "pool_holds ?pool 0 (ys @ [a])"
      using 2(3,4,6) count by (simp add: pool_holds_def)
    then obtain new where "pool_holds pool' 0 ((ys @ [a]) @ new)" "length new = n"
      "fresh_blocks (mp_block_size pool) h1 h' new" "supply_ok h'" "heap_extends h1 h'" "mp_block_size pool' = mp_block_size pool"
      using 2(1) [OF _ a [symmetric] refl alloc(1), of "ys @ [a]"] run count alloc(4) 2(4,6) by auto
    with fresh_blocks_Cons [OF alloc(1-3)] show ?thesis
      by (intro exI [of _ "a # new"]) auto
  qed
qed

lemma pool_init_holds:
  assumes "pool_init bytes n h = (pool, h', 0)" "n < POOL_MAX_BLOCKS" "supply_ok h"
  shows "\<exists>bs. pool_holds pool 0 bs \<and> length bs = n \<and> fresh_blocks bytes h h' bs \<and> supply_ok h' \<and> heap_extends h h'
    \<and> mp_block_size pool = bytes"
  using fill_blocks_holds [of 0 n "static_pool\<lparr>mp_block_size := bytes\<rparr>" h pool h' "[]"] assms
  by (simp add: pool_init_def pool_holds_def static_pool_def)

section \<open>Buffers do not share blocks\<close>

definition buffers_ok :: "nat \<Rightarrow> tx_world \<Rightarrow> bool" where
  "buffers_ok n w \<longleftrightarrow> (\<exists>h ys. pool_holds (g_tx_pool (tw_pools w)) h ys \<and> mp_block_size (g_tx_pool (tw_pools w)) = 512
     \<and> h + length ys \<le> 256 + n \<and> distinct (map tc_ptr (tw_held w) @ ys) \<and> length (tw_held w) + length ys \<le> POOL_MAX_BLOCKS
     \<and> (\<forall>b \<in> set (map tc_ptr (tw_held w) @ ys). b \<noteq> 0 \<and> hp_size (tw_heap w) b = Some 512)) \<and> supply_ok (tw_heap w)"

lemma buffers_ok_init:
  assumes "supply_ok h" "init_pools_ffi static_pools h = (g, h', True)"
  shows "buffers_ok 0 \<lparr>tw_pools = g, tw_heap = h', tw_held = []\<rparr>"
proof -
  obtain tx h1 r1 cd h2 r2 re h3 r3 where init: "pool_init 512 256 h = (tx, h1, r1)" "pool_init 2048 128 h1 = (cd, h2, r2)"
    "pool_init 256 512 h2 = (re, h3, r3)"
    by (metis prod_cases3)
  then have ok: "r1 = 0" "r2 = 0" "r3 = 0" and g: "g_tx_pool g = tx" "h' = h3"
    using assms(2) by (auto simp: init_pools_ffi_def mev_pools_init_def static_pools_def Let_def split: if_splits)
  obtain bs where tx: "pool_holds tx 0 bs" "length bs = 256" "fresh_blocks 512 h h1 bs" "supply_ok h1" "mp_block_size tx = 512"
    using pool_init_holds [of 512 256 h tx h1] init ok assms(1) by auto
  have rest: "supply_ok h2" "heap_extends h1 h2"
    using pool_init_holds [of 2048 128 h1 cd h2] init ok tx(4) by auto
  have "supply_ok h3" "heap_extends h2 h3"
    using pool_init_holds [of 256 512 h2 re h3] init ok rest(1) by auto
  with rest tx g show ?thesis
    unfolding buffers_ok_def by (intro conjI exI [of _ 0] exI [of _ bs]) (auto simp: fresh_blocks_def heap_extends_def)
qed

lemma hold_new_ok:
  assumes "buffers_ok n w" "length (tw_held w) < POOL_MAX_BLOCKS"
  shows "buffers_ok (Suc n) (hold_new w)"
proof -
  obtain h ys where ok: "pool_holds (g_tx_pool (tw_pools w)) h ys" "mp_block_size (g_tx_pool (tw_pools w)) = 512"
    "h + length ys \<le> 256 + n" "distinct (map tc_ptr (tw_held w) @ ys)" "length (tw_held w) + length ys \<le> POOL_MAX_BLOCKS"
    "\<forall>b \<in> set (map tc_ptr (tw_held w) @ ys). b \<noteq> 0 \<and> hp_size (tw_heap w) b = Some 512" "supply_ok (tw_heap w)"
    using assms(1) by (auto simp: buffers_ok_def)
  show ?thesis
  proof (cases ys)
    case Nil
    obtain a h1 where a: "alloc_aligned 512 (tw_heap w) = (a, h1)"
      by fastforce
    then have get: "pool_get (g_tx_pool (tw_pools w)) (tw_heap w) = (a, g_tx_pool (tw_pools w), h1)"
      using pool_get_empty ok(1,2) Nil by simp
    from ok(7) a show ?thesis
    proof (cases rule: alloc_aligned_cases)
      case 1
      with get ok Nil show ?thesis
        unfolding buffers_ok_def by (intro conjI exI [of _ h] exI [of _ "[]"]) (auto simp: hold_new_def txbuf_new_ffi_def)
    next
      case 2
      with ok(6) have "a \<notin> tc_ptr ` set (tw_held w)"
        by auto
      with 2 get ok Nil assms(2) show ?thesis
        unfolding buffers_ok_def by (intro conjI exI [of _ h] exI [of _ "[]"]) (auto simp: hold_new_def txbuf_new_ffi_def)
    qed
  next
    case (Cons y zs)
    obtain pool where get: "pool_get (g_tx_pool (tw_pools w)) (tw_heap w) = (y, pool, tw_heap w)"
      and "pool_holds pool (h + 1) zs" "mp_block_size pool = 512"
      using pool_get_next [of "g_tx_pool (tw_pools w)" h y zs "tw_heap w"] ok(1,2) Cons by auto
    with ok Cons show ?thesis
      unfolding buffers_ok_def by (intro conjI exI [of _ "h + 1"] exI [of _ zs]) (auto simp: hold_new_def txbuf_new_ffi_def)
  qed
qed

lemma drop_held_ok:
  assumes "buffers_ok n w" "i < length (tw_held w)" "n + 257 < 2 ^ 32"
  shows "buffers_ok (Suc n) (drop_held i w)"
proof -
  obtain h ys where ok: "pool_holds (g_tx_pool (tw_pools w)) h ys" "mp_block_size (g_tx_pool (tw_pools w)) = 512"
    "h + length ys \<le> 256 + n" "distinct (map tc_ptr (tw_held w) @ ys)" "length (tw_held w) + length ys \<le> POOL_MAX_BLOCKS"
    "\<forall>b \<in> set (map tc_ptr (tw_held w) @ ys). b \<noteq> 0 \<and> hp_size (tw_heap w) b = Some 512" "supply_ok (tw_heap w)"
    using assms(1) by (auto simp: buffers_ok_def)
  define b where "b = tw_held w ! i"
  define before where "before = take i (tw_held w)"
  define after where "after = drop (Suc i) (tw_held w)"
  have held: "tw_held w = before @ b # after"
    using assms(2) by (simp add: before_def b_def after_def id_take_nth_drop)
  have "length ys < POOL_MAX_BLOCKS" "tc_ptr b \<noteq> 0" "h + length ys + 1 < 2 ^ 32"
    using ok(3,5,6) held assms(3) by auto
  then obtain pool where put: "pool_put (tc_ptr b) (g_tx_pool (tw_pools w)) (tw_heap w) = (pool, tw_heap w)"
    and pool: "pool_holds pool h (ys @ [tc_ptr b])" "mp_block_size pool = 512"
    using pool_put_holds [OF ok(1)] ok(2) by metis
  have w: "drop_held i w = w\<lparr>tw_pools := (tw_pools w)\<lparr>g_tx_pool := pool\<rparr>, tw_held := before @ after\<rparr>"
    using put by (simp add: drop_held_def txbuf_drop_ffi_def b_def before_def after_def)
  from ok held pool show ?thesis
    unfolding buffers_ok_def w by (intro conjI exI [of _ h] exI [of _ "ys @ [tc_ptr b]"]) auto
qed

lemma buffers_ok_steps:
  assumes "(buffer_step ^^ n) w w'" "buffers_ok 0 w" "n + 256 < 2 ^ 32"
  shows "buffers_ok n w'"
  using assms(1,3)
proof (induction n arbitrary: w')
  case 0
  with assms(2) show ?case by simp
next
  case (Suc n)
  from Suc.prems(1) obtain w1 where "(buffer_step ^^ n) w w1" "buffer_step w1 w'"
    by auto
  with Suc show ?case
    by (auto elim!: buffer_step.cases intro: hold_new_ok drop_held_ok)
qed

text \<open>Initialisation succeeds when the library has the 896 blocks.\<close>

lemma fill_blocks_succeeds:
  assumes "n \<le> length (hp_supply h)" "0 \<notin> set (take n (hp_supply h))"
  shows "\<exists>pool' h'. fill_blocks i n pool h = (pool', h', 0) \<and> (i + n \<le> POOL_MAX_BLOCKS \<longrightarrow> hp_supply h' = drop n (hp_supply h))"
  using assms
proof (induction i n pool h rule: fill_blocks.induct)
  case (2 i n pool h)
  then obtain a rest where "hp_supply h = a # rest"
    by (cases "hp_supply h") auto
  with 2 show ?case
    by (auto simp: alloc_aligned_def)
qed simp

lemma init_pools_succeeds:
  assumes "896 \<le> length (hp_supply h)" "0 \<notin> set (hp_supply h)"
  shows "\<exists>g h'. init_pools_ffi static_pools h = (g, h', True)"
proof -
  have init: "\<exists>pool h'. pool_init bytes n h = (pool, h', 0) \<and> hp_supply h' = drop n (hp_supply h)"
    if "n \<le> length (hp_supply h)" "0 \<notin> set (hp_supply h)" "n \<le> POOL_MAX_BLOCKS" for bytes n h
    using fill_blocks_succeeds [of n h 0] that by (fastforce simp: pool_init_def dest: in_set_takeD)
  have rest: "0 \<notin> set (drop m (hp_supply h))" for m
    using assms(2) by (meson in_set_dropD)
  have "128 \<le> length (hp_supply h) - 256" "512 \<le> length (hp_supply h) - 384"
    using assms(1) by linarith+
  note rest = rest this
  obtain tx h1 where h1: "pool_init 512 256 h = (tx, h1, 0)" "hp_supply h1 = drop 256 (hp_supply h)"
    using init [of 256 h 512] assms by auto
  obtain cd h2 where h2: "pool_init 2048 128 h1 = (cd, h2, 0)" "hp_supply h2 = drop 384 (hp_supply h)"
    using init [of 128 h1 2048] assms(1) h1(2) rest by auto
  obtain re h3 where "pool_init 256 512 h2 = (re, h3, 0)"
    using init [of 512 h2 256] assms(1) h2(2) rest by auto
  with h1(1) h2(1) show ?thesis
    by (simp add: init_pools_ffi_def mev_pools_init_def static_pools_def)
qed

text \<open>C30: after \<open>init_pools\<close> has succeeded, a caller that never holds more than 1024 transaction buffers at a time (and makes
  fewer than \<open>2 ^ 32 - 256\<close> calls) always gets buffers with a block of their own: no two of the buffers it holds share an
  address, every block is live and 512 bytes long, and no slice of a buffer is longer than its block.\<close>

theorem tx_buffers_disjoint:
  assumes "supply_ok h" "init_pools_ffi static_pools h = (g, h', True)"
    "(buffer_step ^^ n) \<lparr>tw_pools = g, tw_heap = h', tw_held = []\<rparr> w" "n + 256 < 2 ^ 32"
  shows "distinct (map tc_ptr (tw_held w))
    \<and> (\<forall>b \<in> set (tw_held w). hp_size (tw_heap w) (tc_ptr b) = Some 512 \<and> snd (snd (as_mut_slice_ffi b len)) \<le> 512)"
  using buffers_ok_steps [OF assms(3) buffers_ok_init [OF assms(1,2)] assms(4)]
  by (auto simp: buffers_ok_def as_mut_slice_ffi_def Let_def)

lemma numbers_nonzero: "n \<le> 2 ^ 64 \<Longrightarrow> 0 \<notin> set (map of_nat [1..<n] :: u64 list)"
  by (auto simp: word_of_nat_eq_0_iff nat_dvd_not_less)

definition plain_heap :: c_heap where
  "plain_heap = \<lparr>hp_supply = map of_nat [1..<2000], hp_size = Map.empty\<rparr>"

lemma plain_heap_ok: "supply_ok plain_heap" "896 \<le> length (hp_supply plain_heap)" "0 \<notin> set (hp_supply plain_heap)"
proof -
  have "inj_on (of_nat :: nat \<Rightarrow> u64) {1..<2000}"
    by (rule inj_onI) (auto simp: word_of_nat_eq_iff take_bit_nat_eq_self)
  then have "distinct (hp_supply plain_heap)"
    by (simp add: plain_heap_def distinct_map del: upt_rec_numeral)
  then show "supply_ok plain_heap"
    by (simp add: supply_ok_def plain_heap_def del: upt_rec_numeral)
  show "0 \<notin> set (hp_supply plain_heap)"
    using numbers_nonzero [of 2000] by (simp add: plain_heap_def del: upt_rec_numeral set_upt)
qed (simp add: plain_heap_def del: upt_rec_numeral)

theorem tx_buffers_disjoint_witness:
  "\<exists>g h'. init_pools_ffi static_pools plain_heap = (g, h', True)
    \<and> (\<forall>w. w = hold_new (hold_new \<lparr>tw_pools = g, tw_heap = h', tw_held = []\<rparr>) \<longrightarrow> distinct (map tc_ptr (tw_held w)))"
proof -
  obtain g h' where g: "init_pools_ffi static_pools plain_heap = (g, h', True)"
    using init_pools_succeeds [OF plain_heap_ok(2,3)] by blast
  let ?w = "\<lparr>tw_pools = g, tw_heap = h', tw_held = []\<rparr>"
  have "buffer_step ?w (hold_new ?w)" "buffer_step (hold_new ?w) (hold_new (hold_new ?w))"
    by (intro new_buffer; simp add: hold_new_def txbuf_new_ffi_def Let_def split: prod.split option.split)+
  then have "(buffer_step ^^ 2) ?w (hold_new (hold_new ?w))"
    by (auto simp: numeral_2_eq_2)
  from tx_buffers_disjoint [OF plain_heap_ok(1) g this] g show ?thesis by auto
qed

section \<open>Blocks handed out twice\<close>

text \<open>Buffers that are taken from an empty or filled pool, and given back one after the other.\<close>

fun get_all :: "nat \<Rightarrow> mev_memory_pool \<Rightarrow> c_heap \<Rightarrow> u64 list \<times> mev_memory_pool \<times> c_heap" where
  "get_all 0 pool h = ([], pool, h)"
| "get_all (Suc n) pool h =
    (let (b, pool1, h1) = pool_get pool h; (bs, pool2, h2) = get_all n pool1 h1 in (b # bs, pool2, h2))"

fun put_all :: "u64 list \<Rightarrow> mev_memory_pool \<Rightarrow> c_heap \<Rightarrow> mev_memory_pool \<times> c_heap" where
  "put_all [] pool h = (pool, h)"
| "put_all (b # bs) pool h = (let (pool1, h1) = pool_put b pool h in put_all bs pool1 h1)"

lemma put_all_fields:
  assumes "0 \<notin> set cs" "unat (mp_count pool) < POOL_MAX_BLOCKS" "unat (mp_tail pool) + length cs < 2 ^ 32"
  shows "\<exists>pool'. put_all cs pool h = (pool', h) \<and> mp_head pool' = mp_head pool \<and> unat (mp_tail pool') = unat (mp_tail pool) + length cs
    \<and> length (mp_blocks pool') = length (mp_blocks pool) \<and> mp_count pool' = mp_count pool"
  using assms
proof (induction cs arbitrary: pool)
  case (Cons c cs)
  have "\<not> of_nat POOL_MAX_BLOCKS \<le> mp_count pool"
    using Cons.prems(2) by (simp add: word_le_nat_alt)
  moreover have "unat (mp_tail pool + 1) = unat (mp_tail pool) + 1"
    using Cons.prems(3) by (intro unat_succ_32) simp
  ultimately show ?case
    using Cons.prems Cons.IH [of "fst (pool_put c pool h)"] by (auto simp: pool_put_def)
qed simp

lemma put_all_append: "put_all (xs @ ys) pool h = (let (pool1, h1) = put_all xs pool h in put_all ys pool1 h1)"
  by (induction xs arbitrary: pool h) (auto split: prod.split)

lemma get_all_pooled:
  assumes "unat (mp_head pool) + n \<le> unat (mp_tail pool)"
  shows "\<exists>pool'. get_all n pool h = (map (\<lambda>i. mp_blocks pool ! ((unat (mp_head pool) + i) mod POOL_MAX_BLOCKS)) [0..<n], pool', h)"
  using assms
proof (induction n arbitrary: pool)
  case (Suc n)
  have "unat (mp_tail pool) < 2 ^ 32"
    using unsigned_less [of "mp_tail pool"] by simp
  then have "unat (mp_head pool + 1) = unat (mp_head pool) + 1"
    using Suc.prems by (intro unat_succ_32) simp
  moreover have "[0..<Suc n] = 0 # map Suc [0..<n]"
    by (simp add: map_Suc_upt upt_conv_Cons del: upt_Suc)
  moreover have "\<not> mp_tail pool \<le> mp_head pool"
    using Suc.prems by (simp add: word_le_nat_alt)
  ultimately show ?case
    using Suc.prems Suc.IH [of "pool\<lparr>mp_head := mp_head pool + 1\<rparr>"] by (auto simp: pool_get_def o_def simp del: upt_Suc)
qed simp

text \<open>C31: the number of blocks in a pool is never updated after initialisation, so the pool does not notice that it is full: when the
  1025 blocks a caller holds have been given back to an empty pool, the next 1025 that it hands out contain
  one of them twice, and two live transaction buffers write to the same memory.\<close>

theorem tx_buffers_alias:
  assumes "pool_holds pool h []" "length cs = 1025" "0 \<notin> set cs" "h + 1025 < 2 ^ 32"
  shows "\<exists>pool1 bs pool2. put_all cs pool hp = (pool1, hp) \<and> get_all 1025 pool1 hp = (bs, pool2, hp)
    \<and> bs ! 0 = cs ! 1024 \<and> bs ! 1024 = cs ! 1024"
proof -
  obtain xs c where cs: "cs = xs @ [c]" "length xs = 1024"
    using assms(2) by (cases cs rule: rev_exhaust) auto
  have r: "unat (mp_head pool) = h" "unat (mp_tail pool) = h" "unat (mp_count pool) < POOL_MAX_BLOCKS"
    "length (mp_blocks pool) = POOL_MAX_BLOCKS"
    using assms(1) by (auto simp: pool_holds_def)
  then obtain p1 where p1: "put_all xs pool hp = (p1, hp)" "mp_head p1 = mp_head pool" "unat (mp_tail p1) = h + 1024"
    "length (mp_blocks p1) = POOL_MAX_BLOCKS" "mp_count p1 = mp_count pool"
    using put_all_fields [of xs pool hp] assms(3,4) cs by auto
  let ?p = "p1\<lparr>mp_tail := mp_tail p1 + 1, mp_blocks := (mp_blocks p1)[h mod POOL_MAX_BLOCKS := c]\<rparr>"
  have "\<not> of_nat POOL_MAX_BLOCKS \<le> mp_count p1"
    using r(3) p1(5) by (simp add: word_le_nat_alt)
  then have put: "put_all cs pool hp = (?p, hp)"
    using p1 assms(3) cs by (simp add: put_all_append pool_put_def)
  have "unat (mp_tail ?p) = h + 1025"
    using unat_succ_32 [of "mp_tail p1"] p1(3) assms(4) by simp
  then obtain p2 where get: "get_all 1025 ?p hp = (map (\<lambda>i. mp_blocks ?p ! ((h + i) mod POOL_MAX_BLOCKS)) [0..<1025], p2, hp)"
    using get_all_pooled [of ?p 1025 hp] r(1) p1(2) by auto
  have "mp_blocks ?p ! (h mod POOL_MAX_BLOCKS) = c" "cs ! 1024 = c"
    using p1(4) cs by (simp_all add: nth_append)
  then show ?thesis
    unfolding put using get by (simp del: upt_rec_numeral)
qed

theorem tx_buffers_alias_witness:
  "\<exists>pool1 bs pool2. put_all (map of_nat [1..<1026]) static_pool \<lparr>hp_supply = [], hp_size = Map.empty\<rparr>
       = (pool1, \<lparr>hp_supply = [], hp_size = Map.empty\<rparr>)
    \<and> get_all 1025 pool1 \<lparr>hp_supply = [], hp_size = Map.empty\<rparr> = (bs, pool2, \<lparr>hp_supply = [], hp_size = Map.empty\<rparr>)
    \<and> bs ! 0 = bs ! 1024"
proof -
  have "0 \<notin> set (map of_nat [1..<1026] :: u64 list)"
    by (rule numbers_nonzero) simp
  moreover have "pool_holds static_pool 0 []"
    by (simp add: pool_holds_def static_pool_def)
  moreover have "length (map of_nat [1..<1026] :: u64 list) = 1025"
    by (simp del: upt_rec_numeral)
  ultimately show ?thesis
    using tx_buffers_alias [of static_pool 0 "map of_nat [1..<1026]" "\<lparr>hp_supply = [], hp_size = Map.empty\<rparr>"]
    by (auto simp del: upt_rec_numeral)
qed

section \<open>Without initialisation\<close>

text \<open>A transaction buffer that is created before \<open>init_pools\<close> was called has a block of 0 bytes, because the block size is
  still 0 and the allocation succeeds, but its slices are up to 512 bytes long.\<close>

theorem tx_buffer_uninitialised:
  assumes "hp_supply h = a # rest" "a \<noteq> 0"
  shows "\<exists>w b. txbuf_new_ffi \<lparr>tw_pools = static_pools, tw_heap = h, tw_held = []\<rparr> = (w, Some b) \<and> tc_ptr b = a
    \<and> hp_size (tw_heap w) a = Some 0 \<and> snd (as_mut_slice_ffi b len) = (a, min len 512)"
  using assms
  by (simp add: txbuf_new_ffi_def static_pools_def static_pool_def pool_get_def alloc_aligned_def as_mut_slice_ffi_def Let_def)

theorem tx_buffer_uninitialised_witness:
  "\<exists>w b. txbuf_new_ffi \<lparr>tw_pools = static_pools, tw_heap = \<lparr>hp_supply = [64], hp_size = Map.empty\<rparr>, tw_held = []\<rparr> = (w, Some b)
    \<and> hp_size (tw_heap w) 64 = Some 0 \<and> snd (as_mut_slice_ffi b 512) = (64, 512)"
  using tx_buffer_uninitialised [of "\<lparr>hp_supply = [64], hp_size = Map.empty\<rparr>" 64 "[]" 512] by auto

end
