(* ===== verification/Bench_Latency.thy ===== *)
theory Bench_Latency
  imports Ethers_U256 F64
begin

text \<open>
  The latency benchmarks of \<^verbatim>\<open>bench/latency.rs\<close>: the measuring loop with its statistics, the operations that are measured, and
  the summary. The clock is a parameter, the measured durations; the averages are doubles. A closure is a
  function on its state that may fail to return (a panic, or a channel that blocks).
\<close>

section \<open>Measuring\<close>

text \<open>A non-negative double, or one of the special values a division by zero gives.\<close>

datatype bench_double = Finite f64 | Infinite | NaN

definition bench_div :: "bench_double \<Rightarrow> bench_double \<Rightarrow> bench_double" where
  "bench_div x y =
    (case (x, y) of
       (Finite a, Finite b) \<Rightarrow> (if fst b \<noteq> 0 then Finite (f64_div a b) else if fst a \<noteq> 0 then Infinite else NaN)
     | (Finite a, Infinite) \<Rightarrow> Finite (0, 0)
     | (Infinite, Finite b) \<Rightarrow> Infinite
     | _ \<Rightarrow> NaN)"

definition f64_add :: "f64 \<Rightarrow> f64 \<Rightarrow> f64" where
  "f64_add x y =
    (let e = min (snd x) (snd y) in round53 (fst x * 2 ^ nat (snd x - e) + fst y * 2 ^ nat (snd y - e), e))"

fun bench_add :: "bench_double \<Rightarrow> bench_double \<Rightarrow> bench_double" where
  "bench_add (Finite a) (Finite b) = Finite (f64_add a b)"
| "bench_add NaN y = NaN"
| "bench_add x NaN = NaN"
| "bench_add _ _ = Infinite"

text \<open>A comparison with NaN is false.\<close>

fun bench_lt :: "bench_double \<Rightarrow> nat \<Rightarrow> bool" where
  "bench_lt (Finite a) n = f64_lt a (n, 0)"
| "bench_lt _ n = False"

record BenchResult =
  br_name :: string
  br_iterations :: u64
  br_total_ns :: u64
  br_avg_ns :: bench_double
  br_min_ns :: u64
  br_max_ns :: u64
  br_p50_ns :: u64
  br_p99_ns :: u64
  br_throughput_ops :: bench_double

definition get_or_zero :: "u64 list \<Rightarrow> usize \<Rightarrow> u64" where
  "get_or_zero samples i = (if unat i < length samples then samples ! unat i else 0)"

definition bench_stats :: "string \<Rightarrow> u64 \<Rightarrow> u64 list \<Rightarrow> BenchResult" where
  "bench_stats name iterations collected =
    (let samples = sort collected; len = of_nat (length samples); total_ns = sum_list samples;
         avg = bench_div (Finite (f64_of_u128 (ucast total_ns))) (Finite (f64_of_u128 (ucast iterations)))
     in \<lparr>br_name = name, br_iterations = iterations, br_total_ns = total_ns, br_avg_ns = avg,
         br_min_ns = (case samples of [] \<Rightarrow> 0 | x # _ \<Rightarrow> x), br_max_ns = (if samples = [] then 0 else last samples),
         br_p50_ns = get_or_zero samples (len div 2), br_p99_ns = get_or_zero samples (len * 99 div 100),
         br_throughput_ops = bench_div (Finite (1000000000, 0)) avg\<rparr>)"

fun repeat_call :: "nat \<Rightarrow> ('s \<Rightarrow> 's option) \<Rightarrow> 's \<Rightarrow> 's option" where
  "repeat_call 0 f s = Some s"
| "repeat_call (Suc n) f s = (case f s of None \<Rightarrow> None | Some s1 \<Rightarrow> repeat_call n f s1)"

text \<open>\<open>elapsed i\<close> is what the clock measured for the \<open>i\<close>th call.\<close>

definition run_bench :: "string \<Rightarrow> u64 \<Rightarrow> ('s \<Rightarrow> 's option) \<Rightarrow> (nat \<Rightarrow> u64) \<Rightarrow> 's \<Rightarrow> BenchResult option" where
  "run_bench name iterations f elapsed s =
    (case repeat_call 1000 f s of
       None \<Rightarrow> None
     | Some s1 \<Rightarrow>
         (case repeat_call (unat iterations) f s1 of
            None \<Rightarrow> None
          | Some _ \<Rightarrow> Some (bench_stats name iterations (map elapsed [0..<unat iterations]))))"

section \<open>What is measured\<close>

text \<open>The result of a closure is thrown away (\<^verbatim>\<open>black_box\<close>); what is left is whether it returns.\<close>

definition returns_exec :: "'a exec \<Rightarrow> unit option" where
  "returns_exec r = (case r of Inl _ \<Rightarrow> None | Inr _ \<Rightarrow> Some ())"

definition bench_keccak256_rust :: "(bytes \<Rightarrow> bytes32) \<Rightarrow> (nat \<Rightarrow> u64) \<Rightarrow> BenchResult option" where
  "bench_keccak256_rust k256 elapsed =
    run_bench ''Rust Keccak256 (32 bytes)'' 100000 (\<lambda>s. returns_exec (Inr (k256 (replicate 32 0)))) elapsed ()"

definition bench_memcmp :: "(nat \<Rightarrow> u64) \<Rightarrow> BenchResult option" where
  "bench_memcmp elapsed =
    run_bench ''memcmp (64 bytes)'' 100000 (\<lambda>s. returns_exec (Inr (replicate 64 (0x42 :: u8) = replicate 64 0x42))) elapsed ()"

definition bench_address_eq :: "(nat \<Rightarrow> u64) \<Rightarrow> BenchResult option" where
  "bench_address_eq elapsed =
    (let addr :: address = from_be (replicate 20 0x42)
     in run_bench ''Address equality'' 100000 (\<lambda>s. returns_exec (Inr (addr = addr))) elapsed ())"

definition bench_u256_math :: "u256crate \<Rightarrow> (nat \<Rightarrow> u64) \<Rightarrow> BenchResult option" where
  "bench_u256_math ux elapsed =
    run_bench ''U256 mul/div'' 100000
      (\<lambda>s. returns_exec (bindE (ux_mul ux 1000000000000000000 2000000000000000000) (\<lambda>p. ux_div ux p 10000))) elapsed ()"

definition swap_simulation :: "u256crate \<Rightarrow> u256 exec" where
  "swap_simulation ux =
    (let reserve0 = 1000000000000000000000; reserve1 = 2000000000000000000000000; amount_in = 1000000000000000000;
         fee = 30 :: u32; fee_factor = 10000 - fee
     in bindE (ux_mul ux amount_in (ucast fee_factor)) (\<lambda>amount_with_fee.
        bindE (ux_mul ux amount_with_fee reserve1) (\<lambda>numerator.
        bindE (ux_mul ux reserve0 10000) (\<lambda>scaled.
        bindE (ux_add ux scaled amount_with_fee) (\<lambda>denominator.
        ux_div ux numerator denominator)))))"

definition bench_swap_simulation :: "u256crate \<Rightarrow> (nat \<Rightarrow> u64) \<Rightarrow> BenchResult option" where
  "bench_swap_simulation ux elapsed =
    run_bench ''Swap simulation (constant product)'' 100000 (\<lambda>s. returns_exec (swap_simulation ux)) elapsed ()"

definition lookup_table :: "address \<rightharpoonup> u64" where
  "lookup_table = map_of (map (\<lambda>i. (of_nat i, of_nat i)) [0..<10000])"

definition bench_hashmap_lookup :: "(nat \<Rightarrow> u64) \<Rightarrow> BenchResult option" where
  "bench_hashmap_lookup elapsed =
    run_bench ''DashMap lookup'' 100000 (\<lambda>map. returns_exec (Inr (lookup_table 5000))) elapsed ()"

text \<open>A bounded channel: sending blocks when 1024 messages wait, receiving when none does.\<close>

definition channel_round :: "u64 list \<Rightarrow> u64 list option" where
  "channel_round waiting =
    (if 1024 \<le> length waiting then None
     else case waiting @ [42] of [] \<Rightarrow> None | _ # rest \<Rightarrow> Some rest)"

definition bench_channel :: "(nat \<Rightarrow> u64) \<Rightarrow> BenchResult option" where
  "bench_channel elapsed = run_bench ''Crossbeam channel send+recv'' 100000 channel_round elapsed []"

definition bench_rdtsc :: "(nat \<Rightarrow> u64) \<Rightarrow> BenchResult option" where
  "bench_rdtsc elapsed = run_bench ''RDTSC read'' 100000 (\<lambda>s. Some s) elapsed ()"

section \<open>The summary\<close>

fun all_results :: "'a option list \<Rightarrow> 'a list option" where
  "all_results [] = Some []"
| "all_results (r # rs) = (case r of None \<Rightarrow> None | Some x \<Rightarrow> (case all_results rs of None \<Rightarrow> None | Some xs \<Rightarrow> Some (x # xs)))"

fun contains :: "string \<Rightarrow> string \<Rightarrow> bool" where
  "contains op [] = (op = [])"
| "contains op (c # cs) = (take (length op) (c # cs) = op \<or> contains op cs)"

definition critical_ops :: "string list" where
  "critical_ops = [''Keccak256'', ''Swap simulation'', ''DashMap lookup'']"

definition total_critical :: "BenchResult list \<Rightarrow> bench_double" where
  "total_critical results =
    foldl bench_add (Finite (0, 0)) (map br_avg_ns (filter (\<lambda>r. list_ex (\<lambda>op. contains op (br_name r)) critical_ops) results))"

datatype bench_verdict = SubMicrosecond | Under10us | Over10us

definition latency_verdict :: "bench_double \<Rightarrow> bench_verdict" where
  "latency_verdict total_ns =
    (if bench_lt total_ns 1000 then SubMicrosecond else if bench_lt total_ns 10000 then Under10us else Over10us)"

text \<open>\<open>elapsed k\<close> are the durations of the \<open>k\<close>th benchmark.\<close>

definition run_all_benchmarks :: "u256crate \<Rightarrow> (bytes \<Rightarrow> bytes32) \<Rightarrow> (nat \<Rightarrow> nat \<Rightarrow> u64) \<Rightarrow> (BenchResult list \<times> bench_verdict) option" where
  "run_all_benchmarks ux k256 elapsed =
    (case all_results
       [bench_keccak256_rust k256 (elapsed 0), bench_memcmp (elapsed 1), bench_address_eq (elapsed 2), bench_u256_math ux (elapsed 3),
        bench_swap_simulation ux (elapsed 4), bench_hashmap_lookup (elapsed 5), bench_channel (elapsed 6), bench_rdtsc (elapsed 7)] of
       None \<Rightarrow> None
     | Some results \<Rightarrow> Some (results, latency_verdict (total_critical results)))"

section \<open>Order statistics\<close>

lemma sorted_count:
  fixes xs :: "'a::linorder list"
  assumes "sorted xs" "k < length xs"
  shows "k < length (filter (\<lambda>x. x \<le> xs ! k) xs)"
proof -
  have "\<forall>x \<in> set (take (Suc k) xs). x \<le> xs ! k"
    using sorted_nth_mono [OF assms(1) _ assms(2)] assms(2) by (auto simp: in_set_conv_nth less_Suc_eq_le)
  then have "filter (\<lambda>x. x \<le> xs ! k) (take (Suc k) xs) = take (Suc k) xs"
    by (simp add: filter_id_conv)
  then have "length (filter (\<lambda>x. x \<le> xs ! k) (take (Suc k) xs)) = Suc k"
    using assms(2) by simp
  moreover have "filter (\<lambda>x. x \<le> xs ! k) xs
      = filter (\<lambda>x. x \<le> xs ! k) (take (Suc k) xs) @ filter (\<lambda>x. x \<le> xs ! k) (drop (Suc k) xs)"
    by (metis append_take_drop_id filter_append)
  ultimately show ?thesis by simp
qed

lemma length_filter_sort: "length (filter P (sort xs)) = length (filter P xs)"
  by (metis mset_filter mset_sort size_mset)

lemma repeat_call_returns:
  assumes "P s" "\<And>s. P s \<Longrightarrow> \<exists>s'. f s = Some s' \<and> P s'"
  shows "\<exists>s'. repeat_call n f s = Some s' \<and> P s'"
  using assms(1)
proof (induction n arbitrary: s)
  case (Suc n)
  from assms(2) [OF Suc.prems] Suc.IH show ?case by auto
qed simp

lemma sorted_ends:
  fixes xs :: "'a::linorder list"
  assumes "sorted xs" "xs \<noteq> []" "k < length xs"
  shows "hd xs \<le> xs ! k" "xs ! k \<le> last xs"
  using assms sorted_nth_mono [of xs 0 k] sorted_nth_mono [of xs k "length xs - 1"]
  by (simp_all add: hd_conv_nth last_conv_nth)

lemma bench_stats_ordered:
  fixes name iterations
  assumes "0 < length ts" "length ts < 2 ^ 57"
  defines "r \<equiv> bench_stats name iterations ts"
  shows "br_min_ns r \<le> br_p50_ns r \<and> br_p50_ns r \<le> br_p99_ns r \<and> br_p99_ns r \<le> br_max_ns r"
    "br_min_ns r \<in> set ts \<and> br_max_ns r \<in> set ts \<and> (\<forall>t \<in> set ts. br_min_ns r \<le> t \<and> t \<le> br_max_ns r)"
    "length ts < 2 * length (filter (\<lambda>t. t \<le> br_p50_ns r) ts)"
    "99 * length ts < 100 * length (filter (\<lambda>t. t \<le> br_p99_ns r) ts)"
proof -
  let ?xs = "sort ts" and ?n = "length ts"
  have n: "unat (of_nat ?n div 2 :: u64) = ?n div 2" "unat (of_nat ?n * 99 div 100 :: u64) = ?n * 99 div 100"
  proof -
    have "unat (of_nat ?n :: u64) = ?n"
      using assms(2) by (simp add: unat_of_nat)
    moreover have "unat (of_nat ?n * 99 :: u64) = ?n * 99"
    proof -
      have "unat (of_nat (?n * 99) :: u64) = ?n * 99"
        using assms(2) by (subst unat_of_nat) simp
      then show ?thesis by simp
    qed
    ultimately show "unat (of_nat ?n div 2 :: u64) = ?n div 2" "unat (of_nat ?n * 99 div 100 :: u64) = ?n * 99 div 100"
      by (simp_all add: unat_div)
  qed
  have k: "?n div 2 < ?n" "?n * 99 div 100 < ?n" "?n div 2 \<le> ?n * 99 div 100"
    using assms(1) by linarith+
  have ne: "?xs \<noteq> []"
    using assms(1) by (metis length_greater_0_conv length_sort)
  have min: "br_min_ns r = hd ?xs" and max: "br_max_ns r = last ?xs"
    using ne by (auto simp: r_def bench_stats_def Let_def split: list.splits)
  have p50: "br_p50_ns r = ?xs ! (?n div 2)" and p99: "br_p99_ns r = ?xs ! (?n * 99 div 100)"
    using n k by (simp_all add: r_def bench_stats_def Let_def get_or_zero_def)
  show "br_min_ns r \<le> br_p50_ns r \<and> br_p50_ns r \<le> br_p99_ns r \<and> br_p99_ns r \<le> br_max_ns r"
    using sorted_ends [OF _ ne] k sorted_nth_mono [of ?xs "?n div 2" "?n * 99 div 100"] by (simp add: min max p50 p99)
  show "br_min_ns r \<in> set ts \<and> br_max_ns r \<in> set ts \<and> (\<forall>t \<in> set ts. br_min_ns r \<le> t \<and> t \<le> br_max_ns r)"
  proof (intro conjI ballI)
    fix t assume "t \<in> set ts"
    then obtain j where "j < length ?xs" "t = ?xs ! j"
      by (metis in_set_conv_nth set_sort)
    then show "br_min_ns r \<le> t" "t \<le> br_max_ns r"
      using sorted_ends [OF _ ne] by (simp_all add: min max)
  qed (use hd_in_set [OF ne] last_in_set [OF ne] in \<open>simp_all add: min max\<close>)
  show "?n < 2 * length (filter (\<lambda>t. t \<le> br_p50_ns r) ts)"
    using sorted_count [of ?xs "?n div 2"] k(1) unfolding p50 length_filter_sort by simp
  show "99 * ?n < 100 * length (filter (\<lambda>t. t \<le> br_p99_ns r) ts)"
    using sorted_count [of ?xs "?n * 99 div 100"] k(2) unfolding p99 length_filter_sort by simp
qed

text \<open>A benchmark whose closure always returns reports, for any positive number of iterations below \<open>2 ^ 57\<close>, the least and
  the greatest duration, a median and a 99th percentile that at least half and 99 percent of the calls did
  not exceed, in this order, and the sum of the durations modulo \<open>2 ^ 64\<close>.\<close>

theorem run_bench_statistics:
  assumes "0 < unat iterations" "unat iterations < 2 ^ 57" "P s" "\<And>s. P s \<Longrightarrow> \<exists>s'. f s = Some s' \<and> P s'"
  shows "\<exists>r. run_bench name iterations f elapsed s = Some r \<and> br_name r = name \<and> br_iterations r = iterations
    \<and> br_total_ns r = sum_list (map elapsed [0..<unat iterations])
    \<and> br_min_ns r \<le> br_p50_ns r \<and> br_p50_ns r \<le> br_p99_ns r \<and> br_p99_ns r \<le> br_max_ns r
    \<and> (\<forall>i < unat iterations. br_min_ns r \<le> elapsed i \<and> elapsed i \<le> br_max_ns r)
    \<and> unat iterations < 2 * length (filter (\<lambda>i. elapsed i \<le> br_p50_ns r) [0..<unat iterations])
    \<and> 99 * unat iterations < 100 * length (filter (\<lambda>i. elapsed i \<le> br_p99_ns r) [0..<unat iterations])"
proof -
  let ?ts = "map elapsed [0..<unat iterations]" and ?r = "bench_stats name iterations (map elapsed [0..<unat iterations])"
  obtain s1 where s1: "repeat_call 1000 f s = Some s1" "P s1"
    using repeat_call_returns [of P s f 1000] assms(3,4) by blast
  obtain s2 where "repeat_call (unat iterations) f s1 = Some s2"
    using repeat_call_returns [of P s1 f] s1(2) assms(4) by blast
  with s1(1) have run: "run_bench name iterations f elapsed s = Some ?r"
    by (simp add: run_bench_def)
  note stats = bench_stats_ordered [of ?ts name iterations]
  have "sum_list (sort ?ts) = sum_list ?ts"
    by (metis mset_sort sum_mset_sum_list)
  then have "br_name ?r = name" "br_iterations ?r = iterations" "br_total_ns ?r = sum_list ?ts"
    by (simp_all add: bench_stats_def Let_def)
  with run stats assms(1,2) show ?thesis
    by (intro exI [of _ ?r]) (auto simp: filter_map o_def)
qed

theorem run_bench_statistics_witness:
  "\<exists>r. run_bench ''noop'' 3 (\<lambda>s. Some s) (\<lambda>i. [30, 10, 20] ! i) () = Some r \<and> br_total_ns r = 60 \<and> br_min_ns r \<le> br_p50_ns r"
  using run_bench_statistics [of 3 "\<lambda>_. True" "()" "\<lambda>s. Some s" "''noop''" "\<lambda>i. [30, 10, 20] ! i"]
  by (auto simp: upt_rec)

section \<open>The whole suite\<close>

lemma run_bench_pure: "f () = Some () \<Longrightarrow> run_bench name iterations f elapsed () = Some (bench_stats name iterations (map elapsed [0..<unat iterations]))"
  using repeat_call_returns [of "\<lambda>_. True" "()" f] by (auto simp: run_bench_def split: option.split)

lemma swap_simulation_returns:
  assumes "u256_laws ux"
  shows "\<exists>out. swap_simulation ux = Inr out \<and> unat out = 1000000000000000000 * 9970 * 2000000000000000000000000
      div (1000000000000000000000 * 10000 + 1000000000000000000 * 9970)"
  using assms by (simp add: swap_simulation_def u256_laws.mul_law u256_laws.add_law u256_laws.div_law Let_def)

lemma u256_math_returns:
  assumes "u256_laws ux"
  shows "\<exists>out. bindE (ux_mul ux 1000000000000000000 2000000000000000000) (\<lambda>p. ux_div ux p 10000) = Inr out"
  using assms by (simp add: u256_laws.mul_law u256_laws.div_law)

definition suite_names :: "string list" where
  "suite_names =
    [''Rust Keccak256 (32 bytes)'', ''memcmp (64 bytes)'', ''Address equality'', ''U256 mul/div'',
     ''Swap simulation (constant product)'', ''DashMap lookup'', ''Crossbeam channel send+recv'', ''RDTSC read'']"

lemma upt_8: "[0..<8] = [0, 1, 2, 3, 4, 5, 6, 7 :: nat]"
  by code_simp

lemma suite_returns:
  fixes elapsed
  assumes "u256_laws ux"
  defines "stats \<equiv> \<lambda>k. bench_stats (suite_names ! k) 100000 (map (elapsed k) [0..<100000])"
  shows "run_all_benchmarks ux k256 elapsed = Some (map stats [0..<8], latency_verdict (total_critical (map stats [0..<8])))"
proof -
  obtain out where out: "swap_simulation ux = Inr out"
    using swap_simulation_returns [OF assms(1)] by blast
  obtain p where p: "bindE (ux_mul ux 1000000000000000000 2000000000000000000) (\<lambda>p. ux_div ux p 10000) = Inr p"
    using u256_math_returns [OF assms(1)] by blast
  have channel: "repeat_call n channel_round [] = Some []" for n
    by (induction n) (simp_all add: channel_round_def)
  have "bench_keccak256_rust k256 (elapsed 0) = Some (stats 0)" "bench_memcmp (elapsed 1) = Some (stats 1)"
    "bench_address_eq (elapsed 2) = Some (stats 2)" "bench_u256_math ux (elapsed 3) = Some (stats 3)"
    "bench_swap_simulation ux (elapsed 4) = Some (stats 4)" "bench_hashmap_lookup (elapsed 5) = Some (stats 5)"
    "bench_channel (elapsed 6) = Some (stats 6)" "bench_rdtsc (elapsed 7) = Some (stats 7)"
    unfolding bench_keccak256_rust_def bench_memcmp_def bench_address_eq_def bench_u256_math_def bench_swap_simulation_def
      bench_hashmap_lookup_def bench_rdtsc_def Let_def
    by (simp_all add: run_bench_pure returns_exec_def out p bench_channel_def run_bench_def [of _ _ channel_round] channel
        stats_def suite_names_def del: upt_rec_numeral)
  moreover have "map stats [0..<8] = [stats 0, stats 1, stats 2, stats 3, stats 4, stats 5, stats 6, stats 7]"
    by (simp only: upt_8 list.map)
  ultimately show ?thesis
    by (simp only: run_all_benchmarks_def all_results.simps option.case)
qed

text \<open>C38: The benchmark suite completes for any clock: no measured operation panics or blocks, the eight results come in a fixed
  order with ordered statistics, and the critical path of the summary is the sum of the averages of keccak, swap simulation and
  lookup, added in this order as doubles.\<close>

theorem run_all_benchmarks_complete:
  assumes "u256_laws ux"
  shows "\<exists>rs verdict. run_all_benchmarks ux k256 elapsed = Some (rs, verdict) \<and> map br_name rs = suite_names
    \<and> (\<forall>r \<in> set rs. br_min_ns r \<le> br_p50_ns r \<and> br_p50_ns r \<le> br_p99_ns r \<and> br_p99_ns r \<le> br_max_ns r)
    \<and> total_critical rs = bench_add (bench_add (bench_add (Finite (0, 0)) (br_avg_ns (rs ! 0))) (br_avg_ns (rs ! 4))) (br_avg_ns (rs ! 5))
    \<and> verdict = latency_verdict (total_critical rs)"
proof -
  define stats where "stats = (\<lambda>k. bench_stats (suite_names ! k) 100000 (map (elapsed k) [0..<100000]))"
  have name: "br_name (stats k) = suite_names ! k" for k
    by (simp add: stats_def bench_stats_def Let_def)
  have rs: "map stats [0..<8] = [stats 0, stats 1, stats 2, stats 3, stats 4, stats 5, stats 6, stats 7]"
    by (simp only: upt_8 list.map)
  have "map br_name (map stats [0..<8]) = suite_names"
    unfolding rs by (simp add: name suite_names_def)
  moreover have "br_min_ns (stats k) \<le> br_p50_ns (stats k) \<and> br_p50_ns (stats k) \<le> br_p99_ns (stats k) \<and> br_p99_ns (stats k) \<le> br_max_ns (stats k)" for k
    unfolding stats_def by (rule bench_stats_ordered(1)) simp_all
  moreover have "total_critical (map stats [0..<8]) = bench_add (bench_add (bench_add (Finite (0, 0)) (br_avg_ns (stats 0)))
      (br_avg_ns (stats 4))) (br_avg_ns (stats 5))"
    unfolding rs total_critical_def by (simp add: name suite_names_def critical_ops_def)
  ultimately show ?thesis
    using suite_returns [OF assms, of k256 elapsed] unfolding stats_def [symmetric]
    by (intro exI [of _ "map stats [0..<8]"] exI) (auto simp: rs)
qed

theorem run_all_benchmarks_complete_witness:
  "\<exists>rs verdict. run_all_benchmarks u256_std (\<lambda>_. 0) (\<lambda>k i. 100) = Some (rs, verdict) \<and> map br_name rs = suite_names"
  using run_all_benchmarks_complete [OF std_u256.u256_laws_axioms, of "\<lambda>_. 0" "\<lambda>k i. 100"] by blast

end
