(* ===== verification/Spec2Isabelle.thy ===== *)
theory Spec2Isabelle
  imports Mev_Engine Grpc_Server Fast_Path Arbitrum_Executor Threaded_Detector Ultrafast Mev_Launcher Engine_Main C_Fast_Path C_Queue_Threads C_Pool Bench_Latency
begin

text \<open>
  A verification library for the Rust engine of the MEV stack (\<^verbatim>\<open>src/core\<close>).

  \<^bold>\<open>The program.\<close> A Go network layer classifies pending transactions and sends them over gRPC to
  the Rust engine. \<^verbatim>\<open>MevGrpcServer\<close> decodes a transaction and hands it to
  \<^verbatim>\<open>OpportunityDetector\<close>, which runs the enabled strategies (arbitrage, backrun, liquidation).
  Each opportunity is checked by the stage-1 simulator (\<^verbatim>\<open>EvmSimulator\<close>, closed-form AMM
  arithmetic over a pool cache), optionally by the stage-2 simulator (\<^verbatim>\<open>EvmForkSimulator\<close>,
  revm on a fork), and turned into calldata for the executor contract by \<^verbatim>\<open>BundleBuilder\<close>.
  \<^verbatim>\<open>MevEngine\<close> owns a detector, a simulator and a builder and has a life cycle of its own.

  \<^bold>\<open>Theories and sources\<close> (paths under \<^verbatim>\<open>src/core/src\<close>).
  \<^item> \<open>Prelude\<close>: Rust's integer and slice operations, the result type with panics, big-endian bytes,
    iterator maxima, the locale \<open>hex_codec\<close> of the \<^verbatim>\<open>hex\<close> crate and its concrete instance.
  \<^item> \<open>Mev_Types\<close>, \<open>Mev_Config\<close>: \<^verbatim>\<open>types.rs\<close>, \<^verbatim>\<open>config.rs\<close>.
  \<^item> \<open>Wide_Arith\<close>, \<open>Amm_Math\<close>: the 256-bit \<^verbatim>\<open>mul_div\<close> routines and the V2 and V3 quotes of
    \<^verbatim>\<open>simulator/mod.rs\<close>, and \<^verbatim>\<open>mul_div_u128\<close> of \<^verbatim>\<open>detector/liquidation.rs\<close>.
  \<^item> \<open>Pool_Store\<close>: the locale \<open>keyed_store\<close>, the contract of every cache that is updated by key; it is
    interpreted in the theories of the simulator and of the detectors.
  \<^item> \<open>Evm_Simulator\<close>: \<^verbatim>\<open>simulator/mod.rs\<close>. \<open>Evm_Fork\<close>: \<^verbatim>\<open>simulator/evm.rs\<close>.
  \<^item> \<open>Arbitrage_Detector\<close>, \<open>F64\<close> with \<open>Backrun_Detector\<close>, \<open>Liquidation_Detector\<close>,
    \<open>Opportunity_Detector\<close>: the files of \<^verbatim>\<open>detector/\<close> of the same names and
    \<^verbatim>\<open>detector/mod.rs\<close>.
  \<^item> \<open>Bundle_Builder\<close>: \<^verbatim>\<open>builder/mod.rs\<close>. \<open>Grpc_Server\<close>: \<^verbatim>\<open>grpc/server.rs\<close> and the
    message types of \<^verbatim>\<open>grpc/mev.rs\<close>. \<open>Mev_Engine\<close>: \<^verbatim>\<open>lib.rs\<close>.
  \<^item> \<open>Ethers_U256\<close>: the locale \<open>u256_laws\<close>, the contract of the 256-bit integers of \<^verbatim>\<open>ethers\<close>, whose operations
    panic on overflow, with a concrete instance. \<open>Arbitrum_Pools\<close>, \<open>Arbitrum_Search\<close>,
    \<open>Arbitrum_Executor\<close>: \<^verbatim>\<open>arbitrum/mod.rs\<close> and \<^verbatim>\<open>pools.rs\<close>, \<^verbatim>\<open>detector.rs\<close>, \<^verbatim>\<open>executor.rs\<close>.
  \<^item> \<open>Mempool_Monitor\<close>: \<^verbatim>\<open>mempool/ultra_ws.rs\<close>. \<open>Threaded_Detector\<close>:
    \<^verbatim>\<open>detector/multi_threaded.rs\<close>, which consumes the monitor's transactions.
  \<^item> \<open>Fast_Path\<close>: the Rust fallbacks of \<^verbatim>\<open>ffi/\<close>; its locale \<open>fifo_queue\<close> is the contract of the queue.
    \<open>C_Fast_Path\<close> and \<open>C_Queue\<close>: the wrappers of the build with the C library and the C functions they call (paths
    under \<^verbatim>\<open>src/fast\<close>): RLP, swap parsing through structures in memory, V2 quotes, and the ring of
    \<^verbatim>\<open>lockfree_queue.c\<close>, an instance of the locale \<open>bounded_fifo\<close>. \<open>C_Queue_Threads\<close>: the same ring shared by any number
    of threads, one atomic access per step (\<open>queue_step\<close>). \<open>C_Pool\<close>: the block pools of \<^verbatim>\<open>memory_pool.c\<close> and the
    transaction buffer. \<open>Bench_Latency\<close>: \<^verbatim>\<open>bench/latency.rs\<close>.
  \<^item> The executables: \<open>Ultrafast\<close> (\<^verbatim>\<open>bin/ultrafast.rs\<close>; its locale \<open>multicall_codec\<close> is the contract of the ABI
    decoder), \<open>Mev_Launcher\<close> (\<^verbatim>\<open>bin/mev_launcher.rs\<close>) and \<open>Engine_Main\<close> (\<^verbatim>\<open>main.rs\<close>), with
    \<open>Rust_Text\<close> for the string operations they use on their environment.
  This theory holds the properties that span components.

  \<^bold>\<open>How the code is modelled.\<close> A struct is a record (field names carry a two-letter prefix of the
  struct), an enum a datatype, an integer a word of its width; \<^verbatim>\<open>[u8; 20]\<close> and
  \<^verbatim>\<open>[u8; 32]\<close> are words of 160 and 256 bits and a \<^verbatim>\<open>Vec<u8>\<close> a list of bytes. Arithmetic
  is that of the release profile, which wraps; a panic (slice index, division by zero) is a value
  \<open>Inl\<close> of \<open>'a exec\<close>, so that the absence of panics is a theorem. Methods are functions on the
  record of their component, with locks and atomic counters as plain fields, because no method
  holds a lock across a suspension point; the threads of the multi-threaded detector and of the C queue interleave. A hash map that is only read by key is a map; one whose
  iteration order can be observed is an association list in that order. Names follow the source,
  with a prefix where two files use the same name (\<open>arb_detect\<close>, \<open>backrun_detect\<close>,
  \<open>fork_simulate_bundle\<close>).

  \<^bold>\<open>Parameters.\<close> The \<^verbatim>\<open>hex\<close> crate (\<open>hexcrate\<close>, with \<open>hex_std\<close> as a model that satisfies the laws),
  the integers of \<^verbatim>\<open>ethers\<close> (\<open>u256crate\<close>, \<open>u256_std\<close>), its ABI encoder (\<open>abi_crate\<close>, \<open>abi_std\<close>), the node's answers
  (\<open>chain_rpc\<close>, \<open>evm_node\<close>), revm (\<open>revm\<close>: execution, database and keccak), \<^verbatim>\<open>serde_json\<close>, the file system, the
  environment, clocks, timers and the number of CPUs are arguments of the definitions that use
  them. Log output is left out.

  \<^bold>\<open>What is shown.\<close> Soundness, completeness and exactness of the detectors (in ranges that exclude
  wrap-around, which are stated in each theorem and are far above real balances); the functional
  specification of the AMM quotes and their market properties (never draining a pool, monotone,
  no gain in a round trip); refinement of the liquidation evaluation to a specification over the
  natural numbers; invariants of the caches and counters over all reachable states; faithful
  calldata by reading it back; error paths, including the inputs that make a detector panic, the
  divisors for which the 256-bit quotient is wrong and the combinations of components that never
  let an opportunity through.

  \<^bold>\<open>Loops and bounds.\<close> All loops are structural recursion: \<open>multi_tick_loop\<close> over the remaining
  crossings (the code allows 20), \<open>optimal_loop\<close> over its 64 rounds (a theorem says when more rounds
  change nothing), \<open>liq_long_div\<close> over the 256 bits of the dividend, the others over lists. The
  endless loops of the monitor, of the detector threads and of the executables are one turn per
  event (\<open>monitor_turn\<close>, \<open>tracker_tick\<close>, \<open>uf_block\<close>) and step relations (\<open>mt_step\<close>,
  \<open>launch_step\<close>, \<open>main_step\<close>); their properties hold after every
  sequence of turns and in every reachable state. The one loop that may not end, the rounding up of a queue's
  capacity (\<open>round_up_from\<close>), has 64 rounds of fuel: a theorem shows that no number of rounds helps where these run out.
  The C queue returns \<open>Stuck\<close> where the C code would spin or leave its arrays. The concurrent queue is sequentially
  consistent and its theorem covers fewer than \<open>2 ^ 63\<close> pushes, where its 64-bit positions cannot be confused.

  \<^bold>\<open>Not modelled.\<close> The criterion benchmark and the build script; the metrics HTTP server; races between threads on the block pools; keccak, the V3 quote in doubles, the path search and the
  prefetching of the C library; the generated gRPC stubs; the Go, Solidity and TypeScript parts of the
  repository. Prices and ratios that are doubles and only printed.
\<close>

section \<open>From detection to a bundle\<close>

lemma arb_opportunity_hops:
  assumes "arb_detect hx s tx = Inr (Some opp)" "i < 2"
  shows "\<exists>p \<in> arb_pools s. hop_address opp i = ps_address p"
proof -
  obtain tin tout d0 d1 where "resolve_pool_addresses hx s tin tout [d0, d1] = Some (opp_pool_addresses opp)"
    using arb_detect_SomeD [OF assms(1)] by metis
  then obtain a b where "opp_pool_addresses opp = [a, b]" "a \<in> ps_address ` arb_pools s" "b \<in> ps_address ` arb_pools s"
    using resolve_hop_Some by (elim resolve_pair) (metis (no_types, lifting) image_eqI)
  then have "hop_address opp i \<in> ps_address ` arb_pools s"
    using less_2_cases [OF assms(2)] by (elim disjE) (simp_all add: hop_address_def)
  then show ?thesis
    by blast
qed

lemma arb_opportunity_valid:
  assumes "arb_detect hx s tx = Inr (Some opp)" "\<forall>p \<in> arb_pools s. ps_address p \<noteq> 0"
  shows "valid_swap opp"
proof -
  have fee: "is_valid_fee_for_dex d (arb_pool_fee d)" for d
    by (cases d) (simp_all add: arb_pool_fee_def)
  obtain swap :: SwapInfo and prices where d: "resolve_pool_addresses hx s (si_token_in swap) (si_token_out swap)
       [si_dex swap, find_best_exit_dex prices] = Some (opp_pool_addresses opp)"
    "opp_path opp = [si_dex swap, find_best_exit_dex prices]" "opp_pool_fees opp = map arb_pool_fee (opp_path opp)"
    by (rule arb_detect_SomeD [OF assms(1)]) blast
  have nz: "hop_address opp i \<noteq> 0" if "i < 2" for i
    using arb_opportunity_hops [OF assms(1) that] assms(2) by auto
  obtain a b where ab: "opp_pool_addresses opp = [a, b]"
    using resolve_pair [OF d(1)] by metis
  moreover have "a \<noteq> 0" "b \<noteq> 0"
    using nz [of 0] nz [of 1] by (simp_all add: hop_address_def ab)
  ultimately show ?thesis
    using d(2,3) fee
    by (simp add: valid_swap_def path_fee_def all_less_two)
qed



section \<open>What the simulators reject\<close>

text \<open>No backrun passes the first simulation stage. A detected backrun names one pool, the stage
  needs two: whatever pools the simulator has, simulating what the backrun detector emits fails,
  and the result reported for it is a failure with profit 0.\<close>

theorem backrun_never_simulates:
  assumes "backrun_detect hx bd tx = Inr (Some opp)"
  shows "(\<exists>e. simulate_kind s opp = Inl e)
    \<and> sr_success (snd (simulate timed_out l s opp)) = False \<and> sr_profit (snd (simulate timed_out l s opp)) = 0"
proof -
  obtain a where "opp_type opp = Backrun" "opp_pool_addresses opp = [a]"
    using backrun_detect_SomeD [OF assms] by metis
  then have fails: "\<exists>e. simulate_kind s' opp = Inl e" for s'
    using simulate_backrun_error_iff [of s' opp] by (simp add: simulate_kind_def hop_address_def)
  obtain e where "simulate_kind (s\<lparr>es_count := es_count s + 1\<rparr>) opp = Inl e"
    using fails by blast
  then have "snd (simulate timed_out l s opp) = failed_result e
      \<or> snd (simulate timed_out l s opp) = failed_result ''Simulation timed out''"
    by (simp add: simulate_def simulate_inner_def Let_def)
  with fails [of s] show ?thesis
    by (auto simp: failed_result_def)
qed

theorem backrun_never_simulates_witness:
  "\<exists>opp e. backrun_detect hex_std (backrun_new (Config_default 8)) backrun_sample_tx = Inr (Some opp)
    \<and> simulate_kind sample_simulator opp = Inl e"
proof -
  obtain opp where "backrun_detect hex_std (backrun_new (Config_default 8)) backrun_sample_tx = Inr (Some opp)"
    using backrun_sample by blast
  with backrun_never_simulates [OF this, of sample_simulator] show ?thesis
    by blast
qed

text \<open>The size of the calldata of a built bundle.\<close>

lemma built_calldata:
  assumes "build hx bs opp = (bs', Inr b)" "length (opp_path opp) < 2 ^ 32"
  obtains t where "bu_transactions b = [t]" "length (bt_data t) < 2 ^ 40" "bt_value t = 0"
    "tx_tip t \<le> 2000000000"
proof -
  have len: "length (concat (map (\<lambda>(i, dex). encode_hop opp i dex) (enumerate k path))) = 24 * length path" for k path
    by (induction path arbitrary: k) simp_all
  obtain contract where c: "bb_contract_address bs = Some contract"
    using assms(1) by (auto simp: build_def split: option.splits)
  show thesis
  proof (cases "opp_type opp = Liquidation")
    case True
    with assms(1) c show ?thesis
      by (intro that) (auto simp: build_def build_liquidation_bundle_def bundle_tx_def tx_tip_def
          encode_liquidation_call_def EXECUTE_LIQUIDATION_def)
  next
    case False
    have "valid_swap opp"
    proof (rule ccontr)
      assume "\<not> valid_swap opp"
      then obtain e where "validate_swap_opportunity opp = Inl e"
        by (rule invalid_swap_error)
      with assms(1) c False show False
        by (cases "opp_type opp") (simp_all add: build_def build_arbitrage_bundle_def build_backrun_bundle_def)
    qed
    from build_swap_ok [OF c this False, of hx] assms show ?thesis
      by (intro that)
        (auto simp: bundle_tx_def tx_tip_def encode_arbitrage_call_def encode_backrun_call_def
          EXECUTE_ARBITRAGE_def EXECUTE_BACKRUN_def padding_def len)
  qed
qed

text \<open>The bundle simulator rejects every bundle the builder makes. A built transaction carries no
  ether and the revenue of a bundle is taken to be the value of its last transaction, so for paths
  of fewer than \<open>2^32\<close> hops the simulation of a built bundle never succeeds and its profit is
  never positive.\<close>

theorem built_bundle_never_profitable:
  assumes "build hx bs opp = (bs', Inr b)" "length (opp_path opp) < 2 ^ 32"
  shows "sr_success (snd (simulate_bundle hx l s b)) = False
    \<and> sint (sr_profit (snd (simulate_bundle hx l s b))) \<le> 0"
proof -
  obtain t where t: "bu_transactions b = [t]" "length (bt_data t) < 2 ^ 40" "bt_value t = 0" "tx_tip t \<le> 2000000000"
    using built_calldata [OF assms] .
  obtain p g cs where L: "bundle_loop hx 0 0 [] [t] = (p, g, cs)"
    by (cases "bundle_loop hx 0 0 [] [t]")
  have p: "p = 0 - 0 - of_nat (bundle_cost [t]) - of_nat 0"
    using bundle_loop_sums(1) [of "[t]" hx 0 0 "[]", unfolded L] t(2,3) by simp
  have "tx_gas_spec t \<le> 121000 + 16 * 2 ^ 40"
    using calldata_sum_le [of "bt_data t"] t(2) by (simp add: tx_gas_spec_def)
  then have "bundle_cost [t] \<le> (121000 + 16 * 2 ^ 40) * 2000000000"
    using t(4) by (simp add: bundle_cost_def) (rule order.trans, rule mult_le_mono, assumption, assumption, simp)
  then have "sint p = - int (bundle_cost [t])"
    unfolding p by (subst sint_balance) simp_all
  then have "sint p \<le> 0"
    by simp
  then show ?thesis
    by (simp add: simulate_bundle_def t(1) L Let_def del: bundle_loop.simps)
qed

theorem built_bundle_never_profitable_witness:
  "\<exists>b. snd (build hex_std (set_contract (builder_new (Config_default 8)) ''0xabcd'') builder_sample) = Inr b
    \<and> sr_success (snd (simulate_bundle hex_std 3 sample_simulator b)) = False"
proof -
  let ?bs = "set_contract (builder_new (Config_default 8)) ''0xabcd''"
  have v: "valid_swap builder_sample"
    by (simp add: valid_swap_def builder_sample_def path_fee_def all_less_two)
  have c: "bb_contract_address ?bs = Some ''0xabcd''" "opp_type builder_sample \<noteq> Liquidation"
      "length (opp_path builder_sample) < 2 ^ 32"
    by (simp_all add: set_contract_def builder_new_def builder_sample_def)
  show ?thesis
    using build_swap_ok [OF c(1) v c(2), of hex_std] built_bundle_never_profitable [OF _ c(3)] by fastforce
qed

end
